(* ===== verification/BG_Prelude.thy ===== *)
theory BG_Prelude
  imports Main "HOL-Library.Word" "HOL-Library.Multiset"
begin

text \<open>
  Shared vocabulary of the development: bytes, thrown errors as values of a sum type with its
  sequencing combinator, slices of byte arrays, big-endian numbers, and the interface (a locale)
  every strict encoder/decoder pair of the program satisfies.

  A JavaScript \<^verbatim>\<open>Uint8Array\<close> is a list of 8-bit words; a \<^verbatim>\<open>throw\<close> is \<open>Inl\<close> of the error
  constructor's class with its message; \<open>Inr\<close> is a normal return.
\<close>

named_theorems res_simps \<open>rewriting of the result combinators\<close>
named_theorems byte_simps \<open>conversions between bytes and numbers\<close>

type_synonym byte = "8 word"
type_synonym bytes = "8 word list"
type_synonym hashfun = "8 word list \<Rightarrow> 8 word list"

datatype err = TypeError string | RangeError string | JsError string

type_synonym 'a res = "err + 'a"

subsection \<open>Hash functions\<close>

text \<open>
  SHA-256 and Keccak-256 are not under \<^verbatim>\<open>src/\<close>: a hash function is a parameter. What the code
  relies on is its output length; collision resistance appears in a statement as injectivity on
  the finite set of inputs the statement is about.
\<close>

definition hash32 :: "hashfun \<Rightarrow> bool" where
  "hash32 H \<longleftrightarrow> (\<forall>x. length (H x) = 32)"

text \<open>An instance, for witnesses.\<close>

definition demo_hash :: hashfun where
  "demo_hash x = replicate 32 7"

lemma demo_hash32 [simp]: "hash32 demo_hash"
  by (simp add: hash32_def demo_hash_def)

subsection \<open>Sequencing of fallible steps\<close>

definition rbind :: "'e + 'a \<Rightarrow> ('a \<Rightarrow> 'e + 'b) \<Rightarrow> 'e + 'b" where
  "rbind r f = (case r of Inl e \<Rightarrow> Inl e | Inr a \<Rightarrow> f a)"

lemma rbind_Inl [simp]: "rbind (Inl e) f = Inl e"
  and rbind_Inr [simp]: "rbind (Inr a) f = f a"
  by (simp_all add: rbind_def)

lemma rbind_eq_Inr [res_simps]:
  "rbind r f = Inr b \<longleftrightarrow> (\<exists>a. r = Inr a \<and> f a = Inr b)"
  by (cases r) auto

lemma rbind_eq_Inl [res_simps]:
  "rbind r f = Inl e \<longleftrightarrow> r = Inl e \<or> (\<exists>a. r = Inr a \<and> f a = Inl e)"
  by (cases r) auto

lemma rbind_InrE [elim]:
  assumes "rbind r f = Inr b"
  obtains a where "r = Inr a" "f a = Inr b"
  using assms by (auto simp: res_simps)

lemma rbind_cong [fundef_cong]:
  assumes "r = r'" and "\<And>a. r' = Inr a \<Longrightarrow> f a = f' a"
  shows "rbind r f = rbind r' f'"
  using assms by (cases r') auto

lemma rbind_assoc: "rbind (rbind r f) g = rbind r (\<lambda>a. rbind (f a) g)"
  by (cases r) auto

text \<open>A call that may throw, inside a function with state: an error leaves with the state as it stands.\<close>

definition awaiting :: "'s \<Rightarrow> 'e + 'a \<Rightarrow> ('a \<Rightarrow> 's \<times> ('e + 'b)) \<Rightarrow> 's \<times> ('e + 'b)" where
  "awaiting s r f = (case r of Inl e \<Rightarrow> (s, Inl e) | Inr a \<Rightarrow> f a)"

lemma awaiting_simps [simp]: "awaiting s (Inl e) f = (s, Inl e)" "awaiting s (Inr a) f = f a"
  by (simp_all add: awaiting_def)

lemma awaiting_eq_Inr [res_simps]:
  "awaiting s r f = (s', Inr b) \<longleftrightarrow> (\<exists>a. r = Inr a \<and> f a = (s', Inr b))"
  by (cases r) auto

lemma awaiting_eq_Inl [res_simps]:
  "awaiting s r f = (s', Inl e) \<longleftrightarrow> (r = Inl e \<and> s' = s) \<or> (\<exists>a. r = Inr a \<and> f a = (s', Inl e))"
  by (cases r) auto

text \<open>\<open>Array.prototype.map\<close> with a callback that may throw.\<close>

fun rmap :: "('a \<Rightarrow> 'e + 'b) \<Rightarrow> 'a list \<Rightarrow> 'e + 'b list" where
  "rmap f [] = Inr []"
| "rmap f (x # xs) = rbind (f x) (\<lambda>y. rbind (rmap f xs) (\<lambda>ys. Inr (y # ys)))"

lemma rmap_cong [fundef_cong]:
  "xs = ys \<Longrightarrow> (\<And>x. x \<in> set ys \<Longrightarrow> f x = g x) \<Longrightarrow> rmap f xs = rmap g ys"
  by (induction ys arbitrary: xs) auto

lemma rmap_Inr [simp]: "rmap (\<lambda>x. Inr (f x)) xs = Inr (map f xs)"
  by (induction xs) auto

lemma rmap_eq_Inr: "rmap f xs = Inr ys \<longleftrightarrow> list_all2 (\<lambda>x y. f x = Inr y) xs ys"
  by (induction xs arbitrary: ys) (auto simp: list_all2_Cons1 res_simps)

lemma rmap_length: "rmap f xs = Inr ys \<Longrightarrow> length ys = length xs"
  by (auto simp: rmap_eq_Inr dest: list_all2_lengthD)

lemma list_all2_in1: "list_all2 P xs ys \<Longrightarrow> x \<in> set xs \<Longrightarrow> \<exists>y \<in> set ys. P x y"
  by (induction rule: list_all2_induct) auto

lemma list_all2_in2: "list_all2 P xs ys \<Longrightarrow> y \<in> set ys \<Longrightarrow> \<exists>x \<in> set xs. P x y"
  by (induction rule: list_all2_induct) auto

lemma list_all2_map_eq: "list_all2 P xs ys \<Longrightarrow> (\<And>x y. P x y \<Longrightarrow> f x = g y) \<Longrightarrow> map f xs = map g ys"
  by (induction rule: list_all2_induct) auto

text \<open>What a \<open>try { ... } catch { return null }\<close> makes of a result.\<close>

definition to_option :: "'e + 'a \<Rightarrow> 'a option" where
  "to_option r = (case r of Inl _ \<Rightarrow> None | Inr a \<Rightarrow> Some a)"

lemma to_option_simps [simp]:
  "to_option (Inl e) = None" "to_option (Inr a) = Some a"
  by (simp_all add: to_option_def)

lemma to_option_eq_Some [res_simps]: "to_option r = Some a \<longleftrightarrow> r = Inr a"
  by (cases r) auto

subsection \<open>Array access and slices\<close>

text \<open>\<open>xs[i]\<close>: \<open>undefined\<close> (here \<open>None\<close>) out of range.\<close>

definition js_at :: "'a list \<Rightarrow> nat \<Rightarrow> 'a option" where
  "js_at xs i = (if i < length xs then Some (xs ! i) else None)"

lemma js_at_append [simp]: "js_at (xs @ ys) (length xs) = js_at ys 0"
  by (auto simp: js_at_def nth_append)

lemma js_at_append_add [simp]: "js_at (xs @ ys) (length xs + n) = js_at ys n"
  by (auto simp: js_at_def nth_append)

lemma js_at_Cons_0 [simp]: "js_at (x # xs) 0 = Some x"
  by (simp add: js_at_def)

lemma js_at_Cons_Suc [simp]: "js_at (x # xs) (Suc n) = js_at xs n"
  by (simp add: js_at_def)

lemma js_at_Nil [simp]: "js_at [] n = None"
  by (simp add: js_at_def)

text \<open>\<open>xs.slice(i, j)\<close> for \<open>0 \<le> i\<close>: clamped to the array, empty when \<open>j \<le> i\<close>.\<close>

definition slice :: "nat \<Rightarrow> nat \<Rightarrow> 'a list \<Rightarrow> 'a list" where
  "slice i j xs = take (j - i) (drop i xs)"

lemma length_slice [simp]: "length (slice i j xs) = min (j - i) (length xs - i)"
  by (simp add: slice_def)

lemma slice_all [simp]: "slice 0 (length xs) xs = xs"
  by (simp add: slice_def)

lemma slice_slice: "a \<le> b \<Longrightarrow> i + b \<le> j \<Longrightarrow> slice a b (slice i j xs) = slice (i + a) (i + b) xs"
  by (simp add: slice_def drop_take min_def add.commute)

lemma slice_split: "i \<le> j \<Longrightarrow> j \<le> k \<Longrightarrow> slice i j xs @ slice j k xs = slice i k xs"
proof -
  assume h: "i \<le> j" "j \<le> k"
  have "drop j xs = drop (j - i) (drop i xs)" using h by simp
  moreover have "k - i = (j - i) + (k - j)" using h by simp
  ultimately show ?thesis by (simp only: slice_def take_add)
qed

lemma slice_append_right [simp]:
  "slice (length xs) (length xs + n) (xs @ ys) = take n ys"
  by (simp add: slice_def)

lemma slice_Cons: "i < j \<Longrightarrow> i < length xs \<Longrightarrow> slice i j xs = xs ! i # slice (Suc i) j xs"
  by (simp add: slice_def Cons_nth_drop_Suc [symmetric] take_Cons' del: drop_Suc_Cons)

lemma slice_single: "i < length xs \<Longrightarrow> slice i (Suc i) xs = [xs ! i]"
  by (simp add: slice_def take_Suc_conv_app_nth)

subsection \<open>Big-endian numbers\<close>

text \<open>The value of a byte string read most significant byte first.\<close>

definition be_val :: "bytes \<Rightarrow> nat" where
  "be_val bs = foldl (\<lambda>n b. n * 256 + unat b) 0 bs"

lemma foldl_be: "foldl (\<lambda>n b. n * 256 + unat (b :: byte)) a bs
    = a * 256 ^ length bs + foldl (\<lambda>n b. n * 256 + unat b) 0 bs"
proof (induction bs arbitrary: a)
  case Nil
  then show ?case by simp
next
  case (Cons b bs)
  show ?case
    unfolding foldl.simps
    by (subst Cons.IH, subst (2) Cons.IH) (simp add: algebra_simps)
qed

lemma be_val_Nil [simp]: "be_val [] = 0"
  by (simp add: be_val_def)

lemma be_val_Cons: "be_val (b # bs) = unat b * 256 ^ length bs + be_val bs"
  unfolding be_val_def foldl.simps by (subst foldl_be) simp

lemma be_val_snoc: "be_val (bs @ [b]) = be_val bs * 256 + unat b"
  by (simp add: be_val_def)

lemma unat_byte_less [simp]: "unat (b :: byte) < 256"
  using unsigned_less [of b] by simp

lemma be_val_bound: "be_val bs < 256 ^ length bs"
proof (induction bs)
  case Nil
  then show ?case by simp
next
  case (Cons b bs)
  have "unat b * 256 ^ length bs + be_val bs < (unat b + 1) * 256 ^ length bs"
    using Cons.IH by simp
  also have "\<dots> \<le> 256 * 256 ^ length bs"
    using unat_byte_less [of b] by (intro mult_le_mono1) linarith
  finally show ?case by (simp add: be_val_Cons)
qed

lemma be_val_inj: "length xs = length ys \<Longrightarrow> be_val xs = be_val ys \<Longrightarrow> xs = ys"
proof (induction xs ys rule: list_induct2)
  case Nil
  then show ?case by simp
next
  case (Cons x xs y ys)
  let ?p = "256 ^ length ys :: nat"
  have eq: "unat x * ?p + be_val xs = unat y * ?p + be_val ys"
    using Cons.prems Cons.hyps by (simp add: be_val_Cons)
  have bx: "be_val xs < ?p" and bby: "be_val ys < ?p"
    using be_val_bound [of xs] be_val_bound [of ys] Cons.hyps by simp_all
  have "(unat x * ?p + be_val xs) div ?p = unat x" "(unat y * ?p + be_val ys) div ?p = unat y"
    using bx bby by simp_all
  with eq have "unat x = unat y" by simp
  with eq Cons.IH show ?case by (simp add: unsigned_word_eqI)
qed

text \<open>The shortest big-endian representation, most significant byte first; empty for zero:
  \<^verbatim>\<open>for (n = len; n > 0; n = Math.floor(n / 256)) out.unshift(n % 256)\<close>.\<close>

fun be_bytes :: "nat \<Rightarrow> bytes" where
  "be_bytes n = (if n = 0 then [] else be_bytes (n div 256) @ [of_nat (n mod 256)])"

declare be_bytes.simps [simp del]

lemma be_bytes_0 [simp]: "be_bytes 0 = []"
  by (simp add: be_bytes.simps)

lemma be_bytes_eq_Nil [simp]: "be_bytes n = [] \<longleftrightarrow> n = 0"
  by (subst be_bytes.simps) simp

lemma unat_of_nat_byte [simp]: "unat (of_nat (n mod 256) :: byte) = n mod 256"
  by (simp add: unat_of_nat take_bit_eq_mod)

lemma be_val_be_bytes [simp]: "be_val (be_bytes n) = n"
proof (induction n rule: be_bytes.induct)
  case (1 n)
  then show ?case
    by (subst be_bytes.simps) (auto simp: be_val_snoc)
qed

lemma hd_be_bytes: "n \<noteq> 0 \<Longrightarrow> hd (be_bytes n) \<noteq> 0"
proof (induction n rule: be_bytes.induct)
  case (1 n)
  show ?case
  proof (cases "n div 256 = 0")
    case True
    then have "n < 256" by (simp add: div_eq_0_iff)
    then have "unat (of_nat n :: byte) = n" by (simp add: unat_of_nat take_bit_eq_mod)
    with 1 True \<open>n < 256\<close> show ?thesis
      by (subst be_bytes.simps) (auto simp flip: unat_eq_0)
  next
    case False
    with 1 show ?thesis by (subst be_bytes.simps) auto
  qed
qed

lemma be_bytes_be_val: "bs = [] \<or> hd bs \<noteq> 0 \<Longrightarrow> be_bytes (be_val bs) = bs"
proof (induction bs rule: rev_induct)
  case Nil
  then show ?case by simp
next
  case (snoc b bs)
  have nz: "be_val (bs @ [b]) \<noteq> 0"
  proof (cases bs)
    case Nil
    with snoc.prems show ?thesis by (simp add: be_val_Cons unat_eq_0)
  next
    case (Cons c cs)
    with snoc.prems have "unat c \<noteq> 0" by (simp add: unat_eq_0)
    with Cons show ?thesis by (simp add: be_val_Cons)
  qed
  have "be_bytes (be_val bs) = bs"
    using snoc by (cases bs) auto
  with nz show ?case
    by (subst be_bytes.simps) (simp add: be_val_snoc div_mult_self3)
qed

lemma length_be_bytes_le: "n < 256 ^ k \<Longrightarrow> length (be_bytes n) \<le> k"
proof (induction n arbitrary: k rule: be_bytes.induct)
  case (1 n)
  show ?case
  proof (cases "n = 0")
    case True
    then show ?thesis by simp
  next
    case False
    with "1.prems" obtain j where j: "k = Suc j" by (cases k) auto
    with "1.prems" have "n div 256 < 256 ^ j" by (simp add: less_mult_imp_div_less mult.commute)
    with "1.IH" False j show ?thesis by (subst be_bytes.simps) simp
  qed
qed

lemma be_bytes_inj: "be_bytes m = be_bytes n \<Longrightarrow> m = n"
  by (metis be_val_be_bytes)

end
