(* ===== verification/BG_Interfaces.thy ===== *)
theory BG_Interfaces
  imports BG_Prelude
begin

text \<open>
  The interfaces components rely on, as locales. Each is interpreted on the model's own
  definitions in the theory that provides them:
  \<^item> \<open>strict_codec\<close>: an encoder and a strict decoder (RLP, tree leaves, tree root documents,
    base64, hex). The laws are the two round trips; the clients' lemmas are injectivity of both
    directions and the exact set of accepted byte strings.
  \<^item> \<open>inclusion_scheme\<close>: a list commitment with membership proofs (the Merkle tree of a set).
  \<^item> \<open>guarded_system\<close>: a deterministic machine whose steps may be refused; its lemmas lift a
    step invariant to every run, and refused steps leave the state alone.
\<close>

subsection \<open>Strict codecs\<close>

locale strict_codec =
  fixes valid :: "'a \<Rightarrow> bool"
    and enc :: "'a \<Rightarrow> 'b"
    and dec :: "'b \<Rightarrow> 'a option"
  assumes dec_enc: "valid x \<Longrightarrow> dec (enc x) = Some x"
    and enc_dec: "dec y = Some x \<Longrightarrow> valid x \<and> enc x = y"
begin

lemma enc_inj: "valid x \<Longrightarrow> valid y \<Longrightarrow> enc x = enc y \<Longrightarrow> x = y"
  by (metis dec_enc option.inject)

lemma enc_inj_on: "inj_on enc {x. valid x}"
  by (rule inj_onI) (auto intro: enc_inj)

lemma dec_inj:
  assumes "dec y = Some x" and "dec y' = Some x"
  shows "y = y'"
  using enc_dec [OF assms(1)] enc_dec [OF assms(2)] by simp

lemma dec_iff: "dec y = Some x \<longleftrightarrow> valid x \<and> enc x = y" (is "?l \<longleftrightarrow> ?r")
proof
  assume ?l
  then show ?r by (rule enc_dec)
next
  assume ?r
  then show ?l using dec_enc [of x] by (elim conjE) (erule subst)
qed

lemma dec_None_iff: "dec y = None \<longleftrightarrow> y \<notin> enc ` {x. valid x}"
proof -
  have "dec y = None \<longleftrightarrow> (\<forall>x. dec y \<noteq> Some x)" by (cases "dec y") simp_all
  then show ?thesis by (auto simp only: dec_iff image_iff mem_Collect_eq)
qed

end

subsection \<open>Membership proofs\<close>

locale inclusion_scheme =
  fixes leaf_ok :: "'l \<Rightarrow> bool"
    and size_ok :: "nat \<Rightarrow> bool"
    and root :: "'l list \<Rightarrow> 'r option"
    and path :: "'l list \<Rightarrow> nat \<Rightarrow> 'p option"
    and check :: "nat \<Rightarrow> nat \<Rightarrow> 'l \<Rightarrow> 'p \<Rightarrow> 'r option"
    and no_clash :: "'l list \<Rightarrow> nat \<Rightarrow> 'l \<Rightarrow> 'p \<Rightarrow> bool"
  assumes complete: "\<lbrakk>\<forall>l \<in> set ls. leaf_ok l; i < length ls; size_ok (length ls)\<rbrakk>
      \<Longrightarrow> \<exists>r p. root ls = Some r \<and> path ls i = Some p \<and> check i (length ls) (ls ! i) p = Some r"
    and binding: "\<lbrakk>root ls = Some r; size_ok (length ls); no_clash ls i l p;
        check i (length ls) l p = Some r\<rbrakk>
      \<Longrightarrow> i < length ls \<and> l = ls ! i \<and> path ls i = Some p"
begin

lemma accepted_member:
  "\<lbrakk>root ls = Some r; size_ok (length ls); no_clash ls i l p; check i (length ls) l p = Some r\<rbrakk>
   \<Longrightarrow> l \<in> set ls"
  by (metis binding nth_mem)

lemma opening_unique:
  "\<lbrakk>root ls = Some r; size_ok (length ls); no_clash ls i l p; no_clash ls i l' p';
    check i (length ls) l p = Some r; check i (length ls) l' p' = Some r\<rbrakk>
   \<Longrightarrow> l = l' \<and> p = p'"
  by (metis binding option.inject)

lemma altered_leaf_refused:
  "\<lbrakk>root ls = Some r; size_ok (length ls); no_clash ls i l p; l \<noteq> ls ! i\<rbrakk>
   \<Longrightarrow> check i (length ls) l p \<noteq> Some r"
  by (metis binding)

end

subsection \<open>Machines whose steps may be refused\<close>

locale guarded_system =
  fixes step :: "'s \<Rightarrow> 'i \<Rightarrow> 's \<times> 'o"
    and refused :: "'o \<Rightarrow> bool"
    and inv :: "'s \<Rightarrow> bool"
  assumes inv_step: "inv s \<Longrightarrow> inv (fst (step s i))"
    and refused_step: "inv s \<Longrightarrow> refused (snd (step s i)) \<Longrightarrow> fst (step s i) = s"
begin

primrec run :: "'s \<Rightarrow> 'i list \<Rightarrow> 's \<times> 'o list" where
  "run s [] = (s, [])"
| "run s (i # is) =
     (fst (run (fst (step s i)) is), snd (step s i) # snd (run (fst (step s i)) is))"

lemma run_inv: "inv s \<Longrightarrow> inv (fst (run s is))"
  by (induction "is" arbitrary: s) (auto intro: inv_step)

lemma run_append:
  "run s (is @ js) = (fst (run (fst (run s is)) js), snd (run s is) @ snd (run (fst (run s is)) js))"
  by (induction "is" arbitrary: s) auto

lemma length_run: "length (snd (run s is)) = length is"
  by (induction "is" arbitrary: s) auto

lemma run_refused: "inv s \<Longrightarrow> \<forall>r \<in> set (snd (run s is)). refused r \<Longrightarrow> fst (run s is) = s"
proof (induction "is" arbitrary: s)
  case (Cons i "is")
  then have eq: "fst (step s i) = s"
    by (intro refused_step) simp_all
  have "fst (run s is) = s"
    using Cons.prems eq by (intro Cons.IH) simp_all
  with eq show ?case by simp
qed simp

text \<open>The requests of a run that were not refused: run alone, they give the same answers and the same state.\<close>

definition granted :: "'s \<Rightarrow> 'i list \<Rightarrow> 'i list" where
  "granted s is = map fst (filter (\<lambda>p. \<not> refused (snd p)) (zip is (snd (run s is))))"

lemma run_granted:
  "inv s \<Longrightarrow> run s (granted s is) = (fst (run s is), filter (\<lambda>r. \<not> refused r) (snd (run s is)))"
proof (induction "is" arbitrary: s)
  case (Cons i "is")
  show ?case
  proof (cases "refused (snd (step s i))")
    case True
    then have "fst (step s i) = s" using Cons.prems by (rule refused_step [rotated])
    then show ?thesis using True Cons.IH [OF Cons.prems] by (simp add: granted_def)
  next
    case False
    then show ?thesis using Cons.IH [OF inv_step [OF Cons.prems, of i]] by (simp add: granted_def)
  qed
qed (simp add: granted_def)

end

end
