(* ===== verification/BG_Merkle.thy ===== *)
theory BG_Merkle
  imports BG_Interfaces "HOL-Library.While_Combinator"
begin

text \<open>
  \<^verbatim>\<open>packages/verify/src/fuse-merkle.ts\<close>: the RFC 6962 tree over an ordered list of leaf hashes,
  its inclusion paths, the RFC 9162 recomputation of the root from a path, and the memoising
  \<^verbatim>\<open>MerkleTree\<close> class.

  SHA-256 is a third-party function (\<^verbatim>\<open>@noble/hashes\<close>): it is the parameter \<open>H\<close>. What the code
  relies on is that its outputs are 32 bytes; that two different inputs do not have the same hash
  is only ever assumed of an explicit finite set of inputs (\<open>inj_on H\<close>), because no function to
  32 bytes is injective everywhere.

  The index-based code is related to \<open>mth\<close>, \<open>mpath\<close> and \<open>mroot\<close>, the recursive functions of
  RFC 6962 section 2.1 over lists.
\<close>

subsection \<open>The code\<close>

definition merkleLeafHash :: "hashfun \<Rightarrow> bytes \<Rightarrow> bytes" where
  "merkleLeafHash H bs = H (0x00 # bs)"

definition merkleNodeHash :: "hashfun \<Rightarrow> bytes \<Rightarrow> bytes \<Rightarrow> bytes" where
  "merkleNodeHash H left right = H (0x01 # left @ right)"

text \<open>\<^verbatim>\<open>let k = 1; while (k * 2 < n) k *= 2\<close>\<close>

definition msplit :: "nat \<Rightarrow> nat" where
  "msplit n = while (\<lambda>k. k * 2 < n) (\<lambda>k. k * 2) 1"

lemma msplit_pow: "2 \<le> n \<Longrightarrow> \<exists>d. msplit n = 2 ^ d \<and> 2 ^ d < n \<and> n \<le> 2 ^ Suc d"
  unfolding msplit_def
proof (rule while_rule [where P = "\<lambda>k. (\<exists>d. k = 2 ^ d) \<and> k < n" and r = "measure (\<lambda>k. n - k)"])
  fix k assume n: "2 \<le> n" and k: "(\<exists>d. k = 2 ^ d) \<and> k < n" "k * 2 < n"
  show "(\<exists>d. k * 2 = 2 ^ d) \<and> k * 2 < n"
    using k by (auto intro: exI [of _ "Suc _"])
  have "0 < k" using k(1) by auto
  then show "(k * 2, k) \<in> measure (\<lambda>k. n - k)" using k by auto
next
  fix k assume "(\<exists>d. k = 2 ^ d) \<and> k < n" "\<not> k * 2 < n"
  then show "\<exists>d. k = 2 ^ d \<and> 2 ^ d < n \<and> n \<le> 2 ^ Suc d" by auto
qed (auto intro: exI [of _ 0])

lemma msplit_bounds: "2 \<le> n \<Longrightarrow> 0 < msplit n \<and> msplit n < n"
  using msplit_pow [of n] by auto

text \<open>
  The recursion \<^verbatim>\<open>build(lo, hi)\<close>. It is only called with \<open>lo < hi\<close>; the code's test \<open>n === 1\<close> is
  written \<open>\<le> 1\<close> so that the HOL function is total.
\<close>

function build :: "hashfun \<Rightarrow> bytes list \<Rightarrow> nat \<Rightarrow> nat \<Rightarrow> bytes" where
  "build H ls lo hi =
     (if hi - lo \<le> 1 then ls ! lo
      else let k = msplit (hi - lo)
           in merkleNodeHash H (build H ls lo (lo + k)) (build H ls (lo + k) hi))"
  by pat_completeness auto
termination
proof (relation "measure (\<lambda>(H, ls, lo, hi). hi - lo)", goal_cases)
  case (2 H ls lo hi k)
  then show ?case using msplit_bounds [of "hi - lo"] by simp
next
  case (3 H ls lo hi k)
  then show ?case using msplit_bounds [of "hi - lo"] by simp linarith
qed simp

declare build.simps [simp del]

definition merkleRoot :: "hashfun \<Rightarrow> bytes list \<Rightarrow> bytes res" where
  "merkleRoot H leafHashes =
     (if leafHashes = [] then Inl (TypeError ''a Merkle tree needs at least one leaf'')
      else if \<exists>h \<in> set leafHashes. length h \<noteq> 32 then Inl (TypeError ''a leaf hash is 32 bytes'')
      else Inr (build H leafHashes 0 (length leafHashes)))"

text \<open>The closure \<^verbatim>\<open>walk(lo, hi, m)\<close> of \<^verbatim>\<open>merklePath\<close>; its result lists what it pushes, in order.\<close>

function walk :: "hashfun \<Rightarrow> bytes list \<Rightarrow> nat \<Rightarrow> nat \<Rightarrow> nat \<Rightarrow> bytes list res" where
  "walk H ls lo hi m =
     (if hi - lo \<le> 1 then Inr []
      else let k = msplit (hi - lo)
           in if m < lo + k
              then rbind (walk H ls lo (lo + k) m) (\<lambda>path.
                   rbind (merkleRoot H (slice (lo + k) hi ls)) (\<lambda>s. Inr (path @ [s])))
              else rbind (walk H ls (lo + k) hi m) (\<lambda>path.
                   rbind (merkleRoot H (slice lo (lo + k) ls)) (\<lambda>s. Inr (path @ [s]))))"
  by pat_completeness auto
termination
proof (relation "measure (\<lambda>(H, ls, lo, hi, m). hi - lo)", goal_cases)
  case (2 H ls lo hi m k)
  then show ?case using msplit_bounds [of "hi - lo"] by simp
next
  case (3 H ls lo hi m k)
  then show ?case using msplit_bounds [of "hi - lo"] by simp linarith
qed simp

declare walk.simps [simp del]

definition merklePath :: "hashfun \<Rightarrow> bytes list \<Rightarrow> int \<Rightarrow> bytes list res" where
  "merklePath H leafHashes index =
     (let n = length leafHashes
      in if n = 0 then Inl (TypeError ''a Merkle tree needs at least one leaf'')
         else if index < 0 \<or> int n \<le> index then Inl (RangeError ''leaf index out of range'')
         else walk H leafHashes 0 n (nat index))"

text \<open>
  \<^verbatim>\<open>x >>>= 1\<close> converts to an unsigned 32-bit number first, so it is not a division by two from
  \<open>2 ^ 32\<close> on; \<^verbatim>\<open>(x & 1) === 1\<close> is oddness for every integer.
\<close>

definition ushr1 :: "nat \<Rightarrow> nat" where
  "ushr1 x = (x mod 2 ^ 32) div 2"

lemma ushr1_less: "0 < x \<Longrightarrow> ushr1 x < x"
proof -
  assume "0 < x"
  have "ushr1 x \<le> x div 2"
    unfolding ushr1_def by (intro div_le_mono) simp
  with \<open>0 < x\<close> show ?thesis by linarith
qed

lemma ushr1_small: "x < 2 ^ 32 \<Longrightarrow> ushr1 x = x div 2"
  by (simp add: ushr1_def)

text \<open>\<^verbatim>\<open>while ((fn & 1) === 0 && fn !== 0) { fn >>>= 1; sn >>>= 1; }\<close>\<close>

function strip_even :: "nat \<Rightarrow> nat \<Rightarrow> nat \<times> nat" where
  "strip_even fn sn = (if even fn \<and> fn \<noteq> 0 then strip_even (ushr1 fn) (ushr1 sn) else (fn, sn))"
  by pat_completeness auto
termination
  by (relation "measure fst") (auto simp: ushr1_less)

declare strip_even.simps [simp del]

text \<open>The loop \<^verbatim>\<open>for (const p of path)\<close> with its state \<open>fn\<close>, \<open>sn\<close>, \<open>r\<close>.\<close>

fun path_loop :: "hashfun \<Rightarrow> nat \<Rightarrow> nat \<Rightarrow> bytes \<Rightarrow> bytes list \<Rightarrow> bytes option" where
  "path_loop H fn sn r [] = (if sn \<noteq> 0 then None else Some r)"
| "path_loop H fn sn r (p # ps) =
     (if length p \<noteq> 32 then None
      else if sn = 0 then None
      else if odd fn \<or> fn = sn
      then let r' = merkleNodeHash H p r;
               (fn', sn') = (if even fn then strip_even fn sn else (fn, sn))
           in path_loop H (ushr1 fn') (ushr1 sn') r' ps
      else path_loop H (ushr1 fn) (ushr1 sn) (merkleNodeHash H r p) ps)"

definition merkleRootFromPath ::
    "hashfun \<Rightarrow> bytes \<Rightarrow> int \<Rightarrow> int \<Rightarrow> bytes list \<Rightarrow> bytes option" where
  "merkleRootFromPath H leafHash index tsize path =
     (if tsize < 1 \<or> index < 0 \<or> tsize \<le> index then None
      else if length leafHash \<noteq> 32 then None
      else path_loop H (nat index) (nat (tsize - 1)) leafHash path)"

subsection \<open>The reference: RFC 6962 over lists\<close>

function mth :: "hashfun \<Rightarrow> bytes list \<Rightarrow> bytes" where
  "mth H xs =
     (if length xs \<le> 1 then xs ! 0
      else let k = msplit (length xs)
           in merkleNodeHash H (mth H (take k xs)) (mth H (drop k xs)))"
  by pat_completeness auto
termination
proof (relation "measure (\<lambda>(H, xs). length xs)", goal_cases)
  case (2 H xs k)
  then show ?case using msplit_bounds [of "length xs"] by simp
next
  case (3 H xs k)
  then show ?case using msplit_bounds [of "length xs"] by simp linarith
qed simp

declare mth.simps [simp del]

function mpath :: "hashfun \<Rightarrow> bytes list \<Rightarrow> nat \<Rightarrow> bytes list" where
  "mpath H xs m =
     (if length xs \<le> 1 then []
      else let k = msplit (length xs)
           in if m < k then mpath H (take k xs) m @ [mth H (drop k xs)]
              else mpath H (drop k xs) (m - k) @ [mth H (take k xs)])"
  by pat_completeness auto
termination
proof (relation "measure (\<lambda>(H, xs, m). length xs)", goal_cases)
  case (2 H xs m k)
  then show ?case using msplit_bounds [of "length xs"] by simp
next
  case (3 H xs m k)
  then show ?case using msplit_bounds [of "length xs"] by simp linarith
qed simp

declare mpath.simps [simp del]

text \<open>Recomputing the root top-down: the last path element is the sibling at the top.\<close>

function mroot :: "hashfun \<Rightarrow> nat \<Rightarrow> nat \<Rightarrow> bytes \<Rightarrow> bytes list \<Rightarrow> bytes option" where
  "mroot H n i r path =
     (if n \<le> 1 then (if path = [] then Some r else None)
      else if path = [] \<or> length (last path) \<noteq> 32 then None
      else let k = msplit n
           in if i < k then map_option (\<lambda>s. merkleNodeHash H s (last path)) (mroot H k i r (butlast path))
              else map_option (\<lambda>s. merkleNodeHash H (last path) s) (mroot H (n - k) (i - k) r (butlast path)))"
  by pat_completeness auto
termination
proof (relation "measure (\<lambda>(H, n, i, r, path). n)", goal_cases)
  case (2 H n i r path k)
  then show ?case using msplit_bounds [of n] by simp
next
  case (3 H n i r path k)
  then show ?case using msplit_bounds [of n] by simp
qed simp

declare mroot.simps [simp del]

lemma mth_single [simp]: "mth H [x] = x"
  by (simp add: mth.simps)

lemma mth_split: "2 \<le> length xs \<Longrightarrow> mth H xs =
    merkleNodeHash H (mth H (take (msplit (length xs)) xs)) (mth H (drop (msplit (length xs)) xs))"
  by (subst mth.simps) (simp add: Let_def)

lemma mpath_left: "2 \<le> length xs \<Longrightarrow> m < msplit (length xs) \<Longrightarrow>
    mpath H xs m = mpath H (take (msplit (length xs)) xs) m @ [mth H (drop (msplit (length xs)) xs)]"
  by (subst mpath.simps) (simp add: Let_def)

lemma mpath_right: "2 \<le> length xs \<Longrightarrow> \<not> m < msplit (length xs) \<Longrightarrow>
    mpath H xs m = mpath H (drop (msplit (length xs)) xs) (m - msplit (length xs))
      @ [mth H (take (msplit (length xs)) xs)]"
  by (subst mpath.simps) (simp add: Let_def)

text \<open>An induction rule for nonempty lists that follows the split.\<close>

lemma msplit_induct [consumes 1, case_names single split]:
  assumes ne: "xs \<noteq> []"
    and single: "\<And>x. P [x]"
    and split: "\<And>xs. 2 \<le> length xs \<Longrightarrow> P (take (msplit (length xs)) xs)
      \<Longrightarrow> P (drop (msplit (length xs)) xs) \<Longrightarrow> P xs"
  shows "P xs"
  using ne
proof (induction "length xs" arbitrary: xs rule: less_induct)
  case less
  show ?case
  proof (cases "length xs = 1")
    case True
    then obtain x where "xs = [x]" by (auto simp: length_Suc_conv)
    then show ?thesis by (simp add: single)
  next
    case False
    with less.prems have n: "2 \<le> length xs" by (cases xs) (auto simp: Suc_le_eq)
    then have b: "0 < msplit (length xs)" "msplit (length xs) < length xs"
      using msplit_bounds by auto
    show ?thesis
    proof (rule split [OF n])
      show "P (take (msplit (length xs)) xs)" using b less.prems by (intro less.hyps) auto
      show "P (drop (msplit (length xs)) xs)" using b less.prems by (intro less.hyps) auto
    qed
  qed
qed

lemma length_mth:
  assumes H: "\<forall>x. length (H x) = 32" and "xs \<noteq> []" and "\<forall>x \<in> set xs. length x = 32"
  shows "length (mth H xs) = 32"
proof (cases "length xs = 1")
  case True
  with assms show ?thesis by (auto simp: length_Suc_conv)
next
  case False
  with assms(2) have "2 \<le> length xs" by (cases xs) (auto simp: Suc_le_eq)
  then show ?thesis by (simp add: mth_split merkleNodeHash_def H)
qed

subsection \<open>The code computes the reference\<close>

lemma build_eq_mth:
  "lo < hi \<Longrightarrow> hi \<le> length ls \<Longrightarrow> build H ls lo hi = mth H (slice lo hi ls)"
proof (induction H ls lo hi rule: build.induct)
  case (1 H ls lo hi)
  show ?case
  proof (cases "hi - lo \<le> 1")
    case True
    with 1(3) have "hi = Suc lo" by linarith
    with 1(4) show ?thesis by (simp add: build.simps slice_single)
  next
    case False
    let ?k = "msplit (hi - lo)"
    have k: "0 < ?k" "?k < hi - lo" using False msplit_bounds [of "hi - lo"] by auto
    have len: "length (slice lo hi ls) = hi - lo" using 1(3,4) by simp
    have t: "take ?k (slice lo hi ls) = slice lo (lo + ?k) ls"
      using k by (simp add: slice_def min_def)
    have d: "drop ?k (slice lo hi ls) = slice (lo + ?k) hi ls"
      by (simp add: slice_def drop_take add.commute)
    have "build H ls lo hi = merkleNodeHash H (build H ls lo (lo + ?k)) (build H ls (lo + ?k) hi)"
      using False by (subst build.simps) (simp add: Let_def)
    also have "build H ls lo (lo + ?k) = mth H (slice lo (lo + ?k) ls)"
      using k 1(3,4) False by (intro 1(1)) auto
    also have "build H ls (lo + ?k) hi = mth H (slice (lo + ?k) hi ls)"
      using k 1(3,4) False by (intro 1(2)) auto
    finally show ?thesis
      using mth_split [of "slice lo hi ls" H] False len t d by simp
  qed
qed

lemma merkleRoot_eq:
  "ls \<noteq> [] \<Longrightarrow> \<forall>h \<in> set ls. length h = 32 \<Longrightarrow> merkleRoot H ls = Inr (mth H ls)"
  by (simp add: merkleRoot_def build_eq_mth)

lemma merkleRoot_slice:
  assumes "lo < hi" "hi \<le> length ls" "\<forall>h \<in> set ls. length h = 32"
  shows "merkleRoot H (slice lo hi ls) = Inr (mth H (slice lo hi ls))"
proof (rule merkleRoot_eq)
  have "length (slice lo hi ls) > 0" using assms by simp
  then show "slice lo hi ls \<noteq> []" by blast
  show "\<forall>h \<in> set (slice lo hi ls). length h = 32"
    using assms(3) by (auto simp: slice_def dest!: in_set_takeD in_set_dropD)
qed

lemma walk_eq_mpath:
  "\<forall>h \<in> set ls. length h = 32 \<Longrightarrow> lo \<le> m \<Longrightarrow> m < hi \<Longrightarrow> hi \<le> length ls
    \<Longrightarrow> walk H ls lo hi m = Inr (mpath H (slice lo hi ls) (m - lo))"
proof (induction H ls lo hi m rule: walk.induct)
  case (1 H ls lo hi m)
  show ?case
  proof (cases "hi - lo \<le> 1")
    case True
    then have "min (hi - lo) (length ls - lo) \<le> Suc 0" by simp
    with True show ?thesis by (simp add: walk.simps mpath.simps)
  next
    case False
    let ?k = "msplit (hi - lo)"
    have k: "0 < ?k" "?k < hi - lo" using False msplit_bounds [of "hi - lo"] by auto
    have len: "length (slice lo hi ls) = hi - lo" using 1(6) by simp
    have t: "take ?k (slice lo hi ls) = slice lo (lo + ?k) ls"
      using k by (simp add: slice_def min_def)
    have d: "drop ?k (slice lo hi ls) = slice (lo + ?k) hi ls"
      by (simp add: slice_def drop_take add.commute)
    show ?thesis
    proof (cases "m < lo + ?k")
      case True
      have w: "walk H ls lo (lo + ?k) m = Inr (mpath H (slice lo (lo + ?k) ls) (m - lo))"
        using k 1 False True by (intro 1(1)) auto
      have r: "merkleRoot H (slice (lo + ?k) hi ls) = Inr (mth H (slice (lo + ?k) hi ls))"
        using k 1 by (intro merkleRoot_slice) auto
      have "walk H ls lo hi m = Inr (mpath H (slice lo (lo + ?k) ls) (m - lo) @ [mth H (slice (lo + ?k) hi ls)])"
        using False True w r by (subst walk.simps) (simp add: Let_def)
      moreover have "m - lo < msplit (length (slice lo hi ls))" using True len 1(4) by simp
      ultimately show ?thesis
        using mpath_left [of "slice lo hi ls" "m - lo" H] len t d False by simp
    next
      case F: False
      have w: "walk H ls (lo + ?k) hi m = Inr (mpath H (slice (lo + ?k) hi ls) (m - (lo + ?k)))"
        using k 1 False F by (intro 1(2)) auto
      have r: "merkleRoot H (slice lo (lo + ?k) ls) = Inr (mth H (slice lo (lo + ?k) ls))"
        using k 1 by (intro merkleRoot_slice) auto
      have "walk H ls lo hi m = Inr (mpath H (slice (lo + ?k) hi ls) (m - (lo + ?k)) @ [mth H (slice lo (lo + ?k) ls)])"
        using False F w r by (subst walk.simps) (simp add: Let_def)
      moreover have "\<not> m - lo < msplit (length (slice lo hi ls))" using F len 1(4) by simp
      ultimately show ?thesis
        using mpath_right [of "slice lo hi ls" "m - lo" H] len t d False by simp
    qed
  qed
qed

lemma merklePath_eq:
  assumes "\<forall>h \<in> set ls. length h = 32" and "i < length ls"
  shows "merklePath H ls (int i) = Inr (mpath H ls i)"
  using assms walk_eq_mpath [of ls 0 i "length ls" H] by (auto simp: merklePath_def Let_def)

subsection \<open>The bit loop and the recursive recomputation\<close>

lemma strip_even_shift:
  "a < 2 ^ e \<Longrightarrow> a \<noteq> 0 \<Longrightarrow> 2 ^ e + a < 2 ^ 32 \<Longrightarrow>
   \<exists>f a'. strip_even (2 ^ e + a) (2 ^ e + a) = (2 ^ f + a', 2 ^ f + a')
     \<and> strip_even a a = (a', a') \<and> odd a' \<and> a' < 2 ^ f \<and> 2 ^ f + a' < 2 ^ 32"
proof (induction a arbitrary: e rule: less_induct)
  case (less a)
  show ?case
  proof (cases "odd a")
    case True
    then have "odd (2 ^ e + a)" using less.prems by (cases e) auto
    with True less.prems show ?thesis by (auto simp: strip_even.simps intro: exI [of _ e])
  next
    case False
    then obtain f where e: "e = Suc f" using less.prems by (cases e) auto
    obtain b where b: "a = 2 * b" using False by auto
    have sh: "ushr1 (2 ^ e + a) = 2 ^ f + b" "ushr1 a = b"
      using less.prems b e by (simp_all add: ushr1_small)
    have "b < a" "b < 2 ^ f" "b \<noteq> 0" "2 ^ f + b < 2 ^ 32"
      using less.prems b e by auto
    then obtain g a' where IH: "strip_even (2 ^ f + b) (2 ^ f + b) = (2 ^ g + a', 2 ^ g + a')"
        "strip_even b b = (a', a')" "odd a'" "a' < 2 ^ g" "2 ^ g + a' < 2 ^ 32"
      using less.IH [of b f] by auto
    have "even (2 ^ e + a)" using e b by simp
    then have "strip_even (2 ^ e + a) (2 ^ e + a) = strip_even (2 ^ f + b) (2 ^ f + b)"
      using sh less.prems by (subst strip_even.simps) simp
    moreover have "strip_even a a = strip_even b b"
      using sh False less.prems by (subst strip_even.simps) simp
    ultimately show ?thesis using IH by auto
  qed
qed

lemma strip_even_pow: "2 ^ e < (2 :: nat) ^ 32 \<Longrightarrow> strip_even (2 ^ e) (2 ^ e) = (1, 1)"
proof (induction e)
  case 0
  then show ?case by (simp add: strip_even.simps)
next
  case (Suc e)
  then have "2 ^ e < (2 :: nat) ^ 32" by simp
  with Suc show ?case by (subst strip_even.simps) (simp add: ushr1_small)
qed

text \<open>One more path element above a result: \<open>up_left\<close> when the recomputed node is the left
  child, \<open>up_right\<close> when it is the right one.\<close>

definition up_left :: "hashfun \<Rightarrow> bytes option \<Rightarrow> bytes \<Rightarrow> bytes option" where
  "up_left H o1 p = (if length p = 32 then map_option (\<lambda>s. merkleNodeHash H s p) o1 else None)"

definition up_right :: "hashfun \<Rightarrow> bytes option \<Rightarrow> bytes \<Rightarrow> bytes option" where
  "up_right H o1 p = (if length p = 32 then map_option (\<lambda>s. merkleNodeHash H p s) o1 else None)"

lemma path_loop_0: "path_loop H fn 0 r ps = (if ps = [] then Some r else None)"
  by (cases ps) auto

lemma path_loop_left:
  "i < 2 ^ d \<Longrightarrow> 2 ^ d \<le> s \<Longrightarrow> s < 2 ^ Suc d \<Longrightarrow> s < 2 ^ 32 \<Longrightarrow> path_loop H i s r ps
    = (if ps = [] then None else up_left H (path_loop H i (2 ^ d - 1) r (butlast ps)) (last ps))"
proof (induction ps arbitrary: i d s r)
  case Nil
  then have "s \<noteq> 0" by (metis le_zero_eq power_not_zero zero_neq_numeral)
  then show ?case by simp
next
  case (Cons p ps)
  show ?case
  proof (cases d)
    case 0
    with Cons.prems have "i = 0" "s = 1" by auto
    with 0 show ?thesis by (auto simp: ushr1_def path_loop_0 up_left_def)
  next
    case (Suc e)
    have i': "ushr1 i = i div 2" "ushr1 s = s div 2" "ushr1 (2 ^ d - 1) = 2 ^ e - 1"
      using Cons.prems Suc by (simp_all add: ushr1_small)
    have b: "i div 2 < 2 ^ e" "2 ^ e \<le> s div 2" "s div 2 < 2 ^ Suc e" "s div 2 < 2 ^ 32"
      using Cons.prems Suc by auto
    have "(2 :: nat) \<le> 2 ^ d" using Suc by simp
    then have "(2 :: nat) ^ d - 1 \<noteq> 0" by linarith
    then have ne: "i \<noteq> s" "s \<noteq> 0" "(2 :: nat) ^ d - 1 \<noteq> 0" "odd ((2 :: nat) ^ d - 1)"
      using Cons.prems Suc by auto
    have same: "odd i \<or> i = 2 ^ d - 1 \<longleftrightarrow> odd i" using ne(4) by metis
    note IH = Cons.IH [OF b]
    show ?thesis
      using Cons.prems ne same i' IH
      by (cases "ps = []") (auto simp: up_left_def Let_def)
  qed
qed

lemma path_loop_right:
  "a \<le> b \<Longrightarrow> b < 2 ^ e \<Longrightarrow> 2 ^ e + b < 2 ^ 32 \<Longrightarrow> path_loop H (2 ^ e + a) (2 ^ e + b) r ps
    = (if ps = [] then None else up_right H (path_loop H a b r (butlast ps)) (last ps))"
proof (induction ps arbitrary: a b e r)
  case Nil
  then show ?case by simp
next
  case (Cons p ps)
  show ?case
  proof (cases "b = 0")
    case True
    with Cons.prems have a: "a = 0" and e: "2 ^ e < (2 :: nat) ^ 32" by auto
    have "odd ((2 :: nat) ^ e) \<Longrightarrow> e = 0" by (cases e) auto
    then show ?thesis
      using True a e strip_even_pow [OF e]
      by (cases "e = 0") (auto simp: ushr1_def path_loop_0 up_right_def)
  next
    case b: False
    then obtain f where e: "e = Suc f" using Cons.prems by (cases e) auto
    have par: "odd (2 ^ e + a) \<longleftrightarrow> odd a" "2 ^ e + a = 2 ^ e + b \<longleftrightarrow> a = b" using e by auto
    have half: "ushr1 (2 ^ e + a) = 2 ^ f + a div 2" "ushr1 (2 ^ e + b) = 2 ^ f + b div 2"
        "ushr1 a = a div 2" "ushr1 b = b div 2"
      using Cons.prems e by (simp_all add: ushr1_small)
    have small: "a div 2 \<le> b div 2" "b div 2 < 2 ^ f" "2 ^ f + b div 2 < 2 ^ 32"
      using Cons.prems e by (auto intro: div_le_mono)
    note IH = Cons.IH [OF small]
    show ?thesis
    proof (cases "even a \<and> a = b")
      case False
      then have "odd a \<or> a \<noteq> b" by simp
      then show ?thesis
        using b par half IH by (cases "ps = []"; cases "odd a") (auto simp: up_right_def Let_def)
    next
      case True
      then have a: "a \<noteq> 0" "a < 2 ^ e" "2 ^ e + a < 2 ^ 32" using b Cons.prems by auto
      obtain g a' where st: "strip_even (2 ^ e + a) (2 ^ e + a) = (2 ^ g + a', 2 ^ g + a')"
          "strip_even a a = (a', a')" and a': "odd a'" "a' < 2 ^ g" "2 ^ g + a' < 2 ^ 32"
        using strip_even_shift [OF a(2,1,3)] by auto
      obtain h where g: "g = Suc h" using a' by (cases g) auto
      have half': "ushr1 (2 ^ g + a') = 2 ^ h + a' div 2" "ushr1 a' = a' div 2"
        using a' g by (simp_all add: ushr1_small)
      have small': "a' div 2 < 2 ^ h" "2 ^ h + a' div 2 < 2 ^ 32" using a' g by auto
      note IH' = Cons.IH [OF order_refl small']
      show ?thesis
        using True b par st half' IH' by (cases "ps = []") (auto simp: up_right_def Let_def)
    qed
  qed
qed

lemma mroot_single [simp]: "mroot H (Suc 0) i r ps = (if ps = [] then Some r else None)"
  by (simp add: mroot.simps)

lemma mroot_left:
  "2 \<le> n \<Longrightarrow> i < msplit n \<Longrightarrow> mroot H n i r ps =
    (if ps = [] then None else up_left H (mroot H (msplit n) i r (butlast ps)) (last ps))"
  by (subst mroot.simps) (auto simp: Let_def up_left_def)

lemma mroot_right:
  "2 \<le> n \<Longrightarrow> \<not> i < msplit n \<Longrightarrow> mroot H n i r ps =
    (if ps = [] then None else up_right H (mroot H (n - msplit n) (i - msplit n) r (butlast ps)) (last ps))"
  by (subst mroot.simps) (auto simp: Let_def up_right_def)

theorem path_loop_eq_mroot:
  "i < n \<Longrightarrow> n \<le> 2 ^ 32 \<Longrightarrow> path_loop H i (n - 1) r ps = mroot H n i r ps"
proof (induction n arbitrary: i r ps rule: less_induct)
  case (less n)
  show ?case
  proof (cases "n = 1")
    case True
    with less.prems show ?thesis by (simp add: path_loop_0)
  next
    case False
    with less.prems have n: "2 \<le> n" by linarith
    obtain d where k: "msplit n = 2 ^ d" "2 ^ d < n" "n \<le> 2 ^ Suc d"
      using msplit_pow [OF n] by auto
    show ?thesis
    proof (cases "i < msplit n")
      case True
      have "path_loop H i (n - 1) r ps =
          (if ps = [] then None else up_left H (path_loop H i (2 ^ d - 1) r (butlast ps)) (last ps))"
        using True k less.prems by (intro path_loop_left) auto
      then show ?thesis
        using less.IH [of "msplit n" i r "butlast ps"] True k n less.prems by (simp add: mroot_left)
    next
      case False
      let ?a = "i - msplit n" and ?b = "n - msplit n - 1"
      have "path_loop H (2 ^ d + ?a) (2 ^ d + ?b) r ps =
          (if ps = [] then None else up_right H (path_loop H ?a ?b r (butlast ps)) (last ps))"
        using False k less.prems by (intro path_loop_right) auto
      moreover have "2 ^ d + ?a = i" "2 ^ d + ?b = n - 1" using False k by auto
      ultimately show ?thesis
        using less.IH [of "n - msplit n" ?a r "butlast ps"] False k n less.prems
        by (simp add: mroot_right)
    qed
  qed
qed

subsection \<open>Completeness and binding of inclusion paths\<close>

lemma mroot_complete:
  assumes H: "\<forall>x. length (H x) = 32" and "xs \<noteq> []"
  shows "\<forall>x \<in> set xs. length x = 32 \<Longrightarrow> i < length xs
    \<Longrightarrow> mroot H (length xs) i (xs ! i) (mpath H xs i) = Some (mth H xs)"
  using assms(2)
proof (induction xs arbitrary: i rule: msplit_induct)
  case (single x)
  then show ?case by (simp add: mpath.simps)
next
  case (split xs)
  let ?k = "msplit (length xs)"
  have k: "0 < ?k" "?k < length xs" "xs \<noteq> []" using split(1) msplit_bounds by auto
  have ok: "\<forall>x \<in> set (take ?k xs). length x = 32" "\<forall>x \<in> set (drop ?k xs). length x = 32"
    using split.prems by (auto dest: in_set_takeD in_set_dropD)
  have len: "length (mth H (take ?k xs)) = 32" "length (mth H (drop ?k xs)) = 32"
    using k ok by (auto intro!: length_mth [OF H])
  show ?case
  proof (cases "i < ?k")
    case True
    then have "mroot H ?k i (xs ! i) (mpath H (take ?k xs) i) = Some (mth H (take ?k xs))"
      using split.IH(1) [of i] k ok by simp
    then show ?thesis
      using True split(1) len k by (simp add: mroot_left mpath_left mth_split up_left_def)
  next
    case False
    then have "mroot H (length xs - ?k) (i - ?k) (xs ! i) (mpath H (drop ?k xs) (i - ?k))
        = Some (mth H (drop ?k xs))"
      using split.IH(2) [of "i - ?k"] k ok split.prems by simp
    then show ?thesis
      using False split(1) len k by (simp add: mroot_right mpath_right mth_split up_right_def)
  qed
qed

text \<open>The inner-node inputs hashed when the root of \<open>xs\<close> is computed, and those hashed when a
  root is recomputed from a path. Binding is stated relative to these finite sets.\<close>

function mth_inputs :: "hashfun \<Rightarrow> bytes list \<Rightarrow> bytes list" where
  "mth_inputs H xs =
     (if length xs \<le> 1 then []
      else let k = msplit (length xs)
           in (0x01 # mth H (take k xs) @ mth H (drop k xs))
                # mth_inputs H (take k xs) @ mth_inputs H (drop k xs))"
  by pat_completeness auto
termination
proof (relation "measure (\<lambda>(H, xs). length xs)", goal_cases)
  case (2 H xs k)
  then show ?case using msplit_bounds [of "length xs"] by simp
next
  case (3 H xs k)
  then show ?case using msplit_bounds [of "length xs"] by simp linarith
qed simp

function mroot_inputs :: "hashfun \<Rightarrow> nat \<Rightarrow> nat \<Rightarrow> bytes \<Rightarrow> bytes list \<Rightarrow> bytes list" where
  "mroot_inputs H n i r path =
     (if n \<le> 1 \<or> path = [] then []
      else let k = msplit n; p = last path; rest = butlast path
           in if i < k
              then (case mroot H k i r rest of None \<Rightarrow> [] | Some s \<Rightarrow> [0x01 # s @ p])
                     @ mroot_inputs H k i r rest
              else (case mroot H (n - k) (i - k) r rest of None \<Rightarrow> [] | Some s \<Rightarrow> [0x01 # p @ s])
                     @ mroot_inputs H (n - k) (i - k) r rest)"
  by pat_completeness auto
termination
proof (relation "measure (\<lambda>(H, n, i, r, path). n)", goal_cases)
  case (2 H n i r path k)
  then show ?case using msplit_bounds [of n] by simp
next
  case (3 H n i r path k)
  then show ?case using msplit_bounds [of n] by simp
qed simp

declare mth_inputs.simps [simp del] mroot_inputs.simps [simp del]

definition merkle_no_clash :: "hashfun \<Rightarrow> bytes list \<Rightarrow> nat \<Rightarrow> bytes \<Rightarrow> bytes list \<Rightarrow> bool" where
  "merkle_no_clash H ls i leaf path \<longleftrightarrow>
     inj_on H (set (mth_inputs H ls @ mroot_inputs H (length ls) i leaf path))"

lemma node_hash_inj:
  assumes "inj_on H S" "0x01 # l @ r \<in> S" "0x01 # l' @ r' \<in> S" "length l = length l'"
    and "merkleNodeHash H l r = merkleNodeHash H l' r'"
  shows "l = l' \<and> r = r'"
proof -
  have "0x01 # l @ r = 0x01 # l' @ r'"
    using assms by (auto simp: merkleNodeHash_def dest: inj_onD)
  with assms(4) show ?thesis by simp
qed

lemma length_mroot:
  assumes H: "\<forall>x. length (H x) = 32"
  shows "length r = 32 \<Longrightarrow> mroot H n i r ps = Some s \<Longrightarrow> length s = 32"
proof (induction n arbitrary: i ps s rule: less_induct)
  case (less n)
  show ?case
  proof (cases "n \<le> 1")
    case True
    with less.prems show ?thesis by (simp add: mroot.simps split: if_splits)
  next
    case False
    with less.prems show ?thesis
      by (cases "i < msplit n")
        (auto simp: mroot_left mroot_right up_left_def up_right_def merkleNodeHash_def H split: if_splits)
  qed
qed

lemma mth_inputs_split: "2 \<le> length xs \<Longrightarrow> mth_inputs H xs =
    (0x01 # mth H (take (msplit (length xs)) xs) @ mth H (drop (msplit (length xs)) xs))
      # mth_inputs H (take (msplit (length xs)) xs) @ mth_inputs H (drop (msplit (length xs)) xs)"
  by (subst mth_inputs.simps) (simp add: Let_def)

lemma mroot_inputs_left:
  "2 \<le> n \<Longrightarrow> ps \<noteq> [] \<Longrightarrow> i < msplit n \<Longrightarrow> mroot H (msplit n) i r (butlast ps) = Some s \<Longrightarrow>
   mroot_inputs H n i r ps = (0x01 # s @ last ps) # mroot_inputs H (msplit n) i r (butlast ps)"
  by (subst mroot_inputs.simps) (simp add: Let_def)

lemma mroot_inputs_right:
  "2 \<le> n \<Longrightarrow> ps \<noteq> [] \<Longrightarrow> \<not> i < msplit n \<Longrightarrow>
   mroot H (n - msplit n) (i - msplit n) r (butlast ps) = Some s \<Longrightarrow>
   mroot_inputs H n i r ps
     = (0x01 # last ps @ s) # mroot_inputs H (n - msplit n) (i - msplit n) r (butlast ps)"
  by (subst mroot_inputs.simps) (simp add: Let_def)

lemma mroot_binding:
  assumes H: "\<forall>x. length (H x) = 32" and "xs \<noteq> []"
  shows "\<forall>x \<in> set xs. length x = 32 \<Longrightarrow> length r = 32 \<Longrightarrow> i < length xs
    \<Longrightarrow> inj_on H S \<Longrightarrow> set (mth_inputs H xs) \<subseteq> S \<Longrightarrow> set (mroot_inputs H (length xs) i r ps) \<subseteq> S
    \<Longrightarrow> mroot H (length xs) i r ps = Some (mth H xs) \<Longrightarrow> r = xs ! i \<and> ps = mpath H xs i"
  using assms(2)
proof (induction xs arbitrary: i ps rule: msplit_induct)
  case (single x)
  then show ?case by (simp add: mpath.simps split: if_splits)
next
  case (split xs)
  let ?n = "length xs" let ?k = "msplit ?n"
  let ?A = "take ?k xs" and ?B = "drop ?k xs"
  have k: "0 < ?k" "?k < ?n" using split(1) msplit_bounds by auto
  have ok: "\<forall>x \<in> set ?A. length x = 32" "\<forall>x \<in> set ?B. length x = 32"
    using split.prems by (auto dest: in_set_takeD in_set_dropD)
  have len: "length (mth H ?A) = 32" "length (mth H ?B) = 32"
    using k ok by (auto intro!: length_mth [OF H])
  have sub: "0x01 # mth H ?A @ mth H ?B \<in> S" "set (mth_inputs H ?A) \<subseteq> S" "set (mth_inputs H ?B) \<subseteq> S"
    using split.prems(5) split(1) by (auto simp: mth_inputs_split)
  have ne: "ps \<noteq> []" using split.prems(7) split(1) k by (cases "i < ?k") (auto simp: mroot_left mroot_right)
  have root: "mth H xs = merkleNodeHash H (mth H ?A) (mth H ?B)"
    by (rule mth_split [OF split(1)])
  show ?case
  proof (cases "i < ?k")
    case True
    obtain s where s: "mroot H ?k i r (butlast ps) = Some s" "length (last ps) = 32"
        "merkleNodeHash H s (last ps) = merkleNodeHash H (mth H ?A) (mth H ?B)"
      using split.prems(7) True split(1) ne root
      by (auto simp: mroot_left up_left_def split: if_splits)
    have ins: "0x01 # s @ last ps \<in> S" "set (mroot_inputs H ?k i r (butlast ps)) \<subseteq> S"
      using split.prems(6) mroot_inputs_left [OF split(1) ne True s(1)] by auto
    have "length s = length (mth H ?A)" using length_mroot [OF H split.prems(2) s(1)] len by simp
    then have eq: "s = mth H ?A \<and> last ps = mth H ?B"
      by (rule node_hash_inj [OF split.prems(4) ins(1) sub(1) _ s(3)])
    have "r = ?A ! i \<and> butlast ps = mpath H ?A i"
      using split.prems ok ins s(1) eq sub True k by (intro split.IH(1)) simp_all
    then show ?thesis
      using True eq ne split(1) append_butlast_last_id [OF ne] by (simp add: mpath_left)
  next
    case False
    obtain s where s: "mroot H (?n - ?k) (i - ?k) r (butlast ps) = Some s" "length (last ps) = 32"
        "merkleNodeHash H (last ps) s = merkleNodeHash H (mth H ?A) (mth H ?B)"
      using split.prems(7) False split(1) ne root
      by (auto simp: mroot_right up_right_def split: if_splits)
    have ins: "0x01 # last ps @ s \<in> S" "set (mroot_inputs H (?n - ?k) (i - ?k) r (butlast ps)) \<subseteq> S"
      using split.prems(6) mroot_inputs_right [OF split(1) ne False s(1)] by auto
    have "length (last ps) = length (mth H ?A)" using s(2) len by simp
    then have eq: "last ps = mth H ?A \<and> s = mth H ?B"
      by (rule node_hash_inj [OF split.prems(4) ins(1) sub(1) _ s(3)])
    have "r = ?B ! (i - ?k) \<and> butlast ps = mpath H ?B (i - ?k)"
      using split.prems ok ins s(1) eq sub False k by (intro split.IH(2)) simp_all
    then show ?thesis
      using False k eq ne split(1) append_butlast_last_id [OF ne] by (simp add: mpath_right)
  qed
qed

lemma merkleRoot_eq_Inr:
  "merkleRoot H ls = Inr r \<longleftrightarrow> ls \<noteq> [] \<and> (\<forall>h \<in> set ls. length h = 32) \<and> r = mth H ls"
  using merkleRoot_eq [of ls H] by (cases "ls = []") (auto simp: merkleRoot_def)

lemma merkleRootFromPath_eq:
  "n \<le> 2 ^ 32 \<Longrightarrow> merkleRootFromPath H leaf (int i) (int n) path
    = (if i < n \<and> length leaf = 32 then mroot H n i leaf path else None)"
  using path_loop_eq_mroot [of i n H leaf path]
  by (auto simp: merkleRootFromPath_def nat_diff_distrib)

interpretation merkle: inclusion_scheme
    "\<lambda>l. length l = 32" "\<lambda>n. n \<le> 2 ^ 32 \<and> hash32 H"
    "\<lambda>ls. to_option (merkleRoot H ls)" "\<lambda>ls i. to_option (merklePath H ls (int i))"
    "\<lambda>i n l p. merkleRootFromPath H l (int i) (int n) p" "merkle_no_clash H"
  for H
proof (unfold_locales, goal_cases)
  case (1 ls i)
  then have ne: "ls \<noteq> []" and H: "\<forall>x. length (H x) = 32" by (auto simp: hash32_def)
  have "merkleRootFromPath H (ls ! i) (int i) (int (length ls)) (mpath H ls i) = Some (mth H ls)"
    using 1 mroot_complete [OF H ne 1(1,2)] by (simp add: merkleRootFromPath_eq)
  then show ?case
    using 1 ne by (simp add: merkleRoot_eq merklePath_eq)
next
  case (2 ls r i l p)
  then have ls: "ls \<noteq> []" "\<forall>h \<in> set ls. length h = 32" "r = mth H ls"
    and H: "\<forall>x. length (H x) = 32"
    by (auto simp: hash32_def res_simps merkleRoot_eq_Inr)
  have c: "i < length ls" "length l = 32" "mroot H (length ls) i l p = Some (mth H ls)"
    using 2 ls(3) by (auto simp: merkleRootFromPath_eq split: if_splits)
  have "l = ls ! i \<and> p = mpath H ls i"
  proof (rule mroot_binding [OF H ls(1,2) c(2,1)])
    show "inj_on H (set (mth_inputs H ls @ mroot_inputs H (length ls) i l p))"
      using 2(3) by (simp add: merkle_no_clash_def)
  qed (use c(3) in auto)
  with c ls show ?case by (simp add: merklePath_eq)
qed

subsection \<open>The class \<open>MerkleTree\<close>\<close>

record merkle_tree =
  mt_leafHashes :: "bytes list"
  mt_size :: nat
  mt_memo :: "nat \<rightharpoonup> bytes"
  mt_root :: bytes

record known_root =
  kr_lo :: int
  kr_hi :: int
  kr_hash :: bytes

definition memo_key :: "nat \<Rightarrow> nat \<Rightarrow> nat \<Rightarrow> nat" where
  "memo_key tsize lo hi = lo * (tsize + 1) + hi"

text \<open>\<^verbatim>\<open>this.subtree(lo, hi)\<close>: the memo is threaded through. The buffer \<^verbatim>\<open>nodeBuf\<close> holds
  \<open>0x01\<close>, \<open>left\<close>, \<open>right\<close> exactly because both are 32 bytes.\<close>

function subtree :: "hashfun \<Rightarrow> bytes list \<Rightarrow> nat \<Rightarrow> nat \<Rightarrow> nat \<Rightarrow> (nat \<rightharpoonup> bytes) \<Rightarrow> bytes \<times> (nat \<rightharpoonup> bytes)" where
  "subtree H ls tsize lo hi memo =
     (if hi - lo \<le> 1 then (ls ! lo, memo)
      else case memo (memo_key tsize lo hi) of
             Some known \<Rightarrow> (known, memo)
           | None \<Rightarrow>
               let k = msplit (hi - lo);
                   res1 = subtree H ls tsize lo (lo + k) memo;
                   res2 = subtree H ls tsize (lo + k) hi (snd res1);
                   h = H (0x01 # fst res1 @ fst res2)
               in (h, (snd res2)(memo_key tsize lo hi \<mapsto> h)))"
  by pat_completeness auto
termination
proof (relation "measure (\<lambda>(H, ls, tsize, lo, hi, memo). hi - lo)", goal_cases)
  case (2 H ls tsize lo hi memo k)
  then show ?case using msplit_bounds [of "hi - lo"] by simp
next
  case (3 H ls tsize lo hi memo k)
  then show ?case using msplit_bounds [of "hi - lo"] by simp linarith
qed simp

declare subtree.simps [simp del]

definition known_bad :: "nat \<Rightarrow> known_root \<Rightarrow> bool" where
  "known_bad tsize k \<longleftrightarrow> length (kr_hash k) \<noteq> 32 \<or>
     \<not> (0 \<le> kr_lo k \<and> kr_hi k \<le> int tsize \<and> 2 \<le> kr_hi k - kr_lo k)"

fun seed_memo :: "nat \<Rightarrow> known_root list \<Rightarrow> (nat \<rightharpoonup> bytes) \<Rightarrow> (nat \<rightharpoonup> bytes) res" where
  "seed_memo tsize [] memo = Inr memo"
| "seed_memo tsize (k # ks) memo =
     (if known_bad tsize k
      then Inl (TypeError ''a known subtree root is 32 bytes over a range of at least two leaves inside the tree'')
      else seed_memo tsize ks (memo(memo_key tsize (nat (kr_lo k)) (nat (kr_hi k)) \<mapsto> kr_hash k)))"

definition new_MerkleTree :: "hashfun \<Rightarrow> bytes list \<Rightarrow> known_root list \<Rightarrow> merkle_tree res" where
  "new_MerkleTree H leafHashes known =
     (if leafHashes = [] then Inl (TypeError ''a Merkle tree needs at least one leaf'')
      else if \<exists>h \<in> set leafHashes. length h \<noteq> 32 then Inl (TypeError ''a leaf hash is 32 bytes'')
      else rbind (seed_memo (length leafHashes) known Map.empty) (\<lambda>memo.
        let n = length leafHashes; (root, memo') = subtree H leafHashes n 0 n memo
        in Inr \<lparr>mt_leafHashes = leafHashes, mt_size = n, mt_memo = memo', mt_root = root\<rparr>))"

text \<open>The closure \<^verbatim>\<open>walk(lo, hi)\<close> of \<^verbatim>\<open>path(index)\<close>; it also fills the memo.\<close>

function tree_walk :: "hashfun \<Rightarrow> bytes list \<Rightarrow> nat \<Rightarrow> nat \<Rightarrow> nat \<Rightarrow> nat \<Rightarrow> (nat \<rightharpoonup> bytes)
    \<Rightarrow> bytes list \<times> (nat \<rightharpoonup> bytes)" where
  "tree_walk H ls tsize index lo hi memo =
     (if hi - lo \<le> 1 then ([], memo)
      else let k = msplit (hi - lo)
           in if index < lo + k
              then let (out, memo1) = tree_walk H ls tsize index lo (lo + k) memo;
                       (s, memo2) = subtree H ls tsize (lo + k) hi memo1
                   in (out @ [s], memo2)
              else let (out, memo1) = tree_walk H ls tsize index (lo + k) hi memo;
                       (s, memo2) = subtree H ls tsize lo (lo + k) memo1
                   in (out @ [s], memo2))"
  by pat_completeness auto
termination
proof (relation "measure (\<lambda>(H, ls, tsize, index, lo, hi, memo). hi - lo)", goal_cases)
  case (2 H ls tsize index lo hi memo k)
  then show ?case using msplit_bounds [of "hi - lo"] by simp
next
  case (3 H ls tsize index lo hi memo k)
  then show ?case using msplit_bounds [of "hi - lo"] by simp linarith
qed simp

declare tree_walk.simps [simp del]

definition tree_path :: "hashfun \<Rightarrow> merkle_tree \<Rightarrow> int \<Rightarrow> (bytes list \<times> merkle_tree) res" where
  "tree_path H t index =
     (if index < 0 \<or> int (mt_size t) \<le> index then Inl (RangeError ''leaf index out of range'')
      else let (out, memo) = tree_walk H (mt_leafHashes t) (mt_size t) (nat index) 0 (mt_size t) (mt_memo t)
           in Inr (out, t\<lparr>mt_memo := memo\<rparr>))"

text \<open>Every remembered subtree root is the root of its range.\<close>

definition memo_ok :: "hashfun \<Rightarrow> bytes list \<Rightarrow> (nat \<rightharpoonup> bytes) \<Rightarrow> bool" where
  "memo_ok H ls memo \<longleftrightarrow> (\<forall>lo hi h. lo < hi \<and> hi \<le> length ls \<and> memo (memo_key (length ls) lo hi) = Some h
     \<longrightarrow> h = mth H (slice lo hi ls))"

lemma memo_key_inj:
  assumes "hi \<le> n" "hi' \<le> n" "memo_key n lo hi = memo_key n lo' hi'"
  shows "lo = lo' \<and> hi = hi'"
proof -
  have "(lo * (n + 1) + hi) div (n + 1) = lo" "(lo' * (n + 1) + hi') div (n + 1) = lo'"
    using assms(1,2) by (simp_all del: mult_Suc_right)
  moreover have "(lo * (n + 1) + hi) mod (n + 1) = hi" "(lo' * (n + 1) + hi') mod (n + 1) = hi'"
    using assms(1,2) by (simp_all del: mult_Suc_right)
  ultimately show ?thesis using assms(3) unfolding memo_key_def by metis
qed

lemma memo_ok_upd:
  assumes "memo_ok H ls memo" "hi \<le> length ls" "h = mth H (slice lo hi ls)"
  shows "memo_ok H ls (memo(memo_key (length ls) lo hi \<mapsto> h))"
  using assms unfolding memo_ok_def by (auto dest: memo_key_inj)

lemma memo_okD:
  "memo_ok H ls memo \<Longrightarrow> lo < hi \<Longrightarrow> hi \<le> length ls \<Longrightarrow> memo (memo_key (length ls) lo hi) = Some h
   \<Longrightarrow> h = mth H (slice lo hi ls)"
  unfolding memo_ok_def by blast

lemma mth_slice_split:
  assumes "2 \<le> hi - lo" "hi \<le> length ls"
  shows "mth H (slice lo hi ls) = H (0x01 # mth H (slice lo (lo + msplit (hi - lo)) ls)
    @ mth H (slice (lo + msplit (hi - lo)) hi ls))"
proof -
  have b: "lo < hi" "0 < msplit (hi - lo)" "msplit (hi - lo) < hi - lo"
    using assms msplit_bounds [of "hi - lo"] by auto
  have "mth H (slice lo hi ls) = build H ls lo hi"
    using b assms by (simp add: build_eq_mth)
  also have "\<dots> = merkleNodeHash H (build H ls lo (lo + msplit (hi - lo))) (build H ls (lo + msplit (hi - lo)) hi)"
    using assms by (subst build.simps) (simp add: Let_def)
  finally show ?thesis
    using b assms by (simp add: build_eq_mth merkleNodeHash_def)
qed

lemma subtree_correct:
  "memo_ok H ls memo \<Longrightarrow> lo < hi \<Longrightarrow> hi \<le> length ls \<Longrightarrow> n = length ls
   \<Longrightarrow> fst (subtree H ls n lo hi memo) = mth H (slice lo hi ls)
     \<and> memo_ok H ls (snd (subtree H ls n lo hi memo))"
proof (induction H ls n lo hi memo rule: subtree.induct)
  case (1 H ls n lo hi memo)
  show ?case
  proof (cases "hi - lo \<le> 1")
    case True
    with 1(4) have "hi = Suc lo" by linarith
    with 1(3,5) True show ?thesis by (simp add: subtree.simps slice_single)
  next
    case False
    let ?k = "msplit (hi - lo)"
    have k: "0 < ?k" "?k < hi - lo" using False msplit_bounds [of "hi - lo"] by auto
    show ?thesis
    proof (cases "memo (memo_key n lo hi)")
      case (Some h)
      then show ?thesis using 1(3-6) False memo_okD
        by (subst (1 2) subtree.simps) auto
    next
      case None
      let ?r1 = "subtree H ls n lo (lo + ?k) memo"
      let ?r2 = "subtree H ls n (lo + ?k) hi (snd ?r1)"
      have r1: "fst ?r1 = mth H (slice lo (lo + ?k) ls)" "memo_ok H ls (snd ?r1)"
        using 1(1) [OF False None refl] 1(3-6) k by auto
      then have r2: "fst ?r2 = mth H (slice (lo + ?k) hi ls)" "memo_ok H ls (snd ?r2)"
        using 1(2) [OF False None refl refl] "1.prems" k by auto
      have eq: "subtree H ls n lo hi memo = (let h = H (0x01 # fst ?r1 @ fst ?r2)
          in (h, (snd ?r2)(memo_key n lo hi \<mapsto> h)))"
        using False None by (subst subtree.simps) (simp add: Let_def)
      have "mth H (slice lo hi ls) = H (0x01 # fst ?r1 @ fst ?r2)"
        using mth_slice_split [of hi lo ls H] False "1.prems" r1 r2 by simp
      then show ?thesis
        unfolding eq using r2(2) "1.prems" by (auto simp: Let_def simp del: fun_upd_apply intro!: memo_ok_upd)
    qed
  qed
qed

lemma tree_walk_correct:
  "memo_ok H ls memo \<Longrightarrow> lo < hi \<Longrightarrow> hi \<le> length ls \<Longrightarrow> n = length ls \<Longrightarrow> lo \<le> index \<Longrightarrow> index < hi
   \<Longrightarrow> fst (tree_walk H ls n index lo hi memo) = mpath H (slice lo hi ls) (index - lo)
     \<and> memo_ok H ls (snd (tree_walk H ls n index lo hi memo))"
proof (induction H ls n index lo hi memo rule: tree_walk.induct)
  case (1 H ls n index lo hi memo)
  show ?case
  proof (cases "hi - lo \<le> 1")
    case True
    then have "min (hi - lo) (length ls - lo) \<le> Suc 0" by simp
    with True 1 show ?thesis by (simp add: tree_walk.simps mpath.simps)
  next
    case False
    let ?k = "msplit (hi - lo)"
    have k: "0 < ?k" "?k < hi - lo" using False msplit_bounds [of "hi - lo"] by auto
    have len: "length (slice lo hi ls) = hi - lo" using "1.prems" by simp
    have t: "take ?k (slice lo hi ls) = slice lo (lo + ?k) ls"
      using k by (simp add: slice_def min_def)
    have d: "drop ?k (slice lo hi ls) = slice (lo + ?k) hi ls"
      by (simp add: slice_def drop_take add.commute)
    show ?thesis
    proof (cases "index < lo + ?k")
      case True
      obtain out m1 where w: "tree_walk H ls n index lo (lo + ?k) memo = (out, m1)" by fastforce
      then have o: "out = mpath H (slice lo (lo + ?k) ls) (index - lo)" "memo_ok H ls m1"
        using 1(1) [OF False refl True] "1.prems" k True by auto
      obtain s m2 where st: "subtree H ls n (lo + ?k) hi m1 = (s, m2)" by fastforce
      then have s: "s = mth H (slice (lo + ?k) hi ls)" "memo_ok H ls m2"
        using subtree_correct [OF o(2), of "lo + ?k" hi n] "1.prems" k by auto
      have "tree_walk H ls n index lo hi memo = (out @ [s], m2)"
        using False True w st by (subst tree_walk.simps) (simp add: Let_def)
      moreover have "index - lo < msplit (length (slice lo hi ls))" using True len k "1.prems" by simp
      ultimately show ?thesis
        using mpath_left [of "slice lo hi ls" "index - lo" H] len t d False o s by simp
    next
      case F: False
      obtain out m1 where w: "tree_walk H ls n index (lo + ?k) hi memo = (out, m1)" by fastforce
      then have o: "out = mpath H (slice (lo + ?k) hi ls) (index - (lo + ?k))" "memo_ok H ls m1"
        using 1(2) [OF False refl F] "1.prems" k F by auto
      obtain s m2 where st: "subtree H ls n lo (lo + ?k) m1 = (s, m2)" by fastforce
      then have s: "s = mth H (slice lo (lo + ?k) ls)" "memo_ok H ls m2"
        using subtree_correct [OF o(2), of lo "lo + ?k" n] "1.prems" k by auto
      have "tree_walk H ls n index lo hi memo = (out @ [s], m2)"
        using False F w st by (subst tree_walk.simps) (simp add: Let_def)
      moreover have "\<not> index - lo < msplit (length (slice lo hi ls))" using F len "1.prems" by simp
      ultimately show ?thesis
        using mpath_right [of "slice lo hi ls" "index - lo" H] len t d False o s by simp
    qed
  qed
qed

text \<open>A known root is right when it is the root of its range.\<close>

definition known_right :: "hashfun \<Rightarrow> bytes list \<Rightarrow> known_root \<Rightarrow> bool" where
  "known_right H ls k \<longleftrightarrow> kr_hash k = mth H (slice (nat (kr_lo k)) (nat (kr_hi k)) ls)"

lemma seed_memo_ok:
  "memo_ok H ls memo \<Longrightarrow> \<forall>k \<in> set ks. known_right H ls k \<Longrightarrow> seed_memo (length ls) ks memo = Inr memo'
   \<Longrightarrow> memo_ok H ls memo'"
proof (induction ks arbitrary: memo)
  case (Cons k ks)
  then have "memo_ok H ls (memo(memo_key (length ls) (nat (kr_lo k)) (nat (kr_hi k)) \<mapsto> kr_hash k))"
    by (intro memo_ok_upd) (auto simp: known_right_def known_bad_def split: if_splits)
  with Cons show ?case by (auto split: if_splits)
qed simp

definition tree_ok :: "hashfun \<Rightarrow> merkle_tree \<Rightarrow> bool" where
  "tree_ok H t \<longleftrightarrow> mt_leafHashes t \<noteq> [] \<and> (\<forall>h \<in> set (mt_leafHashes t). length h = 32)
     \<and> mt_size t = length (mt_leafHashes t) \<and> memo_ok H (mt_leafHashes t) (mt_memo t)
     \<and> mt_root t = mth H (mt_leafHashes t)"

lemma new_MerkleTree_ok:
  assumes "new_MerkleTree H ls known = Inr t" and "\<forall>k \<in> set known. known_right H ls k"
  shows "tree_ok H t \<and> mt_leafHashes t = ls"
proof -
  have ls: "ls \<noteq> []" "\<forall>h \<in> set ls. length h = 32"
    using assms(1) by (auto simp: new_MerkleTree_def split: if_splits)
  obtain memo where memo: "seed_memo (length ls) known Map.empty = Inr memo"
    using assms(1) ls by (auto simp: new_MerkleTree_def split: if_splits)
  have "memo_ok H ls Map.empty" by (simp add: memo_ok_def)
  then have ok: "memo_ok H ls memo" using assms(2) memo by (rule seed_memo_ok)
  show ?thesis
    using assms(1) ls memo subtree_correct [OF ok, of 0 "length ls" "length ls"]
    by (auto simp: new_MerkleTree_def tree_ok_def Let_def split: prod.splits)
qed

lemma tree_path_ok:
  assumes "tree_ok H t"
  shows "(case tree_path H t index of
            Inl e \<Rightarrow> merklePath H (mt_leafHashes t) index = Inl e
          | Inr (out, t') \<Rightarrow> merklePath H (mt_leafHashes t) index = Inr out \<and> tree_ok H t'
              \<and> mt_leafHashes t' = mt_leafHashes t)"
proof (cases "index < 0 \<or> int (mt_size t) \<le> index")
  case True
  with assms show ?thesis by (auto simp: tree_path_def merklePath_def tree_ok_def)
next
  case False
  let ?ls = "mt_leafHashes t"
  have i: "nat index < length ?ls" "index = int (nat index)" using False assms by (auto simp: tree_ok_def)
  have ok: "memo_ok H ?ls (mt_memo t)" "\<forall>h \<in> set ?ls. length h = 32" "mt_size t = length ?ls" "?ls \<noteq> []"
    using assms by (auto simp: tree_ok_def)
  obtain out m where w: "tree_walk H ?ls (mt_size t) (nat index) 0 (mt_size t) (mt_memo t) = (out, m)"
    by fastforce
  then have "out = mpath H ?ls (nat index)" "memo_ok H ?ls m"
    using tree_walk_correct [OF ok(1), of 0 "length ?ls" "length ?ls" "nat index"] i ok(3,4) by auto
  moreover have "merklePath H ?ls index = Inr (mpath H ?ls (nat index))"
    using merklePath_eq [OF ok(2) i(1), of H] i(2) by simp
  ultimately show ?thesis
    using False w assms by (auto simp: tree_path_def tree_ok_def)
qed

lemma length_mpath: "xs \<noteq> [] \<Longrightarrow> length xs \<le> 2 ^ d \<Longrightarrow> length (mpath H xs i) \<le> d"
proof (induction d arbitrary: xs i)
  case 0
  then show ?case by (cases xs) (auto simp: mpath.simps)
next
  case (Suc d)
  show ?case
  proof (cases "length xs \<le> 1")
    case True
    then show ?thesis by (simp add: mpath.simps)
  next
    case False
    then have n: "2 \<le> length xs" by simp
    obtain e where e: "msplit (length xs) = 2 ^ e" "2 ^ e < length xs" "length xs \<le> 2 ^ Suc e"
      using msplit_pow [OF n] by auto
    have "(2 :: nat) ^ e < 2 ^ Suc d" using e(2) Suc.prems(2) by linarith
    then have "e \<le> d" by (simp only: power_strict_increasing_iff less_Suc_eq_le)
    then have "(2 :: nat) ^ e \<le> 2 ^ d" by simp
    moreover have "length xs \<le> 2 ^ e + 2 ^ e" using e(3) by simp
    ultimately have half: "length (take (2 ^ e) xs) \<le> 2 ^ d" "length (drop (2 ^ e) xs) \<le> 2 ^ d"
      by (simp_all only: length_take length_drop)
    have ne: "take (2 ^ e) xs \<noteq> []" "drop (2 ^ e) xs \<noteq> []" using e(2) Suc.prems(1) by auto
    show ?thesis
      using Suc.IH [OF ne(1) half(1)] Suc.IH [OF ne(2) half(2)] e(1) n
      by (cases "i < msplit (length xs)") (simp_all add: mpath_left mpath_right)
  qed
qed

subsection \<open>Properties\<close>

definition demo_leaves :: "bytes list" where
  "demo_leaves = [replicate 32 1, replicate 32 2, replicate 32 3]"

text \<open>C18: the path \<open>merklePath\<close> makes for any leaf of any committed list of up to \<open>2 ^ 32\<close> leaves
  is accepted: \<open>merkleRootFromPath\<close> recomputes exactly the root \<open>merkleRoot\<close> gave (the bitwise
  RFC 9162 loop agrees with the RFC 6962 recursion).\<close>

theorem merkle_inclusion_complete:
  assumes "hash32 H" and "merkleRoot H ls = Inr r" and "i < length ls" and "length ls \<le> 2 ^ 32"
  shows "\<exists>p. merklePath H ls (int i) = Inr p
    \<and> merkleRootFromPath H (ls ! i) (int i) (int (length ls)) p = Some r"
proof -
  have "\<forall>l \<in> set ls. length l = 32" using assms(2) by (simp add: merkleRoot_eq_Inr)
  then show ?thesis
    using merkle.complete [of ls i H] assms by (auto simp: res_simps)
qed

lemma merkleRoot_demo: "merkleRoot demo_hash demo_leaves = Inr (replicate 32 7)"
proof -
  have "mth demo_hash demo_leaves = replicate 32 7"
    by (subst mth_split) (simp_all add: demo_leaves_def merkleNodeHash_def demo_hash_def)
  then show ?thesis by (subst merkleRoot_eq) (simp_all add: demo_leaves_def)
qed

theorem merkle_inclusion_complete_witness:
  "\<exists>p. merklePath demo_hash demo_leaves (int 2) = Inr p
    \<and> merkleRootFromPath demo_hash (demo_leaves ! 2) (int 2) (int (length demo_leaves)) p
      = Some (replicate 32 7)"
  by (rule merkle_inclusion_complete [OF demo_hash32 merkleRoot_demo]) (simp_all add: demo_leaves_def)

text \<open>C17: an accepted path binds the leaf, its index and the path itself: if
  \<open>merkleRootFromPath\<close> returns the committed root for some leaf hash at some index of the list's
  size, and no two of the inner-node inputs hashed on the way clash, then the index is inside the
  list, the leaf hash is the one at that index and the path is the one \<open>merklePath\<close> makes.\<close>

theorem merkle_inclusion_binding:
  assumes "hash32 H" and "merkleRoot H ls = Inr r" and "length ls \<le> 2 ^ 32"
    and "merkle_no_clash H ls i leaf p"
    and "merkleRootFromPath H leaf (int i) (int (length ls)) p = Some r"
  shows "i < length ls \<and> leaf = ls ! i \<and> merklePath H ls (int i) = Inr p"
  using merkle.binding [of H ls r i leaf p] assms by (simp add: res_simps)

theorem merkle_inclusion_binding_witness:
  defines "ls \<equiv> [replicate 32 1, replicate 32 2 :: bytes]"
  shows "(1 :: nat) < length ls \<and> replicate 32 2 = ls ! 1
    \<and> merklePath demo_hash ls (int 1) = Inr [replicate 32 1]"
proof (rule merkle_inclusion_binding [where r = "replicate 32 7"])
  have s: "msplit 2 = 1" using msplit_bounds [of 2] by simp
  have l: "length ls = 2" "take 1 ls = [replicate 32 1]" "drop 1 ls = [replicate 32 2]"
    by (simp_all add: ls_def)
  have r: "mth demo_hash ls = replicate 32 7"
    by (subst mth_split) (simp_all add: l(1) merkleNodeHash_def demo_hash_def)
  then show "merkleRoot demo_hash ls = Inr (replicate 32 7)"
    by (subst merkleRoot_eq) (simp_all add: ls_def)
  have "mth_inputs demo_hash ls = [0x01 # replicate 32 1 @ replicate 32 2]"
    by (subst mth_inputs_split) (simp_all add: l s mth_inputs.simps del: One_nat_def)
  moreover have "mroot_inputs demo_hash 2 1 (replicate 32 2) [replicate 32 1]
      = [0x01 # replicate 32 1 @ replicate 32 2]"
    by (subst mroot_inputs_right [where s = "replicate 32 2"]) (simp_all add: s mroot_inputs.simps)
  ultimately show "merkle_no_clash demo_hash ls 1 (replicate 32 2) [replicate 32 1]"
    by (simp add: merkle_no_clash_def l)
  show "merkleRootFromPath demo_hash (replicate 32 2) (int 1) (int (length ls)) [replicate 32 1]
      = Some (replicate 32 7)"
    by (simp add: ls_def merkleRootFromPath_def merkleNodeHash_def demo_hash_def ushr1_def)
qed (simp_all add: ls_def)

text \<open>an inclusion path is short: for a list of at most \<open>2 ^ d\<close> leaves \<open>merklePath\<close> returns at
  most \<open>d\<close> siblings, as the module's comment promises.\<close>

lemma merklePath_short:
  assumes "\<forall>h \<in> set ls. length h = 32" and "i < length ls" and "length ls \<le> 2 ^ d"
  shows "\<exists>p. merklePath H ls (int i) = Inr p \<and> length p \<le> d"
proof -
  have "ls \<noteq> []" using assms(2) by auto
  then show ?thesis
    using length_mpath [of ls d H i] assms by (simp add: merklePath_eq)
qed

text \<open>C19: the memoising class \<open>MerkleTree\<close> agrees with the plain functions: built with any set of
  correct known subtree roots, its root is \<open>merkleRoot\<close>'s, and its path for every index, in range
  or not, is \<open>merklePath\<close>'s result or error, whatever the memo already holds; asking leaves the
  tree well formed, so the same is true of every later call.\<close>

theorem MerkleTree_equiv:
  assumes "new_MerkleTree H ls known = Inr t" and "\<forall>k \<in> set known. known_right H ls k"
  shows "merkleRoot H ls = Inr (mt_root t)
    \<and> (case tree_path H t index of
         Inl e \<Rightarrow> merklePath H ls index = Inl e
       | Inr (out, t') \<Rightarrow> merklePath H ls index = Inr out \<and> tree_ok H t' \<and> mt_root t' = mt_root t)"
proof -
  have ok: "tree_ok H t" "mt_leafHashes t = ls" using new_MerkleTree_ok [OF assms] by auto
  then have r: "merkleRoot H ls = Inr (mt_root t)" by (auto simp: tree_ok_def merkleRoot_eq)
  show ?thesis
  proof (cases "tree_path H t index")
    case (Inl e)
    with r tree_path_ok [OF ok(1), of index] ok(2) show ?thesis by simp
  next
    case (Inr ot)
    then obtain out t' where "ot = (out, t')" by (cases ot)
    with Inr r tree_path_ok [OF ok(1), of index] ok show ?thesis by (auto simp: tree_ok_def)
  qed
qed

theorem MerkleTree_equiv_witness:
  "\<exists>t. new_MerkleTree demo_hash demo_leaves [\<lparr>kr_lo = 0, kr_hi = 2, kr_hash = replicate 32 7\<rparr>] = Inr t
    \<and> merkleRoot demo_hash demo_leaves = Inr (mt_root t)"
proof -
  let ?known = "[\<lparr>kr_lo = 0, kr_hi = 2, kr_hash = replicate 32 7\<rparr>]"
  have "\<exists>t. new_MerkleTree demo_hash demo_leaves ?known = Inr t"
    by (auto simp: new_MerkleTree_def demo_leaves_def known_bad_def split: prod.splits)
  then obtain t where t: "new_MerkleTree demo_hash demo_leaves ?known = Inr t" ..
  have "\<forall>k \<in> set ?known. known_right demo_hash demo_leaves k"
    by (simp add: known_right_def slice_def demo_leaves_def mth_split merkleNodeHash_def demo_hash_def)
  with t show ?thesis using MerkleTree_equiv [OF t] by blast
qed

end
