(* ===== verification/BG_Rlp.thy ===== *)
theory BG_Rlp
  imports BG_Interfaces
begin

text \<open>
  RLP as \<^verbatim>\<open>packages/verify/src/ceiling-evm.ts\<close> writes and strictly reads it: an item is a byte
  string or a list of items; the decoder walks the input by position and refuses every
  non-canonical form.

  The mutually recursive decoder carries fuel. A call at position \<open>pos\<close> needs at most
  \<open>3 * (length bytes - pos) + 1\<close> units, and \<open>rlpDecode\<close> gives more than that,
  so running out is never observed. Lengths are exact naturals: in JavaScript a length field of
  seven or eight bytes may be rounded, but only above \<open>2 ^ 53\<close>, where every bound check that
  follows already fails.
\<close>

datatype rlp = RBytes bytes | RList "rlp list"

subsection \<open>The code\<close>

definition encodeLength :: "nat \<Rightarrow> nat \<Rightarrow> bytes" where
  "encodeLength len offset =
     (if len < 56 then [of_nat (offset + len)]
      else let lenBytes = be_bytes len in of_nat (offset + 55 + length lenBytes) # lenBytes)"

fun rlpEncode :: "rlp \<Rightarrow> bytes" where
  "rlpEncode (RBytes b) =
     (if length b = 1 \<and> hd b < 0x80 then b else encodeLength (length b) 0x80 @ b)"
| "rlpEncode (RList items) =
     (let body = concat (map rlpEncode items) in encodeLength (length body) 0xc0 @ body)"

definition readLength :: "bytes \<Rightarrow> nat \<Rightarrow> nat \<Rightarrow> nat res" where
  "readLength bytes pos lenOfLen =
     (if length bytes < pos + lenOfLen then Inl (TypeError ''rlp: truncated length'')
      else if js_at bytes pos = Some 0 then Inl (TypeError ''rlp: length with a leading zero'')
      else let n = be_val (slice pos (pos + lenOfLen) bytes)
           in if n < 56 then Inl (TypeError ''rlp: long form for a short length'') else Inr n)"

text \<open>\<open>decodeItems\<close> is the loop \<^verbatim>\<open>while (p < end)\<close> of the list branch; it returns the items and
  the final \<open>p\<close>.\<close>

fun decodeAt :: "nat \<Rightarrow> bytes \<Rightarrow> nat \<Rightarrow> (rlp \<times> nat) res"
  and decodeItems :: "nat \<Rightarrow> bytes \<Rightarrow> nat \<Rightarrow> nat \<Rightarrow> (rlp list \<times> nat) res"
  and decodeList :: "nat \<Rightarrow> bytes \<Rightarrow> nat \<Rightarrow> nat \<Rightarrow> (rlp \<times> nat) res" where
  "decodeAt 0 bytes pos = Inl (JsError ''out of fuel'')"
| "decodeAt (Suc fuel) bytes pos =
     (if length bytes \<le> pos then Inl (TypeError ''rlp: truncated'')
      else let b = unat (bytes ! pos) in
        if b < 0x80 then Inr (RBytes (slice pos (pos + 1) bytes), pos + 1)
        else if b \<le> 0xb7 then
          (let len = b - 0x80; end1 = pos + 1 + len in
            if length bytes < end1 then Inl (TypeError ''rlp: truncated string'')
            else if len = 1 \<and> bytes ! (pos + 1) < 0x80
            then Inl (TypeError ''rlp: single byte should encode as itself'')
            else Inr (RBytes (slice (pos + 1) end1 bytes), end1))
        else if b \<le> 0xbf then
          (let lenOfLen = b - 0xb7 in
            rbind (readLength bytes (pos + 1) lenOfLen) (\<lambda>len.
              let start = pos + 1 + lenOfLen in
              if length bytes < start + len then Inl (TypeError ''rlp: truncated string'')
              else Inr (RBytes (slice start (start + len) bytes), start + len)))
        else if b \<le> 0xf7 then decodeList fuel bytes (pos + 1) (b - 0xc0)
        else let lenOfLen = b - 0xf7 in
          rbind (readLength bytes (pos + 1) lenOfLen) (\<lambda>len.
            decodeList fuel bytes (pos + 1 + lenOfLen) len))"
| "decodeList 0 bytes start len = Inl (JsError ''out of fuel'')"
| "decodeList (Suc fuel) bytes start len =
     (let end1 = start + len in
      if length bytes < end1 then Inl (TypeError ''rlp: truncated list'')
      else rbind (decodeItems fuel bytes start end1) (\<lambda>(items, p).
        if p \<noteq> end1 then Inl (TypeError ''rlp: list overran its length'')
        else Inr (RList items, end1)))"
| "decodeItems 0 bytes p end1 = Inl (JsError ''out of fuel'')"
| "decodeItems (Suc fuel) bytes p end1 =
     (if p < end1
      then rbind (decodeAt fuel bytes p) (\<lambda>(it, nxt).
           rbind (decodeItems fuel bytes nxt end1) (\<lambda>(items, q). Inr (it # items, q)))
      else Inr ([], p))"

definition rlpDecode :: "bytes \<Rightarrow> rlp res" where
  "rlpDecode bytes =
     rbind (decodeAt (3 * length bytes + 3) bytes 0) (\<lambda>(item, end1).
       if end1 \<noteq> length bytes then Inl (TypeError ''rlp: trailing bytes'') else Inr item)"

definition asBytes :: "rlp option \<Rightarrow> string \<Rightarrow> bytes res" where
  "asBytes item what = (case item of Some (RBytes b) \<Rightarrow> Inr b
     | _ \<Rightarrow> Inl (TypeError (what @ '': expected a byte string'')))"

definition asList :: "rlp option \<Rightarrow> string \<Rightarrow> rlp list res" where
  "asList item what = (case item of Some (RList l) \<Rightarrow> Inr l
     | _ \<Rightarrow> Inl (TypeError (what @ '': expected a list'')))"

definition rlpUint :: "rlp option \<Rightarrow> string \<Rightarrow> nat res" where
  "rlpUint item what = rbind (asBytes item what) (\<lambda>b.
     if b \<noteq> [] \<and> hd b = 0 then Inl (TypeError (what @ '': integer with a leading zero''))
     else Inr (be_val b))"

subsection \<open>Encodings and their first byte\<close>

text \<open>Lengths the eight-byte length field can hold. Every JavaScript array is shorter.\<close>

fun rlp_ok :: "rlp \<Rightarrow> bool" where
  "rlp_ok (RBytes b) \<longleftrightarrow> length b < 256 ^ 8"
| "rlp_ok (RList items) \<longleftrightarrow> (\<forall>it \<in> set items. rlp_ok it) \<and> length (concat (map rlpEncode items)) < 256 ^ 8"

lemma encodeLength_nonempty [simp]: "encodeLength n off \<noteq> []"
  by (simp add: encodeLength_def Let_def)

lemma rlpEncode_nonempty [simp]: "rlpEncode x \<noteq> []"
  by (cases x) (auto simp: Let_def)

lemma be_bytes_length_pos: "n \<noteq> 0 \<Longrightarrow> 0 < length (be_bytes n)"
  by simp

lemma unat_of_nat_lt256: "n < 256 \<Longrightarrow> unat (of_nat n :: byte) = n"
  by (simp add: unat_of_nat take_bit_eq_mod)

text \<open>Reading back a length field.\<close>

lemma readLength_encode:
  assumes "56 \<le> n"
  shows "readLength (pre @ be_bytes n @ post) (length pre) (length (be_bytes n)) = Inr n"
proof -
  have ne: "be_bytes n \<noteq> []" using assms by simp
  have "js_at (pre @ be_bytes n @ post) (length pre) = Some (hd (be_bytes n))"
    using ne by (cases "be_bytes n") auto
  then show ?thesis
    using assms hd_be_bytes [of n] by (auto simp: readLength_def Let_def)
qed

lemma readLength_sound:
  assumes "readLength bytes pos lol = Inr n" and "0 < lol"
  shows "be_bytes n = slice pos (pos + lol) bytes \<and> 56 \<le> n \<and> pos + lol \<le> length bytes"
proof -
  have b: "pos + lol \<le> length bytes" "js_at bytes pos \<noteq> Some 0"
      "n = be_val (slice pos (pos + lol) bytes)" "56 \<le> n"
    using assms by (auto simp: readLength_def Let_def split: if_splits)
  have "slice pos (pos + lol) bytes \<noteq> [] \<Longrightarrow> hd (slice pos (pos + lol) bytes) = bytes ! pos"
    using b(1) assms(2) by (simp add: slice_def hd_drop_conv_nth)
  then have "slice pos (pos + lol) bytes = [] \<or> hd (slice pos (pos + lol) bytes) \<noteq> 0"
    using b assms(2) by (auto simp: js_at_def)
  then show ?thesis using be_bytes_be_val b by simp
qed

subsection \<open>Soundness: what decodes is exactly the encoding that was read\<close>

lemma byte_of_unat: "n = unat (b :: byte) \<Longrightarrow> of_nat n = b"
  by simp

lemma encodeLength_short: "n < 56 \<Longrightarrow> unat b = off + n \<Longrightarrow> encodeLength n off = [b]"
  by (auto simp: encodeLength_def simp del: of_nat_add intro!: byte_of_unat)

lemma encodeLength_long:
  "56 \<le> n \<Longrightarrow> unat b = off + 55 + length (be_bytes n) \<Longrightarrow> encodeLength n off = b # be_bytes n"
  by (auto simp: encodeLength_def Let_def simp del: of_nat_add intro!: byte_of_unat)

lemma readLength_head:
  assumes r: "readLength bytes (pos + 1) lol = Inr n" and "0 < lol" "lol \<le> 8" "pos < length bytes"
    and off: "unat (bytes ! pos) = off + 55 + lol"
  shows "encodeLength n off = slice pos (pos + 1 + lol) bytes \<and> pos + 1 + lol \<le> length bytes \<and> n < 256 ^ 8"
proof -
  have s: "be_bytes n = slice (pos + 1) (pos + 1 + lol) bytes" "56 \<le> n" "pos + 1 + lol \<le> length bytes"
    using readLength_sound [OF r assms(2)] by auto
  have len: "length (be_bytes n) = lol" using s by simp
  have "be_val (be_bytes n) < 256 ^ length (be_bytes n)" by (rule be_val_bound)
  also have "\<dots> \<le> 256 ^ 8" using assms(3) len by (intro power_increasing) simp_all
  finally have "n < 256 ^ 8" by simp
  moreover have "encodeLength n off = bytes ! pos # be_bytes n"
    using s(2) off len by (intro encodeLength_long) simp_all
  ultimately show ?thesis using s assms(4) by (simp add: slice_Cons [of pos])
qed

lemma decode_sound:
  "decodeAt fuel bytes pos = Inr (x, n) \<Longrightarrow>
     pos < n \<and> n \<le> length bytes \<and> rlpEncode x = slice pos n bytes \<and> rlp_ok x"
  "decodeItems fuel bytes p e = Inr (xs, q) \<Longrightarrow> p \<le> length bytes \<Longrightarrow>
     p \<le> q \<and> q \<le> length bytes \<and> e \<le> q \<and> concat (map rlpEncode xs) = slice p q bytes
     \<and> (\<forall>it \<in> set xs. rlp_ok it)"
  "decodeList fuel bytes start len = Inr (x, n) \<Longrightarrow>
     n = start + len \<and> n \<le> length bytes \<and> (\<exists>items. x = RList items
       \<and> concat (map rlpEncode items) = slice start n bytes \<and> (\<forall>it \<in> set items. rlp_ok it))"
proof (induction fuel bytes pos and fuel bytes p e and fuel bytes start len
    arbitrary: x n and xs q and x n rule: decodeAt_decodeItems_decodeList.induct)
  case (2 fuel bytes pos)
  let ?b = "unat (bytes ! pos)"
  have pos: "pos < length bytes" using "2.prems" by (auto split: if_splits)
  have b256: "?b < 256" by simp
  consider (single) "?b < 0x80" | (sstr) "0x80 \<le> ?b" "?b \<le> 0xb7" | (lstr) "0xb7 < ?b" "?b \<le> 0xbf"
    | (slist) "0xbf < ?b" "?b \<le> 0xf7" | (llist) "0xf7 < ?b"
    by linarith
  then show ?case
  proof cases
    case single
    then have "bytes ! pos < 0x80" by (simp add: word_less_nat_alt)
    with single pos "2.prems" show ?thesis by (auto simp: Let_def slice_single split: if_splits)
  next
    case sstr
    then have d: "x = RBytes (slice (pos + 1) (pos + 1 + (?b - 0x80)) bytes)" "n = pos + 1 + (?b - 0x80)"
        "n \<le> length bytes" "\<not> (?b - 0x80 = 1 \<and> bytes ! (pos + 1) < 0x80)"
      using pos "2.prems" by (auto simp: Let_def split: if_splits)
    have l: "length (slice (pos + 1) n bytes) = ?b - 0x80" using d by simp
    have h: "?b - 0x80 = 1 \<Longrightarrow> hd (slice (pos + 1) n bytes) = bytes ! (pos + 1)"
      using d(2,3) by (simp add: slice_def hd_drop_conv_nth)
    have "rlpEncode x = encodeLength (?b - 0x80) 0x80 @ slice (pos + 1) n bytes"
      using d l h by (auto simp: Let_def)
    also have "encodeLength (?b - 0x80) 0x80 = [bytes ! pos]"
      using sstr by (intro encodeLength_short) auto
    finally have "rlpEncode x = slice pos n bytes"
      using d(2) pos sstr(1) by (simp add: slice_Cons [of pos])
    moreover have "pos < n" using d(2) by linarith
    moreover have "rlp_ok x" using d(1,2) l sstr(2) by simp
    ultimately show ?thesis using d(3) by simp
  next
    case lstr
    then obtain m where m: "readLength bytes (pos + 1) (?b - 0xb7) = Inr m"
        "n = pos + 1 + (?b - 0xb7) + m" "n \<le> length bytes"
        "x = RBytes (slice (pos + 1 + (?b - 0xb7)) n bytes)"
      using pos "2.prems" by (auto simp: Let_def res_simps split: if_splits)
    have e: "encodeLength m 0x80 = slice pos (pos + 1 + (?b - 0xb7)) bytes" "m < 256 ^ 8" "56 \<le> m"
      using readLength_head [OF m(1), where off = "0x80"] readLength_sound [OF m(1)] lstr pos by auto
    have "rlpEncode x = encodeLength m 0x80 @ slice (pos + 1 + (?b - 0xb7)) n bytes"
      using m e(3) by simp
    then show ?thesis using e m by (simp add: slice_split)
  next
    case slist
    then have dl: "decodeList fuel bytes (pos + 1) (?b - 0xc0) = Inr (x, n)"
      using pos "2.prems" by (auto simp: Let_def)
    obtain items where it: "n = pos + 1 + (?b - 0xc0)" "n \<le> length bytes" "x = RList items"
        "concat (map rlpEncode items) = slice (pos + 1) n bytes" "\<forall>it \<in> set items. rlp_ok it"
      using "2.IH"(1) [OF _ refl _ _ _ _ dl] slist pos by auto
    have "encodeLength (?b - 0xc0) 0xc0 = [bytes ! pos]"
      using slist by (intro encodeLength_short) auto
    moreover have lt: "pos < n" using it(1) by linarith
    moreover have "length (concat (map rlpEncode items)) = ?b - 0xc0" using it by simp
    moreover have "?b - 0xc0 < 256 ^ 8" using slist(2) by simp
    ultimately show ?thesis using it(2-5) pos by (simp add: Let_def slice_Cons [OF lt])
  next
    case llist
    then obtain m where m: "readLength bytes (pos + 1) (?b - 0xf7) = Inr m"
        and dl: "decodeList fuel bytes (pos + 1 + (?b - 0xf7)) m = Inr (x, n)"
      using pos "2.prems" by (auto simp: Let_def res_simps)
    have e: "encodeLength m 0xc0 = slice pos (pos + 1 + (?b - 0xf7)) bytes" "m < 256 ^ 8"
      using readLength_head [OF m, where off = "0xc0"] llist pos b256 by auto
    obtain items where it: "n = pos + 1 + (?b - 0xf7) + m" "n \<le> length bytes" "x = RList items"
        "concat (map rlpEncode items) = slice (pos + 1 + (?b - 0xf7)) n bytes" "\<forall>it \<in> set items. rlp_ok it"
      using "2.IH"(2) [OF _ refl _ _ _ _ refl m dl] llist pos by auto
    have "length (concat (map rlpEncode items)) = m" using it by simp
    then show ?thesis using it e pos by (simp add: Let_def slice_split)
  qed
next
  case (4 fuel bytes start len)
  then show ?case by (auto simp: Let_def res_simps split: if_splits)
next
  case (6 fuel bytes p e)
  show ?case
  proof (cases "p < e")
    case True
    then obtain it nxt items where d: "decodeAt fuel bytes p = Inr (it, nxt)"
        "decodeItems fuel bytes nxt e = Inr (items, q)" "xs = it # items"
      using "6.prems" by (auto simp: res_simps)
    note a = "6.IH"(1) [OF True d(1)]
    then have "nxt \<le> length bytes" by simp
    note b = "6.IH"(2) [OF True d(1) refl d(2) this]
    show ?thesis using a b d(3) by (auto simp: slice_split)
  next
    case False
    with "6.prems" show ?thesis by (auto simp: slice_def)
  qed
qed simp_all

subsection \<open>Fuel is enough\<close>

lemma decode_enough:
  "3 * (length bytes - pos) + 1 \<le> fuel \<Longrightarrow> decodeAt fuel bytes pos \<noteq> Inl (JsError ''out of fuel'')"
  "3 * (length bytes - p) + 2 \<le> fuel \<Longrightarrow> e \<le> length bytes \<Longrightarrow>
     decodeItems fuel bytes p e \<noteq> Inl (JsError ''out of fuel'')"
  "3 * (length bytes - start) + 3 \<le> fuel \<Longrightarrow> decodeList fuel bytes start len \<noteq> Inl (JsError ''out of fuel'')"
proof (induction fuel bytes pos and fuel bytes p e and fuel bytes start len
    rule: decodeAt_decodeItems_decodeList.induct)
  case (2 fuel bytes pos)
  show ?case
  proof (cases "length bytes \<le> pos")
    case False
    then have f: "3 * (length bytes - (pos + 1 + k)) + 3 \<le> fuel" for k
      using "2.prems" by linarith
    have "decodeList fuel bytes (pos + 1) (unat (bytes ! pos) - 192) \<noteq> Inl (JsError ''out of fuel'')"
      if "\<not> unat (bytes ! pos) < 128" "\<not> unat (bytes ! pos) \<le> 183" "\<not> unat (bytes ! pos) \<le> 191"
        "unat (bytes ! pos) \<le> 247"
      using "2.IH"(1) [OF False refl] that f [of 0] by simp
    moreover have "decodeList fuel bytes (pos + 1 + (unat (bytes ! pos) - 247)) len \<noteq> Inl (JsError ''out of fuel'')"
      if "\<not> unat (bytes ! pos) < 128" "\<not> unat (bytes ! pos) \<le> 183" "\<not> unat (bytes ! pos) \<le> 191"
        "\<not> unat (bytes ! pos) \<le> 247" "readLength bytes (pos + 1) (unat (bytes ! pos) - 247) = Inr len" for len
      using "2.IH"(2) [OF False refl _ _ _ _ refl] that f [of "unat (bytes ! pos) - 247"] by simp
    ultimately show ?thesis
      using False by (auto simp: Let_def res_simps readLength_def split: if_splits)
  qed simp
next
  case (4 fuel bytes start len)
  then show ?case by (auto simp: Let_def res_simps split: if_splits prod.splits)
next
  case (6 fuel bytes p e)
  show ?case
  proof (cases "p < e")
    case True
    have a: "decodeAt fuel bytes p \<noteq> Inl (JsError ''out of fuel'')"
      using "6.IH"(1) True "6.prems" by simp
    have "decodeItems fuel bytes nxt e \<noteq> Inl (JsError ''out of fuel'')"
      if d: "decodeAt fuel bytes p = Inr (it, nxt)" for it nxt
    proof -
      have "p < nxt" using decode_sound(1) [OF d] by simp
      then have "3 * (length bytes - nxt) + 2 \<le> fuel" using "6.prems" True by linarith
      then show ?thesis using "6.IH"(2) [OF True d refl] "6.prems" by simp
    qed
    with a True show ?thesis by (auto simp: res_simps)
  qed simp
qed simp_all

theorem rlpDecode_fuel: "rlpDecode bytes \<noteq> Inl (JsError ''out of fuel'')"
  using decode_enough(1) [of bytes 0 "3 * length bytes + 3"]
  by (auto simp: rlpDecode_def res_simps split: prod.splits if_splits)

subsection \<open>Completeness: every encoding decodes to its item\<close>

lemma encodeLength_cases:
  assumes "n < 256 ^ 8" and "off = 0x80 \<or> off = 0xc0"
  obtains (short) "n < 56" "encodeLength n off = [of_nat (off + n)]" "unat (of_nat (off + n) :: byte) = off + n"
  | (long) L where "56 \<le> n" "L = length (be_bytes n)" "1 \<le> L" "L \<le> 8"
      "encodeLength n off = of_nat (off + 55 + L) # be_bytes n"
      "unat (of_nat (off + 55 + L) :: byte) = off + 55 + L"
proof (cases "n < 56")
  case True
  moreover have "unat (of_nat (off + n) :: byte) = off + n"
    using True assms(2) by (intro unat_of_nat_lt256) auto
  ultimately show ?thesis by (intro short) (simp_all add: encodeLength_def)
next
  case False
  let ?L = "length (be_bytes n)"
  have L: "1 \<le> ?L" "?L \<le> 8" using False length_be_bytes_le [OF assms(1)] by (simp_all add: Suc_le_eq)
  moreover have "unat (of_nat (off + 55 + ?L) :: byte) = off + 55 + ?L"
    using L assms(2) by (intro unat_of_nat_lt256) auto
  ultimately show ?thesis using False by (intro long [of ?L]) (simp_all add: encodeLength_def Let_def)
qed

lemma nth_append_head [simp]: "(pre @ b # xs) ! length pre = b"
  by (simp add: nth_append)

lemma rlpEncode_pos: "0 < length (rlpEncode x)"
  by simp

lemma decode_string:
  assumes "length b < 256 ^ 8"
  shows "decodeAt (Suc fuel) (pre @ rlpEncode (RBytes b) @ post) (length pre)
    = Inr (RBytes b, length pre + length (rlpEncode (RBytes b)))"
proof (cases "length b = 1 \<and> hd b < 0x80")
  case True
  then obtain c where c: "b = [c]" "c < 0x80" by (auto simp: length_Suc_conv)
  then have "unat c < 0x80" by (simp add: word_less_nat_alt)
  with c show ?thesis by (simp add: Let_def slice_single)
next
  case False
  have enc: "rlpEncode (RBytes b) = encodeLength (length b) 0x80 @ b" using False by simp
  have "(0x80 :: nat) = 0x80 \<or> (0x80 :: nat) = 0xc0" by simp
  with assms show ?thesis
  proof (cases rule: encodeLength_cases)
    case short
    let ?h = "of_nat (0x80 + length b) :: byte"
    have h: "unat ?h = 0x80 + length b" using short(3) .
    have ne: "\<not> (length b = 1 \<and> (pre @ ?h # b @ post) ! Suc (length pre) < 0x80)"
      using False by (cases b) (auto simp: nth_append)
    have sl: "slice (Suc (length pre)) (Suc (length pre + length b)) (pre @ ?h # b @ post) = b"
      by (simp add: slice_def)
    show ?thesis
      unfolding enc short(2) using h ne sl short(1) by (simp add: Let_def del: of_nat_add)
  next
    case (long L)
    let ?h = "of_nat (0x80 + 55 + L) :: byte"
    have h: "unat ?h = 0x80 + 55 + L" using long(6) .
    have r: "readLength ((pre @ [?h]) @ be_bytes (length b) @ b @ post) (length (pre @ [?h])) L = Inr (length b)"
      using readLength_encode [OF long(1), of "pre @ [?h]" "b @ post"] long(2) by simp
    have ne: "b \<noteq> []" using long(1) by auto
    have sl: "slice (Suc (length pre + L)) (Suc (length pre + L + length b))
        (pre @ ?h # be_bytes (length b) @ b @ post) = b"
      using long(2) by (simp add: slice_def)
    show ?thesis
      unfolding enc long(5) using h r sl ne long(2-4) by (simp add: Let_def del: of_nat_add)
  qed
qed

lemma decode_list:
  assumes "length body < 256 ^ 8" and "body = concat (map rlpEncode items)"
    and items: "\<And>pre. 2 \<le> fuel \<Longrightarrow> decodeItems fuel (pre @ body @ post) (length pre) (length pre + length body)
      = Inr (items, length pre + length body)" and "2 \<le> fuel"
  shows "decodeAt (Suc (Suc fuel)) (pre @ rlpEncode (RList items) @ post) (length pre)
    = Inr (RList items, length pre + length (rlpEncode (RList items)))"
proof -
  have enc: "rlpEncode (RList items) = encodeLength (length body) 0xc0 @ body"
    using assms(2) by (simp add: Let_def)
  have "(0xc0 :: nat) = 0x80 \<or> (0xc0 :: nat) = 0xc0" by simp
  with assms(1) show ?thesis
  proof (cases rule: encodeLength_cases)
    case short
    let ?h = "of_nat (0xc0 + length body) :: byte"
    have h: "unat ?h = 0xc0 + length body" using short(3) .
    show ?thesis
      unfolding enc short(2) using h items [of "pre @ [?h]"] assms(4) short(1)
      by (simp add: Let_def del: of_nat_add)
  next
    case (long L)
    let ?h = "of_nat (0xc0 + 55 + L) :: byte"
    have h: "unat ?h = 0xc0 + 55 + L" using long(6) .
    have r: "readLength ((pre @ [?h]) @ be_bytes (length body) @ body @ post) (length (pre @ [?h])) L = Inr (length body)"
      using readLength_encode [OF long(1), of "pre @ [?h]" "body @ post"] long(2) by simp
    have ne: "body \<noteq> []" using long(1) by auto
    show ?thesis
      unfolding enc long(5) using h r ne items [of "pre @ ?h # be_bytes (length body)"] assms(4) long(2-4)
      by (simp add: Let_def del: of_nat_add)
  qed
qed

lemma decode_complete:
  "rlp_ok x \<Longrightarrow> 3 * (length (rlpEncode x) + length post) + 1 \<le> fuel \<Longrightarrow>
     decodeAt fuel (pre @ rlpEncode x @ post) (length pre) = Inr (x, length pre + length (rlpEncode x))"
proof (induction x arbitrary: fuel pre post)
  case (RBytes b)
  then obtain f where "fuel = Suc f" by (cases fuel) auto
  with RBytes decode_string show ?case by simp
next
  case (RList items)
  let ?body = "concat (map rlpEncode items)"
  have bl: "length ?body < length (rlpEncode (RList items))" by (simp add: Let_def encodeLength_def)
  then have "5 + 3 * (length ?body + length post) \<le> fuel + 1" using RList.prems(2) by simp
  then obtain f where f: "fuel = Suc (Suc f)" "2 + 3 * (length ?body + length post) \<le> f"
    by (cases fuel; cases "fuel - 1") auto
  have its: "decodeItems g (pre @ concat (map rlpEncode xs) @ post) (length pre)
        (length pre + length (concat (map rlpEncode xs)))
      = Inr (xs, length pre + length (concat (map rlpEncode xs)))"
    if "set xs \<subseteq> set items" "3 * (length (concat (map rlpEncode xs)) + length post) + 2 \<le> g" for xs g pre
    using that
  proof (induction xs arbitrary: g pre)
    case Nil
    then obtain h where "g = Suc h" by (cases g) auto
    then show ?case by simp
  next
    case (Cons y ys)
    then obtain h where h: "g = Suc h" by (cases g) auto
    have y: "y \<in> set items" "rlp_ok y" using Cons.prems RList.prems by auto
    let ?rest = "concat (map rlpEncode ys)"
    obtain k where k: "length (rlpEncode y) = Suc k"
      using rlpEncode_pos [of y] by (cases "length (rlpEncode y)") auto
    have "decodeAt h (pre @ rlpEncode y @ (?rest @ post)) (length pre) = Inr (y, length pre + length (rlpEncode y))"
      using Cons.prems h by (intro RList.IH [OF y]) auto
    moreover have "decodeItems h ((pre @ rlpEncode y) @ ?rest @ post) (length (pre @ rlpEncode y))
        (length (pre @ rlpEncode y) + length ?rest) = Inr (ys, length (pre @ rlpEncode y) + length ?rest)"
      using Cons.prems h k by (intro Cons.IH) auto
    ultimately show ?case using h by (simp add: add.assoc)
  qed
  show ?case
    unfolding f(1) using RList.prems(1) f(2) its [of items] by (intro decode_list) auto
qed

lemma rlpDecode_rlpEncode: "rlp_ok x \<Longrightarrow> rlpDecode (rlpEncode x) = Inr x"
  using decode_complete [of x "[]" "3 * length (rlpEncode x) + 3" "[]"] by (simp add: rlpDecode_def)

lemma rlpDecode_sound: "rlpDecode b = Inr x \<Longrightarrow> rlp_ok x \<and> rlpEncode x = b"
  by (auto simp: rlpDecode_def res_simps dest!: decode_sound(1) split: prod.splits if_splits)

interpretation rlp: strict_codec rlp_ok rlpEncode "\<lambda>b. to_option (rlpDecode b)"
  by unfold_locales (auto simp: res_simps rlpDecode_rlpEncode dest: rlpDecode_sound)

text \<open>A member of a decoded list has a strictly shorter encoding.\<close>

lemma rlpEncode_member_shorter:
  "it \<in> set items \<Longrightarrow> length (rlpEncode it) < length (rlpEncode (RList items))"
proof -
  assume "it \<in> set items"
  then have "length (rlpEncode it) \<le> length (concat (map rlpEncode items))"
    by (auto simp: length_concat intro: member_le_sum_list)
  then show ?thesis by (simp add: Let_def encodeLength_def)
qed

lemma rlpDecode_member_shorter:
  "rlpDecode b = Inr (RList items) \<Longrightarrow> it \<in> set items \<Longrightarrow> length (rlpEncode it) < length b"
  using rlpEncode_member_shorter rlpDecode_sound by metis

lemma rlpEncode_string_le: "length b \<le> length (rlpEncode (RBytes b))"
  by simp

subsection \<open>Properties\<close>

text \<open>C34: RLP round trip and canonicity: \<open>rlpDecode\<close> returns an item exactly for the byte strings
  \<open>rlpEncode\<close> produces, and then it returns that item. So no byte string other than the encoding
  decodes to an item, every accepted string re-encodes to itself, and nothing trailing, truncated,
  over-long or padded is accepted.\<close>

theorem rlp_strict: "rlpDecode b = Inr x \<longleftrightarrow> rlp_ok x \<and> rlpEncode x = b"
  using rlp.dec_iff [of b x] by (simp add: res_simps)

end
