(* ===== verification/BG_Hex.thy ===== *)
theory BG_Hex
  imports BG_Prelude
begin

text \<open>
  Hexadecimal text: \<^verbatim>\<open>hexToBytes\<close> and \<^verbatim>\<open>bytesToHex\<close> of \<^verbatim>\<open>packages/verify/src/ceiling-evm.ts\<close>, and the
  parts of \<^verbatim>\<open>Number.prototype.toString(16)\<close> and \<^verbatim>\<open>String.prototype.padStart\<close> they use.
\<close>

subsection \<open>Hexadecimal text\<close>

definition hex_digit :: "nat \<Rightarrow> char" where
  "hex_digit n = char_of (if n < 10 then 48 + n else 87 + n)"

text \<open>The characters of \<^verbatim>\<open>/[0-9a-fA-F]/\<close> and the digits \<^verbatim>\<open>parseInt(_, 16)\<close> reads them as.\<close>

definition hex_val :: "char \<Rightarrow> nat option" where
  "hex_val c = (let n = of_char c :: nat in
     if 48 \<le> n \<and> n \<le> 57 then Some (n - 48)
     else if 97 \<le> n \<and> n \<le> 102 then Some (n - 87)
     else if 65 \<le> n \<and> n \<le> 70 then Some (n - 55) else None)"

fun hex_pairs :: "string \<Rightarrow> bytes" where
  "hex_pairs (c # d # cs) = of_nat (the (hex_val c) * 16 + the (hex_val d)) # hex_pairs cs"
| "hex_pairs _ = []"

definition hexToBytes :: "string \<Rightarrow> bytes res" where
  "hexToBytes hex =
     (let h0 = (if take 2 hex = ''0x'' \<or> take 2 hex = ''0X'' then drop 2 hex else hex);
          h = (if odd (length h0) then CHR ''0'' # h0 else h0)
      in if \<not> list_all (\<lambda>c. hex_val c \<noteq> None) h then Inl (TypeError ''not hex'') else Inr (hex_pairs h))"

definition hex_byte :: "byte \<Rightarrow> string" where
  "hex_byte b = [hex_digit (unat b div 16), hex_digit (unat b mod 16)]"

definition bytesToHex :: "bytes \<Rightarrow> string" where
  "bytesToHex bs = ''0x'' @ concat (map hex_byte bs)"

fun hex_num :: "nat \<Rightarrow> string" where
  "hex_num n = (if n < 16 then [hex_digit n] else hex_num (n div 16) @ [hex_digit (n mod 16)])"

declare hex_num.simps [simp del]

definition padStart :: "nat \<Rightarrow> char \<Rightarrow> string \<Rightarrow> string" where
  "padStart n c s = replicate (n - length s) c @ s"

text \<open>The two digits of a byte are \<^verbatim>\<open>b.toString(16).padStart(2, "0")\<close>.\<close>

lemma hex_byte_eq: "hex_byte b = padStart 2 (CHR ''0'') (hex_num (unat b))"
proof (cases "unat b < 16")
  case True
  moreover have "char_of (48 :: nat) = CHR ''0''" by code_simp
  ultimately show ?thesis by (simp add: hex_byte_def padStart_def hex_num.simps hex_digit_def)
next
  case False
  have "unat b div 16 < 16" by (simp add: less_mult_imp_div_less)
  with False show ?thesis by (simp add: hex_byte_def padStart_def hex_num.simps)
qed

lemma hex_val_digit [simp]: "n < 16 \<Longrightarrow> hex_val (hex_digit n) = Some n"
  by (simp add: hex_val_def hex_digit_def Let_def)

lemma hex_pairs_bytes: "hex_pairs (concat (map hex_byte bs)) = bs"
proof (induction bs)
  case (Cons b bs)
  have "unat b div 16 < 16" by (simp add: less_mult_imp_div_less)
  with Cons show ?case by (simp add: hex_byte_def)
qed simp

lemma hex_bytes_digits: "list_all (\<lambda>c. hex_val c \<noteq> None) (concat (map hex_byte bs))"
proof -
  have "hex_val c \<noteq> None" if "c \<in> set (hex_byte b)" for b c
    using that by (auto simp: hex_byte_def less_mult_imp_div_less)
  then show ?thesis unfolding list_all_iff set_concat set_map by blast
qed

lemma length_hex_bytes: "length (concat (map hex_byte bs)) = 2 * length bs"
  by (induction bs) (auto simp: hex_byte_def)

lemma hexToBytes_bytesToHex: "hexToBytes (bytesToHex bs) = Inr bs"
  using hex_bytes_digits [of bs]
  by (simp add: hexToBytes_def bytesToHex_def length_hex_bytes hex_pairs_bytes Let_def)

lemma bytesToHex_inj: "bytesToHex a = bytesToHex b \<longleftrightarrow> a = b"
  by (metis hexToBytes_bytesToHex sum.inject(2))

end
