(* ===== verification/BG_Mpt.thy ===== *)
theory BG_Mpt
  imports BG_Rlp BG_Hex
begin

text \<open>
  The rest of \<^verbatim>\<open>packages/verify/src/ceiling-evm.ts\<close>: the fields of an Ethereum
  block header, EIP-1559 transactions and the Merkle-Patricia proof check. Keccak-256 (\<open>K\<close>) and
  secp256k1 are parameters.
\<close>

subsection \<open>Block headers\<close>

definition MAX_SAFE :: nat where
  "MAX_SAFE = 9007199254740991"

record decoded_header =
  dh_hash :: string
  dh_parentHash :: string
  dh_transactionsRoot :: string
  dh_number :: nat
  dh_timestamp :: nat

definition decodeHeader :: "hashfun \<Rightarrow> bytes \<Rightarrow> decoded_header res" where
  "decodeHeader K headerRlp =
     rbind (rlpDecode headerRlp) (\<lambda>it. rbind (asList (Some it) ''header'') (\<lambda>f.
       if length f < 15 then Inl (TypeError ''header: too few fields'')
       else rbind (rlpUint (js_at f 8) ''header.number'') (\<lambda>num.
         rbind (rlpUint (js_at f 11) ''header.timestamp'') (\<lambda>ts.
           if MAX_SAFE < num \<or> MAX_SAFE < ts then Inl (TypeError ''header: number out of range'')
           else rbind (asBytes (js_at f 4) ''header.transactionsRoot'') (\<lambda>txRoot.
             rbind (asBytes (js_at f 0) ''header.parentHash'') (\<lambda>parent.
               if length txRoot \<noteq> 32 \<or> length parent \<noteq> 32 then Inl (TypeError ''header: bad root length'')
               else Inr \<lparr>dh_hash = bytesToHex (K headerRlp), dh_parentHash = bytesToHex parent,
                 dh_transactionsRoot = bytesToHex txRoot, dh_number = num, dh_timestamp = ts\<rparr>))))))"

subsection \<open>EIP-1559 transactions\<close>

text \<open>The operations of \<^verbatim>\<open>@noble/curves\<close> the decoder calls: parsing a compact signature, the high-s
  test, and recovering the uncompressed public key from a recovery bit and a message hash.\<close>

record 'sig secp =
  sig_fromBytes :: "bytes \<Rightarrow> 'sig res"
  sig_hasHighS :: "'sig \<Rightarrow> bool"
  sig_recover :: "'sig \<Rightarrow> nat \<Rightarrow> bytes \<Rightarrow> bytes res"

record decoded_tx =
  tx_chainId :: nat
  tx_nonce :: nat
  tx_to :: "string option"
  tx_value :: nat
  tx_data :: bytes
  tx_from :: string
  tx_hash :: string

text \<open>\<^verbatim>\<open>r.toString(16).padStart(64, "0") + s.toString(16).padStart(64, "0")\<close>.\<close>

definition compact_hex :: "nat \<Rightarrow> nat \<Rightarrow> string" where
  "compact_hex r s = padStart 64 (CHR ''0'') (hex_num r) @ padStart 64 (CHR ''0'') (hex_num s)"

definition decodeEip1559 :: "hashfun \<Rightarrow> 'sig secp \<Rightarrow> bytes \<Rightarrow> decoded_tx res" where
  "decodeEip1559 K E raw =
     (if length raw < 2 \<or> js_at raw 0 \<noteq> Some 0x02
      then Inl (TypeError ''tx: not an EIP-1559 (type 2) transaction'')
      else rbind (rlpDecode (drop 1 raw)) (\<lambda>it. rbind (asList (Some it) ''tx'') (\<lambda>f.
        if length f \<noteq> 12 then Inl (TypeError ''tx: a type-2 transaction has 12 fields'')
        else rbind (rlpUint (js_at f 0) ''tx.chainId'') (\<lambda>chainId.
          rbind (rlpUint (js_at f 1) ''tx.nonce'') (\<lambda>nonce.
          rbind (asBytes (js_at f 5) ''tx.to'') (\<lambda>toBytes.
          if length toBytes \<noteq> 0 \<and> length toBytes \<noteq> 20 then Inl (TypeError ''tx: bad recipient length'')
          else rbind (rlpUint (js_at f 6) ''tx.value'') (\<lambda>txvalue.
          rbind (asBytes (js_at f 7) ''tx.data'') (\<lambda>data.
          rbind (asList (js_at f 8) ''tx.accessList'') (\<lambda>_.
          rbind (rlpUint (js_at f 9) ''tx.yParity'') (\<lambda>yParity.
          rbind (rlpUint (js_at f 10) ''tx.r'') (\<lambda>r.
          rbind (rlpUint (js_at f 11) ''tx.s'') (\<lambda>s.
          if 1 < yParity then Inl (TypeError ''tx: yParity must be 0 or 1'')
          else let signingHash = K (0x02 # rlpEncode (RList (slice 0 9 f))) in
          rbind (hexToBytes (compact_hex r s)) (\<lambda>compact.
          rbind (sig_fromBytes E compact) (\<lambda>sig.
          if sig_hasHighS E sig then Inl (TypeError ''tx: high-s signature'')
          else rbind (sig_recover E sig yParity signingHash) (\<lambda>pub.
          Inr \<lparr>tx_chainId = chainId, tx_nonce = nonce,
            tx_to = (if length toBytes = 0 then None else Some (bytesToHex toBytes)),
            tx_value = txvalue, tx_data = data,
            tx_from = bytesToHex (drop 12 (K (drop 1 pub))),
            tx_hash = bytesToHex (K raw)\<rparr>)))))))))))))))"

subsection \<open>Merkle-Patricia inclusion proofs\<close>

definition nibbles_of :: "byte \<Rightarrow> nat list" where
  "nibbles_of b = [unat b div 16, unat b mod 16]"

definition toNibbles :: "bytes \<Rightarrow> nat list" where
  "toNibbles bs = concat (map nibbles_of bs)"

definition hexPrefix :: "bytes \<Rightarrow> (nat list \<times> bool) res" where
  "hexPrefix encoded =
     (if encoded = [] then Inl (TypeError ''mpt: empty path'')
      else let nib = toNibbles encoded; flag = nib ! 0 in
        if 3 < flag then Inl (TypeError ''mpt: bad path flag'')
        else let isLeaf = (2 \<le> flag); isOdd = (flag mod 2 = 1) in
          if \<not> isOdd \<and> nib ! 1 \<noteq> 0 then Inl (TypeError ''mpt: even path must pad with zero'')
          else Inr (drop (if isOdd then 1 else 2) nib, isLeaf))"

text \<open>A child reference: a byte string is taken as it is (a hash, or the node's RLP), a list is the
  inline node, re-encoded.\<close>

fun child_ref :: "rlp \<Rightarrow> bytes" where
  "child_ref (RBytes b) = b"
| "child_ref (RList l) = rlpEncode (RList l)"

lemma child_ref_shorter:
  "rlpDecode b = Inr (RList items) \<Longrightarrow> it \<in> set items \<Longrightarrow> length (child_ref it) < length b"
  using rlpDecode_member_shorter [of b items it] rlpEncode_string_le
  by (cases it) (auto simp del: rlpEncode.simps intro: le_less_trans)

text \<open>
  The walk. \<open>want\<close>, \<open>depth\<close> and \<open>i\<close> are the loop's variables. It ends because every turn either
  takes a proof element or moves to an inline node, a proper part of the current one.
\<close>

definition mpt_fetch :: "hashfun \<Rightarrow> bytes list \<Rightarrow> bytes \<Rightarrow> nat \<Rightarrow> (bytes \<times> nat) option" where
  "mpt_fetch K pf want i =
     (if length want = 32
      then (case js_at pf i of None \<Rightarrow> None
            | Some nxt \<Rightarrow> if K nxt \<noteq> want then None else Some (nxt, i + 1))
      else Some (want, i))"

definition mpt_node :: "bytes \<Rightarrow> rlp list option" where
  "mpt_node nodeRlp = to_option (rbind (rlpDecode nodeRlp) (\<lambda>it. asList (Some it) ''mpt node''))"

definition mpt_path :: "rlp list \<Rightarrow> (nat list \<times> bool) option" where
  "mpt_path node = to_option (rbind (asBytes (js_at node 0) ''mpt path'') hexPrefix)"

definition branch_value :: "rlp list \<Rightarrow> bytes option" where
  "branch_value node = (case js_at node 16 of Some (RBytes v) \<Rightarrow> if 0 < length v then Some v else None | _ \<Rightarrow> None)"

definition leaf_value :: "rlp list \<Rightarrow> bytes option" where
  "leaf_value node = (case js_at node 1 of Some (RBytes v) \<Rightarrow> Some v | _ \<Rightarrow> None)"

definition branch_child :: "nat list \<Rightarrow> nat \<Rightarrow> rlp list \<Rightarrow> rlp option" where
  "branch_child path depth node = (case js_at path depth of None \<Rightarrow> None
     | Some n \<Rightarrow> (case js_at node n of None \<Rightarrow> None
       | Some child \<Rightarrow> if child = RBytes [] then None else Some child))"

definition seg_differs :: "nat list \<Rightarrow> nat \<Rightarrow> nat list \<Rightarrow> bool" where
  "seg_differs path depth seg \<longleftrightarrow> list_ex (\<lambda>k. js_at path (depth + k) \<noteq> Some (seg ! k)) [0..<length seg]"

lemma mpt_node_eq: "mpt_node b = Some l \<longleftrightarrow> rlpDecode b = Inr (RList l)"
proof (cases "rlpDecode b")
  case (Inr it)
  then show ?thesis by (cases it) (auto simp: mpt_node_def asList_def)
qed (simp add: mpt_node_def)

lemma branch_child_in: "branch_child path depth node = Some c \<Longrightarrow> c \<in> set node"
  by (auto simp: branch_child_def js_at_def split: option.splits if_splits)

lemma fetch_cases:
  assumes "mpt_fetch K pf want i = Some (nodeRlp, j)"
  obtains "length want = 32" "i < length pf" "nodeRlp = pf ! i" "K nodeRlp = want" "j = i + 1"
    | "length want \<noteq> 32" "nodeRlp = want" "j = i"
  using assms by (auto simp: mpt_fetch_def js_at_def split: if_splits)

text \<open>A step of the walk: one node read.\<close>

datatype mpt_next = Stop "bytes option" | Go bytes nat nat

definition mpt_step :: "hashfun \<Rightarrow> nat list \<Rightarrow> bytes list \<Rightarrow> bytes \<Rightarrow> nat \<Rightarrow> nat \<Rightarrow> mpt_next" where
  "mpt_step K path pf want depth i =
     (case mpt_fetch K pf want i of None \<Rightarrow> Stop None
      | Some (nodeRlp, j) \<Rightarrow> (case mpt_node nodeRlp of None \<Rightarrow> Stop None
        | Some node \<Rightarrow>
            if length node = 17 then
              (if depth = length path then Stop (branch_value node)
               else case branch_child path depth node of None \<Rightarrow> Stop None
                 | Some child \<Rightarrow> Go (child_ref child) (depth + 1) j)
            else if length node = 2 then
              (case mpt_path node of None \<Rightarrow> Stop None
               | Some (seg, isLeaf) \<Rightarrow>
                   if seg_differs path depth seg then Stop None
                   else if isLeaf then
                     Stop (if depth + length seg \<noteq> length path then None else leaf_value node)
                   else Go (child_ref (node ! 1)) (depth + length seg) j)
            else Stop None))"

lemma mpt_step_Go:
  assumes "mpt_step K path pf want depth i = Go want' depth' j"
  shows "j = i + 1 \<and> i < length pf \<or> j = i \<and> length want' < length want"
proof -
  obtain nodeRlp node child where
      f: "mpt_fetch K pf want i = Some (nodeRlp, j)" and n: "mpt_node nodeRlp = Some node"
      and c: "child \<in> set node" "want' = child_ref child"
  proof -
    obtain nodeRlp j' node where f: "mpt_fetch K pf want i = Some (nodeRlp, j')" and n: "mpt_node nodeRlp = Some node"
      using assms by (auto simp: mpt_step_def split: option.splits prod.splits)
    have "j' = j \<and> (\<exists>child \<in> set node. want' = child_ref child)"
      using assms f n by (auto simp: mpt_step_def split: option.splits if_splits prod.splits
          dest: branch_child_in intro!: bexI [OF refl nth_mem])
    with f n show ?thesis using that by blast
  qed
  have "length want' < length nodeRlp"
    using child_ref_shorter [OF _ c(1)] n c(2) by (simp add: mpt_node_eq)
  with f show ?thesis by (auto elim: fetch_cases)
qed

function mpt_walk :: "hashfun \<Rightarrow> nat list \<Rightarrow> bytes list \<Rightarrow> bytes \<Rightarrow> nat \<Rightarrow> nat \<Rightarrow> bytes option" where
  "mpt_walk K path pf want depth i =
     (case mpt_step K path pf want depth i of Stop r \<Rightarrow> r
      | Go want' depth' j \<Rightarrow> mpt_walk K path pf want' depth' j)"
  by pat_completeness auto
termination
proof (relation "measures [\<lambda>(K, path, pf, want, depth, i). length pf - i,
    \<lambda>(K, path, pf, want, depth, i). length want]", simp)
  fix K path pf want depth i x21 x22 x23
  assume "mpt_step K path pf want depth i = Go x21 x22 x23"
  from mpt_step_Go [OF this]
  show "((K, path, pf, x21, x22, x23), K, path, pf, want, depth, i)
      \<in> measures [\<lambda>(K, path, pf, want, depth, i). length pf - i,
        \<lambda>(K, path, pf, want, depth, i). length want]"
    by auto
qed

declare mpt_walk.simps [simp del]

definition mptVerify :: "hashfun \<Rightarrow> bytes \<Rightarrow> bytes \<Rightarrow> bytes list \<Rightarrow> bytes option" where
  "mptVerify K root key pf = mpt_walk K (toNibbles key) pf root 0 0"

text \<open>\<^verbatim>\<open>txTrieKey\<close> of a natural number; the code throws on a negative or fractional one.\<close>

definition txTrieKey :: "nat \<Rightarrow> bytes" where
  "txTrieKey index = rlpEncode (RBytes (if index = 0 then [] else be_bytes index))"

subsection \<open>Binding\<close>

text \<open>Two accepted proofs walk in step, so they return the same value.\<close>

lemma fetch_binding:
  assumes "inj_on K (set pf \<union> set qf)"
    and "mpt_fetch K pf want i = Some x" and "mpt_fetch K qf want i = Some y"
  shows "x = y"
proof (cases "length want = 32")
  case True
  then have "x = (pf ! i, i + 1)" "y = (qf ! i, i + 1)" "i < length pf" "i < length qf" "K (pf ! i) = K (qf ! i)"
    using assms(2,3) by (auto simp: mpt_fetch_def js_at_def split: if_splits)
  with inj_onD [OF assms(1), of "pf ! i" "qf ! i"] show ?thesis by simp
qed (use assms(2,3) in \<open>simp add: mpt_fetch_def\<close>)

lemma mpt_walk_fetch: "mpt_walk K path pf want depth i = Some v \<Longrightarrow> \<exists>x. mpt_fetch K pf want i = Some x"
  by (cases "mpt_fetch K pf want i") (auto simp: mpt_walk.simps [of K path pf] mpt_step_def)

lemma mpt_walk_binding:
  assumes "inj_on K (set pf \<union> set qf)"
  shows "mpt_walk K path pf want depth i = Some v \<Longrightarrow> mpt_walk K path qf want depth i = Some w \<Longrightarrow> v = w"
  using assms
proof (induction K path pf want depth i rule: mpt_walk.induct)
  case (1 K path pf want depth i)
  obtain x y where f: "mpt_fetch K pf want i = Some x" "mpt_fetch K qf want i = Some y"
    using mpt_walk_fetch [OF "1.prems"(1)] mpt_walk_fetch [OF "1.prems"(2)] by auto
  have "x = y" by (rule fetch_binding [OF "1.prems"(3) f])
  with f have same: "mpt_step K path qf want depth i = mpt_step K path pf want depth i"
    by (simp add: mpt_step_def)
  show ?case
  proof (cases "mpt_step K path pf want depth i")
    case (Stop r)
    with "1.prems" same show ?thesis by (simp add: mpt_walk.simps [of K path _ want])
  next
    case (Go want' depth' j)
    then have "mpt_walk K path pf want' depth' j = Some v" "mpt_walk K path qf want' depth' j = Some w"
      using "1.prems"(1,2) same by (simp_all add: mpt_walk.simps [of K path _ want])
    then show ?thesis using "1.IH" [OF Go] "1.prems"(3) by blast
  qed
qed

end
