(* ===== verification/BG_Trie.thy ===== *)
theory BG_Trie
  imports BG_Mpt
begin

text \<open>
  \<^verbatim>\<open>packages/verify/src/ceiling-trie.ts\<close>: the transaction trie of a block and the inclusion proof of
  one transaction. The main result is that the proof it writes is accepted by the verifier's walk
  of \<^verbatim>\<open>ceiling-evm.ts\<close> and yields the transaction's bytes. The encoder's memo table only saves
  recomputation and is not part of the model.
\<close>

subsection \<open>The code\<close>

datatype trie = TLeaf "nat list" bytes | TExt "nat list" trie | TBranch "trie option list" bytes

type_synonym entry = "nat list \<times> bytes"

fun pack :: "nat list \<Rightarrow> bytes" where
  "pack (a # b # ns) = of_nat (a * 16 + b) # pack ns"
| "pack _ = []"

definition encode_path :: "nat list \<Rightarrow> bool \<Rightarrow> bytes" where
  "encode_path nib leaf =
     (let isOdd = (length nib mod 2 = 1); flag = (if leaf then 2 else 0) + (if isOdd then 1 else 0)
      in pack (if isOdd then flag # nib else flag # 0 # nib))"

function common_from :: "entry list \<Rightarrow> nat list \<Rightarrow> nat \<Rightarrow> nat \<Rightarrow> nat" where
  "common_from entries first depth common =
     (case js_at first (depth + common) of None \<Rightarrow> common
      | Some n \<Rightarrow> if list_ex (\<lambda>e. js_at (fst e) (depth + common) \<noteq> Some n) entries then common
          else common_from entries first depth (common + 1))"
  by pat_completeness auto
termination
  by (relation "measure (\<lambda>(_, first, depth, common). length first - (depth + common))")
     (auto simp: js_at_def split: if_splits)

declare common_from.simps [simp del]

definition group_of :: "entry list \<Rightarrow> nat \<Rightarrow> nat \<Rightarrow> entry list" where
  "group_of entries depth n = filter (\<lambda>e. length (fst e) \<noteq> depth \<and> js_at (fst e) depth = Some n) entries"

definition branch_data :: "entry list \<Rightarrow> nat \<Rightarrow> bytes" where
  "branch_data entries depth = foldl (\<lambda>v e. if length (fst e) = depth then snd e else v) [] entries"

abbreviation entry_measure :: "entry list \<Rightarrow> nat \<Rightarrow> nat" where
  "entry_measure entries depth \<equiv> sum_list (map (\<lambda>e. length (fst e) - depth) entries)"

lemma common_from_agree:
  "k < common_from es first depth c \<Longrightarrow> c \<le> k \<Longrightarrow>
   depth + k < length first \<and> (\<forall>e \<in> set es. js_at (fst e) (depth + k) = Some (first ! (depth + k)))"
proof (induction es first depth c rule: common_from.induct)
  case (1 es first depth c)
  have step: "k < common_from es first depth (c + 1)" "depth + c < length first"
      "\<forall>e \<in> set es. js_at (fst e) (depth + c) = Some (first ! (depth + c))"
    using "1.prems" by (auto simp: common_from.simps [of es first depth c] list_ex_iff js_at_def
        split: option.splits if_splits)
  show ?case
  proof (cases "k = c")
    case False
    with step "1.prems"(2) show ?thesis
      by (intro "1.IH" [OF _ _ step(1)]) (auto simp: js_at_def list_ex_iff)
  qed (use step in simp)
qed

lemma sum_list_less:
  assumes "xs \<noteq> []" and "\<And>x. x \<in> set xs \<Longrightarrow> (f x :: nat) < g x"
  shows "sum_list (map f xs) < sum_list (map g xs)"
  using assms by (induction xs rule: list_nonempty_induct) (auto intro: add_strict_mono)

lemma sum_list_filter_le: "sum_list (map f (filter P xs)) \<le> (sum_list (map f xs) :: nat)"
  by (induction xs) auto

lemma measure_ext:
  assumes "es \<noteq> []" and "0 < common_from es first depth 0"
  shows "entry_measure es (depth + common_from es first depth 0) < entry_measure es depth"
proof (rule sum_list_less [OF assms(1)])
  fix e assume "e \<in> set es"
  then have "depth < length (fst e)"
    using common_from_agree [OF assms(2)] by (auto simp: js_at_def split: if_splits)
  with assms(2) show "length (fst e) - (depth + common_from es first depth 0) < length (fst e) - depth"
    by simp
qed

lemma measure_branch:
  assumes "group_of es depth n \<noteq> []"
  shows "entry_measure (group_of es depth n) (depth + 1) < entry_measure es depth"
proof -
  have "entry_measure (group_of es depth n) (depth + 1) < entry_measure (group_of es depth n) depth"
    using assms by (intro sum_list_less) (auto simp: group_of_def js_at_def split: if_splits)
  also have "\<dots> \<le> entry_measure es depth"
    unfolding group_of_def by (rule sum_list_filter_le)
  finally show ?thesis .
qed

function buildNode :: "entry list \<Rightarrow> nat \<Rightarrow> trie res" where
  "buildNode entries depth =
     (if entries = [] then Inl (TypeError ''undefined'')
      else if length entries = 1 then Inr (TLeaf (drop depth (fst (hd entries))) (snd (hd entries)))
      else let first = fst (hd entries); common = common_from entries first depth 0 in
        if 0 < common then
          rbind (buildNode entries (depth + common)) (\<lambda>c. Inr (TExt (slice depth (depth + common) first) c))
        else if list_ex (\<lambda>e. length (fst e) < depth \<or> (depth < length (fst e) \<and> 16 \<le> fst e ! depth)) entries
        then Inl (TypeError ''undefined'')
        else rbind (rmap (\<lambda>g. if g = [] then Inr None else rbind (buildNode g (depth + 1)) (\<lambda>c. Inr (Some c)))
               (map (group_of entries depth) [0..<16]))
             (\<lambda>children. Inr (TBranch children (branch_data entries depth))))"
  by pat_completeness auto
termination
  by (relation "measure (\<lambda>(es, d). entry_measure es d)")
     (auto intro!: measure_ext measure_branch [simplified])

declare buildNode.simps [simp del]

definition ref_item :: "hashfun \<Rightarrow> rlp \<Rightarrow> rlp" where
  "ref_item K it = (let enc = rlpEncode it in if length enc < 32 then it else RBytes (K enc))"

fun node_item :: "hashfun \<Rightarrow> trie \<Rightarrow> rlp" where
  "node_item K (TLeaf path v) = RList [RBytes (encode_path path True), RBytes v]"
| "node_item K (TExt path child) = RList [RBytes (encode_path path False), ref_item K (node_item K child)]"
| "node_item K (TBranch children v) =
     RList (map (\<lambda>c. case c of None \<Rightarrow> RBytes [] | Some n \<Rightarrow> ref_item K (node_item K n)) children @ [RBytes v])"

definition node_rlp :: "hashfun \<Rightarrow> trie \<Rightarrow> bytes" where
  "node_rlp K n = rlpEncode (node_item K n)"

definition push_node :: "bytes \<Rightarrow> bytes list \<Rightarrow> bytes list" where
  "push_node r ps = (if 32 \<le> length r then r # ps else ps)"

lemma trie_child_size [termination_simp]:
  "js_at cs n = Some (Some c) \<Longrightarrow> size c < Suc (size_list (size_option size) cs)"
proof -
  assume "js_at cs n = Some (Some c)"
  then have "Some c \<in> set cs" by (auto simp: js_at_def split: if_splits) (metis nth_mem)
  then have "size_option size (Some c) \<le> size_list (size_option size) cs" by (rule size_list_estimation') simp
  then show ?thesis by simp
qed

fun proof_nodes :: "hashfun \<Rightarrow> nat list \<Rightarrow> trie \<Rightarrow> nat \<Rightarrow> bytes list res" where
  "proof_nodes K target (TLeaf path v) depth = Inr []"
| "proof_nodes K target (TExt path child) depth =
     rbind (proof_nodes K target child (depth + length path)) (\<lambda>ps. Inr (push_node (node_rlp K child) ps))"
| "proof_nodes K target (TBranch children v) depth =
     (if depth = length target then Inr []
      else case js_at target depth of None \<Rightarrow> Inl (JsError ''target not in trie'')
        | Some n \<Rightarrow> (case js_at children n of
            Some (Some child) \<Rightarrow>
              rbind (proof_nodes K target child (depth + 1)) (\<lambda>ps. Inr (push_node (node_rlp K child) ps))
          | _ \<Rightarrow> Inl (JsError ''target not in trie'')))"

record trie_proof =
  tp_root :: bytes
  tp_proof :: "bytes list"

definition tx_entries :: "bytes list \<Rightarrow> entry list" where
  "tx_entries values = map (\<lambda>i. (toNibbles (txTrieKey i), values ! i)) [0..<length values]"

definition txTrieProof :: "hashfun \<Rightarrow> bytes list \<Rightarrow> nat \<Rightarrow> trie_proof res" where
  "txTrieProof K values index =
     (if values = [] then Inl (TypeError ''an empty block has no transaction to prove'')
      else if length values \<le> index then Inl (RangeError ''transaction index out of range'')
      else rbind (buildNode (tx_entries values) 0) (\<lambda>root.
        rbind (proof_nodes K (toNibbles (txTrieKey index)) root 0) (\<lambda>ps.
          Inr \<lparr>tp_root = K (node_rlp K root), tp_proof = node_rlp K root # ps\<rparr>)))"

subsection \<open>Nibbles and compact paths\<close>

abbreviation nibble_list :: "nat list \<Rightarrow> bool" where
  "nibble_list ns \<equiv> \<forall>n \<in> set ns. n < 16"

lemma toNibbles_nibbles: "nibble_list (toNibbles bs)"
proof -
  have "n < 16" if "n \<in> set (nibbles_of b)" for n b
    using that by (auto simp: nibbles_of_def less_mult_imp_div_less)
  then show ?thesis by (auto simp: toNibbles_def)
qed

lemma toNibbles_Cons [simp]: "toNibbles (b # bs) = unat b div 16 # unat b mod 16 # toNibbles bs"
  by (simp add: toNibbles_def nibbles_of_def)

lemma toNibbles_Nil [simp]: "toNibbles [] = []"
  by (simp add: toNibbles_def)

lemma length_toNibbles [simp]: "length (toNibbles bs) = 2 * length bs"
  by (induction bs) auto

lemma toNibbles_inj: "toNibbles a = toNibbles b \<Longrightarrow> a = b"
proof (induction a arbitrary: b)
  case Nil
  then show ?case by (cases b) auto
next
  case (Cons x a)
  then obtain y b' where b: "b = y # b'" by (cases b) auto
  with Cons.prems have "unat x div 16 * 16 + unat x mod 16 = unat y div 16 * 16 + unat y mod 16" by simp
  then have "x = y" by (simp add: unsigned_word_eqI)
  with Cons b show ?case by simp
qed

lemma toNibbles_pack: "even (length ns) \<Longrightarrow> nibble_list ns \<Longrightarrow> toNibbles (pack ns) = ns"
proof (induction ns rule: pack.induct)
  case (1 a b ns)
  then have "a * 16 + b < 256" by simp
  then have "unat (of_nat (a * 16 + b) :: byte) = a * 16 + b" by (rule unat_of_nat_lt256)
  with 1 show ?case by (simp del: of_nat_add of_nat_mult)
qed auto

lemma length_pack: "length (pack ns) = length ns div 2"
  by (induction ns rule: pack.induct) auto

lemma hexPrefix_encode_path: "nibble_list nib \<Longrightarrow> hexPrefix (encode_path nib leaf) = Inr (nib, leaf)"
proof -
  assume n: "nibble_list nib"
  let ?odd = "length nib mod 2 = 1" and ?flag = "(if leaf then 2 else 0) + (if length nib mod 2 = 1 then 1 else 0) :: nat"
  let ?all = "if ?odd then ?flag # nib else ?flag # 0 # nib"
  have e: "even (length ?all)" by (simp add: even_iff_mod_2_eq_zero) presburger
  have a: "nibble_list ?all" using n by auto
  have "encode_path nib leaf = pack ?all" by (simp only: encode_path_def Let_def)
  then have t: "toNibbles (encode_path nib leaf) = ?all" using toNibbles_pack [OF e a] by (simp only:)
  then have "encode_path nib leaf \<noteq> []" by (auto split: if_splits)
  then show ?thesis using t by (auto simp: hexPrefix_def Let_def)
qed

lemma length_encode_path: "length (encode_path nib leaf) \<le> length nib + 1"
  by (auto simp: encode_path_def Let_def length_pack)

subsection \<open>Well-formed tries\<close>

abbreviation short_len :: "nat \<Rightarrow> bool" where
  "short_len n \<equiv> n < 2 ^ 60"

fun trie_ok :: "trie \<Rightarrow> bool" where
  "trie_ok (TLeaf path v) \<longleftrightarrow> nibble_list path \<and> short_len (length path) \<and> short_len (length v)"
| "trie_ok (TExt path child) \<longleftrightarrow> nibble_list path \<and> short_len (length path) \<and> trie_ok child"
| "trie_ok (TBranch children v) \<longleftrightarrow> length children = 16 \<and> short_len (length v)
     \<and> (\<forall>c \<in> set children. case c of None \<Rightarrow> True | Some n \<Rightarrow> trie_ok n)"

lemma length_encodeLength: "n < 256 ^ 8 \<Longrightarrow> length (encodeLength n off) \<le> 9"
  using length_be_bytes_le [of n 8] by (auto simp: encodeLength_def Let_def)

lemma length_rlpEncode_bytes: "length b < 256 ^ 8 \<Longrightarrow> length (rlpEncode (RBytes b)) \<le> length b + 9"
  using length_encodeLength [of "length b" "0x80"] by simp

lemma node_item_list: "\<exists>l. node_item K n = RList l"
  by (cases n) auto

lemma ref_item_ok:
  assumes "hash32 K" and "rlp_ok it"
  shows "rlp_ok (ref_item K it) \<and> length (rlpEncode (ref_item K it)) \<le> 41"
proof (cases "length (rlpEncode it) < 32")
  case False
  have "length (K (rlpEncode it)) = 32" using assms(1) by (simp add: hash32_def)
  with False length_rlpEncode_bytes [of "K (rlpEncode it)"] show ?thesis by (simp add: ref_item_def Let_def)
qed (use assms in \<open>simp add: ref_item_def\<close>)

lemma length_concat_le: "(\<And>x. x \<in> set xs \<Longrightarrow> length (f x) \<le> m) \<Longrightarrow> length (concat (map f xs)) \<le> length xs * m"
  by (induction xs) (auto intro: add_mono)

lemma node_item_ok: "hash32 K \<Longrightarrow> trie_ok n \<Longrightarrow> rlp_ok (node_item K n)"
proof (induction K n rule: node_item.induct)
  case (1 K path v)
  have "length (encode_path path True) < 2 ^ 60 + 1" using 1 length_encode_path [of path True] by auto
  then show ?case
    using 1 length_rlpEncode_bytes [of "encode_path path True"] length_rlpEncode_bytes [of v]
    by (simp del: rlpEncode.simps)
next
  case (2 K path child)
  have "length (encode_path path False) < 2 ^ 60 + 1" using 2 length_encode_path [of path False] by auto
  then show ?case
    using 2 length_rlpEncode_bytes [of "encode_path path False"] ref_item_ok [of K "node_item K child"]
    by (simp del: rlpEncode.simps)
next
  case (3 K children v)
  let ?f = "\<lambda>c. case c of None \<Rightarrow> RBytes [] | Some n \<Rightarrow> ref_item K (node_item K n)"
  have c: "rlp_ok (?f c) \<and> length (rlpEncode (?f c)) \<le> 41" if "c \<in> set children" for c
  proof (cases c)
    case None
    then show ?thesis by (simp add: encodeLength_def)
  next
    case (Some n)
    with 3 that show ?thesis by (auto intro!: ref_item_ok)
  qed
  have "length (concat (map (rlpEncode \<circ> ?f) children)) \<le> length children * 41"
    by (rule length_concat_le) (use c in simp)
  then show ?case
    using 3 c length_rlpEncode_bytes [of v] by (auto simp del: rlpEncode.simps)
qed

subsection \<open>The verifier follows the prover\<close>

text \<open>What the trie stores at a path.\<close>

fun trie_lookup :: "trie \<Rightarrow> nat list \<Rightarrow> nat \<Rightarrow> bytes option" where
  "trie_lookup (TLeaf p v) path depth = (if drop depth path = p \<and> depth \<le> length path then Some v else None)"
| "trie_lookup (TExt p c) path depth =
     (if take (length p) (drop depth path) = p then trie_lookup c path (depth + length p) else None)"
| "trie_lookup (TBranch cs v) path depth =
     (if depth = length path then Some v
      else case js_at path depth of None \<Rightarrow> None
        | Some n \<Rightarrow> (case js_at cs n of Some (Some c) \<Rightarrow> trie_lookup c path (depth + 1) | _ \<Rightarrow> None))"

lemma seg_same:
  "take (length p) (drop d path) = p \<Longrightarrow> \<not> seg_differs path d p"
proof -
  assume t: "take (length p) (drop d path) = p"
  have "js_at path (d + k) = Some (p ! k)" if "k < length p" for k
  proof -
    have "length p \<le> length path - d" using t by (metis length_drop length_take min.cobounded1)
    moreover have "take (length p) (drop d path) ! k = path ! (d + k)"
      using that \<open>length p \<le> length path - d\<close> by simp
    ultimately show ?thesis using t that by (simp add: js_at_def)
  qed
  then show ?thesis by (auto simp: seg_differs_def list_ex_iff)
qed

lemma mpt_node_item: "hash32 K \<Longrightarrow> trie_ok n \<Longrightarrow> node_item K n = RList l \<Longrightarrow> mpt_node (node_rlp K n) = Some l"
  using rlpDecode_rlpEncode [OF node_item_ok [of K n]] by (simp add: mpt_node_eq node_rlp_def del: rlpEncode.simps)

lemma fetch_child:
  assumes "hash32 K" and "drop i pf = push_node (node_rlp K n) ps @ rest"
  shows "\<exists>j. mpt_fetch K pf (child_ref (ref_item K (node_item K n))) i = Some (node_rlp K n, j) \<and> drop j pf = ps @ rest"
proof (cases "length (node_rlp K n) < 32")
  case True
  obtain l where l: "node_item K n = RList l" using node_item_list by blast
  with True have "child_ref (ref_item K (node_item K n)) = node_rlp K n"
    by (simp add: ref_item_def node_rlp_def Let_def del: rlpEncode.simps)
  with True assms(2) show ?thesis by (simp add: mpt_fetch_def push_node_def)
next
  case False
  have "child_ref (ref_item K (node_item K n)) = K (node_rlp K n)"
    using False by (simp add: ref_item_def node_rlp_def Let_def del: rlpEncode.simps)
  moreover have d: "drop i pf = node_rlp K n # ps @ rest" using False assms(2) by (simp add: push_node_def)
  then have "js_at pf i = Some (node_rlp K n)"
    by (metis add.right_neutral append_take_drop_id drop_eq_Nil js_at_Cons_0 js_at_append_add js_at_def
        length_take list.distinct(1) min.absorb2 nat_le_linear nth_via_drop linorder_not_less)
  moreover have "drop (i + 1) pf = ps @ rest" using d by (metis Suc_eq_plus1 drop_Suc list.sel(3) tl_drop)
  ultimately show ?thesis using assms(1) by (auto simp: mpt_fetch_def hash32_def)
qed

lemma walk_read:
  assumes "mpt_fetch K pf want i = Some (r, j)" and "mpt_node r = Some node"
  shows "length node = 17 \<Longrightarrow> depth = length path \<Longrightarrow> mpt_walk K path pf want depth i = branch_value node"
    and "length node = 17 \<Longrightarrow> depth \<noteq> length path \<Longrightarrow> branch_child path depth node = Some c \<Longrightarrow>
      mpt_walk K path pf want depth i = mpt_walk K path pf (child_ref c) (depth + 1) j"
    and "length node = 2 \<Longrightarrow> mpt_path node = Some (seg, False) \<Longrightarrow> \<not> seg_differs path depth seg \<Longrightarrow>
      mpt_walk K path pf want depth i = mpt_walk K path pf (child_ref (node ! 1)) (depth + length seg) j"
    and "length node = 2 \<Longrightarrow> mpt_path node = Some (seg, True) \<Longrightarrow> \<not> seg_differs path depth seg \<Longrightarrow>
      depth + length seg = length path \<Longrightarrow> mpt_walk K path pf want depth i = leaf_value node"
  using assms by (auto simp: mpt_walk.simps [of K path pf want] mpt_step_def)

lemma walk_follow:
  assumes "hash32 K" and "v \<noteq> []"
  shows "\<lbrakk>trie_ok n; trie_lookup n path depth = Some v; proof_nodes K path n depth = Inr ps;
      mpt_fetch K pf want i = Some (node_rlp K n, j); drop j pf = ps @ rest\<rbrakk>
    \<Longrightarrow> mpt_walk K path pf want depth i = Some v"
proof (induction n arbitrary: depth ps want i j)
  case (TLeaf p w)
  let ?node = "[RBytes (encode_path p True), RBytes w]"
  have node: "mpt_node (node_rlp K (TLeaf p w)) = Some ?node"
    by (rule mpt_node_item [OF assms(1) TLeaf.prems(1)]) simp
  have p: "drop depth path = p" "depth \<le> length path" "w = v" using TLeaf.prems(2) by (auto split: if_splits)
  have "mpt_path ?node = Some (p, True)"
    using TLeaf.prems(1) by (simp add: mpt_path_def asBytes_def hexPrefix_encode_path)
  moreover have "\<not> seg_differs path depth p" using p by (intro seg_same) auto
  moreover have "depth + length p = length path" using p by auto
  moreover have "leaf_value ?node = Some v" using p by (simp add: leaf_value_def)
  ultimately show ?case using walk_read(4) [OF TLeaf.prems(4) node] by simp
next
  case (TExt p c)
  let ?node = "[RBytes (encode_path p False), ref_item K (node_item K c)]"
  have node: "mpt_node (node_rlp K (TExt p c)) = Some ?node"
    by (rule mpt_node_item [OF assms(1) TExt.prems(1)]) simp
  have look: "take (length p) (drop depth path) = p" "trie_lookup c path (depth + length p) = Some v"
    using TExt.prems(2) by (auto split: if_splits)
  obtain qs where qs: "proof_nodes K path c (depth + length p) = Inr qs" "ps = push_node (node_rlp K c) qs"
    using TExt.prems(3) by (auto simp: res_simps)
  obtain k where k: "mpt_fetch K pf (child_ref (ref_item K (node_item K c))) j = Some (node_rlp K c, k)"
      "drop k pf = qs @ rest"
    using fetch_child [OF assms(1), of j pf c qs rest] TExt.prems(5) qs(2) by auto
  have "mpt_path ?node = Some (p, False)"
    using TExt.prems(1) by (simp add: mpt_path_def asBytes_def hexPrefix_encode_path)
  then have "mpt_walk K path pf want depth i
      = mpt_walk K path pf (child_ref (ref_item K (node_item K c))) (depth + length p) j"
    using walk_read(3) [OF TExt.prems(4) node] seg_same [OF look(1)] by simp
  also have "\<dots> = Some v"
    using TExt.prems(1) look(2) qs(1) k by (intro TExt.IH) simp_all
  finally show ?case .
next
  case (TBranch cs w)
  let ?f = "\<lambda>c. case c of None \<Rightarrow> RBytes [] | Some n \<Rightarrow> ref_item K (node_item K n)"
  let ?node = "map ?f cs @ [RBytes w]"
  have node: "mpt_node (node_rlp K (TBranch cs w)) = Some ?node"
    by (rule mpt_node_item [OF assms(1) TBranch.prems(1)]) simp
  have len: "length cs = 16" "length ?node = 17" using TBranch.prems(1) by simp_all
  show ?case
  proof (cases "depth = length path")
    case True
    have "js_at ?node 16 = Some (RBytes w)" using len js_at_append [of "map ?f cs" "[RBytes w]"] by simp
    then have "branch_value ?node = Some v"
      using TBranch.prems(2) True assms(2) by (simp add: branch_value_def)
    with True walk_read(1) [OF TBranch.prems(4) node] len show ?thesis by simp
  next
    case False
    then obtain n c where c: "js_at path depth = Some n" "js_at cs n = Some (Some c)"
        "trie_lookup c path (depth + 1) = Some v"
      using TBranch.prems(2) by (auto split: option.splits)
    obtain qs where qs: "proof_nodes K path c (depth + 1) = Inr qs" "ps = push_node (node_rlp K c) qs"
      using TBranch.prems(3) False c(1,2) by (auto simp: res_simps)
    obtain k where k: "mpt_fetch K pf (child_ref (ref_item K (node_item K c))) j = Some (node_rlp K c, k)"
        "drop k pf = qs @ rest"
      using fetch_child [OF assms(1), of j pf c qs rest] TBranch.prems(5) qs(2) by auto
    have n: "n < 16" "cs ! n = Some c" using c(2) len by (auto simp: js_at_def split: if_splits)
    then have mem: "Some c \<in> set cs" using len by (metis nth_mem)
    have ok: "trie_ok c" using TBranch.prems(1) mem by auto
    have "length (K (rlpEncode (node_item K c))) = 32" using assms(1) by (simp add: hash32_def)
    then have "ref_item K (node_item K c) \<noteq> RBytes []"
      using node_item_list [of K c] by (auto simp: ref_item_def Let_def)
    moreover have "js_at ?node n = Some (ref_item K (node_item K c))"
      using n len by (simp add: js_at_def nth_append)
    ultimately have "branch_child path depth ?node = Some (ref_item K (node_item K c))"
      using c(1) by (simp add: branch_child_def)
    then have "mpt_walk K path pf want depth i
        = mpt_walk K path pf (child_ref (ref_item K (node_item K c))) (depth + 1) j"
      using walk_read(2) [OF TBranch.prems(4) node] len False by simp
    also have "\<dots> = Some v"
      by (rule TBranch.IH [OF mem _ ok c(3) qs(1) k]) simp
    finally show ?thesis .
  qed
qed

subsection \<open>What the builder makes\<close>

definition entries_ok :: "entry list \<Rightarrow> nat \<Rightarrow> bool" where
  "entries_ok es depth \<longleftrightarrow> distinct (map fst es)
     \<and> (\<forall>e \<in> set es. depth \<le> length (fst e) \<and> nibble_list (fst e) \<and> short_len (length (fst e))
          \<and> short_len (length (snd e)))
     \<and> (\<forall>e \<in> set es. \<forall>e' \<in> set es. take depth (fst e) = take depth (fst e'))"

definition built :: "entry list \<Rightarrow> nat \<Rightarrow> trie \<Rightarrow> bool" where
  "built es depth n \<longleftrightarrow> trie_ok n \<and> (\<forall>(k, v) \<in> set es. trie_lookup n k depth = Some v)"

lemma entries_okD:
  assumes "entries_ok es depth" and "e \<in> set es"
  shows "depth \<le> length (fst e)" "nibble_list (fst e)" "short_len (length (fst e))" "short_len (length (snd e))"
  using assms unfolding entries_ok_def by blast+

lemma entries_ok_nibble: "entries_ok es depth \<Longrightarrow> e \<in> set es \<Longrightarrow> depth < length (fst e) \<Longrightarrow> fst e ! depth < 16"
  using entries_okD(2) nth_mem by blast

lemma entries_ok_buildable: "entries_ok es depth \<Longrightarrow>
    \<not> list_ex (\<lambda>e. length (fst e) < depth \<or> (depth < length (fst e) \<and> 16 \<le> fst e ! depth)) es"
  using entries_okD(1) entries_ok_nibble by (fastforce simp: list_ex_iff)

lemma branch_data_in: "branch_data es depth = [] \<or> branch_data es depth \<in> snd ` set es"
proof -
  have "foldl (\<lambda>v e. if length (fst e) = depth then snd e else v) w es \<in> insert w (snd ` set es)" for w
    by (induction es arbitrary: w) (auto split: if_splits)
  then show ?thesis by (auto simp: branch_data_def)
qed

lemma branch_data_eq:
  assumes "distinct (map fst es)" and "\<forall>e \<in> set es. take depth (fst e) = k" and "(k, v) \<in> set es" and "length k = depth"
  shows "branch_data es depth = v"
proof -
  have "foldl (\<lambda>v e. if length (fst e) = depth then snd e else v) w es
      = (case map_of es k of None \<Rightarrow> w | Some v \<Rightarrow> v)" for w
    using assms(1,2)
  proof (induction es arbitrary: w)
    case (Cons e es)
    have "length (fst e) = depth \<longleftrightarrow> fst e = k"
      using Cons.prems(2) assms(4) by (metis list.set_intros(1) order_refl take_all)
    moreover have "fst e = k \<Longrightarrow> map_of es k = None" using Cons.prems(1) by (auto simp: map_of_eq_None_iff)
    ultimately show ?case using Cons by (cases e) auto
  qed simp
  then show ?thesis using assms(1,3) by (simp add: branch_data_def map_of_is_SomeI)
qed

lemma entries_ok_ext:
  assumes ok: "entries_ok es depth" and ne: "es \<noteq> []"
  defines "m \<equiv> common_from es (fst (hd es)) depth 0"
  shows "entries_ok es (depth + m)"
    and "e \<in> set es \<Longrightarrow> take (length (slice depth (depth + m) (fst (hd es)))) (drop depth (fst e)) = slice depth (depth + m) (fst (hd es))"
    and "length (slice depth (depth + m) (fst (hd es))) = m"
proof -
  let ?f = "fst (hd es)"
  have agree: "js_at (fst e) (depth + k) = Some (?f ! (depth + k))" "depth + k < length ?f"
    if "e \<in> set es" "k < m" for e k
    using common_from_agree [of k es ?f depth 0] that unfolding m_def by auto
  have long: "depth + m \<le> length (fst e)" if e: "e \<in> set es" for e
  proof (cases m)
    case 0
    with ok e show ?thesis by (auto simp: entries_ok_def)
  next
    case (Suc j)
    with agree(1) [OF e, of j] show ?thesis by (auto simp: js_at_def split: if_splits)
  qed
  have hd_in: "hd es \<in> set es" using ne by simp
  show len: "length (slice depth (depth + m) ?f) = m" using long [OF hd_in] by simp
  have seg: "slice depth (depth + m) (fst e) = slice depth (depth + m) ?f" if e: "e \<in> set es" for e
  proof (rule nth_equalityI)
    fix k assume "k < length (slice depth (depth + m) (fst e))"
    then have "k < m" by simp
    with agree [OF e this] long [OF e] long [OF hd_in]
    show "slice depth (depth + m) (fst e) ! k = slice depth (depth + m) ?f ! k"
      by (simp add: slice_def js_at_def)
  qed (use long [OF e] long [OF hd_in] in simp)
  show "e \<in> set es \<Longrightarrow> take (length (slice depth (depth + m) ?f)) (drop depth (fst e)) = slice depth (depth + m) ?f"
    using seg len by (simp add: slice_def)
  have "take (depth + m) (fst e) = take depth (fst e) @ slice depth (depth + m) (fst e)" for e :: entry
    by (simp add: slice_def take_add)
  then have "take (depth + m) (fst e) = take (depth + m) (fst e')" if "e \<in> set es" "e' \<in> set es" for e e'
    using ok seg [OF that(1)] seg [OF that(2)] that unfolding entries_ok_def by metis
  then show "entries_ok es (depth + m)"
    using ok long unfolding entries_ok_def by blast
qed

lemma entries_ok_group: "entries_ok es depth \<Longrightarrow> entries_ok (group_of es depth n) (depth + 1)"
proof -
  assume ok: "entries_ok es depth"
  have g: "e \<in> set es \<and> depth < length (fst e) \<and> fst e ! depth = n" if "e \<in> set (group_of es depth n)" for e
    using that by (auto simp: group_of_def js_at_def split: if_splits)
  have "take (depth + 1) (fst e) = take (depth + 1) (fst e')"
    if "e \<in> set (group_of es depth n)" "e' \<in> set (group_of es depth n)" for e e'
    using ok g [OF that(1)] g [OF that(2)] by (simp add: entries_ok_def take_Suc_conv_app_nth)
  moreover have "distinct (map fst (group_of es depth n))"
    using ok by (simp add: entries_ok_def group_of_def distinct_map_filter)
  moreover have "depth + 1 \<le> length (fst e) \<and> nibble_list (fst e) \<and> short_len (length (fst e)) \<and> short_len (length (snd e))"
    if "e \<in> set (group_of es depth n)" for e
  proof (intro conjI)
    show "depth + 1 \<le> length (fst e)" using g [OF that] by linarith
  qed (use g [OF that] entries_okD [OF ok, of e] in blast)+
  ultimately show ?thesis unfolding entries_ok_def by blast
qed

definition build_child :: "entry list \<Rightarrow> nat \<Rightarrow> trie option res" where
  "build_child g depth = (if g = [] then Inr None else rbind (buildNode g depth) (\<lambda>c. Inr (Some c)))"

lemma buildNode_branch:
  assumes "length es \<noteq> 1" "es \<noteq> []" "common_from es (fst (hd es)) depth 0 = 0" "entries_ok es depth"
  shows "buildNode es depth = rbind (rmap (\<lambda>g. build_child g (depth + 1)) (map (group_of es depth) [0..<16]))
    (\<lambda>children. Inr (TBranch children (branch_data es depth)))"
proof -
  note entries_ok_buildable [OF assms(4)]
  then show ?thesis using assms(1-3)
    unfolding buildNode.simps [of es depth] build_child_def by (simp only: Let_def if_False less_irrefl)
qed

lemma rmap_map: "rmap f (map g xs) = rmap (\<lambda>x. f (g x)) xs"
  by (induction xs) auto

lemma rmap_total:
  "(\<And>x. x \<in> set xs \<Longrightarrow> \<exists>y. f x = Inr y \<and> P x y) \<Longrightarrow> \<exists>ys. rmap f xs = Inr ys \<and> list_all2 P xs ys"
proof (induction xs)
  case (Cons x xs)
  then obtain y ys where "f x = Inr y" "P x y" "rmap f xs = Inr ys" "list_all2 P xs ys"
    by (meson list.set_intros)
  then show ?case by auto
qed simp

lemma buildNode_built: "es \<noteq> [] \<Longrightarrow> entries_ok es depth \<Longrightarrow> \<exists>n. buildNode es depth = Inr n \<and> built es depth n"
proof (induction es depth rule: buildNode.induct)
  case (1 es depth)
  note ok = "1.prems"(2) and ne = "1.prems"(1)
  let ?first = "fst (hd es)" let ?m = "common_from es ?first depth 0"
  consider "length es = 1" | "length es \<noteq> 1" "0 < ?m" | "length es \<noteq> 1" "?m = 0" by fastforce
  then show ?case
  proof cases
    case 1
    then obtain k v where e: "es = [(k, v)]" by (cases es) auto
    have "set (drop depth k) \<subseteq> set k" by (rule set_drop_subset)
    then show ?thesis using ok by (auto simp: e buildNode.simps [of "[(k, v)]" depth] built_def entries_ok_def)
  next
    case 2
    note ext = entries_ok_ext [OF ok ne]
    obtain n where n: "buildNode es (depth + ?m) = Inr n" "built es (depth + ?m) n"
      using "1.IH"(1) [OF ne 2(1) refl refl 2(2) ne ext(1)] by blast
    have b: "buildNode es depth = Inr (TExt (slice depth (depth + ?m) ?first) n)"
      using 2 ne n(1) by (simp add: buildNode.simps [of es depth] Let_def)
    have f: "nibble_list ?first" "short_len (length ?first)" using ok ne by (auto simp: entries_ok_def)
    have "set (slice depth (depth + ?m) ?first) \<subseteq> set ?first"
      unfolding slice_def by (meson order_trans set_drop_subset set_take_subset)
    with f n(2) have "trie_ok (TExt (slice depth (depth + ?m) ?first) n)"
      by (auto simp: built_def)
    then show ?thesis using b n(2) ext(2,3) by (force simp: built_def)
  next
    case 3
    note nx = entries_ok_buildable [OF ok]
    let ?P = "\<lambda>i c. (case c of None \<Rightarrow> group_of es depth i = [] | Some n \<Rightarrow> built (group_of es depth i) (depth + 1) n)"
    have "\<exists>c. build_child (group_of es depth i) (depth + 1) = Inr c \<and> ?P i c" if i: "i \<in> set [0..<16]" for i
    proof (cases "group_of es depth i = []")
      case True
      then show ?thesis by (simp add: build_child_def)
    next
      case False
      have "group_of es depth i \<in> set (map (group_of es depth) [0..<16])" using i by auto
      from "1.IH"(2) [OF ne 3(1) refl refl _ nx this False False entries_ok_group [OF ok]] 3(2)
      obtain n where "buildNode (group_of es depth i) (depth + 1) = Inr n" "built (group_of es depth i) (depth + 1) n"
        by auto
      with False show ?thesis by (simp add: build_child_def)
    qed
    from rmap_total [where xs = "[0..<16]" and P = ?P, OF this] obtain cs where
        cs: "rmap (\<lambda>i. build_child (group_of es depth i) (depth + 1)) [0..<16] = Inr cs" "list_all2 ?P [0..<16] cs"
      by blast
    have b: "buildNode es depth = Inr (TBranch cs (branch_data es depth))"
      using buildNode_branch [OF 3(1) ne 3(2) ok] cs(1) by (simp add: rmap_map)
    have len: "length cs = 16" using list_all2_lengthD [OF cs(2)] by simp
    have child: "?P i (cs ! i)" if i: "i < 16" for i
    proof -
      have u: "[0..<16] ! i = i" using i by (subst nth_upt) simp_all
      have "?P ([0..<16] ! i) (cs ! i)" using i by (intro list_all2_nthD [OF cs(2)]) simp
      then show ?thesis unfolding u .
    qed
    have "short_len (length (branch_data es depth))"
      using branch_data_in [of es depth] entries_okD(4) [OF ok] by auto
    moreover have "case c of None \<Rightarrow> True | Some n \<Rightarrow> trie_ok n" if mem: "c \<in> set cs" for c
    proof -
      obtain i where i: "i < 16" "c = cs ! i" using mem len by (auto simp: in_set_conv_nth)
      with child [OF i(1)] show ?thesis by (auto simp: built_def split: option.splits)
    qed
    ultimately have "trie_ok (TBranch cs (branch_data es depth))" using len by auto
    moreover have "trie_lookup (TBranch cs (branch_data es depth)) k depth = Some v" if kv: "(k, v) \<in> set es" for k v
    proof (cases "length k = depth")
      case True
      have "\<forall>e \<in> set es. take depth (fst e) = k"
        using ok kv True unfolding entries_ok_def by (metis fst_conv order_refl take_all)
      then have "branch_data es depth = v"
        using ok kv True by (intro branch_data_eq) (auto simp: entries_ok_def)
      then show ?thesis using True by simp
    next
      case False
      then have d: "depth < length k" using entries_okD(1) [OF ok kv] by simp
      let ?i = "k ! depth"
      have i: "?i < 16" using entries_ok_nibble [OF ok kv] d by simp
      have g: "(k, v) \<in> set (group_of es depth ?i)" using kv d by (simp add: group_of_def js_at_def)
      then obtain n where "cs ! ?i = Some n" "built (group_of es depth ?i) (depth + 1) n"
        using child [OF i] by (cases "cs ! ?i") auto
      with g d i len show ?thesis by (auto simp: js_at_def built_def)
    qed
    ultimately show ?thesis using b by (auto simp: built_def)
  qed
qed

subsection \<open>Properties\<close>

lemma proof_nodes_total: "trie_lookup n path depth = Some v \<Longrightarrow> \<exists>ps. proof_nodes K path n depth = Inr ps"
proof (induction K path n depth rule: proof_nodes.induct)
  case (2 K path p c depth)
  then show ?case by (auto split: if_splits)
next
  case (3 K path cs w depth)
  show ?case
  proof (cases "depth = length path")
    case False
    with "3.prems" obtain n c where c: "js_at path depth = Some n" "js_at cs n = Some (Some c)"
        "trie_lookup c path (depth + 1) = Some v"
      by (auto split: option.splits)
    with "3.IH" [OF False c(1,2) refl c(3)] False show ?thesis by auto
  qed simp
qed simp

lemma txTrieKey_small: "i < 2 ^ 53 \<Longrightarrow> rlp_ok (RBytes (if i = 0 then [] else be_bytes i)) \<and> length (txTrieKey i) \<le> 17"
proof -
  assume "i < 2 ^ 53"
  then have "length (be_bytes i) \<le> 8" by (intro length_be_bytes_le) simp
  then show ?thesis
    using length_rlpEncode_bytes [of "if i = 0 then [] else be_bytes i"]
    by (auto simp: txTrieKey_def simp del: rlpEncode.simps)
qed

lemma txTrieKey_inj: "inj_on txTrieKey {..<2 ^ 53}"
proof (rule inj_onI)
  fix i j :: nat assume ij: "i \<in> {..<2 ^ 53}" "j \<in> {..<2 ^ 53}" "txTrieKey i = txTrieKey j"
  then have "RBytes (if i = 0 then [] else be_bytes i) = RBytes (if j = 0 then [] else be_bytes j)"
    using txTrieKey_small [of i] txTrieKey_small [of j] by (intro rlp.enc_inj) (simp_all add: txTrieKey_def)
  then have "be_bytes i = be_bytes j" by (auto split: if_splits)
  then show "i = j" by (rule be_bytes_inj)
qed

lemma tx_entries_ok:
  assumes "length values \<le> 2 ^ 53" and "\<forall>v \<in> set values. short_len (length v)"
  shows "entries_ok (tx_entries values) 0"
proof -
  have "inj_on (\<lambda>i. toNibbles (txTrieKey i)) (set [0..<length values])"
    using assms(1) toNibbles_inj inj_onD [OF txTrieKey_inj] by (intro inj_onI) force
  then have "distinct (map fst (tx_entries values))"
    by (simp add: tx_entries_def distinct_map comp_def)
  moreover have "nibble_list (fst e) \<and> short_len (length (fst e)) \<and> short_len (length (snd e))"
    if e: "e \<in> set (tx_entries values)" for e
  proof -
    obtain i where i: "i < length values" "e = (toNibbles (txTrieKey i), values ! i)"
      using e by (auto simp: tx_entries_def)
    moreover have "length (txTrieKey i) \<le> 17" using txTrieKey_small [of i] i(1) assms(1) by simp
    ultimately show ?thesis using assms(2) toNibbles_nibbles by simp
  qed
  ultimately show ?thesis by (auto simp: entries_ok_def)
qed

lemma txTrieProof_verifies_lemma:
  assumes K: "hash32 K" and i: "index < length values" and n: "length values \<le> 2 ^ 53"
    and v: "\<forall>v \<in> set values. v \<noteq> [] \<and> short_len (length v)"
  shows "\<exists>tp. txTrieProof K values index = Inr tp
    \<and> mptVerify K (tp_root tp) (txTrieKey index) (tp_proof tp) = Some (values ! index)"
proof -
  let ?path = "toNibbles (txTrieKey index)"
  have ok: "entries_ok (tx_entries values) 0" using n v by (intro tx_entries_ok) simp_all
  have mem: "(?path, values ! index) \<in> set (tx_entries values)" using i by (auto simp: tx_entries_def)
  then obtain t where t: "buildNode (tx_entries values) 0 = Inr t" "built (tx_entries values) 0 t"
    using buildNode_built [OF _ ok] by fastforce
  then have look: "trie_lookup t ?path 0 = Some (values ! index)" "trie_ok t"
    using mem by (auto simp: built_def)
  obtain ps where ps: "proof_nodes K ?path t 0 = Inr ps" using proof_nodes_total [OF look(1)] by blast
  have ne: "values ! index \<noteq> []" using v i by simp
  have "mpt_walk K ?path (node_rlp K t # ps) (K (node_rlp K t)) 0 0 = Some (values ! index)"
    using K by (intro walk_follow [OF K ne look(2,1) ps, where j = 1 and rest = "[]"]) (simp_all add: mpt_fetch_def hash32_def)
  then show ?thesis
    using i t(1) ps by (auto simp: txTrieProof_def mptVerify_def)
qed

text \<open>C32: The prover and the verifier of transaction inclusion agree: for every block of non-empty
  transactions, building the trie and its proof for an index succeeds, and the verifier, walking the
  proof from the root by the key \<^verbatim>\<open>rlp(index)\<close>, returns that transaction's bytes.\<close>

theorem txTrieProof_verifies:
  assumes "hash32 K" and "index < length values" and "length values \<le> 2 ^ 53"
    and "\<forall>v \<in> set values. v \<noteq> [] \<and> length v < 2 ^ 60"
  shows "\<exists>tp. txTrieProof K values index = Inr tp
    \<and> mptVerify K (tp_root tp) (txTrieKey index) (tp_proof tp) = Some (values ! index)"
  using assms by (rule txTrieProof_verifies_lemma)

theorem txTrieProof_verifies_witness:
  "\<exists>tp. txTrieProof demo_hash [[2, 1], [2, 2], replicate 40 9] 2 = Inr tp
    \<and> mptVerify demo_hash (tp_root tp) (txTrieKey 2) (tp_proof tp) = Some (replicate 40 9)"
  using txTrieProof_verifies [of demo_hash 2 "[[2, 1], [2, 2], replicate 40 9]"] by simp

text \<open>C33: A Merkle-Patricia proof binds the value to the root: two proofs accepted for one root and
  one key return the same value, whatever nodes the provers chose, as long as no two of the presented
  nodes collide under the hash.\<close>

theorem mptVerify_binding:
  assumes "mptVerify K root key pf = Some v" and "mptVerify K root key qf = Some w"
    and "inj_on K (set pf \<union> set qf)"
  shows "v = w"
  using mpt_walk_binding [OF assms(3)] assms(1,2) by (simp add: mptVerify_def)

definition demo_leaf :: bytes where
  "demo_leaf = node_rlp demo_hash (TLeaf (toNibbles (txTrieKey 0)) [5])"

theorem mptVerify_binding_witness:
  "mptVerify demo_hash (demo_hash demo_leaf) (txTrieKey 0) [demo_leaf] = Some [5] \<and> [5] = ([5] :: bytes)"
proof -
  have v: "mptVerify demo_hash (demo_hash demo_leaf) (txTrieKey 0) [demo_leaf] = Some [5]"
    unfolding mptVerify_def demo_leaf_def
    by (rule walk_follow [where n = "TLeaf (toNibbles (txTrieKey 0)) [5]" and ps = "[]" and rest = "[]" and j = 1])
       (simp_all add: toNibbles_nibbles mpt_fetch_def txTrieKey_def demo_hash_def encodeLength_def)
  moreover have "[5] = ([5] :: bytes)" by (rule mptVerify_binding [OF v v]) simp
  ultimately show ?thesis by simp
qed

end
