(* ===== verification/BG_Json.thy ===== *)
theory BG_Json
  imports BG_Prelude "HOL-Library.List_Lexorder" "HOL-Library.Char_ord"
begin

text \<open>
  \<^verbatim>\<open>packages/verify/src/canonical.ts\<close>: canonical JSON, the byte string every signature and hash of
  a proof covers, with the parts of the JavaScript language it uses: the order of an object's own
  keys, \<^verbatim>\<open>Array.prototype.sort\<close> on strings, \<^verbatim>\<open>JSON.stringify\<close> and \<^verbatim>\<open>TextEncoder\<close>.

  A JavaScript string is its list of UTF-16 code units. An object is the list of its own
  enumerable string-keyed properties in enumeration order, the keys distinct (\<open>jv_ok\<close>). Numbers
  are integers (\<open>JNum\<close>: counters, sizes and millisecond times, of absolute value below \<open>2 ^ 53\<close>,
  which JavaScript prints with exactly their digits; larger ones are doubles that print the
  shortest digits that read back, and stand outside the model) or not finite (\<open>JNonFinite\<close>);
  fractions do not occur in proofs and are not modelled.
\<close>

type_synonym jsstr = "16 word list"

definition u16 :: "string \<Rightarrow> jsstr" where
  "u16 s = map (\<lambda>c. of_nat (of_char c)) s"

datatype jv =
    JNull | JBool bool | JNum int | JNonFinite | JStr jsstr
  | JArr "jv list" | JObj "(jsstr \<times> jv) list"
  | JUndefined | JFunction | JSymbol | JBigInt int

subsection \<open>Objects: own keys in enumeration order\<close>

definition digit_unit :: "16 word \<Rightarrow> bool" where
  "digit_unit c \<longleftrightarrow> 48 \<le> c \<and> c \<le> 57"

definition units_val :: "jsstr \<Rightarrow> nat" where
  "units_val s = foldl (\<lambda>n c. n * 10 + (unat c - 48)) 0 s"

text \<open>An array index: a canonical decimal numeral at most \<open>2 ^ 32 - 2\<close>.\<close>

definition array_index :: "jsstr \<Rightarrow> bool" where
  "array_index k \<longleftrightarrow> k \<noteq> [] \<and> list_all digit_unit k \<and> (length k = 1 \<or> hd k \<noteq> 48)
     \<and> length k \<le> 10 \<and> units_val k \<le> 4294967294"

text \<open>
  \<^verbatim>\<open>obj[key] = v\<close> on an ordinary object whose prototype is \<^verbatim>\<open>Object.prototype\<close>. Array-index keys
  enumerate first, in ascending order, the others in the order they were added; an existing key
  keeps its place. The key \<^verbatim>\<open>__proto__\<close> reaches the inherited setter and adds no own property.
\<close>

fun put_index :: "jsstr \<Rightarrow> jv \<Rightarrow> (jsstr \<times> jv) list \<Rightarrow> (jsstr \<times> jv) list" where
  "put_index k v [] = [(k, v)]"
| "put_index k v ((k', v') # ps) =
     (if k' = k then (k, v) # ps
      else if array_index k' \<and> units_val k' < units_val k then (k', v') # put_index k v ps
      else (k, v) # (k', v') # ps)"

fun put_name :: "jsstr \<Rightarrow> jv \<Rightarrow> (jsstr \<times> jv) list \<Rightarrow> (jsstr \<times> jv) list" where
  "put_name k v [] = [(k, v)]"
| "put_name k v ((k', v') # ps) = (if k' = k then (k, v) # ps else (k', v') # put_name k v ps)"

definition js_put :: "(jsstr \<times> jv) list \<Rightarrow> jsstr \<Rightarrow> jv \<Rightarrow> (jsstr \<times> jv) list" where
  "js_put obj k v =
     (if k = u16 ''__proto__'' then obj
      else if array_index k then put_index k v obj else put_name k v obj)"

subsection \<open>Sorting the keys\<close>

text \<open>
  \<^verbatim>\<open>Object.keys(value).sort()\<close> compares UTF-16 code units; \<open>sort_key fst\<close> with the lexicographic
  order on lists is that order, with each key's value carried along. A child that is undefined is
  skipped.
\<close>

lemma jv_size_child [termination_simp]:
  "(k, c) \<in> set ps \<Longrightarrow> size c < Suc (size_list (size_prod (\<lambda>_. 0) size) ps)"
  by (induction ps) auto

lemma jv_size_elem [termination_simp]:
  "c \<in> set xs \<Longrightarrow> size c < Suc (size_list size xs)"
  by (induction xs) auto

fun sortedReplacer :: "jv \<Rightarrow> jv res" where
  "sortedReplacer JUndefined =
     Inl (TypeError ''bitgraph-core/canonical: undefined values are not serializable to canonical JSON'')"
| "sortedReplacer JFunction =
     Inl (TypeError ''bitgraph-core/canonical: function values are not serializable to canonical JSON'')"
| "sortedReplacer JSymbol =
     Inl (TypeError ''bitgraph-core/canonical: symbol values are not serializable to canonical JSON'')"
| "sortedReplacer (JBigInt _) =
     Inl (TypeError ''bitgraph-core/canonical: BigInt values are not serializable to canonical JSON; convert to string (decimal) before canonicalizing'')"
| "sortedReplacer (JArr xs) = rbind (rmap sortedReplacer xs) (\<lambda>ys. Inr (JArr ys))"
| "sortedReplacer (JObj ps) =
     rbind (rmap (\<lambda>p. if snd p = JUndefined then Inr (fst p, None)
                      else rbind (sortedReplacer (snd p)) (\<lambda>c. Inr (fst p, Some c)))
             (sort_key fst ps))
       (\<lambda>qs. Inr (JObj (foldl (\<lambda>obj q. case snd q of None \<Rightarrow> obj | Some c \<Rightarrow> js_put obj (fst q) c) [] qs)))"
| "sortedReplacer v = Inr v"

subsection \<open>\<open>JSON.stringify\<close> without whitespace\<close>

definition hex_unit :: "nat \<Rightarrow> 16 word" where
  "hex_unit n = of_nat (if n < 10 then 48 + n else 87 + n)"

definition esc_u :: "16 word \<Rightarrow> jsstr" where
  "esc_u c = [92, 117, hex_unit (unat c div 4096), hex_unit (unat c div 256 mod 16),
     hex_unit (unat c div 16 mod 16), hex_unit (unat c mod 16)]"

definition hi_sur :: "16 word \<Rightarrow> bool" where
  "hi_sur c \<longleftrightarrow> 0xD800 \<le> c \<and> c \<le> 0xDBFF"

definition lo_sur :: "16 word \<Rightarrow> bool" where
  "lo_sur c \<longleftrightarrow> 0xDC00 \<le> c \<and> c \<le> 0xDFFF"

definition esc_unit :: "16 word \<Rightarrow> jsstr" where
  "esc_unit c =
     (if c = 8 then [92, 98] else if c = 9 then [92, 116] else if c = 10 then [92, 110]
      else if c = 12 then [92, 102] else if c = 13 then [92, 114]
      else if c = 34 then [92, 34] else if c = 92 then [92, 92]
      else if c < 32 \<or> hi_sur c \<or> lo_sur c then esc_u c
      else [c])"

fun esc_str :: "jsstr \<Rightarrow> jsstr" where
  "esc_str [] = []"
| "esc_str [c] = esc_unit c"
| "esc_str (c # d # s) =
     (if hi_sur c \<and> lo_sur d then c # d # esc_str s else esc_unit c @ esc_str (d # s))"

definition js_quote :: "jsstr \<Rightarrow> jsstr" where
  "js_quote s = 34 # esc_str s @ [34]"

fun dec_units :: "nat \<Rightarrow> jsstr" where
  "dec_units n = (if n < 10 then [of_nat (48 + n)] else dec_units (n div 10) @ [of_nat (48 + n mod 10)])"

declare dec_units.simps [simp del]

definition int_units :: "int \<Rightarrow> jsstr" where
  "int_units i = (if i < 0 then 45 # dec_units (nat (- i)) else dec_units (nat i))"

fun join_units :: "jsstr list \<Rightarrow> jsstr" where
  "join_units [] = []"
| "join_units [x] = x"
| "join_units (x # y # xs) = x @ 44 # join_units (y # xs)"

definition unprintable :: "jv \<Rightarrow> bool" where
  "unprintable v \<longleftrightarrow> v = JUndefined \<or> v = JFunction \<or> v = JSymbol"

text \<open>In an array a value without a JSON form prints as \<^verbatim>\<open>null\<close>, as a property it is left out. A
  BigInt throws; no value that reaches \<open>js_stringify\<close> through \<open>canonicalizeToString\<close> contains one.\<close>

fun js_stringify :: "jv \<Rightarrow> jsstr" where
  "js_stringify (JBool b) = u16 (if b then ''true'' else ''false'')"
| "js_stringify (JNum n) = int_units n"
| "js_stringify (JStr s) = js_quote s"
| "js_stringify (JArr xs) = 91 # join_units (map js_stringify xs) @ [93]"
| "js_stringify (JObj ps) =
     123 # join_units (map (\<lambda>p. js_quote (fst p) @ 58 # js_stringify (snd p))
       (filter (\<lambda>p. \<not> unprintable (snd p)) ps)) @ [125]"
| "js_stringify _ = u16 ''null''"

subsection \<open>UTF-8 (\<open>TextEncoder\<close>)\<close>

definition utf8_cp :: "nat \<Rightarrow> bytes" where
  "utf8_cp n =
     (if n < 0x80 then [of_nat n]
      else if n < 0x800 then [of_nat (0xC0 + n div 64), of_nat (0x80 + n mod 64)]
      else if n < 0x10000 then
        [of_nat (0xE0 + n div 4096), of_nat (0x80 + n div 64 mod 64), of_nat (0x80 + n mod 64)]
      else [of_nat (0xF0 + n div 262144), of_nat (0x80 + n div 4096 mod 64),
            of_nat (0x80 + n div 64 mod 64), of_nat (0x80 + n mod 64)])"

definition sur_pair :: "16 word \<Rightarrow> 16 word \<Rightarrow> nat" where
  "sur_pair c d = 0x10000 + (unat c - 0xD800) * 1024 + (unat d - 0xDC00)"

text \<open>A surrogate without its partner is encoded as U+FFFD.\<close>

definition utf8_unit :: "16 word \<Rightarrow> bytes" where
  "utf8_unit c = utf8_cp (if hi_sur c \<or> lo_sur c then 0xFFFD else unat c)"

fun utf8 :: "jsstr \<Rightarrow> bytes" where
  "utf8 [] = []"
| "utf8 [c] = utf8_unit c"
| "utf8 (c # d # s) =
     (if hi_sur c \<and> lo_sur d then utf8_cp (sur_pair c d) @ utf8 s else utf8_unit c @ utf8 (d # s))"

subsection \<open>The public functions\<close>

definition canonicalizeToString :: "jv \<Rightarrow> jsstr res" where
  "canonicalizeToString obj = rbind (sortedReplacer obj) (\<lambda>v. Inr (js_stringify v))"

definition canonicalize :: "jv \<Rightarrow> bytes res" where
  "canonicalize obj = rbind (canonicalizeToString obj) (\<lambda>s. Inr (utf8 s))"

text \<open>\<^verbatim>\<open>constantTimeEqual\<close>: the loop \<^verbatim>\<open>diff |= a[i] ^ b[i]\<close> over arrays of one length.\<close>

definition constantTimeEqual :: "bytes \<Rightarrow> bytes \<Rightarrow> bool" where
  "constantTimeEqual a b =
     (if length a \<noteq> length b then False
      else foldl (\<lambda>diff p. or diff (xor (fst p) (snd p))) 0 (zip a b) = 0)"

end
