(* ===== verification/BG_Json_Inj.thy ===== *)
theory BG_Json_Inj
  imports BG_Json
begin

text \<open>
  Canonical JSON is injective: the printed text determines the value printed, and the UTF-8 bytes
  determine the text. Each layer has a unique-reading lemma: from a common text, the part printed
  and the rest that follows it are the same on both sides.
\<close>

subsection \<open>Quoted strings\<close>

definition unhex :: "16 word \<Rightarrow> nat" where
  "unhex c = (if unat c < 58 then unat c - 48 else unat c - 87)"

lemma unat_small [simp]: "n < 65536 \<Longrightarrow> unat (of_nat n :: 16 word) = n"
  by (simp add: unat_of_nat take_bit_eq_mod)

lemma unhex_hex_unit: "n < 16 \<Longrightarrow> unhex (hex_unit n) = n"
  by (simp add: unhex_def hex_unit_def del: of_nat_add)

lemma unat_unit_bound: "unat (c :: 16 word) < 65536"
  using unsigned_less [of c] by simp

definition unesc_u :: "16 word \<Rightarrow> 16 word \<Rightarrow> 16 word \<Rightarrow> 16 word \<Rightarrow> 16 word" where
  "unesc_u a b c d = of_nat (unhex a * 4096 + unhex b * 256 + unhex c * 16 + unhex d)"

lemma nibbles_sum: "a * 16 + x = n \<Longrightarrow> b * 16 + y = a \<Longrightarrow> c * 16 + z = b
    \<Longrightarrow> c * 4096 + z * 256 + y * 16 + x = (n :: nat)"
  by simp

lemma unesc_u_esc:
  "unesc_u (hex_unit (unat c div 4096)) (hex_unit (unat c div 256 mod 16))
     (hex_unit (unat c div 16 mod 16)) (hex_unit (unat c mod 16)) = c"
proof -
  have "unat c div 4096 < 16" using unat_unit_bound [of c] by (simp add: less_mult_imp_div_less)
  moreover have "n div 4096 * 4096 + n div 256 mod 16 * 256 + n div 16 mod 16 * 16 + n mod 16 = n"
    for n :: nat
  proof -
    have "n div 256 = n div 16 div 16" "n div 4096 = n div 16 div 16 div 16"
      by (simp_all add: div_mult2_eq [symmetric])
    then show ?thesis
      using nibbles_sum [OF div_mult_mod_eq [of n 16] div_mult_mod_eq [of "n div 16" 16]
        div_mult_mod_eq [of "n div 16 div 16" 16]] by metis
  qed
  ultimately show ?thesis by (simp add: unesc_u_def unhex_hex_unit del: of_nat_add of_nat_mult)
qed

definition unesc_short :: "16 word \<Rightarrow> 16 word" where
  "unesc_short d = (if d = 98 then 8 else if d = 116 then 9 else if d = 110 then 10
     else if d = 102 then 12 else if d = 114 then 13 else d)"

text \<open>A reader of quoted strings; only used to show that quoting loses nothing.\<close>

fun unesc :: "jsstr \<Rightarrow> (jsstr \<times> jsstr) option" where
  "unesc [] = None"
| "unesc (c # s) =
     (if c = 34 then Some ([], s)
      else if c = 92 then
        (case s of
           [] \<Rightarrow> None
         | d # t \<Rightarrow>
             if d = 117 then
               (case t of
                  a # b # e # f # t' \<Rightarrow> map_option (\<lambda>(u, r). (unesc_u a b e f # u, r)) (unesc t')
                | _ \<Rightarrow> None)
             else map_option (\<lambda>(u, r). (unesc_short d # u, r)) (unesc t))
      else map_option (\<lambda>(u, r). (c # u, r)) (unesc s))"

lemma unesc_plain: "c \<noteq> 34 \<Longrightarrow> c \<noteq> 92 \<Longrightarrow> unesc (c # s) = map_option (\<lambda>(u, r). (c # u, r)) (unesc s)"
  by simp

lemma unesc_two: "d \<noteq> 117 \<Longrightarrow>
    unesc (92 # d # t) = map_option (\<lambda>(u, r). (unesc_short d # u, r)) (unesc t)"
  by simp

lemma unesc_u_seq: "unesc (esc_u c @ t) = map_option (\<lambda>(u, r). (c # u, r)) (unesc t)"
  by (simp add: esc_u_def unesc_u_esc)

declare unesc.simps(2) [simp del]

lemma unesc_unit: "unesc (esc_unit c @ t) = map_option (\<lambda>(u, r). (c # u, r)) (unesc t)"
  by (simp add: esc_unit_def unesc_two unesc_plain unesc_u_seq unesc_short_def)

lemma surrogate_plain: "hi_sur c \<Longrightarrow> c \<noteq> 34 \<and> c \<noteq> 92" "lo_sur c \<Longrightarrow> c \<noteq> 34 \<and> c \<noteq> 92"
  by (auto simp: hi_sur_def lo_sur_def word_le_nat_alt)

lemma unesc_esc_str: "unesc (esc_str s @ 34 # r) = Some (s, r)"
proof (induction s rule: esc_str.induct)
  case 1
  then show ?case by (simp add: unesc.simps)
next
  case (2 c)
  show ?case by (simp add: unesc_unit) (simp add: unesc.simps)
next
  case (3 c d s)
  show ?case
  proof (cases "hi_sur c \<and> lo_sur d")
    case True
    then have "c \<noteq> 34" "c \<noteq> 92" "d \<noteq> 34" "d \<noteq> 92" using surrogate_plain by blast+
    then show ?thesis using True 3(1) by (simp add: unesc_plain)
  next
    case False
    then have "esc_str (c # d # s) = esc_unit c @ esc_str (d # s)" by auto
    then show ?thesis using 3(2) [OF False] by (simp add: unesc_unit)
  qed
qed

lemma js_quote_unique:
  "js_quote s @ r = js_quote t @ r' \<longleftrightarrow> s = t \<and> r = r'"
proof
  assume "js_quote s @ r = js_quote t @ r'"
  then have "unesc (esc_str s @ 34 # r) = unesc (esc_str t @ 34 # r')" by (simp add: js_quote_def)
  then show "s = t \<and> r = r'" by (simp add: unesc_esc_str)
qed simp

lemma js_quote_hd: "js_quote s = 34 # tl (js_quote s)"
  by (simp add: js_quote_def)

subsection \<open>Numbers\<close>

text \<open>The rest after a value: the end of the text, or a comma or closing bracket.\<close>

definition delim :: "jsstr \<Rightarrow> bool" where
  "delim r \<longleftrightarrow> r = [] \<or> hd r = 44 \<or> hd r = 93 \<or> hd r = 125"

lemma delim_Cons [simp]: "delim (c # r) \<longleftrightarrow> c = 44 \<or> c = 93 \<or> c = 125"
  by (simp add: delim_def)

lemma delim_Nil [simp]: "delim []"
  by (simp add: delim_def)

lemma dec_units_props: "dec_units n \<noteq> [] \<and> list_all digit_unit (dec_units n) \<and> units_val (dec_units n) = n"
proof (induction n rule: dec_units.induct)
  case (1 n)
  have d: "digit_unit (of_nat (48 + k))" "unat (of_nat (48 + k) :: 16 word) - 48 = k" if "k < 10" for k
    using that by (auto simp: digit_unit_def word_le_nat_alt simp del: of_nat_add)
  show ?case
  proof (cases "n < 10")
    case True
    then show ?thesis using d [of n] by (simp add: dec_units.simps units_val_def del: of_nat_add)
  next
    case False
    then show ?thesis using 1 d [of "n mod 10"]
      by (subst (1 2 3) dec_units.simps) (simp add: units_val_def del: of_nat_add)
  qed
qed

lemma delim_not_digit: "delim r \<Longrightarrow> r = [] \<or> \<not> digit_unit (hd r)"
  by (auto simp: delim_def digit_unit_def word_le_nat_alt)

lemma digits_unique:
  assumes "list_all digit_unit a" "list_all digit_unit b" "delim r" "delim r'" "a @ r = b @ r'"
  shows "a = b \<and> r = r'"
proof -
  have "takeWhile digit_unit (a @ r) = a" if "list_all digit_unit a" "delim r" for a r
    using that delim_not_digit [of r] by (cases r) (auto simp: takeWhile_append2 list_all_iff)
  then have "a = b" using assms by metis
  with assms(5) show ?thesis by simp
qed

lemma dec_units_unique:
  "delim r \<Longrightarrow> delim r' \<Longrightarrow> dec_units m @ r = dec_units n @ r' \<Longrightarrow> m = n \<and> r = r'"
  using digits_unique [of "dec_units m" "dec_units n" r r'] dec_units_props [of m] dec_units_props [of n]
  by metis

lemma dec_units_hd: "\<exists>c t. dec_units n = c # t \<and> digit_unit c"
  using dec_units_props [of n] by (cases "dec_units n") auto

lemma minus_not_digit: "\<not> digit_unit 45"
  by (simp add: digit_unit_def word_le_nat_alt)

lemma int_units_unique:
  assumes "delim r" "delim r'" "int_units i @ r = int_units j @ r'"
  shows "i = j \<and> r = r'"
proof -
  obtain c t where i: "dec_units (nat i) = c # t" "digit_unit c" using dec_units_hd by blast
  obtain d u where j: "dec_units (nat j) = d # u" "digit_unit d" using dec_units_hd by blast
  have "(i < 0) = (j < 0)"
    using assms(3) i j minus_not_digit by (auto simp: int_units_def split: if_splits)
  moreover have "nat (- i) = nat (- j) \<and> r = r'" if "i < 0" "j < 0"
    using that assms(3) by (intro dec_units_unique [OF assms(1,2)]) (simp add: int_units_def)
  moreover have "nat i = nat j \<and> r = r'" if "\<not> i < 0" "\<not> j < 0"
    using that assms(3) by (intro dec_units_unique [OF assms(1,2)]) (simp add: int_units_def)
  ultimately show ?thesis by (cases "i < 0") auto
qed

lemma int_units_hd: "\<exists>c t. int_units i = c # t \<and> (c = 45 \<or> digit_unit c)"
  using dec_units_hd [of "nat i"] by (auto simp: int_units_def)

subsection \<open>Comma-separated lists\<close>

definition starts_plain :: "jsstr \<Rightarrow> bool" where
  "starts_plain s \<longleftrightarrow> s \<noteq> [] \<and> \<not> delim s"

lemma join_unique:
  assumes u: "\<And>x y r r'. x \<in> set xs \<Longrightarrow> y \<in> set ys \<Longrightarrow> delim r \<Longrightarrow> delim r' \<Longrightarrow> f x @ r = f y @ r'
      \<Longrightarrow> x = y \<and> r = r'"
    and p: "\<And>x. x \<in> set xs \<union> set ys \<Longrightarrow> starts_plain (f x)"
    and c: "c = 93 \<or> c = (125 :: 16 word)"
    and eq: "join_units (map f xs) @ c # r = join_units (map f ys) @ c # r'"
  shows "xs = ys \<and> r = r'"
  using u p eq
proof (induction xs arbitrary: ys)
  case Nil
  show ?case
  proof (cases ys)
    case Nil
    with Nil.prems show ?thesis by simp
  next
    case (Cons y ys')
    then have "starts_plain (f y)" using Nil.prems(2) by simp
    then obtain h t where "f y = h # t" "\<not> delim (h # t)" by (cases "f y") (auto simp: starts_plain_def)
    moreover have "\<exists>z. join_units (map f ys) = f y @ z" using Cons by (cases ys') auto
    ultimately show ?thesis using Nil.prems(3) c by auto
  qed
next
  case (Cons x xs)
  have px: "starts_plain (f x)" using Cons.prems(2) by simp
  show ?case
  proof (cases ys)
    case Nil
    obtain h t where "f x = h # t" "\<not> delim (h # t)" using px by (cases "f x") (auto simp: starts_plain_def)
    moreover have "\<exists>z. join_units (map f (x # xs)) = f x @ z" by (cases xs) auto
    ultimately show ?thesis using Cons.prems(3) c Nil by auto
  next
    case (Cons y ys')
    let ?rest = "\<lambda>zs q. if zs = [] then c # q else 44 # join_units (map f zs) @ c # q"
    have j: "join_units (map f (z # zs)) @ c # q = f z @ ?rest zs q" for z zs q
      by (cases zs) auto
    have "f x @ ?rest xs r = f y @ ?rest ys' r'" using Cons.prems(3) Cons j by metis
    moreover have "delim (?rest zs q)" for zs q using c by auto
    ultimately have "x = y \<and> ?rest xs r = ?rest ys' r'"
      using Cons by (intro Cons.prems(1)) simp_all
    then have xy: "x = y" and rest: "?rest xs r = ?rest ys' r'" by blast+
    have ne: "c \<noteq> 44" using c by auto
    show ?thesis
    proof (cases "xs = []")
      case True
      with rest ne show ?thesis using Cons xy by (auto split: if_splits)
    next
      case False
      with rest ne have "ys' \<noteq> []" "join_units (map f xs) @ c # r = join_units (map f ys') @ c # r'"
        by (auto split: if_splits)
      then have "xs = ys' \<and> r = r'" using Cons.prems(1,2) Cons by (intro Cons.IH) auto
      then show ?thesis using Cons xy by simp
    qed
  qed
qed

subsection \<open>Values\<close>

text \<open>Values whose printing is faithful: everything has a JSON form, and no number is NaN or
  infinite (those print as \<^verbatim>\<open>null\<close>).\<close>

fun faithful :: "jv \<Rightarrow> bool" where
  "faithful (JArr xs) \<longleftrightarrow> list_all faithful xs"
| "faithful (JObj ps) \<longleftrightarrow> list_all (\<lambda>p. faithful (snd p)) ps"
| "faithful JNonFinite \<longleftrightarrow> False"
| "faithful JUndefined \<longleftrightarrow> False"
| "faithful JFunction \<longleftrightarrow> False"
| "faithful JSymbol \<longleftrightarrow> False"
| "faithful (JBigInt _) \<longleftrightarrow> False"
| "faithful _ \<longleftrightarrow> True"

lemma faithful_printable: "faithful v \<Longrightarrow> \<not> unprintable v"
  by (auto simp: unprintable_def)

lemma js_stringify_obj:
  assumes "faithful (JObj ps)"
  shows "js_stringify (JObj ps)
    = 123 # join_units (map (\<lambda>p. js_quote (fst p) @ 58 # js_stringify (snd p)) ps) @ [125]"
proof -
  have "filter (\<lambda>p. \<not> unprintable (snd p)) ps = ps"
    using assms faithful_printable by (auto simp: list_all_iff intro!: filter_True)
  then show ?thesis by simp
qed

lemma u16_words: "u16 ''null'' = [110, 117, 108, 108]" "u16 ''true'' = [116, 114, 117, 101]"
  "u16 ''false'' = [102, 97, 108, 115, 101]"
  by (simp_all add: u16_def)

text \<open>The first code unit tells the kind of value.\<close>

fun lead :: "jv \<Rightarrow> 16 word \<Rightarrow> bool" where
  "lead JNull c \<longleftrightarrow> c = 110"
| "lead (JBool b) c \<longleftrightarrow> c = (if b then 116 else 102)"
| "lead (JNum _) c \<longleftrightarrow> c = 45 \<or> digit_unit c"
| "lead (JStr _) c \<longleftrightarrow> c = 34"
| "lead (JArr _) c \<longleftrightarrow> c = 91"
| "lead (JObj _) c \<longleftrightarrow> c = 123"
| "lead _ c \<longleftrightarrow> c = 110"

lemma js_stringify_lead: "\<exists>c t. js_stringify v = c # t \<and> lead v c"
proof (cases v)
  case (JNum n)
  then show ?thesis using int_units_hd [of n] by auto
qed (auto simp: js_quote_def u16_words)

lemma digit_unit_range: "digit_unit c \<Longrightarrow> c \<noteq> 110 \<and> c \<noteq> 116 \<and> c \<noteq> 102 \<and> c \<noteq> 34 \<and> c \<noteq> 91
    \<and> c \<noteq> 123 \<and> c \<noteq> 44 \<and> c \<noteq> 93 \<and> c \<noteq> 125"
  by (auto simp: digit_unit_def word_le_nat_alt)

lemma lead_not_delim: "lead v c \<Longrightarrow> \<not> delim (c # t)"
  using digit_unit_range [of c] by (cases v) (auto split: if_splits)

lemma starts_plain_stringify: "starts_plain (js_stringify v)"
  using js_stringify_lead [of v] lead_not_delim by (auto simp: starts_plain_def)

lemma same_lead:
  assumes "faithful v" "faithful w" "js_stringify v @ r = js_stringify w @ r'"
  shows "\<exists>c. lead v c \<and> lead w c"
  using js_stringify_lead [of v] js_stringify_lead [of w] assms(3) by auto

text \<open>Induction on values with the hypothesis for array elements and property values.\<close>

lemma jv_induct [case_names arr obj other]:
  assumes "\<And>xs. (\<And>x. x \<in> set xs \<Longrightarrow> P x) \<Longrightarrow> P (JArr xs)"
    and "\<And>ps. (\<And>k x. (k, x) \<in> set ps \<Longrightarrow> P x) \<Longrightarrow> P (JObj ps)"
    and "\<And>v. (\<forall>xs. v \<noteq> JArr xs) \<Longrightarrow> (\<forall>ps. v \<noteq> JObj ps) \<Longrightarrow> P v"
  shows "P v"
proof (induction v rule: measure_induct_rule [where f = size])
  case (less v)
  show ?case
  proof (cases v)
    case (JArr xs)
    have "P x" if "x \<in> set xs" for x
      using that JArr by (intro less) (auto dest: jv_size_elem)
    with JArr assms(1) show ?thesis by blast
  next
    case (JObj ps)
    have "P x" if "(k, x) \<in> set ps" for k x
      using that JObj by (intro less) (auto dest: jv_size_child)
    with JObj assms(2) show ?thesis by blast
  qed (use assms(3) in blast)+
qed

lemma js_stringify_unique:
  "faithful v \<Longrightarrow> faithful w \<Longrightarrow> delim r \<Longrightarrow> delim r' \<Longrightarrow> js_stringify v @ r = js_stringify w @ r'
   \<Longrightarrow> v = w \<and> r = r'"
proof (induction v arbitrary: w r r' rule: jv_induct)
  case (arr xs)
  obtain c where "lead w c" "c = 91" using same_lead [OF arr.prems(1,2,5)] by auto
  then obtain ys where w: "w = JArr ys" using arr.prems(2) digit_unit_range by (cases w) (auto split: if_splits)
  have "xs = ys \<and> r = r'"
  proof (rule join_unique [where f = js_stringify and c = 93])
    show "join_units (map js_stringify xs) @ 93 # r = join_units (map js_stringify ys) @ 93 # r'"
      using arr.prems(5) w by simp
    show "x = y \<and> s = s'" if "x \<in> set xs" "y \<in> set ys" "delim s" "delim s'"
      "js_stringify x @ s = js_stringify y @ s'" for x y s s'
      using that arr.prems(1,2) w by (intro arr.IH) (auto simp: list_all_iff)
  qed (simp_all add: starts_plain_stringify)
  with w show ?case by simp
next
  case (obj ps)
  let ?f = "\<lambda>p. js_quote (fst p) @ 58 # js_stringify (snd p)"
  obtain c where "lead w c" "c = 123" using same_lead [OF obj.prems(1,2,5)] by auto
  then obtain qs where w: "w = JObj qs" using obj.prems(2) digit_unit_range by (cases w) (auto split: if_splits)
  have "ps = qs \<and> r = r'"
  proof (rule join_unique [where f = ?f and c = 125])
    show "join_units (map ?f ps) @ 125 # r = join_units (map ?f qs) @ 125 # r'"
      using obj.prems w by (simp add: js_stringify_obj del: js_stringify.simps)
    show "x = y \<and> s = s'" if p: "x \<in> set ps" "y \<in> set qs" "delim s" "delim s'" "?f x @ s = ?f y @ s'"
      for x y s s'
    proof -
      have k: "fst x = fst y" "js_stringify (snd x) @ s = js_stringify (snd y) @ s'"
        using p(5) by (auto simp: js_quote_unique)
      have "snd x = snd y \<and> s = s'"
        using p obj.prems(1,2) w k(2) by (intro obj.IH [of "fst x"]) (auto simp: list_all_iff)
      with k(1) show ?thesis by (simp add: prod_eq_iff)
    qed
  qed (simp_all add: starts_plain_def js_quote_def)
  with w show ?case by simp
next
  case (other v)
  obtain c where c: "lead v c" "lead w c" using same_lead [OF other.prems(1,2,5)] by auto
  show ?case
  proof (cases v)
    case (JNum n)
    then obtain m where "w = JNum m" using c other.prems(2) digit_unit_range by (cases w) (auto split: if_splits)
    then show ?thesis using JNum other.prems int_units_unique by auto
  next
    case (JStr s)
    then obtain t where "w = JStr t" using c other.prems(2) digit_unit_range by (cases w) (auto split: if_splits)
    then show ?thesis using JStr other.prems js_quote_unique by auto
  next
    case JNull
    then have "w = JNull" using c other.prems(2) digit_unit_range by (cases w) (auto split: if_splits)
    then show ?thesis using JNull other.prems by auto
  next
    case (JBool b)
    then have "w = JBool b" using c other.prems(2) digit_unit_range
      by (cases w) (auto split: if_splits)
    then show ?thesis using JBool other.prems by auto
  qed (use other in auto)
qed

theorem js_stringify_inj: "faithful v \<Longrightarrow> faithful w \<Longrightarrow> js_stringify v = js_stringify w \<Longrightarrow> v = w"
  using js_stringify_unique [of v w "[]" "[]"] by simp

subsection \<open>UTF-8\<close>

text \<open>No surrogate without its partner.\<close>

fun wf16 :: "jsstr \<Rightarrow> bool" where
  "wf16 [] \<longleftrightarrow> True"
| "wf16 [c] \<longleftrightarrow> \<not> hi_sur c \<and> \<not> lo_sur c"
| "wf16 (c # d # s) \<longleftrightarrow>
     (if hi_sur c \<and> lo_sur d then wf16 s else \<not> hi_sur c \<and> \<not> lo_sur c \<and> wf16 (d # s))"

fun code_points :: "jsstr \<Rightarrow> nat list" where
  "code_points [] = []"
| "code_points [c] = [unat c]"
| "code_points (c # d # s) =
     (if hi_sur c \<and> lo_sur d then sur_pair c d # code_points s else unat c # code_points (d # s))"

definition utf8_len :: "byte \<Rightarrow> nat" where
  "utf8_len b = (if unat b < 0x80 then 1 else if unat b < 0xE0 then 2 else if unat b < 0xF0 then 3 else 4)"

fun utf8_val :: "bytes \<Rightarrow> nat" where
  "utf8_val [a] = unat a"
| "utf8_val [a, b] = (unat a - 0xC0) * 64 + (unat b - 0x80)"
| "utf8_val [a, b, c] = (unat a - 0xE0) * 4096 + (unat b - 0x80) * 64 + (unat c - 0x80)"
| "utf8_val [a, b, c, d] = (unat a - 0xF0) * 262144 + (unat b - 0x80) * 4096 + (unat c - 0x80) * 64
     + (unat d - 0x80)"
| "utf8_val _ = 0"

lemma unat_byte_of_nat: "n < 256 \<Longrightarrow> unat (of_nat n :: byte) = n"
  by (simp add: unat_of_nat take_bit_eq_mod)

lemma sextets: "a * 64 + x = n \<Longrightarrow> b * 64 + y = a \<Longrightarrow> b * 4096 + y * 64 + x = (n :: nat)"
  "a * 64 + x = n \<Longrightarrow> b * 64 + y = a \<Longrightarrow> c * 64 + z = b \<Longrightarrow> c * 262144 + z * 4096 + y * 64 + x = n"
  by simp_all

lemma sextet_sums:
  "n div 4096 * 4096 + n div 64 mod 64 * 64 + n mod 64 = (n :: nat)"
  "n div 262144 * 262144 + n div 4096 mod 64 * 4096 + n div 64 mod 64 * 64 + n mod 64 = n"
proof -
  have d: "n div 64 div 64 = n div 4096" "n div 64 div 64 div 64 = n div 262144"
    by (simp_all add: div_mult2_eq [symmetric])
  show "n div 4096 * 4096 + n div 64 mod 64 * 64 + n mod 64 = n"
    using sextets(1) [OF div_mult_mod_eq [of n 64] div_mult_mod_eq [of "n div 64" 64]] d by simp
  show "n div 262144 * 262144 + n div 4096 mod 64 * 4096 + n div 64 mod 64 * 64 + n mod 64 = n"
    using sextets(2) [OF div_mult_mod_eq [of n 64] div_mult_mod_eq [of "n div 64" 64]
      div_mult_mod_eq [of "n div 64 div 64" 64]] d by metis
qed

lemma utf8_cp_read:
  assumes "n < 0x110000"
  shows "utf8_cp n \<noteq> [] \<and> utf8_len (hd (utf8_cp n)) = length (utf8_cp n) \<and> utf8_val (utf8_cp n) = n"
proof -
  have m: "k mod 64 < 64" for k :: nat by simp
  have b: "unat (of_nat (128 + k mod 64) :: byte) = 128 + k mod 64" for k
    using m [of k] by (intro unat_byte_of_nat) linarith
  consider "n < 0x80" | "0x80 \<le> n" "n < 0x800" | "0x800 \<le> n" "n < 0x10000" | "0x10000 \<le> n"
    by linarith
  then show ?thesis
  proof cases
    case 1
    then show ?thesis by (simp add: utf8_cp_def utf8_len_def unat_byte_of_nat)
  next
    case 2
    then have "n div 64 < 32" by (simp add: less_mult_imp_div_less)
    then have "unat (of_nat (192 + n div 64) :: byte) = 192 + n div 64" "192 + n div 64 < 224"
      by (simp_all add: unat_byte_of_nat del: of_nat_add)
    then show ?thesis
      using 2 b [of n] by (simp add: utf8_cp_def utf8_len_def del: of_nat_add)
  next
    case 3
    then have "n div 4096 < 16" by (simp add: less_mult_imp_div_less)
    then have "unat (of_nat (224 + n div 4096) :: byte) = 224 + n div 4096" "224 + n div 4096 < 240"
      by (simp_all add: unat_byte_of_nat del: of_nat_add)
    then show ?thesis
      using 3 b [of n] b [of "n div 64"] sextet_sums(1) [of n]
      by (simp add: utf8_cp_def utf8_len_def del: of_nat_add)
  next
    case 4
    have "n div 262144 < 16" using assms by (simp add: less_mult_imp_div_less)
    then have "unat (of_nat (240 + n div 262144) :: byte) = 240 + n div 262144"
      by (simp add: unat_byte_of_nat del: of_nat_add)
    then show ?thesis
      using 4 b [of n] b [of "n div 64"] b [of "n div 4096"] sextet_sums(2) [of n]
      by (simp add: utf8_cp_def utf8_len_def del: of_nat_add)
  qed
qed

lemma utf8_cp_unique:
  assumes "m < 0x110000" "n < 0x110000" "utf8_cp m @ r = utf8_cp n @ r'"
  shows "m = n \<and> r = r'"
proof -
  note M = utf8_cp_read [OF assms(1)] and N = utf8_cp_read [OF assms(2)]
  have "hd (utf8_cp m) = hd (utf8_cp n)" using assms(3) M N by (metis hd_append2)
  then have "length (utf8_cp m) = length (utf8_cp n)" using M N by metis
  then have "utf8_cp m = utf8_cp n \<and> r = r'" using assms(3) by simp
  then show ?thesis using M N by metis
qed

lemma concat_utf8_unique:
  "\<forall>n \<in> set xs \<union> set ys. n < 0x110000 \<Longrightarrow> concat (map utf8_cp xs) = concat (map utf8_cp ys) \<Longrightarrow> xs = ys"
proof (induction xs arbitrary: ys)
  case Nil
  then show ?case using utf8_cp_read by (cases ys) auto
next
  case (Cons x xs)
  show ?case
  proof (cases ys)
    case Nil
    with Cons.prems utf8_cp_read [of x] show ?thesis by auto
  next
    case (Cons y ys')
    with Cons.prems utf8_cp_unique [of x y "concat (map utf8_cp xs)" "concat (map utf8_cp ys')"]
    have "x = y" "concat (map utf8_cp xs) = concat (map utf8_cp ys')" by auto
    with Cons.IH [of ys'] Cons.prems Cons show ?thesis by auto
  qed
qed

lemma sur_range:
  "hi_sur c \<Longrightarrow> 0xD800 \<le> unat c \<and> unat c < 0xDC00" "lo_sur c \<Longrightarrow> 0xDC00 \<le> unat c \<and> unat c < 0xE000"
  by (auto simp: hi_sur_def lo_sur_def word_le_nat_alt)

lemma sur_pair_range: "hi_sur c \<Longrightarrow> lo_sur d \<Longrightarrow> 0x10000 \<le> sur_pair c d \<and> sur_pair c d < 0x110000"
  using sur_range(1) [of c] sur_range(2) [of d] unfolding sur_pair_def by simp linarith

lemma radix_1024: "a * 1024 + x = b * 1024 + y \<Longrightarrow> x < 1024 \<Longrightarrow> y < 1024 \<Longrightarrow> a = b \<and> x = (y :: nat)"
proof -
  assume h: "a * 1024 + x = b * 1024 + y" "x < 1024" "y < 1024"
  have "(a * 1024 + x) div 1024 = a" "(b * 1024 + y) div 1024 = b" using h(2,3) by simp_all
  then have "a = b" using h(1) by metis
  with h(1) show ?thesis by simp
qed

lemma code_points_Nil [simp]: "code_points s = [] \<longleftrightarrow> s = []" "[] = code_points s \<longleftrightarrow> s = []"
  by (cases s rule: code_points.cases; auto)+

lemma sur_pair_inj:
  assumes "hi_sur c" "lo_sur d" "hi_sur c'" "lo_sur d'" "sur_pair c d = sur_pair c' d'"
  shows "c = c' \<and> d = d'"
proof -
  have "(unat c - 0xD800) * 1024 + (unat d - 0xDC00) = (unat c' - 0xD800) * 1024 + (unat d' - 0xDC00)"
    using assms(5) by (simp add: sur_pair_def)
  then have "unat c - 0xD800 = unat c' - 0xD800 \<and> unat d - 0xDC00 = unat d' - 0xDC00"
    using sur_range(2) [OF assms(2)] sur_range(2) [OF assms(4)] by (intro radix_1024) (simp_all, linarith+)
  then have "unat c = unat c' \<and> unat d = unat d'"
    using sur_range(1) [OF assms(1)] sur_range(1) [OF assms(3)] sur_range(2) [OF assms(2)]
      sur_range(2) [OF assms(4)] by linarith
  then show ?thesis by (blast intro: unsigned_word_eqI)
qed

lemma utf8_code_points:
  "wf16 s \<Longrightarrow> utf8 s = concat (map utf8_cp (code_points s)) \<and> (\<forall>n \<in> set (code_points s). n < 0x110000)"
proof (induction s rule: wf16.induct)
  case (2 c)
  then show ?case using unat_unit_bound [of c] by (simp add: utf8_unit_def)
next
  case (3 c d s)
  then show ?case
    using unat_unit_bound [of c] sur_pair_range [of c d]
    by (cases "hi_sur c \<and> lo_sur d") (auto simp: utf8_unit_def)
qed simp

lemma code_points_inj: "wf16 s \<Longrightarrow> wf16 t \<Longrightarrow> code_points s = code_points t \<Longrightarrow> s = t"
proof (induction s arbitrary: t rule: wf16.induct)
  case 1
  then show ?case by (cases t rule: code_points.cases) (auto split: if_splits)
next
  case (2 c)
  show ?case
  proof (cases t rule: code_points.cases)
    case (3 e f u)
    with 2 show ?thesis using unat_unit_bound [of c] sur_pair_range [of e f] by (auto split: if_splits)
  qed (use 2 in \<open>auto simp: unsigned_word_eqI\<close>)
next
  case (3 c d s)
  show ?case
  proof (cases t rule: code_points.cases)
    case 1
    with 3 show ?thesis by (auto split: if_splits)
  next
    case (2 e)
    with 3 show ?thesis using unat_unit_bound [of e] sur_pair_range [of c d]
      by (cases s) (auto split: if_splits)
  next
    case (3 e f u)
    note t = 3
    show ?thesis
    proof (cases "hi_sur c \<and> lo_sur d")
      case True
      then have "hi_sur e \<and> lo_sur f"
        using "3.prems" t unat_unit_bound [of e] sur_pair_range [of c d] by (auto split: if_splits)
      with True "3.prems" "3.IH"(1) [OF True, of u] t show ?thesis
        using sur_pair_inj [of c d e f] by auto
    next
      case False
      then have nf: "\<not> (hi_sur e \<and> lo_sur f)"
        using "3.prems" t unat_unit_bound [of c] sur_pair_range [of e f] by (auto split: if_splits)
      with False "3.prems" t have "unat c = unat e" "code_points (d # s) = code_points (f # u)"
        "wf16 (d # s)" "wf16 (f # u)" by (auto split: if_splits)
      with False "3.IH"(2) [OF False, of "f # u"] t show ?thesis by (auto simp: unsigned_word_eqI)
    qed
  qed
qed

theorem utf8_inj: "wf16 s \<Longrightarrow> wf16 t \<Longrightarrow> utf8 s = utf8 t \<Longrightarrow> s = t"
  using utf8_code_points [of s] utf8_code_points [of t] concat_utf8_unique code_points_inj
  by (metis Un_iff)

subsection \<open>Printed text has no lone surrogate\<close>

lemma wf16_append: "wf16 a \<Longrightarrow> wf16 b \<Longrightarrow> wf16 (a @ b)"
proof (induction a rule: wf16.induct)
  case (2 c)
  then show ?case by (cases b) auto
next
  case (3 c d s)
  then show ?case by (cases "hi_sur c \<and> lo_sur d") (auto split: if_splits)
qed simp

definition bmp_unit :: "16 word \<Rightarrow> bool" where
  "bmp_unit c \<longleftrightarrow> \<not> hi_sur c \<and> \<not> lo_sur c"

lemma wf16_plain: "list_all bmp_unit s \<Longrightarrow> wf16 s"
  by (induction s rule: wf16.induct) (auto simp: bmp_unit_def)

lemma bmp_small: "unat c < 0xD800 \<Longrightarrow> bmp_unit c"
  by (auto simp: bmp_unit_def hi_sur_def lo_sur_def word_le_nat_alt)

lemma bmp_hex: "n < 16 \<Longrightarrow> bmp_unit (hex_unit n)"
  by (rule bmp_small) (simp add: hex_unit_def del: of_nat_add)

lemma list_all_esc_u: "list_all bmp_unit (esc_u c)"
proof -
  have "unat c div 4096 < 16" using unat_unit_bound [of c] by (simp add: less_mult_imp_div_less)
  moreover have "bmp_unit 92" "bmp_unit 117" by (rule bmp_small, simp)+
  ultimately show ?thesis by (simp add: esc_u_def bmp_hex)
qed

lemma list_all_esc_unit: "list_all bmp_unit (esc_unit c)"
proof -
  have b: "bmp_unit 92" "bmp_unit 98" "bmp_unit 116" "bmp_unit 110" "bmp_unit 102" "bmp_unit 114" "bmp_unit 34"
    by (rule bmp_small, simp)+
  show ?thesis using list_all_esc_u [of c] by (simp add: esc_unit_def b) (simp add: bmp_unit_def)
qed

lemma wf16_esc_str: "wf16 (esc_str s)"
proof (induction s rule: esc_str.induct)
  case (3 c d s)
  then show ?case
    by (cases "hi_sur c \<and> lo_sur d") (auto intro: wf16_append wf16_plain list_all_esc_unit)
qed (auto intro: wf16_plain list_all_esc_unit)

lemma wf16_Cons: "bmp_unit c \<Longrightarrow> wf16 s \<Longrightarrow> wf16 (c # s)"
  using wf16_append [of "[c]" s] by (simp add: bmp_unit_def)

lemma bmp_marks: "bmp_unit 34" "bmp_unit 44" "bmp_unit 45" "bmp_unit 58" "bmp_unit 91" "bmp_unit 93"
    "bmp_unit 123" "bmp_unit 125"
  by (rule bmp_small, simp)+

lemma wf16_snoc: "bmp_unit c \<Longrightarrow> wf16 s \<Longrightarrow> wf16 (s @ [c])"
  using wf16_append [of s "[c]"] by (simp add: bmp_unit_def)

lemma wf16_quote: "wf16 (js_quote s)"
  unfolding js_quote_def by (intro wf16_Cons wf16_snoc wf16_esc_str bmp_marks)

lemma wf16_int: "wf16 (int_units i)"
proof -
  have "digit_unit c \<Longrightarrow> bmp_unit c" for c
    by (rule bmp_small) (auto simp: digit_unit_def word_le_nat_alt)
  then have "wf16 (dec_units n)" for n
    using dec_units_props [of n] by (auto intro!: wf16_plain simp: list_all_iff)
  then show ?thesis by (auto simp: int_units_def intro: wf16_Cons bmp_marks)
qed

lemma wf16_join: "\<forall>s \<in> set ss. wf16 s \<Longrightarrow> wf16 (join_units ss)"
  by (induction ss rule: join_units.induct) (auto intro!: wf16_append wf16_Cons bmp_marks)

lemma wf16_u16: "wf16 (u16 ''null'')" "wf16 (u16 ''true'')" "wf16 (u16 ''false'')"
  by (rule wf16_plain, simp only: u16_words list.pred_inject, intro conjI TrueI bmp_small; simp)+

lemma wf16_stringify: "wf16 (js_stringify v)"
proof (induction v rule: jv_induct)
  case (arr xs)
  then show ?case by (auto intro!: wf16_Cons wf16_snoc wf16_join bmp_marks)
next
  case (obj ps)
  have "wf16 (js_quote (fst p) @ 58 # js_stringify (snd p))" if "p \<in> set ps" for p
    using obj.IH [of "fst p" "snd p"] that by (auto intro!: wf16_append wf16_quote wf16_Cons bmp_marks)
  then show ?case by (auto intro!: wf16_Cons wf16_snoc wf16_join bmp_marks)
next
  case (other v)
  then show ?case by (cases v) (auto intro: wf16_int wf16_quote wf16_u16)
qed

theorem canonical_bytes_inj:
  "faithful v \<Longrightarrow> faithful w \<Longrightarrow> utf8 (js_stringify v) = utf8 (js_stringify w) \<Longrightarrow> v = w"
  by (intro js_stringify_inj utf8_inj wf16_stringify)

end
