(* ===== verification/BG_Canonical.thy ===== *)
theory BG_Canonical
  imports BG_Json_Inj BG_Interfaces
begin

text \<open>
  What canonicalisation keeps and what it forgets: it does not depend on the order of an object's
  properties at any depth, and it is injective up to that order (and up to properties whose value
  is undefined or whose key is \<^verbatim>\<open>__proto__\<close>).
\<close>

subsection \<open>Objects built by assignment\<close>

lemma put_index_set: "set (put_index k v ps) \<subseteq> insert (k, v) (set ps)"
  by (induction k v ps rule: put_index.induct) auto

lemma put_name_set: "set (put_name k v ps) \<subseteq> insert (k, v) (set ps)"
  by (induction k v ps rule: put_name.induct) auto

lemma js_put_set: "set (js_put obj k v) \<subseteq> insert (k, v) (set obj)"
  using put_index_set put_name_set by (auto simp: js_put_def)

lemma js_put_mem: "p \<in> set (js_put obj k v) \<Longrightarrow> p = (k, v) \<or> p \<in> set obj"
  using js_put_set [of obj k v] by blast

lemma map_of_put_index: "k \<notin> fst ` set ps \<Longrightarrow> map_of (put_index k v ps) = (map_of ps)(k \<mapsto> v)"
  by (induction k v ps rule: put_index.induct) (auto simp: fun_eq_iff)

lemma map_of_put_name: "map_of (put_name k v ps) = (map_of ps)(k \<mapsto> v)"
  by (induction k v ps rule: put_name.induct) (auto simp: fun_eq_iff)

lemma map_of_js_put: "k \<notin> fst ` set obj \<Longrightarrow>
    map_of (js_put obj k v) = (if k = u16 ''__proto__'' then map_of obj else (map_of obj)(k \<mapsto> v))"
  by (simp add: js_put_def map_of_put_index map_of_put_name)

abbreviation put_opt :: "(jsstr \<times> jv) list \<Rightarrow> jsstr \<times> jv option \<Rightarrow> (jsstr \<times> jv) list" where
  "put_opt obj q \<equiv> (case snd q of None \<Rightarrow> obj | Some c \<Rightarrow> js_put obj (fst q) c)"

lemma foldl_put_values:
  "p \<in> set (foldl put_opt obj qs) \<Longrightarrow> p \<in> set obj \<or> (\<exists>q \<in> set qs. snd q = Some (snd p) \<and> fst q = fst p)"
proof (induction qs arbitrary: obj)
  case (Cons q qs)
  from Cons.IH Cons.prems have "p \<in> set (put_opt obj q) \<or> (\<exists>q \<in> set qs. snd q = Some (snd p) \<and> fst q = fst p)"
    by simp
  moreover have "p \<in> set obj \<or> (snd q = Some (snd p) \<and> fst q = fst p)" if "p \<in> set (put_opt obj q)"
    using that by (cases "snd q") (auto dest: js_put_mem)
  ultimately show ?case by auto
qed simp

lemma map_of_foldl_put:
  "distinct (map fst qs) \<Longrightarrow> fst ` set obj \<inter> fst ` set qs = {} \<Longrightarrow> k \<noteq> u16 ''__proto__'' \<Longrightarrow>
   map_of (foldl put_opt obj qs) k = (case map_of qs k of Some (Some c) \<Rightarrow> Some c | _ \<Rightarrow> map_of obj k)"
proof (induction qs arbitrary: obj)
  case (Cons q qs)
  obtain kq vq where q: "q = (kq, vq)" by (cases q)
  have nk: "kq \<notin> fst ` set obj" "kq \<notin> fst ` set qs" using Cons.prems q by auto
  let ?obj' = "put_opt obj q"
  have keys: "fst ` set ?obj' \<subseteq> insert kq (fst ` set obj)"
    using q by (cases vq) (auto dest: js_put_mem)
  have "fst ` set obj \<inter> fst ` set qs = {}" using Cons.prems(2) by auto
  then have dj: "fst ` set ?obj' \<inter> fst ` set qs = {}" using keys nk by blast
  have IH: "map_of (foldl put_opt ?obj' qs) k = (case map_of qs k of Some (Some c) \<Rightarrow> Some c | _ \<Rightarrow> map_of ?obj' k)"
    using Cons.prems dj by (intro Cons.IH) auto
  have m: "map_of ?obj' k = (if k = kq then (case vq of None \<Rightarrow> map_of obj k | Some c \<Rightarrow> Some c) else map_of obj k)"
    using nk q Cons.prems(3) by (cases vq) (simp_all add: map_of_js_put)
  have "map_of qs kq = None" using nk by (simp add: map_of_eq_None_iff)
  then show ?case using IH m q by (auto split: option.splits)
qed simp

subsection \<open>What the replacer returns\<close>

text \<open>No number that prints as \<^verbatim>\<open>null\<close>.\<close>

fun finite_nums :: "jv \<Rightarrow> bool" where
  "finite_nums (JArr xs) \<longleftrightarrow> list_all finite_nums xs"
| "finite_nums (JObj ps) \<longleftrightarrow> list_all (\<lambda>p. finite_nums (snd p)) ps"
| "finite_nums JNonFinite \<longleftrightarrow> False"
| "finite_nums _ \<longleftrightarrow> True"

definition replace_prop :: "jsstr \<times> jv \<Rightarrow> (jsstr \<times> jv option) res" where
  "replace_prop p = (if snd p = JUndefined then Inr (fst p, None)
     else rbind (sortedReplacer (snd p)) (\<lambda>c. Inr (fst p, Some c)))"

lemma sortedReplacer_obj:
  "sortedReplacer (JObj ps) = rbind (rmap replace_prop (sort_key fst ps))
     (\<lambda>qs. Inr (JObj (foldl put_opt [] qs)))"
  by (simp add: replace_prop_def [abs_def])

declare sortedReplacer.simps(6) [simp del]

lemma sortedReplacer_faithful:
  "sortedReplacer v = Inr w \<Longrightarrow> finite_nums v \<Longrightarrow> faithful w"
proof (induction v arbitrary: w rule: jv_induct)
  case (arr xs)
  then obtain ys where ys: "list_all2 (\<lambda>x y. sortedReplacer x = Inr y) xs ys" "w = JArr ys"
    by (auto simp: res_simps rmap_eq_Inr)
  have "faithful y" if "y \<in> set ys" for y
    using list_all2_in2 [OF ys(1) that] arr.IH arr.prems(2) by (auto simp: list_all_iff)
  with ys(2) show ?case by (simp add: list_all_iff)
next
  case (obj ps)
  then obtain qs where qs: "list_all2 (\<lambda>p q. replace_prop p = Inr q) (sort_key fst ps) qs"
      "w = JObj (foldl put_opt [] qs)"
    by (auto simp: res_simps rmap_eq_Inr sortedReplacer_obj)
  have "faithful c" if q: "q \<in> set qs" "snd q = Some c" for q c
  proof -
    obtain p where p: "p \<in> set (sort_key fst ps)" "replace_prop p = Inr q"
      using list_all2_in2 [OF qs(1) q(1)] by auto
    then have "(fst p, snd p) \<in> set ps" "sortedReplacer (snd p) = Inr c"
      using q(2) by (auto simp: replace_prop_def res_simps split: if_splits)
    moreover have "finite_nums (snd p)" using obj.prems(2) \<open>(fst p, snd p) \<in> set ps\<close> by (auto simp: list_all_iff)
    ultimately show ?thesis using obj.IH by blast
  qed
  then show ?case using qs(2) by (auto simp: list_all_iff dest!: foldl_put_values)
next
  case (other v)
  then show ?case by (cases v) auto
qed

lemma canonicalize_eq_Inr:
  "canonicalize v = Inr b \<longleftrightarrow> (\<exists>w. sortedReplacer v = Inr w \<and> b = utf8 (js_stringify w))"
  by (auto simp: canonicalize_def canonicalizeToString_def res_simps)

lemma canonicalize_inj:
  assumes "canonicalize x = Inr b" "canonicalize y = Inr b" "finite_nums x" "finite_nums y"
  shows "sortedReplacer x = sortedReplacer y"
  using assms sortedReplacer_faithful canonical_bytes_inj unfolding canonicalize_eq_Inr by metis

text \<open>Values without the types that have no JSON form.\<close>

fun json_ok :: "jv \<Rightarrow> bool" where
  "json_ok (JArr xs) \<longleftrightarrow> list_all json_ok xs"
| "json_ok (JObj ps) \<longleftrightarrow> list_all (\<lambda>p. snd p = JUndefined \<or> json_ok (snd p)) ps"
| "json_ok JUndefined \<longleftrightarrow> False"
| "json_ok JFunction \<longleftrightarrow> False"
| "json_ok JSymbol \<longleftrightarrow> False"
| "json_ok (JBigInt _) \<longleftrightarrow> False"
| "json_ok _ \<longleftrightarrow> True"

lemma rmap_all_Inr: "(\<And>x. x \<in> set xs \<Longrightarrow> \<exists>y. f x = Inr y) \<Longrightarrow> \<exists>ys. rmap f xs = Inr ys"
proof (induction xs)
  case (Cons x xs)
  then obtain y ys where "f x = Inr y" "rmap f xs = Inr ys" by (meson list.set_intros)
  then show ?case by simp
qed simp

lemma sortedReplacer_total: "json_ok v \<Longrightarrow> \<exists>w. sortedReplacer v = Inr w"
proof (induction v rule: jv_induct)
  case (arr xs)
  then have "\<exists>ys. rmap sortedReplacer xs = Inr ys" by (intro rmap_all_Inr) (auto simp: list_all_iff)
  then show ?case by auto
next
  case (obj ps)
  have "\<exists>qs. rmap replace_prop (sort_key fst ps) = Inr qs"
  proof (rule rmap_all_Inr)
    fix p assume "p \<in> set (sort_key fst ps)"
    then have p: "(fst p, snd p) \<in> set ps" by simp
    then have "snd p = JUndefined \<or> json_ok (snd p)" using obj.prems by (auto simp: list_all_iff)
    with obj.IH [OF p] show "\<exists>y. replace_prop p = Inr y" by (auto simp: replace_prop_def)
  qed
  then show ?case by (auto simp: sortedReplacer_obj)
next
  case (other v)
  then show ?case by (cases v) auto
qed

lemma canonicalize_total: "json_ok v \<Longrightarrow> \<exists>b. canonicalize v = Inr b"
  using sortedReplacer_total [of v] by (auto simp: canonicalize_eq_Inr)

text \<open>A property of an object as canonicalisation sees it.\<close>

definition canonical_field :: "(jsstr \<times> jv) list \<Rightarrow> jsstr \<Rightarrow> jv res option" where
  "canonical_field ps k = (case map_of ps k of None \<Rightarrow> None
     | Some c \<Rightarrow> if c = JUndefined then None else Some (sortedReplacer c))"

lemma map_of_perm: "distinct (map fst ps) \<Longrightarrow> mset ps = mset qs \<Longrightarrow> map_of ps = map_of qs"
proof -
  assume d: "distinct (map fst ps)" and m: "mset ps = mset qs"
  then have "distinct (map fst qs)" by (metis mset_eq_imp_distinct_iff mset_map)
  moreover have "set ps = set qs" using m by (rule mset_eq_setD)
  ultimately show ?thesis using d map_of_inject_set by blast
qed

lemma map_of_replaced:
  "list_all2 (\<lambda>p q. replace_prop p = Inr q) ss qs \<Longrightarrow>
   (case map_of ss k of None \<Rightarrow> map_of qs k = None
    | Some c \<Rightarrow> if c = JUndefined then map_of qs k = Some None
        else \<exists>c'. sortedReplacer c = Inr c' \<and> map_of qs k = Some (Some c'))"
proof (induction rule: list_all2_induct)
  case (Cons p ps q qs)
  obtain kp c where p: "p = (kp, c)" by (cases p)
  have q: "if c = JUndefined then q = (kp, None) else \<exists>c'. sortedReplacer c = Inr c' \<and> q = (kp, Some c')"
    using Cons.hyps(1) p by (auto simp: replace_prop_def res_simps)
  show ?case
  proof (cases "k = kp")
    case True
    with p q show ?thesis by (auto split: if_splits)
  next
    case False
    then have m: "map_of (p # ps) k = map_of ps k" "map_of (q # qs) k = map_of qs k"
      using p q by (auto split: if_splits)
    show ?thesis unfolding m by (rule Cons.IH)
  qed
qed simp

lemma sortedReplacer_field:
  assumes r: "sortedReplacer (JObj ps) = Inr w" and d: "distinct (map fst ps)"
    and k: "k \<noteq> u16 ''__proto__''"
  shows "\<exists>qs. w = JObj qs \<and> map_option Inr (map_of qs k) = canonical_field ps k"
proof -
  let ?ss = "sort_key fst ps"
  obtain qs where qs: "list_all2 (\<lambda>p q. replace_prop p = Inr q) ?ss qs" "w = JObj (foldl put_opt [] qs)"
    using r by (auto simp: res_simps rmap_eq_Inr sortedReplacer_obj)
  have f: "fst q = fst p" if "replace_prop p = Inr q" for p q
    using that by (auto simp: replace_prop_def res_simps split: if_splits)
  have keys: "map fst qs = map fst ?ss"
    using list_all2_map_eq [OF qs(1), of fst fst] f by simp
  have ds: "distinct (map fst ?ss)"
    using d by (simp add: distinct_map inj_on_def)
  have ms: "map_of ?ss = map_of ps" by (rule map_of_perm [OF ds]) simp
  have m: "map_of (foldl put_opt [] qs) k = (case map_of qs k of Some (Some c) \<Rightarrow> Some c | _ \<Rightarrow> None)"
    using map_of_foldl_put [of qs "[]" k] ds keys k by (auto split: option.splits)
  show ?thesis
    using m qs(2) ms map_of_replaced [OF qs(1), of k]
    by (auto simp: canonical_field_def split: option.splits if_splits)
qed

subsection \<open>Key order does not matter\<close>

lemma sorted_pairs_unique:
  assumes "mset xs = mset ys" "distinct (map fst xs)" "sorted (map fst xs)" "sorted (map fst ys)"
  shows "xs = (ys :: ('a :: linorder \<times> 'b) list)"
proof -
  have dy: "distinct (map fst ys)" using assms(1,2) by (metis mset_eq_imp_distinct_iff mset_map)
  have "set (map fst xs) = set (map fst ys)" using assms(1) by (metis mset_eq_setD set_map)
  then have keys: "map fst xs = map fst ys"
    using sorted_distinct_set_unique assms(2-4) dy by blast
  have sets: "set xs = set ys" using assms(1) by (rule mset_eq_setD)
  have "map_of xs = map_of ys" by (rule map_of_perm [OF assms(2,1)])
  moreover have "map snd zs = map (\<lambda>k. the (map_of zs k)) (map fst zs)"
    if "distinct (map fst zs)" for zs :: "('a \<times> 'b) list"
    using that by (auto intro!: map_cong simp: map_of_is_SomeI)
  ultimately have "map snd xs = map snd ys" using keys assms(2) dy by metis
  with keys show ?thesis by (metis zip_map_fst_snd)
qed

lemma sort_key_perm:
  assumes "mset xs = mset ys" "distinct (map fst xs)"
  shows "sort_key fst xs = (sort_key fst ys :: ('a :: linorder \<times> 'b) list)"
proof (rule sorted_pairs_unique)
  show "mset (sort_key fst xs) = mset (sort_key fst ys)" using assms(1) by simp
  show "distinct (map fst (sort_key fst xs))" using assms(2) by (simp add: distinct_map inj_on_def)
qed simp_all

lemma insort_key_map: "(\<And>x. f (h x) = g x) \<Longrightarrow> insort_key f (h x) (map h xs) = map h (insort_key g x xs)"
  by (induction xs) auto

lemma sort_key_map: "(\<And>x. f (h x) = g x) \<Longrightarrow> sort_key f (map h xs) = map h (sort_key g xs)"
  by (induction xs) (auto simp: insort_key_map)

lemma insort_key_cong:
  "(\<And>y. y \<in> insert x (set xs) \<Longrightarrow> f y = g y) \<Longrightarrow> insort_key f x xs = insort_key g x xs"
  by (induction xs) auto

lemma sort_key_eq_cong: "(\<And>x. x \<in> set xs \<Longrightarrow> f x = g x) \<Longrightarrow> sort_key f xs = sort_key g xs"
proof (induction xs)
  case (Cons x xs)
  then have "sort_key f xs = sort_key g xs" by simp
  moreover have "insort_key f x (sort_key g xs) = insort_key g x (sort_key g xs)"
    using Cons.prems by (intro insort_key_cong) auto
  ultimately show ?case by simp
qed simp

text \<open>The same value with the properties of any of its objects listed in another order.\<close>

inductive reordered :: "jv \<Rightarrow> jv \<Rightarrow> bool" where
  same: "reordered v v"
| arr: "list_all2 reordered xs ys \<Longrightarrow> reordered (JArr xs) (JArr ys)"
| obj: "mset ps = mset qs \<Longrightarrow> list_all2 (\<lambda>q r. fst q = fst r \<and> reordered (snd q) (snd r)) qs rs
    \<Longrightarrow> reordered (JObj ps) (JObj rs)"

text \<open>The keys of every object are distinct.\<close>

fun jv_ok :: "jv \<Rightarrow> bool" where
  "jv_ok (JArr xs) \<longleftrightarrow> list_all jv_ok xs"
| "jv_ok (JObj ps) \<longleftrightarrow> distinct (map fst ps) \<and> list_all (\<lambda>p. jv_ok (snd p)) ps"
| "jv_ok _ \<longleftrightarrow> True"

lemma list_all2_mono_set:
  "list_all2 P xs ys \<Longrightarrow> (\<And>x y. x \<in> set xs \<Longrightarrow> P x y \<Longrightarrow> Q x y) \<Longrightarrow> list_all2 Q xs ys"
  by (induction rule: list_all2_induct) auto

lemma reordered_undefined: "reordered v w \<Longrightarrow> v = JUndefined \<longleftrightarrow> w = JUndefined"
  by (auto elim: reordered.cases)

lemma rmap_cong2: "list_all2 (\<lambda>x y. f x = g y) xs ys \<Longrightarrow> rmap f xs = rmap g ys"
  by (induction rule: list_all2_induct) auto

lemma sort_key_list_all2:
  assumes "list_all2 (\<lambda>q r. fst q = fst r \<and> R (snd q) (snd r)) qs rs"
  shows "list_all2 (\<lambda>q r. fst q = fst r \<and> R (snd q) (snd r)) (sort_key fst qs)
    (sort_key fst rs :: ('a :: linorder \<times> 'b) list)"
proof -
  let ?z = "zip qs rs"
  have len: "length qs = length rs" using assms by (rule list_all2_lengthD)
  have fst_eq: "map (\<lambda>p. fst (fst p)) ?z = map (\<lambda>p. fst (snd p)) ?z"
    using assms by (auto simp: list_all2_iff intro: map_cong)
  have "sort_key fst qs = map fst (sort_key (\<lambda>p. fst (fst p)) ?z)"
    using sort_key_map [of fst fst "\<lambda>p. fst (fst p)" ?z] len by simp
  moreover have "sort_key fst rs = map snd (sort_key (\<lambda>p. fst (snd p)) ?z)"
    using sort_key_map [of fst snd "\<lambda>p. fst (snd p)" ?z] len by simp
  moreover have "sort_key (\<lambda>p. fst (fst p)) ?z = sort_key (\<lambda>p. fst (snd p)) ?z"
    using assms by (intro sort_key_eq_cong) (auto simp: list_all2_iff)
  ultimately have "list_all2 (\<lambda>q r. fst q = fst r \<and> R (snd q) (snd r)) (sort_key fst qs) (sort_key fst rs)
    \<longleftrightarrow> (\<forall>z \<in> set ?z. fst (fst z) = fst (snd z) \<and> R (snd (fst z)) (snd (snd z)))"
    by (simp only: list.rel_map list_all2_same set_sort)
  with assms show ?thesis by (auto simp: list_all2_iff)
qed

lemma sortedReplacer_reordered:
  "reordered v w \<Longrightarrow> jv_ok v \<Longrightarrow> sortedReplacer v = sortedReplacer w"
proof (induction rule: reordered.induct)
  case (arr xs ys)
  then have "rmap sortedReplacer xs = rmap sortedReplacer ys"
    by (intro rmap_cong2) (auto simp: list_all2_iff list_all_iff dest: set_zip_leftD)
  then show ?case by simp
next
  case (obj ps qs rs)
  have ok: "\<forall>p \<in> set qs. jv_ok (snd p)" "distinct (map fst ps)"
    using obj.prems mset_eq_setD [OF obj.hyps(1)] by (auto simp: list_all_iff)
  have "list_all2 (\<lambda>q r. fst q = fst r \<and> (sortedReplacer (snd q) = sortedReplacer (snd r)
      \<and> (snd q = JUndefined \<longleftrightarrow> snd r = JUndefined))) qs rs"
  proof (rule list_all2_mono_set [OF obj.IH])
    fix q r assume "q \<in> set qs" "fst q = fst r \<and> reordered (snd q) (snd r)
      \<and> (jv_ok (snd q) \<longrightarrow> sortedReplacer (snd q) = sortedReplacer (snd r))"
    then show "fst q = fst r \<and> sortedReplacer (snd q) = sortedReplacer (snd r)
        \<and> (snd q = JUndefined \<longleftrightarrow> snd r = JUndefined)"
      using ok(1) reordered_undefined by blast
  qed
  from sort_key_list_all2 [OF this]
  have "list_all2 (\<lambda>q r. replace_prop q = replace_prop r) (sort_key fst qs) (sort_key fst rs)"
    by (rule list_all2_mono) (simp add: replace_prop_def)
  then have "rmap replace_prop (sort_key fst qs) = rmap replace_prop (sort_key fst rs)"
    by (rule rmap_cong2)
  moreover have "sort_key fst ps = sort_key fst qs" by (rule sort_key_perm [OF obj.hyps(1) ok(2)])
  ultimately show ?case by (simp add: sortedReplacer_obj)
qed simp

subsection \<open>The properties\<close>

lemma constantTimeEqual_iff: "constantTimeEqual a b \<longleftrightarrow> a = b"
proof -
  have x: "xor a b = 0 \<longleftrightarrow> a = b" for a b :: byte
  proof
    assume "xor a b = 0"
    then have "xor a (xor a b) = a" by simp
    then show "a = b" by (simp flip: xor.assoc)
  qed simp
  have f: "foldl (\<lambda>d p. or d (xor (fst p) (snd p))) d ps = 0
      \<longleftrightarrow> d = 0 \<and> (\<forall>p \<in> set ps. fst p = snd p)" for d :: byte and ps
    by (induction ps arbitrary: d) (auto simp: or_eq_0_iff x)
  have "a = b" if "length a = length b" "\<forall>p \<in> set (zip a b). fst p = snd p"
    using that by (induction a b rule: list_induct2) auto
  then show ?thesis by (auto simp: constantTimeEqual_def f dest: set_zip_leftD simp: zip_same)
qed

text \<open>C40: The canonical bytes do not depend on the order in which properties were listed, at any
  depth of the value: for a value whose objects have distinct keys, reordering the properties of
  every object gives the same bytes, or the same error.\<close>

theorem canonicalize_key_order:
  assumes "reordered v w" and "jv_ok v"
  shows "canonicalize v = canonicalize w"
  using sortedReplacer_reordered [OF assms] by (simp add: canonicalize_def canonicalizeToString_def)

theorem canonicalize_key_order_witness:
  "canonicalize (JObj [(u16 ''a'', JNum 1), (u16 ''b'', JObj [(u16 ''y'', JNull), (u16 ''x'', JBool True)])])
    = canonicalize (JObj [(u16 ''b'', JObj [(u16 ''x'', JBool True), (u16 ''y'', JNull)]), (u16 ''a'', JNum 1)])"
proof (rule canonicalize_key_order)
  have "reordered (JObj [(u16 ''y'', JNull), (u16 ''x'', JBool True)]) (JObj [(u16 ''x'', JBool True), (u16 ''y'', JNull)])"
    by (rule reordered.obj [of _ "[(u16 ''x'', JBool True), (u16 ''y'', JNull)]"]) (simp_all add: reordered.same)
  then show "reordered (JObj [(u16 ''a'', JNum 1), (u16 ''b'', JObj [(u16 ''y'', JNull), (u16 ''x'', JBool True)])])
      (JObj [(u16 ''b'', JObj [(u16 ''x'', JBool True), (u16 ''y'', JNull)]), (u16 ''a'', JNum 1)])"
    by (intro reordered.obj [of _ "[(u16 ''b'', JObj [(u16 ''y'', JNull), (u16 ''x'', JBool True)]), (u16 ''a'', JNum 1)]"])
       (simp_all add: reordered.same)
qed (simp add: u16_def)

lemma same_bytes_fields:
  assumes "canonicalize (JObj ps) = Inr b" and "canonicalize (JObj qs) = Inr b"
    and "finite_nums (JObj ps)" and "finite_nums (JObj qs)"
    and "jv_ok (JObj ps)" and "jv_ok (JObj qs)"
    and "k \<noteq> u16 ''__proto__''"
  shows "canonical_field ps k = canonical_field qs k"
proof -
  obtain w where w: "sortedReplacer (JObj ps) = Inr w"
    using assms(1) unfolding canonicalize_eq_Inr by blast
  have "sortedReplacer (JObj ps) = sortedReplacer (JObj qs)"
    by (rule canonicalize_inj [OF assms(1,2,3,4)])
  with w have w': "sortedReplacer (JObj qs) = Inr w" by simp
  have d: "distinct (map fst ps)" "distinct (map fst qs)" using assms(5,6) by simp_all
  obtain rs where "w = JObj rs" "map_option Inr (map_of rs k) = canonical_field ps k"
    using sortedReplacer_field [OF w d(1) assms(7)] by blast
  moreover obtain rs' where "w = JObj rs'" "map_option Inr (map_of rs' k) = canonical_field qs k"
    using sortedReplacer_field [OF w' d(2) assms(7)] by blast
  ultimately show ?thesis by simp
qed

text \<open>C30: Canonical JSON is injective on what it keeps: two objects with the same canonical bytes
  agree on every key other than \<^verbatim>\<open>__proto__\<close>, in the canonical form of its value (the order of the
  properties inside aside, and with the same exception there). The values have distinct keys and no
  non-finite number, which prints as \<^verbatim>\<open>null\<close>. So a signature or hash over the bytes fixes every field of
  such a record but one named \<^verbatim>\<open>__proto__\<close>, which \<open>canonicalize_drops_proto\<close> shows it does not cover.\<close>

theorem canonicalize_binds_fields:
  assumes "canonicalize (JObj ps) = Inr b" and "canonicalize (JObj qs) = Inr b"
    and "finite_nums (JObj ps)" and "finite_nums (JObj qs)"
    and "jv_ok (JObj ps)" and "jv_ok (JObj qs)"
    and "k \<noteq> u16 ''__proto__''"
  shows "canonical_field ps k = canonical_field qs k"
  using assms by (rule same_bytes_fields)

theorem canonicalize_binds_fields_witness:
  "canonical_field [(u16 ''n'', JNum 3), (u16 ''a'', JNull)] (u16 ''n'')
   = canonical_field [(u16 ''a'', JNull), (u16 ''n'', JNum 3)] (u16 ''n'')"
proof (rule canonicalize_binds_fields)
  show "canonicalize (JObj [(u16 ''n'', JNum 3), (u16 ''a'', JNull)]) = Inr (utf8 (u16 ''{\"a\":null,\"n\":3}''))"
    and "canonicalize (JObj [(u16 ''a'', JNull), (u16 ''n'', JNum 3)]) = Inr (utf8 (u16 ''{\"a\":null,\"n\":3}''))"
    by code_simp+
qed (simp_all add: u16_def)


text \<open>An own property named \<^verbatim>\<open>__proto__\<close>, which a parsed JSON text can have, is dropped: the
  assignment \<^verbatim>\<open>sorted[key] = ...\<close> reaches the setter of \<^verbatim>\<open>Object.prototype\<close>, so the canonical bytes
  do not cover it.\<close>

theorem canonicalize_drops_proto: "canonicalize (JObj [(u16 ''__proto__'', JNum n)]) = canonicalize (JObj [])"
  by (simp add: canonicalize_def canonicalizeToString_def sortedReplacer_obj replace_prop_def js_put_def)

text \<open>Keys that are array indices are emitted in numeric order, not in the lexicographic order
  they were sorted into: \<^verbatim>\<open>{"10":...,"9":...}\<close> is written with \<^verbatim>\<open>"9"\<close> first.\<close>

theorem canonicalize_index_keys:
  "canonicalize (JObj [(u16 ''10'', JNull), (u16 ''9'', JNull)]) = Inr (utf8 (u16 ''{\"9\":null,\"10\":null}''))
   \<and> u16 ''10'' < u16 ''9''"
proof -
  let ?a = "u16 ''10''" and ?b = "u16 ''9''"
  have less: "?a < ?b" by (simp add: u16_def)
  have idx: "array_index ?a" "array_index ?b" "units_val ?b < units_val ?a" "?a \<noteq> u16 ''__proto__''"
      "?b \<noteq> u16 ''__proto__''" "?a \<noteq> ?b"
    by (simp_all add: u16_def array_index_def digit_unit_def units_val_def)
  have "sortedReplacer (JObj [(?a, JNull), (?b, JNull)]) = Inr (JObj [(?b, JNull), (?a, JNull)])"
    using less idx by (simp add: sortedReplacer_obj replace_prop_def js_put_def)
  then have "canonicalize (JObj [(?a, JNull), (?b, JNull)]) = Inr (utf8 (js_stringify (JObj [(?b, JNull), (?a, JNull)])))"
    by (simp only: canonicalize_def canonicalizeToString_def rbind_Inr)
  also have "js_stringify (JObj [(?b, JNull), (?a, JNull)]) = u16 ''{\"9\":null,\"10\":null}''"
    by code_simp
  finally show ?thesis using less by simp
qed

end
