(* ===== verification/BG_Js.thy ===== *)
theory BG_Js
  imports BG_Json_Inj BG_Hex BG_Interfaces
begin

text \<open>
  What the proof checks use of JavaScript and Node: property reads, truthiness, strict equality,
  \<^verbatim>\<open>BigInt(s)\<close>, \<^verbatim>\<open>Buffer.from(s, "base64")\<close> and \<^verbatim>\<open>toString("base64")\<close>, and the chains of
  \<^verbatim>\<open>if (...) return "reason"\<close> that make up a verifier.
\<close>

subsection \<open>Property reads\<close>

lemma u16_eq [simp]: "u16 a = u16 b \<longleftrightarrow> a = b"
proof
  have inj: "c = d" if "(of_nat (of_char c) :: 16 word) = of_nat (of_char d)" for c d :: char
  proof -
    have "unat (of_nat (of_char c) :: 16 word) = unat (of_nat (of_char d) :: 16 word)" using that by simp
    moreover have "(of_char c :: nat) < 256" "(of_char d :: nat) < 256" by simp_all
    ultimately have "(of_char c :: nat) = of_char d" by (simp add: unat_of_nat take_bit_eq_mod)
    then show ?thesis by simp
  qed
  assume "u16 a = u16 b"
  then show "a = b" using inj by (auto simp: u16_def inj_on_def intro: map_injective injI)
qed simp

lemma u16_Nil [simp]: "u16 s = [] \<longleftrightarrow> s = []"
  by (simp add: u16_def)

text \<open>\<open>fld v k\<close> is \<^verbatim>\<open>v[k]\<close> for a \<open>v\<close> that is not nullish; \<open>get\<close> is the read that throws on null and
  undefined. None of the names read is a property of a built-in prototype.\<close>

definition fld :: "jv \<Rightarrow> string \<Rightarrow> jv" where
  "fld v k = (case v of JObj ps \<Rightarrow> (case map_of ps (u16 k) of Some c \<Rightarrow> c | None \<Rightarrow> JUndefined) | _ \<Rightarrow> JUndefined)"

definition get :: "jv \<Rightarrow> string \<Rightarrow> jv res" where
  "get v k = (if v = JUndefined \<or> v = JNull then Inl (TypeError (''Cannot read properties of null or undefined''))
     else Inr (fld v k))"

definition is_obj :: "jv \<Rightarrow> bool" where
  "is_obj v \<longleftrightarrow> (case v of JObj _ \<Rightarrow> True | _ \<Rightarrow> False)"

definition is_str :: "jv \<Rightarrow> bool" where
  "is_str v \<longleftrightarrow> (case v of JStr _ \<Rightarrow> True | _ \<Rightarrow> False)"

definition nonempty_str :: "jv \<Rightarrow> bool" where
  "nonempty_str v \<longleftrightarrow> (case v of JStr s \<Rightarrow> s \<noteq> [] | _ \<Rightarrow> False)"

definition str_of :: "jv \<Rightarrow> jsstr" where
  "str_of v = (case v of JStr s \<Rightarrow> s | _ \<Rightarrow> [])"

definition opt_str :: "jv \<Rightarrow> bool" where
  "opt_str v \<longleftrightarrow> v = JUndefined \<or> is_str v"

definition nonneg_num :: "jv \<Rightarrow> bool" where
  "nonneg_num v \<longleftrightarrow> (case v of JNum n \<Rightarrow> 0 \<le> n | _ \<Rightarrow> False)"

text \<open>\<^verbatim>\<open>===\<close>: arrays and objects are equal only to themselves, never to another parsed value.\<close>

definition js_eq :: "jv \<Rightarrow> jv \<Rightarrow> bool" where
  "js_eq a b \<longleftrightarrow> a = b \<and> (case a of JArr _ \<Rightarrow> False | JObj _ \<Rightarrow> False | _ \<Rightarrow> True)"

definition truthy :: "jv \<Rightarrow> bool" where
  "truthy v \<longleftrightarrow> (case v of JNull \<Rightarrow> False | JUndefined \<Rightarrow> False | JBool b \<Rightarrow> b | JNum n \<Rightarrow> n \<noteq> 0
     | JStr s \<Rightarrow> s \<noteq> [] | JBigInt n \<Rightarrow> n \<noteq> 0 | _ \<Rightarrow> True)"

lemma fld_JObj: "fld (JObj ps) k = (case map_of ps (u16 k) of Some c \<Rightarrow> c | None \<Rightarrow> JUndefined)"
  by (simp add: fld_def)

lemma fld_Cons [simp]:
  "fld (JObj []) k = JUndefined" "fld (JObj ((k', v) # ps)) k = (if u16 k = k' then v else fld (JObj ps) k)"
  by (simp_all add: fld_def)

lemma fld_Undefined [simp]: "fld JUndefined k = JUndefined"
  by (simp add: fld_def)

lemma get_JObj [simp]: "get (JObj ps) k = Inr (fld (JObj ps) k)"
  by (simp add: get_def)

lemma get_is_obj: "is_obj v \<Longrightarrow> get v k = Inr (fld v k)"
  by (auto simp: is_obj_def get_def split: jv.splits)

lemma nonempty_strE:
  assumes "nonempty_str v"
  obtains s where "v = JStr s" "s \<noteq> []"
  using assms by (auto simp: nonempty_str_def split: jv.splits)

lemma str_simps [simp]:
  "is_str (JStr s)" "nonempty_str (JStr s) \<longleftrightarrow> s \<noteq> []" "str_of (JStr s) = s" "opt_str (JStr s)"
  "opt_str JUndefined" "js_eq (JStr s) v \<longleftrightarrow> v = JStr s" "js_eq v (JStr s) \<longleftrightarrow> v = JStr s"
  "is_obj (JObj ps)" "js_eq v (JBool b) \<longleftrightarrow> v = JBool b" "js_eq (JBool b) v \<longleftrightarrow> v = JBool b"
  by (auto simp: is_str_def nonempty_str_def str_of_def opt_str_def js_eq_def is_obj_def split: jv.splits)

subsection \<open>Chains of checks\<close>

text \<open>A check passes (\<open>Inr None\<close>), gives the reason it failed, or throws. \<open>checks\<close> runs a function
  body that is a sequence of them: the first that does not pass decides.\<close>

type_synonym check = "string option res"

abbreviation pass :: check where
  "pass \<equiv> Inr None"

abbreviation refuse :: "string \<Rightarrow> check" where
  "refuse m \<equiv> Inr (Some m)"

definition require :: "bool \<Rightarrow> string \<Rightarrow> check" where
  "require b m = (if b then pass else refuse m)"

fun checks :: "check list \<Rightarrow> check" where
  "checks [] = pass"
| "checks (c # cs) = (case c of Inr None \<Rightarrow> checks cs | _ \<Rightarrow> c)"

lemma require_pass [simp]: "require b m = pass \<longleftrightarrow> b"
  by (simp add: require_def)

lemma checks_pass: "checks cs = pass \<longleftrightarrow> (\<forall>c \<in> set cs. c = pass)"
  by (induction cs) (auto split: sum.splits option.splits)

lemma checks_Cons_pass [simp]: "checks (c # cs) = pass \<longleftrightarrow> c = pass \<and> checks cs = pass"
  by (auto split: sum.splits option.splits)

declare checks.simps(2) [simp del]

text \<open>\<^verbatim>\<open>if (b) { ... }\<close> around a group of checks.\<close>

definition given :: "bool \<Rightarrow> check \<Rightarrow> check" where
  "given b c = (if b then c else pass)"

lemma given_pass [simp]: "given b c = pass \<longleftrightarrow> (b \<longrightarrow> c = pass)"
  by (simp add: given_def)

text \<open>\<^verbatim>\<open>try { x = e } catch { return "reason" }\<close>.\<close>

definition try_or :: "'a res \<Rightarrow> string \<Rightarrow> ('a \<Rightarrow> check) \<Rightarrow> check" where
  "try_or r m k = (case r of Inl _ \<Rightarrow> refuse m | Inr a \<Rightarrow> k a)"

lemma try_or_pass [simp]: "try_or r m k = pass \<longleftrightarrow> (\<exists>a. r = Inr a \<and> k a = pass)"
  by (cases r) (auto simp: try_or_def)

subsection \<open>\<open>BigInt(s)\<close>\<close>

definition js_space :: "16 word \<Rightarrow> bool" where
  "js_space c \<longleftrightarrow> c \<in> {9, 10, 11, 12, 13, 32, 160, 0x1680, 0x2028, 0x2029, 0x202f, 0x205f, 0x3000, 0xfeff}
     \<or> (0x2000 \<le> c \<and> c \<le> 0x200a)"

definition js_trim :: "jsstr \<Rightarrow> jsstr" where
  "js_trim s = rev (dropWhile js_space (rev (dropWhile js_space s)))"

definition unit_digit :: "16 word \<Rightarrow> nat option" where
  "unit_digit c = (if 48 \<le> c \<and> c \<le> 57 then Some (unat c - 48)
     else if 97 \<le> c \<and> c \<le> 102 then Some (unat c - 87)
     else if 65 \<le> c \<and> c \<le> 70 then Some (unat c - 55) else None)"

definition digits_in :: "nat \<Rightarrow> jsstr \<Rightarrow> nat option" where
  "digits_in radix s =
     (if s \<noteq> [] \<and> list_all (\<lambda>c. case unit_digit c of Some d \<Rightarrow> d < radix | None \<Rightarrow> False) s
      then Some (foldl (\<lambda>n c. n * radix + the (unit_digit c)) 0 s) else None)"

definition js_bigint :: "jsstr \<Rightarrow> int option" where
  "js_bigint s0 = (let s = js_trim s0; p = take 2 s in
     if s = [] then Some 0
     else if p = u16 ''0x'' \<or> p = u16 ''0X'' then map_option int (digits_in 16 (drop 2 s))
     else if p = u16 ''0o'' \<or> p = u16 ''0O'' then map_option int (digits_in 8 (drop 2 s))
     else if p = u16 ''0b'' \<or> p = u16 ''0B'' then map_option int (digits_in 2 (drop 2 s))
     else if hd s = 45 then map_option (\<lambda>n. - int n) (digits_in 10 (tl s))
     else if hd s = 43 then map_option int (digits_in 10 (tl s))
     else map_option int (digits_in 10 s))"

text \<open>\<^verbatim>\<open>String(v)\<close> on a parsed value: an array joins its elements, null and undefined ones as empty; an
  object prints as \<^verbatim>\<open>[object Object]\<close>, unless it has a \<^verbatim>\<open>toString\<close> of its own, which is never a
  function. The sign of \<open>JNonFinite\<close> is not kept, and no parsed value holds a function or a symbol.\<close>

fun js_String :: "jv \<Rightarrow> jsstr res" where
  "js_String (JStr s) = Inr s"
| "js_String (JNum n) = Inr (int_units n)"
| "js_String (JBigInt n) = Inr (int_units n)"
| "js_String (JBool b) = Inr (u16 (if b then ''true'' else ''false''))"
| "js_String JNull = Inr (u16 ''null'')"
| "js_String JUndefined = Inr (u16 ''undefined'')"
| "js_String JNonFinite = Inr (u16 ''Infinity'')"
| "js_String (JArr vs) = rbind (rmap (\<lambda>v. if v = JNull \<or> v = JUndefined then Inr [] else js_String v) vs)
     (\<lambda>parts. Inr (join_units parts))"
| "js_String (JObj ps) = (if map_of ps (u16 ''toString'') = None then Inr (u16 ''[object Object]'')
     else Inl (TypeError ''Cannot convert object to primitive value''))"
| "js_String _ = Inl (TypeError ''not a parsed value'')"

text \<open>\<^verbatim>\<open>BigInt(v)\<close> on a value: an array or object goes through its string; null and undefined throw.\<close>

definition bigint_parse :: "jsstr \<Rightarrow> int res" where
  "bigint_parse s = (case js_bigint s of Some n \<Rightarrow> Inr n | None \<Rightarrow> Inl (JsError ''SyntaxError''))"

definition bigint_of :: "jv \<Rightarrow> int res" where
  "bigint_of v = (case v of
      JStr s \<Rightarrow> bigint_parse s
    | JNum n \<Rightarrow> Inr n | JBigInt n \<Rightarrow> Inr n | JBool b \<Rightarrow> Inr (if b then 1 else 0)
    | JNonFinite \<Rightarrow> Inl (RangeError ''not an integer'')
    | JArr _ \<Rightarrow> rbind (js_String v) bigint_parse | JObj _ \<Rightarrow> rbind (js_String v) bigint_parse
    | _ \<Rightarrow> Inl (TypeError ''Cannot convert to a BigInt''))"

subsection \<open>Base64\<close>

definition b64_char :: "nat \<Rightarrow> 16 word" where
  "b64_char n = of_nat (if n < 26 then 65 + n else if n < 52 then 71 + n else if n < 62 then n - 4
     else if n = 62 then 43 else 47)"

text \<open>The decoder also reads the URL-safe alphabet.\<close>

definition b64_val :: "16 word \<Rightarrow> nat option" where
  "b64_val c = (let n = unat c in
     if 65 \<le> n \<and> n \<le> 90 then Some (n - 65) else if 97 \<le> n \<and> n \<le> 122 then Some (n - 71)
     else if 48 \<le> n \<and> n \<le> 57 then Some (n + 4) else if n = 43 \<or> n = 45 then Some 62
     else if n = 47 \<or> n = 95 then Some 63 else None)"

fun b64_encode :: "bytes \<Rightarrow> jsstr" where
  "b64_encode (x # y # z # bs) =
     [b64_char (unat x div 4), b64_char (unat x mod 4 * 16 + unat y div 16),
      b64_char (unat y mod 16 * 4 + unat z div 64), b64_char (unat z mod 64)] @ b64_encode bs"
| "b64_encode [x, y] =
     [b64_char (unat x div 4), b64_char (unat x mod 4 * 16 + unat y div 16), b64_char (unat y mod 16 * 4), 61]"
| "b64_encode [x] = [b64_char (unat x div 4), b64_char (unat x mod 4 * 16), 61, 61]"
| "b64_encode [] = []"

fun sextets_bytes :: "nat list \<Rightarrow> bytes" where
  "sextets_bytes (a # b # c # d # ss) =
     of_nat (a * 4 + b div 16) # of_nat (b mod 16 * 16 + c div 4) # of_nat (c mod 4 * 64 + d) # sextets_bytes ss"
| "sextets_bytes [a, b, c] = [of_nat (a * 4 + b div 16), of_nat (b mod 16 * 16 + c div 4)]"
| "sextets_bytes [a, b] = [of_nat (a * 4 + b div 16)]"
| "sextets_bytes _ = []"

text \<open>\<^verbatim>\<open>Buffer.from(s, "base64")\<close> never throws: it stops at the first \<^verbatim>\<open>=\<close> and skips every other
  character outside the two alphabets.\<close>

definition b64_decode :: "jsstr \<Rightarrow> bytes" where
  "b64_decode s = sextets_bytes (List.map_filter b64_val (takeWhile (\<lambda>c. c \<noteq> 61) s))"

definition fromBase64 :: "jsstr \<Rightarrow> bytes res" where
  "fromBase64 b64 = (let buf = b64_decode b64 in
     if b64_encode buf \<noteq> b64 then Inl (JsError ''invalid base64 string'') else Inr buf)"

subsection \<open>Base64 is a strict codec\<close>

lemma b64_char_val [simp]: "n < 64 \<Longrightarrow> b64_val (b64_char n) = Some n"
  by (auto simp: b64_val_def b64_char_def Let_def unat_of_nat take_bit_eq_mod)

lemma b64_char_pad: "n < 64 \<Longrightarrow> b64_char n \<noteq> 61"
proof
  assume "n < 64" "b64_char n = 61"
  then have "b64_val 61 = Some n" by (metis b64_char_val)
  then show False by (simp add: b64_val_def)
qed

lemma byte_parts: "unat (x :: byte) div 4 < 64" "unat x div 16 < 16" "unat x div 64 < 4"
  by (simp_all add: less_mult_imp_div_less)

lemma sextet_bounds:
  "unat (x :: byte) mod 4 * 16 + unat (y :: byte) div 16 < 64"
  "unat x mod 16 * 4 + unat y div 64 < 64" "unat x mod 4 * 16 < 64" "unat x mod 16 * 4 < 64"
proof -
  have "unat x mod 4 < 4" "unat x mod 16 < 16" by simp_all
  with byte_parts(2,3) [of y] show "unat x mod 4 * 16 + unat y div 16 < 64"
    "unat x mod 16 * 4 + unat y div 64 < 64" "unat x mod 4 * 16 < 64" "unat x mod 16 * 4 < 64" by linarith+
qed

lemma div4_parts: "(n :: nat) div 4 * 4 + (n mod 4 * 16 + m) div 16 = n" if "m < 16"
  using that by simp

lemma div16_parts: "(n mod 4 * 16 + m div 16) mod 16 * 16 + (m mod 16 * 4 + k) div 4 = m"
  if "m div 16 < 16" "k < 4" for n m k :: nat
  using that by simp

lemma div64_parts: "(n mod 16 * 4 + k div 64) mod 4 * 64 + k mod 64 = k" if "k div 64 < 4" for n k :: nat
  using that by simp

lemma unat_word_inverse: "of_nat (unat (x :: byte)) = x"
  by simp

lemma b64_chunk:
  fixes x y z :: byte
  shows "of_nat (unat x div 4 * 4 + (unat x mod 4 * 16 + unat y div 16) div 16) = x"
    and "of_nat (unat x div 4 * 4 + (unat x mod 4 * 16) div 16) = x"
    and "of_nat ((unat x mod 4 * 16 + unat y div 16) mod 16 * 16 + (unat y mod 16 * 4 + unat z div 64) div 4) = y"
    and "of_nat ((unat x mod 4 * 16 + unat y div 16) mod 16 * 16 + (unat y mod 16 * 4) div 4) = y"
    and "of_nat ((unat y mod 16 * 4 + unat z div 64) mod 4 * 64 + unat z mod 64) = z"
  using div4_parts [OF byte_parts(2), of "unat x" y] div4_parts [of 0 "unat x"]
    div16_parts [OF byte_parts(2) byte_parts(3), of "unat x" y z] div16_parts [OF byte_parts(2), of 0 "unat x" y]
    div64_parts [OF byte_parts(3), of "unat y" z]
  by (simp_all only: add_0_right zero_less_numeral simp_thms unat_word_inverse)

lemma b64_sextets:
  "List.map_filter b64_val (takeWhile (\<lambda>c. c \<noteq> 61) (b64_encode (x # y # z # bs))) =
     [unat x div 4, unat x mod 4 * 16 + unat y div 16, unat y mod 16 * 4 + unat z div 64, unat z mod 64]
       @ List.map_filter b64_val (takeWhile (\<lambda>c. c \<noteq> 61) (b64_encode bs))"
  "List.map_filter b64_val (takeWhile (\<lambda>c. c \<noteq> 61) (b64_encode [x, y])) =
     [unat x div 4, unat x mod 4 * 16 + unat y div 16, unat y mod 16 * 4]"
  "List.map_filter b64_val (takeWhile (\<lambda>c. c \<noteq> 61) (b64_encode [x])) = [unat x div 4, unat x mod 4 * 16]"
  using sextet_bounds(1,2) [of x y] sextet_bounds(1,2) [of y z] sextet_bounds(3,4) [of x]
    sextet_bounds(3,4) [of y] byte_parts [of x]
  by (simp_all add: b64_char_pad List.map_filter_simps)

lemma b64_decode_encode: "b64_decode (b64_encode bs) = bs"
  by (induction bs rule: b64_encode.induct)
     (simp_all only: b64_decode_def b64_sextets append.simps sextets_bytes.simps b64_chunk,
      simp add: List.map_filter_simps)

lemma fromBase64_iff: "fromBase64 s = Inr b \<longleftrightarrow> s = b64_encode b"
  by (auto simp: fromBase64_def Let_def b64_decode_encode)

interpretation b64: strict_codec "\<lambda>_. True" b64_encode "\<lambda>s. to_option (fromBase64 s)"
  by unfold_locales (auto simp: res_simps fromBase64_iff)

lemma fromBase64_encode [simp]: "fromBase64 (b64_encode b) = Inr b"
  by (simp add: fromBase64_iff)

lemma b64_encode_eq [simp]: "b64_encode a = b64_encode b \<longleftrightarrow> a = b"
  using b64.enc_inj [of a b] by blast

lemma b64_encode_Nil [simp]: "b64_encode b = [] \<longleftrightarrow> b = []"
  by (cases b rule: b64_encode.cases) simp_all

subsection \<open>Decimal numerals parse back\<close>

lemma digit_not_space: "digit_unit c \<Longrightarrow> \<not> js_space c"
  by (auto simp: digit_unit_def js_space_def word_le_nat_alt)

lemma js_trim_digits: "list_all digit_unit s \<Longrightarrow> js_trim s = s"
proof -
  assume d: "list_all digit_unit s"
  have id: "dropWhile js_space t = t" if "list_all digit_unit t" for t
    using that by (cases t) (auto simp: digit_not_space)
  show ?thesis using id [OF d] id [of "rev s"] d by (simp add: js_trim_def)
qed

lemma unit_digit_digit: "digit_unit c \<Longrightarrow> unit_digit c = Some (unat c - 48) \<and> unat c - 48 < 10"
  by (auto simp: digit_unit_def unit_digit_def word_le_nat_alt)

lemma digits_in_10: "list_all digit_unit s \<Longrightarrow> s \<noteq> [] \<Longrightarrow> digits_in 10 s = Some (units_val s)"
proof -
  assume d: "list_all digit_unit s" and ne: "s \<noteq> []"
  have "list_all (\<lambda>c. case unit_digit c of Some d \<Rightarrow> d < 10 | None \<Rightarrow> False) s"
    using d unit_digit_digit by (auto simp: list_all_iff)
  moreover have "foldl (\<lambda>n c. n * 10 + the (unit_digit c)) 0 s = units_val s"
    unfolding units_val_def using d unit_digit_digit by (intro foldl_cong) (auto simp: list_all_iff)
  ultimately show ?thesis using ne by (simp add: digits_in_def)
qed

lemma js_bigint_digits: "list_all digit_unit s \<Longrightarrow> s \<noteq> [] \<Longrightarrow> js_bigint s = Some (int (units_val s))"
proof -
  assume d: "list_all digit_unit s" and ne: "s \<noteq> []"
  have x: "take 2 s \<noteq> u16 [CHR ''0'', a]" if "\<not> digit_unit (of_nat (of_char a))" for a
    using d that by (auto simp: u16_def take_Cons' list_all_iff split: if_splits)
       (metis in_set_takeD list.set_intros(1) list.set_intros(2))
  have "hd s \<noteq> 45" "hd s \<noteq> 43" using d ne by (cases s; auto simp: digit_unit_def)+
  then show ?thesis
    using ne by (simp add: js_bigint_def Let_def js_trim_digits [OF d] digits_in_10 [OF d] x digit_unit_def)
qed

lemma js_bigint_int_units [simp]: "js_bigint (int_units (int n)) = Some (int n)"
  using dec_units_props [of n] by (simp add: int_units_def js_bigint_digits)

lemma int_units_nonempty [simp]: "int_units i \<noteq> []"
  using int_units_hd [of i] by auto

end
