(* ===== verification/BG_ProofHash.thy ===== *)
theory BG_ProofHash
  imports BG_Canonical BG_Js
begin

text \<open>
  \<^verbatim>\<open>packages/verify/src/proof-hash.ts\<close>: the three hashes of a proof (ledger identity, signed body,
  chain), and \<^verbatim>\<open>anchor.ts\<close>: what makes a proof an Ethereum anchor. A proof is the JSON value that was
  parsed; SHA-256 is the parameter \<open>H\<close>.
\<close>

subsection \<open>The hashes\<close>

abbreviation kv :: "string \<Rightarrow> jv \<Rightarrow> jsstr \<times> jv" where
  "kv k v \<equiv> (u16 k, v)"

text \<open>An object literal's property that is set only under a condition.\<close>

definition kv_if :: "bool \<Rightarrow> string \<Rightarrow> jv \<Rightarrow> (jsstr \<times> jv) list" where
  "kv_if b k v = (if b then [kv k v] else [])"

definition computeProofHash :: "hashfun \<Rightarrow> jv \<Rightarrow> jsstr res" where
  "computeProofHash H p =
     (let signer = fld p ''signer''; env = fld p ''environment'';
          signedBody = JObj ([kv ''version'' (fld p ''version''), kv ''artifact'' (fld p ''artifact''),
              kv ''commit'' (fld p ''commit''), kv ''publicKeyB64'' (fld signer ''publicKeyB64''),
              kv ''enforcement'' (fld env ''enforcement''), kv ''measurement'' (fld env ''measurement'')]
            @ kv_if (truthy (fld p ''attribution'')) ''attribution'' (fld p ''attribution'')
            @ kv_if (truthy (fld env ''attestation'')) ''attestationFormat'' (fld (fld env ''attestation'') ''format''))
      in rbind (canonicalize signedBody) (\<lambda>bytes. Inr (b64_encode (H bytes))))"

definition LEDGER_ADDED_FIELDS :: "jsstr list" where
  "LEDGER_ADDED_FIELDS = [u16 ''proofHash'', u16 ''ethereum'']"

definition own_props :: "jv \<Rightarrow> (jsstr \<times> jv) list" where
  "own_props p = (case p of JObj ps \<Rightarrow> ps | _ \<Rightarrow> [])"

definition hashable :: "jv \<Rightarrow> jv" where
  "hashable p =
     (if list_ex (\<lambda>k. k \<in> fst ` set (own_props p)) LEDGER_ADDED_FIELDS
      then JObj (foldl (\<lambda>obj q. if fst q \<in> set LEDGER_ADDED_FIELDS then obj else js_put obj (fst q) (snd q)) [] (own_props p))
      else p)"

definition computeChainHash :: "hashfun \<Rightarrow> jv \<Rightarrow> jsstr res" where
  "computeChainHash H p = rbind (canonicalize (hashable p)) (\<lambda>bytes. Inr (b64_encode (H bytes)))"

definition buildSignedBody :: "jv \<Rightarrow> jv res" where
  "buildSignedBody p =
     (let signer = fld p ''signer''; env = fld p ''environment''; att = fld env ''attestation'';
          agency = fld p ''agency'' in
      rbind (if att \<noteq> JUndefined then get att ''format'' else Inr JUndefined) (\<lambda>format.
      rbind (if agency \<noteq> JUndefined then get agency ''actor'' else Inr JUndefined) (\<lambda>actor.
      Inr (JObj ([kv ''version'' (fld p ''version''), kv ''artifact'' (fld p ''artifact''),
          kv ''commit'' (fld p ''commit''), kv ''publicKeyB64'' (fld signer ''publicKeyB64''),
          kv ''enforcement'' (fld env ''enforcement''), kv ''measurement'' (fld env ''measurement'')]
        @ kv_if (att \<noteq> JUndefined) ''attestationFormat'' format
        @ kv_if (agency \<noteq> JUndefined) ''actor'' actor
        @ kv_if (fld p ''policy'' \<noteq> JUndefined) ''policy'' (fld p ''policy'')
        @ kv_if (fld p ''attribution'' \<noteq> JUndefined) ''attribution'' (fld p ''attribution''))))))"

definition computeSignedBodyHash :: "hashfun \<Rightarrow> jv \<Rightarrow> jsstr res" where
  "computeSignedBodyHash H p = rbind (buildSignedBody p) (\<lambda>body.
     rbind (canonicalize body) (\<lambda>bytes. Inr (b64_encode (H bytes))))"

subsection \<open>Anchors\<close>

datatype anchor_kind = Authenticated | LegacyAttribution

definition ANCHOR_ATTRIBUTION_NAME :: jsstr where
  "ANCHOR_ATTRIBUTION_NAME = u16 ''Ethereum Anchor''"

definition js_record :: "jv \<Rightarrow> jv option" where
  "js_record v = (if is_obj v then Some v else None)"

definition anchorKindOf :: "jv \<Rightarrow> anchor_kind option" where
  "anchorKindOf proof = (case js_record proof of None \<Rightarrow> None
     | Some p \<Rightarrow>
        if (case js_record (fld p ''commit'') of None \<Rightarrow> False
            | Some commit \<Rightarrow> fld commit ''anchor'' \<noteq> JUndefined \<and> fld commit ''anchor'' \<noteq> JNull)
        then Some Authenticated
        else if (case js_record (fld p ''attribution'') of None \<Rightarrow> False
            | Some attribution \<Rightarrow> js_eq (fld attribution ''name'') (JStr ANCHOR_ATTRIBUTION_NAME))
        then Some LegacyAttribution else None)"

definition anchorMarkOf :: "jv \<Rightarrow> (int \<times> jsstr) option" where
  "anchorMarkOf proof = (case js_record proof of None \<Rightarrow> None
     | Some p \<Rightarrow> (case js_record (fld p ''commit'') of None \<Rightarrow> None
       | Some commit \<Rightarrow> (case js_record (fld commit ''anchor'') of None \<Rightarrow> None
         | Some mark \<Rightarrow> (case (fld mark ''blockNumber'', fld mark ''blockHash'') of
             (JNum n, JStr h) \<Rightarrow> Some (n, h) | _ \<Rightarrow> None))))"

definition isAnchorProof :: "jv \<Rightarrow> bool" where
  "isAnchorProof proof \<longleftrightarrow> anchorKindOf proof \<noteq> None"

text \<open>A mark is only ever read from a proof that counts as authenticated.\<close>

lemma anchorMark_authenticated: "anchorMarkOf p = Some m \<Longrightarrow> anchorKindOf p = Some Authenticated"
  by (auto simp: anchorMarkOf_def anchorKindOf_def js_record_def is_obj_def split: option.splits if_splits jv.splits)

subsection \<open>When the ledger identity is the signed-body hash\<close>

text \<open>Reordering the properties of the top-level object.\<close>

lemma canonicalize_reorder:
  "mset ps = mset qs \<Longrightarrow> distinct (map fst ps) \<Longrightarrow> canonicalize (JObj ps) = canonicalize (JObj qs)"
proof -
  assume "mset ps = mset qs" "distinct (map fst ps)"
  then have "sort_key fst ps = sort_key fst qs" by (rule sort_key_perm)
  then show ?thesis by (simp add: canonicalize_def canonicalizeToString_def sortedReplacer_obj)
qed

lemma identity_is_signed_body_hash:
  assumes "fld p ''agency'' = JUndefined" and "fld p ''policy'' = JUndefined"
    and a: "fld p ''attribution'' = JUndefined \<or> truthy (fld p ''attribution'')"
    and t: "fld (fld p ''environment'') ''attestation'' = JUndefined \<or> is_obj (fld (fld p ''environment'') ''attestation'')"
  shows "computeProofHash H p = computeSignedBodyHash H p"
proof -
  let ?att = "fld (fld p ''environment'') ''attestation''"
  have at: "truthy (fld p ''attribution'') \<longleftrightarrow> fld p ''attribution'' \<noteq> JUndefined"
    using a by (auto simp: truthy_def)
  have tt: "truthy ?att \<longleftrightarrow> ?att \<noteq> JUndefined"
    using t by (auto simp: truthy_def is_obj_def split: jv.splits)
  have g: "(if ?att \<noteq> JUndefined then get ?att ''format'' else Inr JUndefined) = Inr (fld ?att ''format'')"
    using t by (auto simp: get_is_obj)
  show ?thesis
    unfolding computeProofHash_def computeSignedBodyHash_def buildSignedBody_def Let_def g at tt
    using assms(1,2)
    by (simp only: rbind_Inr if_False simp_thms kv_if_def append_Nil append_Nil2)
       (rule arg_cong2 [where f = rbind], rule canonicalize_reorder, auto simp: add_mset_commute)
qed

subsection \<open>The ledger's own fields do not change the chain hash\<close>

lemma hashable_plain: "fst ` set (own_props p) \<inter> set LEDGER_ADDED_FIELDS = {} \<Longrightarrow> hashable p = p"
  by (auto simp: hashable_def list_ex_iff)

lemma mset_put_index: "k \<notin> fst ` set ps \<Longrightarrow> mset (put_index k v ps) = add_mset (k, v) (mset ps)"
  by (induction k v ps rule: put_index.induct) auto

lemma mset_put_name: "k \<notin> fst ` set ps \<Longrightarrow> mset (put_name k v ps) = add_mset (k, v) (mset ps)"
  by (induction k v ps rule: put_name.induct) auto

lemma mset_js_put:
  "k \<notin> fst ` set ps \<Longrightarrow> k \<noteq> u16 ''__proto__'' \<Longrightarrow> mset (js_put ps k v) = add_mset (k, v) (mset ps)"
  by (simp add: js_put_def mset_put_index mset_put_name)

abbreviation not_ledger :: "jsstr \<times> jv \<Rightarrow> bool" where
  "not_ledger q \<equiv> fst q \<notin> set LEDGER_ADDED_FIELDS"

lemma mset_hashable:
  "distinct (map fst (obj @ ps)) \<Longrightarrow> u16 ''__proto__'' \<notin> fst ` set ps \<Longrightarrow>
   mset (foldl (\<lambda>obj q. if fst q \<in> set LEDGER_ADDED_FIELDS then obj else js_put obj (fst q) (snd q)) obj ps)
     = mset obj + mset (filter not_ledger ps)"
proof (induction ps arbitrary: obj)
  case (Cons q ps)
  show ?case
  proof (cases "not_ledger q")
    case True
    let ?obj = "js_put obj (fst q) (snd q)"
    have m: "mset ?obj = add_mset q (mset obj)" using Cons.prems mset_js_put [of "fst q" obj "snd q"] by auto
    have "mset (map fst (?obj @ ps)) = mset (map fst (obj @ q # ps))"
      unfolding mset_map mset_append m by simp
    then have "distinct (map fst (?obj @ ps))" using Cons.prems(1) by (metis mset_eq_imp_distinct_iff)
    with Cons.IH [of ?obj] Cons.prems m True show ?thesis by simp
  qed (use Cons in simp)
qed simp

lemma chain_hash_lemma:
  assumes "distinct (map fst ps)" and "u16 ''__proto__'' \<notin> fst ` set ps"
  shows "computeChainHash H (JObj ps) = computeChainHash H (JObj (filter not_ledger ps))"
proof -
  have f: "hashable (JObj (filter not_ledger ps)) = JObj (filter not_ledger ps)"
    by (rule hashable_plain) (auto simp: own_props_def)
  have "canonicalize (hashable (JObj ps)) = canonicalize (JObj (filter not_ledger ps))"
  proof (cases "list_ex (\<lambda>k. k \<in> fst ` set ps) LEDGER_ADDED_FIELDS")
    case True
    then show ?thesis
      using assms mset_hashable [of "[]" ps]
      by (simp add: hashable_def own_props_def, intro canonicalize_reorder [symmetric]) (simp_all add: distinct_map_filter)
  next
    case False
    then have "filter not_ledger ps = ps" by (auto simp: list_ex_iff filter_id_conv)
    with f show ?thesis by simp
  qed
  with f show ?thesis by (simp add: computeChainHash_def)
qed

subsection \<open>Properties\<close>

text \<open>The chain hash of a proof ignores exactly what the ledger adds: it is the hash of the proof
  without its \<^verbatim>\<open>proofHash\<close> and \<^verbatim>\<open>ethereum\<close> properties, wherever they stand, so the predecessor link
  the enclave wrote still matches after the ledger has stored the proof.\<close>

lemma chain_hash_without_ledger_fields:
  assumes "distinct (map fst ps)" and "u16 ''__proto__'' \<notin> fst ` set ps"
  shows "computeChainHash H (JObj ps)
    = computeChainHash H (JObj (filter (\<lambda>q. fst q \<notin> set LEDGER_ADDED_FIELDS) ps))"
  by (rule chain_hash_lemma [OF assms])

text \<open>For a proof with neither agency nor policy the frozen ledger identity is the hash of the full
  signed body, the value the signature and the attestation cover.\<close>

theorem computeProofHash_plain:
  assumes "fld p ''agency'' = JUndefined" and "fld p ''policy'' = JUndefined"
    and "fld p ''attribution'' = JUndefined \<or> truthy (fld p ''attribution'')"
    and "fld (fld p ''environment'') ''attestation'' = JUndefined \<or> is_obj (fld (fld p ''environment'') ''attestation'')"
  shows "computeProofHash H p = computeSignedBodyHash H p"
  by (rule identity_is_signed_body_hash [OF assms])

theorem computeProofHash_plain_witness:
  "computeProofHash demo_hash (JObj [kv ''version'' (JStr (u16 ''bitgraph/1''))])
    = computeSignedBodyHash demo_hash (JObj [kv ''version'' (JStr (u16 ''bitgraph/1''))])"
  by (rule computeProofHash_plain) simp_all

end
