(* ===== verification/BG_Verifier.thy ===== *)
theory BG_Verifier
  imports BG_ProofHash
begin

text \<open>
  \<^verbatim>\<open>packages/verify/src/verifier.ts\<close>: the check pipeline of \<^verbatim>\<open>verify\<close> and \<^verbatim>\<open>verifyProofIntegrity\<close>. A
  proof is the parsed JSON value; a check passes, gives the reason it failed, or throws (a rejected
  promise in the code). Reasons are the code's texts without the values it interpolates.

  Ed25519 and P-256 verification, SHA-256, \<^verbatim>\<open>JSON.parse\<close> (of WebAuthn client data) and the host name
  of a URL are parameters.
\<close>

record crypto =
  c_sha256 :: hashfun
  c_ed_verify :: "bytes \<Rightarrow> bytes \<Rightarrow> bytes \<Rightarrow> bool res"
  c_p256_verify :: "bytes \<Rightarrow> bytes \<Rightarrow> bytes \<Rightarrow> bool res"
  c_json_parse :: "jsstr \<Rightarrow> jv option"
  c_url_host :: "jsstr \<Rightarrow> jsstr option"

record verification_policy =
  requireEnforcement :: "jsstr option"
  allowedMeasurements :: "jsstr list option"
  allowedPublicKeys :: "jsstr list option"
  requireAttestation :: bool
  requireAttestationFormat :: "jsstr list option"
  minCounter :: "jsstr option"
  maxCounter :: "jsstr option"
  minTime :: "int option"
  maxTime :: "int option"
  requireEpochId :: bool
  requireActor :: bool
  allowedActorKeyIds :: "jsstr list option"
  allowedActorProviders :: "jsstr list option"
  allowedOrigins :: "jsstr list option"
  requireSlot :: bool
  requireAtomic :: bool

subsection \<open>Structural validation\<close>

definition VALID_ENFORCEMENT_TIERS :: "jsstr list" where
  "VALID_ENFORCEMENT_TIERS = [u16 ''stub'', u16 ''hw-key'', u16 ''measured-tee'']"

text \<open>\<^verbatim>\<open>typeof v === "object"\<close> and not null.\<close>

definition typeof_object :: "jv \<Rightarrow> bool" where
  "typeof_object v \<longleftrightarrow> (case v of JObj _ \<Rightarrow> True | JArr _ \<Rightarrow> True | _ \<Rightarrow> False)"

definition validateStructure :: "jv \<Rightarrow> check" where
  "validateStructure p = checks [
     require (typeof_object p) ''proof must be an object'',
     require (js_eq (fld p ''version'') (JStr (u16 ''bitgraph/1''))) ''unsupported proof version'',
     require (is_obj (fld p ''artifact'')) ''proof.artifact is missing or not an object'',
     require (js_eq (fld (fld p ''artifact'') ''hashAlg'') (JStr (u16 ''sha256''))) ''unsupported hashAlg'',
     require (nonempty_str (fld (fld p ''artifact'') ''digestB64'')) ''proof.artifact.digestB64 must be a non-empty string'',
     require (is_obj (fld p ''commit'')) ''proof.commit is missing or not an object'',
     require (nonempty_str (fld (fld p ''commit'') ''nonceB64'')) ''proof.commit.nonceB64 must be a non-empty string'',
     require (opt_str (fld (fld p ''commit'') ''counter'')) ''proof.commit.counter must be a string when present'',
     require (fld (fld p ''commit'') ''time'' = JUndefined \<or> nonneg_num (fld (fld p ''commit'') ''time''))
       ''proof.commit.time must be a non-negative finite number when present'',
     require (opt_str (fld (fld p ''commit'') ''prevB64'')) ''proof.commit.prevB64 must be a string when present'',
     require (opt_str (fld (fld p ''commit'') ''epochId'')) ''proof.commit.epochId must be a string when present'',
     require (is_obj (fld p ''signer'')) ''proof.signer is missing or not an object'',
     require (nonempty_str (fld (fld p ''signer'') ''publicKeyB64'')) ''proof.signer.publicKeyB64 must be a non-empty string'',
     require (nonempty_str (fld (fld p ''signer'') ''signatureB64'')) ''proof.signer.signatureB64 must be a non-empty string'',
     require (is_obj (fld p ''environment'')) ''proof.environment is missing or not an object'',
     require (is_str (fld (fld p ''environment'') ''enforcement'')
         \<and> str_of (fld (fld p ''environment'') ''enforcement'') \<in> set VALID_ENFORCEMENT_TIERS)
       ''proof.environment.enforcement must be one of: stub, hw-key, measured-tee'',
     require (nonempty_str (fld (fld p ''environment'') ''measurement'')) ''proof.environment.measurement must be a non-empty string'',
     given (fld (fld p ''environment'') ''attestation'' \<noteq> JUndefined)
       (let att = fld (fld p ''environment'') ''attestation'' in checks [
          require (is_obj att) ''proof.environment.attestation must be an object when present'',
          require (nonempty_str (fld att ''format'')) ''proof.environment.attestation.format must be a non-empty string'',
          require (nonempty_str (fld att ''reportB64'')) ''proof.environment.attestation.reportB64 must be a non-empty string''])]"

subsection \<open>Policy enforcement\<close>

definition opt_check :: "'a option \<Rightarrow> ('a \<Rightarrow> check) \<Rightarrow> check" where
  "opt_check x f = (case x of None \<Rightarrow> pass | Some a \<Rightarrow> f a)"

lemma opt_check_pass: "opt_check x f = pass \<longleftrightarrow> (\<forall>a. x = Some a \<longrightarrow> f a = pass)"
  by (simp add: opt_check_def split: option.splits)

text \<open>\<^verbatim>\<open>if (xs !== undefined && xs.length > 0) ...\<close>\<close>

definition list_check :: "jsstr list option \<Rightarrow> (jsstr list \<Rightarrow> check) \<Rightarrow> check" where
  "list_check x f = opt_check x (\<lambda>xs. given (xs \<noteq> []) (f xs))"

definition js_includes :: "jsstr list \<Rightarrow> jv \<Rightarrow> bool" where
  "js_includes xs v \<longleftrightarrow> (case v of JStr s \<Rightarrow> s \<in> set xs | _ \<Rightarrow> False)"

definition parse_bound :: "jsstr \<Rightarrow> int res" where
  "parse_bound s = bigint_of (JStr s)"

definition check_counters :: "jv \<Rightarrow> verification_policy \<Rightarrow> check" where
  "check_counters commit policy =
     given (minCounter policy \<noteq> None \<or> maxCounter policy \<noteq> None) (checks [
       require (fld commit ''counter'' \<noteq> JUndefined) ''policy requires a counter but proof has none'',
       try_or (bigint_of (fld commit ''counter'')) ''could not parse proof counter value as integer'' (\<lambda>c. checks [
         opt_check (minCounter policy) (\<lambda>m. try_or (parse_bound m) ''could not parse policy minCounter as integer''
           (\<lambda>lo. require (\<not> c < lo) ''counter is below minimum'')),
         opt_check (maxCounter policy) (\<lambda>m. try_or (parse_bound m) ''could not parse policy maxCounter as integer''
           (\<lambda>hi. require (\<not> hi < c) ''counter is above maximum''))])])"

definition num_of :: "jv \<Rightarrow> int" where
  "num_of v = (case v of JNum n \<Rightarrow> n | _ \<Rightarrow> 0)"

definition check_times :: "jv \<Rightarrow> verification_policy \<Rightarrow> check" where
  "check_times commit policy =
     given (minTime policy \<noteq> None \<or> maxTime policy \<noteq> None) (checks [
       require (fld commit ''time'' \<noteq> JUndefined) ''policy requires a time field but proof has none'',
       opt_check (minTime policy) (\<lambda>m. require (\<not> num_of (fld commit ''time'') < m) ''commit time is before minimum''),
       opt_check (maxTime policy) (\<lambda>m. require (\<not> m < num_of (fld commit ''time'')) ''commit time is after maximum'')])"

text \<open>\<^verbatim>\<open>k in v\<close> throws on a primitive.\<close>

definition has_key :: "string \<Rightarrow> jv \<Rightarrow> bool res" where
  "has_key k v = (case v of JObj ps \<Rightarrow> Inr (u16 k \<in> fst ` set ps) | JArr _ \<Rightarrow> Inr False | JFunction \<Rightarrow> Inr False
     | _ \<Rightarrow> Inl (TypeError ''Cannot use the in operator''))"

definition is_webauthn :: "jv \<Rightarrow> bool res" where
  "is_webauthn auth = rbind (has_key ''format'' auth) (\<lambda>b. Inr (b \<and> js_eq (fld auth ''format'') (JStr (u16 ''webauthn''))))"

definition actor_field :: "jv \<Rightarrow> string \<Rightarrow> jv res" where
  "actor_field proof k = rbind (get (fld proof ''agency'') ''actor'') (\<lambda>actor. get actor k)"

text \<open>The parsed client data's origin; an error while reading it leaves it undefined.\<close>

definition client_origin :: "crypto \<Rightarrow> jv \<Rightarrow> jv" where
  "client_origin C auth = (case fld auth ''clientDataJSON'' of
     JStr s \<Rightarrow> (case c_json_parse C s of None \<Rightarrow> JUndefined | Some v \<Rightarrow> fld v ''origin'')
   | _ \<Rightarrow> JUndefined)"

definition check_origin_policy :: "crypto \<Rightarrow> jv \<Rightarrow> jsstr list \<Rightarrow> check" where
  "check_origin_policy C proof origins = checks [
     require (fld proof ''agency'' \<noteq> JUndefined) ''policy requires an allowed origin but proof has no agency'',
     rbind (get (fld proof ''agency'') ''authorization'') (\<lambda>auth.
     rbind (is_webauthn auth) (\<lambda>w. checks [
       require w ''policy requires an allowed WebAuthn origin but the authorization is not WebAuthn'',
       require (js_includes origins (client_origin C auth)) ''WebAuthn origin is not in the allowed set'']))]"

definition checkPolicy :: "crypto \<Rightarrow> jv \<Rightarrow> verification_policy \<Rightarrow> check" where
  "checkPolicy C proof policy =
     (let env = fld proof ''environment''; commit = fld proof ''commit''; agency = fld proof ''agency'' in checks [
       opt_check (requireEnforcement policy) (\<lambda>t. require (js_eq (fld env ''enforcement'') (JStr t))
         ''enforcement tier does not meet required tier''),
       list_check (allowedMeasurements policy) (\<lambda>ms. require (js_includes ms (fld env ''measurement''))
         ''measurement is not in the allowed set''),
       list_check (allowedPublicKeys policy) (\<lambda>ks. require (js_includes ks (fld (fld proof ''signer'') ''publicKeyB64''))
         ''proof public key is not in the allowed set''),
       given (requireAttestation policy) (require (fld env ''attestation'' \<noteq> JUndefined)
         ''policy requires attestation but proof has none''),
       list_check (requireAttestationFormat policy) (\<lambda>fs. checks [
         require (fld env ''attestation'' \<noteq> JUndefined) ''policy requires attestation format but proof has no attestation'',
         require (js_includes fs (fld (fld env ''attestation'') ''format'')) ''attestation format is not in the required set'']),
       check_counters commit policy,
       check_times commit policy,
       given (requireEpochId policy) (require (nonempty_str (fld commit ''epochId''))
         ''policy requires epochId but proof has none''),
       given (requireActor policy) (require (agency \<noteq> JUndefined) ''policy requires actor (agency) but proof has none''),
       list_check (allowedActorKeyIds policy) (\<lambda>ks. checks [
         require (agency \<noteq> JUndefined) ''policy requires allowed actor key ID but proof has no agency'',
         rbind (actor_field proof ''keyId'') (\<lambda>k. require (js_includes ks k) ''actor key ID is not in the allowed set'')]),
       list_check (allowedActorProviders policy) (\<lambda>ps. checks [
         require (agency \<noteq> JUndefined) ''policy requires allowed actor provider but proof has no agency'',
         rbind (actor_field proof ''provider'') (\<lambda>p. require (js_includes ps p) ''actor provider is not in the allowed set'')]),
       list_check (allowedOrigins policy) (check_origin_policy C proof),
       given (requireSlot policy) (require (fld proof ''slotAllocation'' \<noteq> JUndefined)
         ''policy requires slotAllocation (the reserved position's record) but proof has none''),
       given (requireAtomic policy) (require (js_eq (fld commit ''atomic'') (JBool True))
         ''policy requires a bind (commit.atomic: the nonce and the payload in one action) but proof has none'')])"

subsection \<open>Agency verification\<close>

definition hex_units :: "bytes \<Rightarrow> jsstr" where
  "hex_units bs = u16 (concat (map hex_byte bs))"

text \<open>\<^verbatim>\<open>host.split(".")\<close> and \<^verbatim>\<open>join(".")\<close>.\<close>

fun split_dots :: "jsstr \<Rightarrow> jsstr \<Rightarrow> jsstr list" where
  "split_dots acc [] = [acc]"
| "split_dots acc (c # s) = (if c = 46 then acc # split_dots [] s else split_dots (acc @ [c]) s)"

fun join_dots :: "jsstr list \<Rightarrow> jsstr" where
  "join_dots [] = []"
| "join_dots [x] = x"
| "join_dots (x # y # xs) = x @ 46 # join_dots (y # xs)"

text \<open>The loop breaks at the first suffix of fewer than two labels, the whole host excepted.\<close>

definition rp_candidates :: "jsstr \<Rightarrow> jsstr list" where
  "rp_candidates host = (let labels = split_dots [] host in
     map (\<lambda>i. join_dots (drop i labels)) (takeWhile (\<lambda>i. \<not> (0 < i \<and> length labels - i < 2)) [0..<length labels]))"

definition checkWebAuthnOrigin :: "crypto \<Rightarrow> jv \<Rightarrow> bytes \<Rightarrow> check" where
  "checkWebAuthnOrigin C origin authData = checks [
     require (nonempty_str origin) ''agency: clientDataJSON missing origin field'',
     (case c_url_host C (str_of origin) of
        None \<Rightarrow> refuse ''agency: clientDataJSON origin is not a valid origin''
      | Some host \<Rightarrow> checks [
          require (host \<noteq> []) ''agency: clientDataJSON origin has no host'',
          require (list_ex (\<lambda>c. hex_units (c_sha256 C (utf8 c)) = hex_units (take 32 authData)) (rp_candidates host))
            ''agency: authenticatorData rpIdHash does not match the origin domain''])]"

definition pad4 :: "jsstr \<Rightarrow> jsstr" where
  "pad4 s = s @ replicate ((4 - length s mod 4) mod 4) 61"

definition url_to_std :: "jsstr \<Rightarrow> jsstr" where
  "url_to_std s = map (\<lambda>c. if c = 45 then 43 else if c = 95 then 47 else c) s"

definition verify_webauthn :: "crypto \<Rightarrow> jv \<Rightarrow> bytes \<Rightarrow> bytes \<Rightarrow> check" where
  "verify_webauthn C auth pubKeyDer sigBytes = checks [
     require (nonempty_str (fld auth ''clientDataJSON'')) ''agency: WebAuthn authorization missing clientDataJSON'',
     require (nonempty_str (fld auth ''authenticatorDataB64'')) ''agency: WebAuthn authorization missing authenticatorDataB64'',
     (case c_json_parse C (str_of (fld auth ''clientDataJSON'')) of
        None \<Rightarrow> refuse ''agency: clientDataJSON is not valid JSON''
      | Some cd \<Rightarrow> rbind (get cd ''type'') (\<lambda>type.
          let challenge = fld cd ''challenge''; authData = b64_decode (str_of (fld auth ''authenticatorDataB64'')) in
          checks [
            require (js_eq type (JStr (u16 ''webauthn.get''))) ''agency: clientDataJSON.type must be webauthn.get'',
            require (truthy challenge) ''agency: clientDataJSON missing challenge field'',
            (if is_str challenge then pass else Inl (TypeError ''challenge.replace is not a function'')),
            require (js_eq (JStr (pad4 (url_to_std (str_of challenge)))) (fld auth ''challenge''))
              ''agency: clientDataJSON challenge does not match authorization.challenge'',
            require (37 \<le> length authData) ''agency: authenticatorData too short'',
            require (and (authData ! 32) 1 \<noteq> 0) ''agency: authenticatorData UP flag not set'',
            require (and (authData ! 32) 4 \<noteq> 0) ''agency: authenticatorData UV flag not set'',
            checkWebAuthnOrigin C (fld cd ''origin'') authData,
            rbind (c_p256_verify C pubKeyDer
                (authData @ c_sha256 C (utf8 (str_of (fld auth ''clientDataJSON'')))) sigBytes)
              (\<lambda>valid. require valid ''agency: WebAuthn P-256 signature verification failed'')]))]"

text \<open>\<^verbatim>\<open>JSON.stringify(v, keys)\<close>: at every level only the listed keys, in the listed order.\<close>

definition select_keys :: "jsstr list \<Rightarrow> (jsstr \<times> jv) list \<Rightarrow> (jsstr \<times> jv) list" where
  "select_keys ks ps = List.map_filter (\<lambda>k. map_option (Pair k) (map_of ps k)) ks"

fun allowlisted :: "jsstr list \<Rightarrow> jv \<Rightarrow> jv" where
  "allowlisted ks (JArr xs) = JArr (map (allowlisted ks) xs)"
| "allowlisted ks (JObj ps) = JObj (select_keys ks (map (\<lambda>(k, c). (k, allowlisted ks c)) ps))"
| "allowlisted ks v = v"

definition authorization_payload :: "jv \<Rightarrow> bytes" where
  "authorization_payload auth =
     (let canonicalPayload = [kv ''purpose'' (fld auth ''purpose''), kv ''actorKeyId'' (fld auth ''actorKeyId''),
          kv ''artifactHash'' (fld auth ''artifactHash''), kv ''challenge'' (fld auth ''challenge''),
          kv ''timestamp'' (fld auth ''timestamp'')]
        @ kv_if (fld auth ''protocolVersion'' \<noteq> JUndefined) ''protocolVersion'' (fld auth ''protocolVersion'')
      in utf8 (js_stringify (allowlisted (sort (map fst canonicalPayload)) (JObj canonicalPayload))))"

definition verify_direct :: "crypto \<Rightarrow> jv \<Rightarrow> bytes \<Rightarrow> bytes \<Rightarrow> check" where
  "verify_direct C auth pubKeyDer sigBytes =
     rbind (c_p256_verify C pubKeyDer (authorization_payload auth) sigBytes)
       (\<lambda>valid. require valid ''agency: P-256 signature verification failed'')"

text \<open>\<^verbatim>\<open>batchContext\<close> lists the digests one device signature authorised.\<close>

definition in_batch :: "jv \<Rightarrow> jv \<Rightarrow> jv \<Rightarrow> bool" where
  "in_batch bc digest artifactHash = (truthy bc \<and> (case fld bc ''batchDigests'' of
     JArr ds \<Rightarrow> list_ex (\<lambda>d. js_eq d digest) ds \<and> (case ds of d # _ \<Rightarrow> js_eq d artifactHash | [] \<Rightarrow> False)
   | _ \<Rightarrow> False))"

definition catch_check :: "check \<Rightarrow> string \<Rightarrow> check" where
  "catch_check c m = (case c of Inl _ \<Rightarrow> refuse m | Inr r \<Rightarrow> Inr r)"

lemma catch_check_pass [simp]: "catch_check c m = pass \<longleftrightarrow> c = pass"
  by (simp add: catch_check_def split: sum.splits)

definition verifyAgency :: "crypto \<Rightarrow> jv \<Rightarrow> check" where
  "verifyAgency C proof = (let agency = fld proof ''agency''; digest = fld (fld proof ''artifact'') ''digestB64'' in
     rbind (get agency ''actor'') (\<lambda>actor.
     rbind (get agency ''authorization'') (\<lambda>auth.
     rbind (is_webauthn auth) (\<lambda>isWebAuthn.
     rbind (get actor ''keyId'') (\<lambda>keyId.
     let pubKeyDer = b64_decode (str_of (fld actor ''publicKeyB64''));
         sigBytes = b64_decode (str_of (fld auth ''signatureB64'')) in
     checks [
       require (nonempty_str keyId) ''agency.actor.keyId must be a non-empty string'',
       require (nonempty_str (fld actor ''publicKeyB64'')) ''agency.actor.publicKeyB64 must be a non-empty string'',
       require (js_eq (fld actor ''algorithm'') (JStr (u16 ''ES256''))) ''agency.actor.algorithm must be ES256'',
       require (nonempty_str (fld actor ''provider'')) ''agency.actor.provider must be a non-empty string'',
       require (js_eq (fld auth ''purpose'') (JStr (u16 ''bitgraph/commit-authorize/v1'')))
         ''agency.authorization.purpose must be bitgraph/commit-authorize/v1'',
       require (nonempty_str (fld auth ''signatureB64'')) ''agency.authorization.signatureB64 must be a non-empty string'',
       require (js_eq (JStr (hex_units (c_sha256 C pubKeyDer))) keyId)
         ''agency: actor.keyId does not match SHA-256 of public key'',
       require (js_eq (fld auth ''actorKeyId'') keyId) ''agency: authorization.actorKeyId does not match actor.keyId'',
       require (js_eq (fld auth ''artifactHash'') digest
           \<or> in_batch (fld agency ''batchContext'') digest (fld auth ''artifactHash''))
         ''agency: authorization.artifactHash does not match proof.artifact.digestB64'',
       catch_check (if isWebAuthn then verify_webauthn C auth pubKeyDer sigBytes
           else verify_direct C auth pubKeyDer sigBytes)
         ''agency: P-256 signature verification error''])))))"

subsection \<open>Slot allocation verification\<close>

definition slot_body :: "jv \<Rightarrow> (jsstr \<times> jv) list" where
  "slot_body slot =
     [kv ''version'' (fld slot ''version''), kv ''nonceB64'' (fld slot ''nonceB64''), kv ''counter'' (fld slot ''counter'')]
     @ kv_if (fld slot ''time'' \<noteq> JUndefined) ''time'' (fld slot ''time'')
     @ [kv ''epochId'' (fld slot ''epochId''), kv ''publicKeyB64'' (fld slot ''publicKeyB64'')]
     @ kv_if (truthy (fld slot ''chainId'')) ''chainId'' (fld slot ''chainId'')"

definition forbiddenKeys :: "jsstr list" where
  "forbiddenKeys = [u16 ''digestB64'', u16 ''artifact'', u16 ''hashAlg'', u16 ''signatureB64'']"

definition check_ed :: "crypto \<Rightarrow> bytes \<Rightarrow> bytes \<Rightarrow> bytes \<Rightarrow> string \<Rightarrow> string \<Rightarrow> check" where
  "check_ed C sig msg key err bad = try_or (c_ed_verify C sig msg key) err (\<lambda>valid. require valid bad)"

definition verifySlotAllocation :: "crypto \<Rightarrow> jv \<Rightarrow> check" where
  "verifySlotAllocation C proof =
     (let slot = fld proof ''slotAllocation''; commit = fld proof ''commit'' in
      rbind (get slot ''version'') (\<lambda>version. checks [
        require (js_eq version (JStr (u16 ''bitgraph/slot/1''))) ''slotAllocation.version must be bitgraph/slot/1'',
        require (nonempty_str (fld slot ''nonceB64'')) ''slotAllocation.nonceB64 must be a non-empty string'',
        require (nonempty_str (fld slot ''counter'')) ''slotAllocation.counter must be a non-empty string'',
        require (fld slot ''time'' = JUndefined \<or> nonneg_num (fld slot ''time''))
          ''slotAllocation.time must be a non-negative finite number when present'',
        require (nonempty_str (fld slot ''epochId'')) ''slotAllocation.epochId must be a non-empty string'',
        require (nonempty_str (fld slot ''publicKeyB64'')) ''slotAllocation.publicKeyB64 must be a non-empty string'',
        require (nonempty_str (fld slot ''signatureB64'')) ''slotAllocation.signatureB64 must be a non-empty string'',
        rbind (canonicalize (JObj (slot_body slot))) (\<lambda>slotCanonicalBytes.
          try_or (fromBase64 (str_of (fld slot ''signatureB64''))) ''slotAllocation contains invalid base64'' (\<lambda>sig.
          try_or (fromBase64 (str_of (fld slot ''publicKeyB64''))) ''slotAllocation contains invalid base64'' (\<lambda>key.
          checks [
            require (length sig = 64) ''slotAllocation.signatureB64 must decode to 64 bytes (Ed25519)'',
            require (length key = 32) ''slotAllocation.publicKeyB64 must decode to 32 bytes (Ed25519)'',
            check_ed C sig slotCanonicalBytes key ''slotAllocation signature verification error''
              ''slotAllocation signature verification failed'',
            require (list_all (\<lambda>q. fst q \<notin> set forbiddenKeys) (slot_body slot))
              ''slotAllocation body contains forbidden field: causal independence violated'',
            require (nonempty_str (fld commit ''slotHashB64'')) ''commit.slotHashB64 must be present when slotAllocation is present'',
            try_or (fromBase64 (str_of (fld commit ''slotHashB64''))) ''commit.slotHashB64 is not valid base64'' (\<lambda>proofSlotHash.
              require (constantTimeEqual (c_sha256 C slotCanonicalBytes) proofSlotHash)
                ''commit.slotHashB64 does not match SHA-256 of the canonical position record: position binding broken''),
            require (js_eq (fld slot ''nonceB64'') (fld commit ''nonceB64'')) ''slotAllocation.nonceB64 does not match commit.nonceB64'',
            require (nonempty_str (fld commit ''slotCounter'')) ''commit.slotCounter must be present when slotAllocation is present'',
            require (js_eq (fld commit ''slotCounter'') (fld slot ''counter'')) ''commit.slotCounter does not match slotAllocation.counter'',
            require (fld commit ''counter'' \<noteq> JUndefined) ''commit.counter must be present for position ordering verification'',
            try_or (bigint_of (fld slot ''counter'')) ''could not parse the reserved or commit counter as an integer'' (\<lambda>slotCounter.
              try_or (bigint_of (fld commit ''counter'')) ''could not parse the reserved or commit counter as an integer'' (\<lambda>commitCounter.
                require (\<not> commitCounter \<le> slotCounter) ''slotAllocation.counter must be less than commit.counter'')),
            require (js_eq (fld slot ''publicKeyB64'') (fld (fld proof ''signer'') ''publicKeyB64''))
              ''slotAllocation.publicKeyB64 does not match signer.publicKeyB64: different enclave'',
            require (fld commit ''epochId'' = JUndefined \<or> js_eq (fld slot ''epochId'') (fld commit ''epochId''))
              ''slotAllocation.epochId does not match commit.epochId: different lifecycle''])))]))"

definition check_atomic :: "jv \<Rightarrow> check" where
  "check_atomic proof =
     (let commit = fld proof ''commit''; slot = fld proof ''slotAllocation'' in
      given (fld commit ''atomic'' \<noteq> JUndefined) (checks [
        require (js_eq (fld commit ''atomic'') (JBool True)) ''commit.atomic must be true when present'',
        require (slot \<noteq> JUndefined) ''commit.atomic requires slotAllocation (the nonce own record)'',
        try_or (bigint_of (if fld commit ''counter'' = JUndefined \<or> fld commit ''counter'' = JNull then JStr (u16 ''-1'') else fld commit ''counter''))
            ''commit.atomic: could not parse the nonce or payload counter as an integer'' (\<lambda>c.
          try_or (rbind (get slot ''counter'') bigint_of)
            ''commit.atomic: could not parse the nonce or payload counter as an integer'' (\<lambda>n.
            require (c = n + 1) ''commit.atomic: the payload count must be the nonce count plus one''))]))"

subsection \<open>Epoch links\<close>

type_synonym verification_context = "jsstr \<Rightarrow> jsstr option"

definition createVerificationContext :: verification_context where
  "createVerificationContext = (\<lambda>_. None)"

definition resetEpochLinkState :: "verification_context \<Rightarrow> verification_context" where
  "resetEpochLinkState context = (\<lambda>_. None)"

text \<open>\<^verbatim>\<open>`${prevEpochId}|${prevCounter}|${prevProofHashB64}`\<close>, hashed.\<close>

definition computeSuccessorKey :: "crypto \<Rightarrow> jv \<Rightarrow> jsstr" where
  "computeSuccessorKey C link = b64_encode (c_sha256 C (utf8 (str_of (fld link ''prevEpochId'') @ 124 #
     str_of (fld link ''prevCounter'') @ 124 # str_of (fld link ''prevProofHashB64''))))"

definition validateEpochLinkShape :: "jv \<Rightarrow> check" where
  "validateEpochLinkShape proof =
     (let commit = fld proof ''commit''; link = fld commit ''epochLink'' in
      rbind (get link ''prevEpochId'') (\<lambda>prevEpochId. checks [
        require (nonempty_str prevEpochId) ''epochLink.prevEpochId must be a non-empty string'',
        require (nonempty_str (fld link ''prevPublicKeyB64'')) ''epochLink.prevPublicKeyB64 must be a non-empty string'',
        require (nonempty_str (fld link ''prevCounter'')) ''epochLink.prevCounter must be a non-empty string'',
        require (nonempty_str (fld link ''prevProofHashB64'')) ''epochLink.prevProofHashB64 must be a non-empty string'',
        require (nonempty_str (fld link ''toEpochId'')) ''epochLink.toEpochId must be a non-empty string'',
        require (nonempty_str (fld link ''toPublicKeyB64'')) ''epochLink.toPublicKeyB64 must be a non-empty string'',
        try_or (bigint_of (fld link ''prevCounter'')) ''epochLink.prevCounter is not a valid decimal string'' (\<lambda>_. pass),
        require (fld commit ''epochId'' = JUndefined \<or> js_eq (fld link ''toEpochId'') (fld commit ''epochId''))
          ''epochLink.toEpochId does not match proof commit.epochId: successor binding broken'',
        require (js_eq (fld link ''toPublicKeyB64'') (fld (fld proof ''signer'') ''publicKeyB64''))
          ''epochLink.toPublicKeyB64 does not match proof signer.publicKeyB64: successor binding broken'',
        require (\<not> js_eq prevEpochId (fld link ''toEpochId''))
          ''epochLink.prevEpochId equals toEpochId: epoch link must cross epoch boundary'',
        require (\<not> js_eq (fld link ''prevPublicKeyB64'') (fld link ''toPublicKeyB64''))
          ''epochLink.prevPublicKeyB64 equals toPublicKeyB64: epochs must have different keys'']))"

text \<open>The error, and the consumption to record once every later check has passed.\<close>

definition checkEpochLink :: "crypto \<Rightarrow> jv \<Rightarrow> verification_context \<Rightarrow> (string option \<times> (jsstr \<times> jsstr) option) res" where
  "checkEpochLink C proof context =
     rbind (validateEpochLinkShape proof) (\<lambda>shapeError. case shapeError of
       Some e \<Rightarrow> Inr (Some e, None)
     | None \<Rightarrow>
        (let link = fld (fld proof ''commit'') ''epochLink''; successorKey = computeSuccessorKey C link;
             toEpochId = str_of (fld link ''toEpochId'') in
         case context successorKey of
           Some existing \<Rightarrow> if existing \<noteq> toEpochId then Inr (Some ''FORK DETECTED'', None) else Inr (None, None)
         | None \<Rightarrow> Inr (None, Some (successorKey, toEpochId))))"

subsection \<open>The pipeline\<close>

definition check_artifact :: "crypto \<Rightarrow> jv \<Rightarrow> bytes option \<Rightarrow> check" where
  "check_artifact C proof bytes =
     try_or (fromBase64 (str_of (fld (fld proof ''artifact'') ''digestB64''))) ''artifact.digestB64 is not valid base64''
       (\<lambda>proofDigest. case bytes of None \<Rightarrow> pass
         | Some b \<Rightarrow> require (constantTimeEqual (c_sha256 C b) proofDigest)
             ''artifact digest mismatch: the provided bytes do not match the committed digest'')"

definition check_signature :: "crypto \<Rightarrow> jv \<Rightarrow> check" where
  "check_signature C proof =
     try_or (fromBase64 (str_of (fld (fld proof ''signer'') ''publicKeyB64''))) ''signer.publicKeyB64 is not valid base64''
       (\<lambda>publicKeyBytes. checks [
         require (length publicKeyBytes = 32) ''signer.publicKeyB64 must decode to 32 bytes (Ed25519)'',
         rbind (buildSignedBody proof) (\<lambda>signedBody. rbind (canonicalize signedBody) (\<lambda>canonicalBytes.
           try_or (fromBase64 (str_of (fld (fld proof ''signer'') ''signatureB64''))) ''signer.signatureB64 is not valid base64''
             (\<lambda>signatureBytes. checks [
               require (length signatureBytes = 64) ''signer.signatureB64 must decode to 64 bytes (Ed25519)'',
               check_ed C signatureBytes canonicalBytes publicKeyBytes ''signature verification error''
                 ''signature verification failed: signature does not match''])))])"

definition static_checks :: "crypto \<Rightarrow> jv \<Rightarrow> bytes option \<Rightarrow> check" where
  "static_checks C proof bytes = checks [
     validateStructure proof,
     check_artifact C proof bytes,
     check_signature C proof,
     given (fld proof ''agency'' \<noteq> JUndefined) (verifyAgency C proof),
     given (fld proof ''slotAllocation'' \<noteq> JUndefined) (verifySlotAllocation C proof),
     check_atomic proof]"

text \<open>The epoch link is only checked once everything before it passed, the policy after it, and the
  context changes last.\<close>

definition runChecks :: "crypto \<Rightarrow> jv \<Rightarrow> bytes option \<Rightarrow> verification_policy option \<Rightarrow> verification_context
    \<Rightarrow> check \<times> verification_context" where
  "runChecks C proof bytes trustAnchors context =
     (case static_checks C proof bytes of
        Inr None \<Rightarrow>
          (let finish = (\<lambda>pending. case opt_check trustAnchors (checkPolicy C proof) of
                 Inr None \<Rightarrow> (pass, case pending of None \<Rightarrow> context | Some (k, e) \<Rightarrow> context(k \<mapsto> e))
               | r \<Rightarrow> (r, context)) in
           if fld (fld proof ''commit'') ''epochLink'' = JUndefined then finish None
           else (case checkEpochLink C proof context of
               Inl e \<Rightarrow> (Inl e, context)
             | Inr (Some m, _) \<Rightarrow> (refuse m, context)
             | Inr (None, pending) \<Rightarrow> finish pending))
      | r \<Rightarrow> (r, context))"

text \<open>\<^verbatim>\<open>verify\<close> and \<^verbatim>\<open>verifyProofIntegrity\<close>: valid, or the reason. The latter never sees artifact
  bytes.\<close>

datatype verify_result = Valid | Invalid string | Threw err

definition to_result :: "check \<Rightarrow> verify_result" where
  "to_result c = (case c of Inl e \<Rightarrow> Threw e | Inr None \<Rightarrow> Valid | Inr (Some m) \<Rightarrow> Invalid m)"

definition verify :: "crypto \<Rightarrow> jv \<Rightarrow> bytes \<Rightarrow> verification_policy option \<Rightarrow> verification_context
    \<Rightarrow> verify_result \<times> verification_context" where
  "verify C proof bytes trustAnchors context =
     (let (r, c) = runChecks C proof (Some bytes) trustAnchors context in (to_result r, c))"

definition verifyProofIntegrity :: "crypto \<Rightarrow> jv \<Rightarrow> verification_policy option \<Rightarrow> verification_context
    \<Rightarrow> verify_result \<times> verification_context" where
  "verifyProofIntegrity C proof trustAnchors context =
     (let (r, c) = runChecks C proof None trustAnchors context in (to_result r, c))"

lemma to_result_Valid [simp]: "to_result c = Valid \<longleftrightarrow> c = pass"
  by (auto simp: to_result_def split: sum.splits option.splits)

subsection \<open>What acceptance means\<close>

lemma runChecks_pass:
  "fst (runChecks C proof bytes pol ctx) = pass \<longleftrightarrow>
     static_checks C proof bytes = pass \<and> opt_check pol (checkPolicy C proof) = pass
     \<and> (fld (fld proof ''commit'') ''epochLink'' = JUndefined \<or> (\<exists>pend. checkEpochLink C proof ctx = Inr (None, pend)))"
  by (auto simp: runChecks_def Let_def split: sum.splits option.splits)

lemma runChecks_refused: "fst (runChecks C proof bytes pol ctx) \<noteq> pass \<Longrightarrow> snd (runChecks C proof bytes pol ctx) = ctx"
  by (auto simp: runChecks_def Let_def split: sum.splits option.splits)

lemma static_checks_bytes:
  "static_checks C proof (Some b) = pass \<longleftrightarrow> static_checks C proof None = pass
     \<and> fromBase64 (str_of (fld (fld proof ''artifact'') ''digestB64'')) = Inr (c_sha256 C b)"
  by (auto simp: static_checks_def check_artifact_def constantTimeEqual_iff)

lemma verifyAccepts:
  "fst (verify C proof b pol ctx) = Valid \<longleftrightarrow> fst (verifyProofIntegrity C proof pol ctx) = Valid
     \<and> fromBase64 (str_of (fld (fld proof ''artifact'') ''digestB64'')) = Inr (c_sha256 C b)"
  by (auto simp: verify_def verifyProofIntegrity_def split_def Let_def runChecks_pass static_checks_bytes)

lemma accepted_slot:
  assumes "verifySlotAllocation C proof = pass"
  obtains key sig msg n c where
    "fld (fld proof ''slotAllocation'') ''publicKeyB64'' = JStr (b64_encode key)"
    "fld (fld proof ''signer'') ''publicKeyB64'' = JStr (b64_encode key)"
    "canonicalize (JObj (slot_body (fld proof ''slotAllocation''))) = Inr msg"
    "c_ed_verify C sig msg key = Inr True"
    "fld (fld proof ''commit'') ''slotHashB64'' = JStr (b64_encode (c_sha256 C msg))"
    "fld (fld proof ''slotAllocation'') ''nonceB64'' = fld (fld proof ''commit'') ''nonceB64''"
    "fld (fld proof ''commit'') ''slotCounter'' = fld (fld proof ''slotAllocation'') ''counter''"
    "bigint_of (fld (fld proof ''slotAllocation'') ''counter'') = Inr n"
    "bigint_of (fld (fld proof ''commit'') ''counter'') = Inr c" "n < c"
proof -
  let ?slot = "fld proof ''slotAllocation''" and ?commit = "fld proof ''commit''"
  obtain msg sig key n c h where
      str: "nonempty_str (fld ?slot ''publicKeyB64'')" "nonempty_str (fld ?commit ''slotHashB64'')" and
      msg: "canonicalize (JObj (slot_body ?slot)) = Inr msg" and
      key: "fromBase64 (str_of (fld ?slot ''publicKeyB64'')) = Inr key" and
      ed: "check_ed C sig msg key ''slotAllocation signature verification error''
              ''slotAllocation signature verification failed'' = pass" and
      h: "fromBase64 (str_of (fld ?commit ''slotHashB64'')) = Inr h" "constantTimeEqual (c_sha256 C msg) h" and
      nonce: "js_eq (fld ?slot ''nonceB64'') (fld ?commit ''nonceB64'')" and
      sc: "js_eq (fld ?commit ''slotCounter'') (fld ?slot ''counter'')" and
      n: "bigint_of (fld ?slot ''counter'') = Inr n" "bigint_of (fld ?commit ''counter'') = Inr c" "n < c" and
      pk: "js_eq (fld ?slot ''publicKeyB64'') (fld (fld proof ''signer'') ''publicKeyB64'')"
    using assms by (auto simp: verifySlotAllocation_def Let_def res_simps not_le)
  have eqs: "fld ?slot ''nonceB64'' = fld ?commit ''nonceB64''" "fld ?commit ''slotCounter'' = fld ?slot ''counter''"
      "fld (fld proof ''signer'') ''publicKeyB64'' = fld ?slot ''publicKeyB64''"
    using nonce sc pk by (simp_all add: js_eq_def)
  have "fld ?slot ''publicKeyB64'' = JStr (b64_encode key)" "fld ?commit ''slotHashB64'' = JStr (b64_encode h)"
    using str key h(1) by (auto simp: fromBase64_iff elim!: nonempty_strE)
  moreover have "h = c_sha256 C msg" using h(2) by (simp add: constantTimeEqual_iff)
  moreover have "c_ed_verify C sig msg key = Inr True" using ed by (auto simp: check_ed_def)
  ultimately show ?thesis using msg n eqs by (intro that) simp_all
qed

lemma accepted_structure:
  assumes "static_checks C proof bytes = pass"
  shows "validateStructure proof = pass" "check_signature C proof = pass"
    "fld proof ''slotAllocation'' \<noteq> JUndefined \<Longrightarrow> verifySlotAllocation C proof = pass" "check_atomic proof = pass"
  using assms by (simp_all add: static_checks_def)

lemma accepted_signature:
  assumes "static_checks C proof bytes = pass"
  obtains key sig body msg where
    "fld (fld proof ''signer'') ''publicKeyB64'' = JStr (b64_encode key)" "length key = 32"
    "fld (fld proof ''signer'') ''signatureB64'' = JStr (b64_encode sig)" "length sig = 64"
    "buildSignedBody proof = Inr body" "canonicalize body = Inr msg" "c_ed_verify C sig msg key = Inr True"
proof -
  have st: "nonempty_str (fld (fld proof ''signer'') ''publicKeyB64'')" "nonempty_str (fld (fld proof ''signer'') ''signatureB64'')"
    using accepted_structure(1) [OF assms] by (simp_all add: validateStructure_def)
  obtain key body msg sig where k: "fromBase64 (str_of (fld (fld proof ''signer'') ''publicKeyB64'')) = Inr key" "length key = 32"
      "buildSignedBody proof = Inr body" "canonicalize body = Inr msg"
      "fromBase64 (str_of (fld (fld proof ''signer'') ''signatureB64'')) = Inr sig" "length sig = 64"
      "c_ed_verify C sig msg key = Inr True"
    using accepted_structure(2) [OF assms] by (auto simp: check_signature_def check_ed_def res_simps)
  then show ?thesis
    using st by (intro that [of key sig body msg]) (auto simp: fromBase64_iff elim!: nonempty_strE)
qed

subsection \<open>The verification context\<close>

type_synonym verify_request = "jv \<times> bytes option \<times> verification_policy option"

definition verifier_step :: "crypto \<Rightarrow> verification_context \<Rightarrow> verify_request \<Rightarrow> verification_context \<times> check" where
  "verifier_step C ctx req = (case req of (proof, bytes, pol) \<Rightarrow>
     (snd (runChecks C proof bytes pol ctx), fst (runChecks C proof bytes pol ctx)))"

lemma runChecks_grows: "ctx \<subseteq>\<^sub>m snd (runChecks C proof bytes pol ctx)"
proof (cases "fst (runChecks C proof bytes pol ctx) = pass")
  case True
  then show ?thesis
    by (auto simp: runChecks_def Let_def checkEpochLink_def map_le_def res_simps split: sum.splits option.splits if_splits)
qed (simp add: runChecks_refused)

interpretation verifier: guarded_system "verifier_step C" "\<lambda>r. r \<noteq> pass" "\<lambda>ctx. base \<subseteq>\<^sub>m ctx" for C base
proof
  fix s :: verification_context and i :: verify_request
  show "base \<subseteq>\<^sub>m s \<Longrightarrow> base \<subseteq>\<^sub>m fst (verifier_step C s i)"
    using runChecks_grows map_le_trans by (fastforce simp: verifier_step_def split: prod.splits)
  show "snd (verifier_step C s i) \<noteq> pass \<Longrightarrow> fst (verifier_step C s i) = s"
    by (auto simp: verifier_step_def runChecks_refused split: prod.splits)
qed

abbreviation epoch_link :: "jv \<Rightarrow> jv" where
  "epoch_link proof \<equiv> fld (fld proof ''commit'') ''epochLink''"

abbreviation to_epoch :: "jv \<Rightarrow> jsstr" where
  "to_epoch proof \<equiv> str_of (fld (epoch_link proof) ''toEpochId'')"

lemma accepted_link:
  assumes "fst (runChecks C proof bytes pol ctx) = pass" and "epoch_link proof \<noteq> JUndefined"
  shows "snd (runChecks C proof bytes pol ctx) (computeSuccessorKey C (epoch_link proof)) = Some (to_epoch proof)"
    and "ctx (computeSuccessorKey C (epoch_link proof)) \<in> {None, Some (to_epoch proof)}"
  using assms by (auto simp: runChecks_def Let_def checkEpochLink_def res_simps split: sum.splits option.splits if_splits)

end
