(* ===== verification/BG_Stretch.thy ===== *)
theory BG_Stretch
  imports BG_ProofHash
begin

text \<open>
  \<^verbatim>\<open>packages/verify/src/stretch.ts\<close>: whether a list of proofs is one unbroken run of binds, and
  whether a record stands strictly inside such a run. The reasons are the code's texts without the
  interpolated values.
\<close>

record stretch_result =
  sr_ok :: bool
  sr_reasons :: "string list"
  sr_from :: "jv option"
  sr_to :: "jv option"

text \<open>\<^verbatim>\<open>a ?? b\<close>\<close>

definition or_else :: "jv \<Rightarrow> jv \<Rightarrow> jv" where
  "or_else a b = (if a = JUndefined \<or> a = JNull then b else a)"

definition chainOf :: "jv \<Rightarrow> jv res" where
  "chainOf p = rbind (get (fld p ''commit'') ''chainId'') (\<lambda>c. Inr (or_else c (JStr (u16 ''global''))))"

definition reason_if :: "bool \<Rightarrow> string \<Rightarrow> string list" where
  "reason_if b m = (if b then [m] else [])"

definition commit_count :: "jv \<Rightarrow> int res" where
  "commit_count p = bigint_of (or_else (fld (fld p ''commit'') ''counter'') (JStr []))"

text \<open>The second half of the loop's body: the links to the proof before.\<close>

definition link_reasons :: "hashfun \<Rightarrow> jv \<Rightarrow> int \<Rightarrow> jv \<Rightarrow> string list res" where
  "link_reasons H prev n p =
     rbind (get (fld prev ''commit'') ''counter'') (\<lambda>_.
     rbind (computeChainHash H prev) (\<lambda>h.
       Inr ((case commit_count prev of
               Inr prevEnd \<Rightarrow> reason_if (n \<noteq> prevEnd + 1) ''nonce count does not follow the previous payload count''
             | Inl _ \<Rightarrow> [''the proof before has a counter that does not parse''])
          @ reason_if (\<not> js_eq (fld (fld p ''commit'') ''prevB64'') (JStr h)) ''does not link to the proof before it (prevB64)'')))"

text \<open>The first half: the counts and the origin. The first proof is compared with itself.\<close>

definition same_value :: "bool \<Rightarrow> jv \<Rightarrow> jv \<Rightarrow> bool" where
  "same_value itself a b \<longleftrightarrow> itself \<or> js_eq a b"

definition own_reasons :: "jv \<Rightarrow> bool \<Rightarrow> jv \<Rightarrow> int \<Rightarrow> int \<Rightarrow> string list res" where
  "own_reasons first itself p n n1 =
     rbind (get (fld first ''commit'') ''epochId'') (\<lambda>firstEpoch.
     rbind (get (fld p ''signer'') ''publicKeyB64'') (\<lambda>pk.
     rbind (get (fld first ''signer'') ''publicKeyB64'') (\<lambda>firstPk.
     rbind (chainOf p) (\<lambda>ch. rbind (chainOf first) (\<lambda>firstCh.
       Inr (reason_if (n1 \<noteq> n + 1) ''payload count is not nonce count plus one''
         @ reason_if (\<not> same_value itself (fld (fld p ''commit'') ''epochId'') firstEpoch) ''is in another epoch''
         @ reason_if (\<not> same_value itself pk firstPk) ''is signed by another key''
         @ reason_if (\<not> same_value itself ch firstCh) ''is on another chain''))))))"

text \<open>The body for proof \<open>p\<close>; \<open>prev\<close> is \<open>None\<close> for the first one.\<close>

definition nonce_count :: "jv \<Rightarrow> int res" where
  "nonce_count p = rbind (get (fld p ''slotAllocation'') ''counter'') bigint_of"

definition proof_reasons :: "hashfun \<Rightarrow> jv \<Rightarrow> jv option \<Rightarrow> jv \<Rightarrow> string list res" where
  "proof_reasons H first prev p =
     rbind (get (fld p ''commit'') ''atomic'') (\<lambda>atomic.
       if \<not> js_eq atomic (JBool True) \<or> fld p ''slotAllocation'' = JUndefined
       then Inr [''is not a bind: its nonce and payload were not one action'']
       else case nonce_count p of Inl _ \<Rightarrow> Inr [''has a counter that does not parse'']
         | Inr n \<Rightarrow> (case commit_count p of Inl _ \<Rightarrow> Inr [''has a counter that does not parse'']
           | Inr n1 \<Rightarrow> rbind (own_reasons first (prev = None) p n n1) (\<lambda>own.
               case prev of None \<Rightarrow> Inr own
               | Some q \<Rightarrow> rbind (link_reasons H q n p) (\<lambda>l. Inr (own @ l)))))"

fun stretch_loop :: "hashfun \<Rightarrow> jv \<Rightarrow> jv option \<Rightarrow> jv list \<Rightarrow> string list res" where
  "stretch_loop H first prev [] = Inr []"
| "stretch_loop H first prev (p # ps) =
     rbind (proof_reasons H first prev p) (\<lambda>rs. rbind (stretch_loop H first (Some p) ps) (\<lambda>rest. Inr (rs @ rest)))"

definition defined_only :: "jv \<Rightarrow> jv option" where
  "defined_only v = (if v = JUndefined then None else Some v)"

definition verifyStretch :: "hashfun \<Rightarrow> jv list \<Rightarrow> stretch_result res" where
  "verifyStretch H proofs =
     (if length proofs < 2
      then Inr \<lparr>sr_ok = False, sr_reasons = [''a stretch needs at least two proofs (A and B)''], sr_from = None, sr_to = None\<rparr>
      else rbind (stretch_loop H (hd proofs) None proofs) (\<lambda>reasons.
        Inr \<lparr>sr_ok = (reasons = []), sr_reasons = reasons,
             sr_from = defined_only (fld (fld (hd proofs) ''slotAllocation'') ''counter''),
             sr_to = defined_only (fld (fld (last proofs) ''commit'') ''counter'')\<rparr>))"

text \<open>\<^verbatim>\<open>findIndex\<close>, with the length of the list for its \<^verbatim>\<open>-1\<close>.\<close>

fun find_hash :: "hashfun \<Rightarrow> jsstr \<Rightarrow> jv list \<Rightarrow> nat res" where
  "find_hash H target [] = Inr 0"
| "find_hash H target (p # ps) =
     rbind (computeChainHash H p) (\<lambda>h. if h = target then Inr 0 else rbind (find_hash H target ps) (\<lambda>i. Inr (i + 1)))"

definition verifyBetween :: "hashfun \<Rightarrow> jv list \<Rightarrow> jv \<Rightarrow> stretch_result res" where
  "verifyBetween H stretch record =
     rbind (verifyStretch H stretch) (\<lambda>s.
       if \<not> sr_ok s then Inr s
       else rbind (computeChainHash H record) (\<lambda>target. rbind (find_hash H target stretch) (\<lambda>idx.
         if idx = 0 \<or> length stretch \<le> idx + 1
         then Inr (s\<lparr>sr_ok := False, sr_reasons := [''the record is not strictly between A and B in this stretch'']\<rparr>)
         else Inr s)))"

subsection \<open>What an unbroken stretch is\<close>

text \<open>A bind: atomic, with a nonce count and, next to it, a payload count.\<close>

definition is_bind :: "jv \<Rightarrow> int \<Rightarrow> bool" where
  "is_bind p n \<longleftrightarrow> fld (fld p ''commit'') ''atomic'' = JBool True
     \<and> nonce_count p = Inr n \<and> commit_count p = Inr (n + 1)"

definition linked :: "hashfun \<Rightarrow> jv \<Rightarrow> jv \<Rightarrow> bool" where
  "linked H q p \<longleftrightarrow> (\<exists>h. computeChainHash H q = Inr h \<and> fld (fld p ''commit'') ''prevB64'' = JStr h)"

definition same_origin :: "jv \<Rightarrow> jv \<Rightarrow> bool" where
  "same_origin p first \<longleftrightarrow> fld (fld p ''commit'') ''epochId'' = fld (fld first ''commit'') ''epochId''
     \<and> fld (fld p ''signer'') ''publicKeyB64'' = fld (fld first ''signer'') ''publicKeyB64''
     \<and> chainOf p = chainOf first"

lemma reason_if_Nil [simp]: "reason_if b m = [] \<longleftrightarrow> \<not> b" "[] = reason_if b m \<longleftrightarrow> \<not> b"
  by (simp_all add: reason_if_def)

lemma get_value: "get v k = Inr x \<Longrightarrow> x = fld v k"
  by (auto simp: get_def split: if_splits)

lemma link_reasons_none:
  assumes "link_reasons H q n p = Inr []"
  shows "linked H q p \<and> commit_count q = Inr (n - 1)"
  using assms by (auto simp: link_reasons_def linked_def res_simps split: sum.splits)

lemma own_reasons_none:
  assumes "own_reasons first itself p n n1 = Inr []"
  shows "n1 = n + 1 \<and> (\<not> itself \<longrightarrow> same_origin p first)"
  using assms by (auto simp: own_reasons_def same_value_def same_origin_def js_eq_def res_simps dest!: get_value)

lemma proof_reasons_none:
  assumes "proof_reasons H first prev p = Inr []"
  shows "\<exists>n. is_bind p n \<and> (case prev of None \<Rightarrow> True
    | Some q \<Rightarrow> linked H q p \<and> same_origin p first \<and> commit_count q = Inr (n - 1))"
proof -
  obtain atomic where a: "get (fld p ''commit'') ''atomic'' = Inr atomic" "js_eq atomic (JBool True)"
    using assms by (auto simp: proof_reasons_def res_simps split: if_splits)
  then have at: "fld (fld p ''commit'') ''atomic'' = JBool True" using get_value by fastforce
  obtain n n1 own where n: "nonce_count p = Inr n" "commit_count p = Inr n1"
      "own_reasons first (prev = None) p n n1 = Inr []"
      "\<And>q. prev = Some q \<Longrightarrow> link_reasons H q n p = Inr []"
    using assms a by (auto simp: proof_reasons_def res_simps split: if_splits sum.splits option.splits)
  have "n1 = n + 1" "prev \<noteq> None \<Longrightarrow> same_origin p first" using own_reasons_none [OF n(3)] by auto
  with n(1,2) at have "is_bind p n" by (simp add: is_bind_def)
  moreover have "case prev of None \<Rightarrow> True
    | Some q \<Rightarrow> linked H q p \<and> same_origin p first \<and> commit_count q = Inr (n - 1)"
    using link_reasons_none [OF n(4)] \<open>prev \<noteq> None \<Longrightarrow> same_origin p first\<close> by (auto split: option.splits)
  ultimately show ?thesis by blast
qed

text \<open>The proofs of an unbroken run that starts at count \<open>c\<close>.\<close>

fun unbroken :: "hashfun \<Rightarrow> jv \<Rightarrow> int \<Rightarrow> jv list \<Rightarrow> bool" where
  "unbroken H q c [] \<longleftrightarrow> True"
| "unbroken H q c (p # ps) \<longleftrightarrow> is_bind p c \<and> linked H q p \<and> unbroken H p (c + 2) ps"

lemma stretch_loop_none:
  assumes "stretch_loop H first (Some q) ps = Inr []" and "commit_count q = Inr (c - 1)"
  shows "unbroken H q c ps \<and> (\<forall>p \<in> set ps. same_origin p first)"
  using assms
proof (induction ps arbitrary: q c)
  case (Cons p ps)
  have r: "proof_reasons H first (Some q) p = Inr []" "stretch_loop H first (Some p) ps = Inr []"
    using Cons.prems(1) by (auto simp: res_simps)
  obtain n where n: "is_bind p n" "linked H q p" "same_origin p first" "commit_count q = Inr (n - 1)"
    using proof_reasons_none [OF r(1)] by auto
  then have c: "n = c" using Cons.prems(2) by simp
  then have "commit_count p = Inr (c + 2 - 1)" using n(1) by (simp add: is_bind_def)
  from Cons.IH [OF r(2) this] n c show ?case by simp
qed simp

lemma verifyStretch_ok:
  assumes "verifyStretch H ps = Inr s" and "sr_ok s"
  shows "\<exists>c p qs. ps = p # qs \<and> qs \<noteq> [] \<and> is_bind p c \<and> unbroken H p (c + 2) qs \<and> (\<forall>q \<in> set ps. same_origin q p)"
proof -
  have len: "\<not> length ps < 2" using assms by (auto simp: verifyStretch_def split: if_splits)
  then obtain p qs where ps: "ps = p # qs" "qs \<noteq> []" by (cases ps) auto
  have loop: "stretch_loop H p None ps = Inr []"
    using assms len ps by (auto simp: verifyStretch_def res_simps)
  then have r: "proof_reasons H p None p = Inr []" "stretch_loop H p (Some p) qs = Inr []"
    using ps by (auto simp: res_simps)
  obtain c where c: "is_bind p c" using proof_reasons_none [OF r(1)] by auto
  then have "commit_count p = Inr (c + 2 - 1)" by (simp add: is_bind_def)
  from stretch_loop_none [OF r(2) this] c ps show ?thesis by (auto simp: same_origin_def)
qed

lemma unbroken_nth: "unbroken H q c ps \<Longrightarrow> i < length ps \<Longrightarrow> is_bind (ps ! i) (c + 2 * int i)"
proof (induction ps arbitrary: q c i)
  case (Cons p ps)
  show ?case
  proof (cases i)
    case (Suc j)
    then have "is_bind (ps ! j) (c + 2 + 2 * int j)" using Cons.prems by (intro Cons.IH [of p]) simp_all
    with Suc show ?thesis by (simp add: algebra_simps)
  qed (use Cons.prems in simp)
qed simp

lemma unbroken_linked: "unbroken H q c ps \<Longrightarrow> i + 1 < length (q # ps) \<Longrightarrow> linked H ((q # ps) ! i) ((q # ps) ! (i + 1))"
proof (induction ps arbitrary: q c i)
  case (Cons p ps)
  then show ?case by (cases i) auto
qed simp

subsection \<open>Passing the checks\<close>

lemma link_reasons_pass:
  "is_obj (fld q ''commit'') \<Longrightarrow> linked H q p \<Longrightarrow> commit_count q = Inr (n - 1) \<Longrightarrow> link_reasons H q n p = Inr []"
  by (auto simp: link_reasons_def linked_def get_is_obj)

text \<open>A bind with a given epoch, key and chain, all strings.\<close>

definition bind_of :: "jsstr \<Rightarrow> jsstr \<Rightarrow> jsstr \<Rightarrow> jv \<Rightarrow> int \<Rightarrow> bool" where
  "bind_of e pk ch p n \<longleftrightarrow> is_bind p n \<and> is_obj (fld p ''commit'') \<and> is_obj (fld p ''signer'')
     \<and> fld p ''slotAllocation'' \<noteq> JUndefined
     \<and> fld (fld p ''commit'') ''epochId'' = JStr e \<and> fld (fld p ''signer'') ''publicKeyB64'' = JStr pk
     \<and> fld (fld p ''commit'') ''chainId'' = JStr ch"

lemma proof_reasons_pass:
  assumes p: "bind_of e pk ch p n" and f: "bind_of e pk ch first m"
    and q: "\<And>q. prev = Some q \<Longrightarrow> bind_of e pk ch q (n - 2) \<and> linked H q p"
  shows "proof_reasons H first prev p = Inr []"
proof -
  have ch: "chainOf p = Inr (JStr ch)" "chainOf first = Inr (JStr ch)"
    using p f by (simp_all add: chainOf_def bind_of_def get_is_obj or_else_def)
  have own: "own_reasons first itself p n (n + 1) = Inr []" for itself
    using p f ch by (simp add: own_reasons_def bind_of_def get_is_obj same_value_def reason_if_def)
  have l: "link_reasons H q n p = Inr []" if "prev = Some q" for q
    using q [OF that] by (intro link_reasons_pass) (simp_all add: bind_of_def is_bind_def)
  show ?thesis
    using p own l by (auto simp: proof_reasons_def bind_of_def is_bind_def get_is_obj split: option.splits)
qed

fun binds_from :: "hashfun \<Rightarrow> jsstr \<Rightarrow> jsstr \<Rightarrow> jsstr \<Rightarrow> jv \<Rightarrow> int \<Rightarrow> jv list \<Rightarrow> bool" where
  "binds_from H e pk ch q c [] \<longleftrightarrow> True"
| "binds_from H e pk ch q c (p # ps) \<longleftrightarrow> bind_of e pk ch p c \<and> linked H q p \<and> binds_from H e pk ch p (c + 2) ps"

lemma stretch_loop_pass:
  "binds_from H e pk ch q (c + 2) ps \<Longrightarrow> bind_of e pk ch q c \<Longrightarrow> bind_of e pk ch first m \<Longrightarrow>
   stretch_loop H first (Some q) ps = Inr []"
proof (induction ps arbitrary: q c)
  case (Cons p ps)
  then have "proof_reasons H first (Some q) p = Inr []"
    by (intro proof_reasons_pass [where e = e and pk = pk and ch = ch and n = "c + 2" and m = m]) simp_all
  moreover have "stretch_loop H first (Some p) ps = Inr []"
    using Cons.prems by (intro Cons.IH [where c = "c + 2"]) (simp_all add: add.assoc)
  ultimately show ?case by simp
qed simp

lemma verifyStretch_pass:
  assumes "bind_of e pk ch p c" and "binds_from H e pk ch p (c + 2) ps" and "ps \<noteq> []"
  shows "\<exists>s. verifyStretch H (p # ps) = Inr s \<and> sr_ok s"
proof -
  have "proof_reasons H p None p = Inr []" by (rule proof_reasons_pass [OF assms(1) assms(1)]) simp
  moreover have "stretch_loop H p (Some p) ps = Inr []" by (rule stretch_loop_pass [OF assms(2,1,1)])
  moreover have "\<not> length (p # ps) < 2" using assms(3) by (cases ps) auto
  ultimately show ?thesis by (simp add: verifyStretch_def)
qed

subsection \<open>Strictly between\<close>

lemma find_hash_hit: "find_hash H target ps = Inr i \<Longrightarrow> i < length ps \<Longrightarrow> computeChainHash H (ps ! i) = Inr target"
proof (induction ps arbitrary: i)
  case (Cons p ps)
  then show ?case by (cases i) (auto simp: res_simps split: if_splits)
qed simp

lemma verifyBetween_lemma:
  assumes "verifyBetween H ps r = Inr s" and "sr_ok s"
  shows "verifyStretch H ps = Inr s
    \<and> (\<exists>i. 0 < i \<and> i + 1 < length ps \<and> computeChainHash H (ps ! i) = computeChainHash H r)"
proof -
  obtain t where t: "verifyStretch H ps = Inr t" "sr_ok t"
    using assms by (auto simp: verifyBetween_def res_simps split: if_splits)
  then obtain h i where h: "computeChainHash H r = Inr h" "find_hash H h ps = Inr i" "0 < i" "i + 1 < length ps" "s = t"
    using assms by (auto simp: verifyBetween_def res_simps split: if_splits dest!: arg_cong [where f = sr_ok])
  then have "computeChainHash H (ps ! i) = Inr h" using find_hash_hit by simp
  with h t show ?thesis by auto
qed

end
