(* ===== verification/BG_Enclave.thy ===== *)
theory BG_Enclave
  imports BG_Verifier BG_Stretch
begin

text \<open>
  \<^verbatim>\<open>server/commit-service/src/enclave/app.ts\<close>: the Nitro enclave. Its state is the counter, the chain
  hash of the last proof and the \<^verbatim>\<open>initialized\<close> flag; its requests are init, health, key and bind, one
  at a time (\<^verbatim>\<open>runExclusive\<close>). Each request is a step; the hardware RNG, the attestation and the
  Ed25519 key are parameters, and the first two may fail.
\<close>

text \<open>What is fixed at boot: the epoch, and the key as its public half and its signing function.\<close>

record boot =
  b_sha256 :: hashfun
  b_sign :: "bytes \<Rightarrow> bytes res"
  b_publicKey :: bytes
  b_measurement :: jsstr
  b_epochId :: jsstr

text \<open>What the platform gives one bind: a nonce, and the attestation of a user-data hash.\<close>

record platform =
  pf_nonce :: "bytes res"
  pf_attest :: "bytes \<Rightarrow> (jsstr \<times> bytes) res"

record enclave_state =
  es_counter :: nat
  es_lastProofHashB64 :: "jsstr option"
  es_initialized :: bool

definition boot_state :: enclave_state where
  "boot_state = \<lparr>es_counter = 0, es_lastProofHashB64 = None, es_initialized = False\<rparr>"

text \<open>\<^verbatim>\<open>epochId = SHA-256(publicKeyB64 + ":" + bootNonceB64)\<close>.\<close>

definition epoch_id :: "hashfun \<Rightarrow> bytes \<Rightarrow> bytes \<Rightarrow> jsstr" where
  "epoch_id H publicKey bootNonce = b64_encode (H (utf8 (b64_encode publicKey @ 58 # b64_encode bootNonce)))"

definition jstr :: "string \<Rightarrow> jv" where
  "jstr s = JStr (u16 s)"

definition CHAIN_ID :: jv where
  "CHAIN_ID = jstr ''bitgraph:main''"

definition count_str :: "nat \<Rightarrow> jv" where
  "count_str n = JStr (int_units (int n))"

definition publicKeyB64 :: "boot \<Rightarrow> jv" where
  "publicKeyB64 B = JStr (b64_encode (b_publicKey B))"

subsection \<open>Bind\<close>

definition valid_digest :: "jv \<Rightarrow> bool" where
  "valid_digest d \<longleftrightarrow> (case d of JStr s \<Rightarrow> length (b64_decode s) = 32 \<and> b64_encode (b64_decode s) = s | _ \<Rightarrow> False)"

definition bind_slot_body :: "boot \<Rightarrow> jsstr \<Rightarrow> nat \<Rightarrow> (jsstr \<times> jv) list" where
  "bind_slot_body B nonceB64 nonceCount =
     [kv ''version'' (jstr ''bitgraph/slot/1''), kv ''nonceB64'' (JStr nonceB64), kv ''counter'' (count_str nonceCount),
      kv ''epochId'' (JStr (b_epochId B)), kv ''publicKeyB64'' (publicKeyB64 B), kv ''chainId'' CHAIN_ID]"

definition commit_fields :: "boot \<Rightarrow> jsstr \<Rightarrow> nat \<Rightarrow> jsstr \<Rightarrow> jsstr option \<Rightarrow> (jsstr \<times> jv) list" where
  "commit_fields B nonceB64 nonceCount slotHashB64 prev =
     [kv ''nonceB64'' (JStr nonceB64), kv ''counter'' (count_str (nonceCount + 1)),
      kv ''slotCounter'' (count_str nonceCount), kv ''slotHashB64'' (JStr slotHashB64),
      kv ''epochId'' (JStr (b_epochId B)), kv ''atomic'' (JBool True)]
     @ (case prev of None \<Rightarrow> [] | Some h \<Rightarrow> [kv ''prevB64'' (JStr h)])
     @ [kv ''chainId'' CHAIN_ID]"

definition bind_signed_body :: "boot \<Rightarrow> jv \<Rightarrow> jv \<Rightarrow> jv" where
  "bind_signed_body B artifact commit = JObj
     [kv ''version'' (jstr ''bitgraph/1''), kv ''artifact'' artifact, kv ''commit'' commit,
      kv ''publicKeyB64'' (publicKeyB64 B), kv ''enforcement'' (jstr ''measured-tee''),
      kv ''measurement'' (JStr (b_measurement B)), kv ''attestationFormat'' (jstr ''aws-nitro'')]"

definition bind_artifact :: "jv \<Rightarrow> jv" where
  "bind_artifact digestB64 = JObj [kv ''hashAlg'' (jstr ''sha256''), kv ''digestB64'' digestB64]"

definition bind_proof :: "boot \<Rightarrow> jv \<Rightarrow> jv \<Rightarrow> bytes \<Rightarrow> jsstr \<times> bytes \<Rightarrow> (jsstr \<times> jv) list \<Rightarrow> bytes \<Rightarrow> jv" where
  "bind_proof B artifact commit sig attestation slot slotSig = JObj
     [kv ''version'' (jstr ''bitgraph/1''), kv ''artifact'' artifact, kv ''commit'' commit,
      kv ''signer'' (JObj [kv ''publicKeyB64'' (publicKeyB64 B), kv ''signatureB64'' (JStr (b64_encode sig))]),
      kv ''environment'' (JObj [kv ''enforcement'' (jstr ''measured-tee''), kv ''measurement'' (JStr (b_measurement B)),
        kv ''attestation'' (JObj [kv ''format'' (JStr (fst attestation)), kv ''reportB64'' (JStr (b64_encode (snd attestation)))])]),
      kv ''slotAllocation'' (JObj (slot @ [kv ''signatureB64'' (JStr (b64_encode slotSig))]))]"

text \<open>The two steps. Every call runs at the state the code has reached: one that throws leaves with that
  state, so the last, \<^verbatim>\<open>canonicalize(proof)\<close>, would leave behind a counter that has moved and a chain
  hash that has not.\<close>

definition handleBind :: "boot \<Rightarrow> platform \<Rightarrow> jv \<Rightarrow> enclave_state \<Rightarrow> enclave_state \<times> jv res" where
  "handleBind B P digestB64 st =
     (if \<not> valid_digest digestB64
      then (st, Inl (JsError ''bind requires digestB64, a 32-byte SHA-256 digest in standard base64''))
      else let nonceCount = es_counter st + 1; payloadCount = es_counter st + 2 in
        awaiting st (pf_nonce P) (\<lambda>nonce.
        let nonceB64 = b64_encode nonce; slotBody = bind_slot_body B nonceB64 nonceCount in
        awaiting st (canonicalize (JObj slotBody)) (\<lambda>slotCanonical.
        awaiting st (b_sign B slotCanonical) (\<lambda>slotSig.
        let slotHashB64 = b64_encode (b_sha256 B slotCanonical);
            commit = JObj (commit_fields B nonceB64 nonceCount slotHashB64 (es_lastProofHashB64 st));
            artifact = bind_artifact digestB64 in
        awaiting st (canonicalize (bind_signed_body B artifact commit)) (\<lambda>finalCanonical.
        awaiting st (pf_attest P (b_sha256 B finalCanonical)) (\<lambda>attestation.
        awaiting st (b_sign B finalCanonical) (\<lambda>sig.
        let proof = bind_proof B artifact commit sig attestation slotBody slotSig;
            moved = st\<lparr>es_counter := payloadCount\<rparr> in
        awaiting moved (canonicalize proof) (\<lambda>proofCanonical.
        (moved\<lparr>es_lastProofHashB64 := Some (b64_encode (b_sha256 B proofCanonical))\<rparr>, Inr proof)))))))))"

subsection \<open>Requests\<close>

text \<open>The answer: the response object, or the error the socket reports, with the state either leaves.\<close>

definition handleRequest :: "boot \<Rightarrow> enclave_state \<Rightarrow> jv \<times> platform \<Rightarrow> enclave_state \<times> jv res" where
  "handleRequest B st reqp = (case reqp of (req, P) \<Rightarrow>
     awaiting st (get req ''action'') (\<lambda>action.
     if action = jstr ''init'' then
       (st\<lparr>es_initialized := True\<rparr>, Inr (JObj [kv ''counter'' (count_str (es_counter st)),
          kv ''epochId'' (JStr (b_epochId B)), kv ''chains'' (JNum 1)]))
     else if action = jstr ''health'' then
       (st, Inr (JObj [kv ''status'' (jstr ''ok''), kv ''chains'' (JNum 1), kv ''publicKeyB64'' (publicKeyB64 B),
          kv ''measurement'' (JStr (b_measurement B)), kv ''enforcement'' (jstr ''measured-tee''),
          kv ''epochId'' (JStr (b_epochId B))]))
     else if action = jstr ''key'' then
       (st, Inr (JObj [kv ''publicKeyB64'' (publicKeyB64 B), kv ''measurement'' (JStr (b_measurement B)),
          kv ''enforcement'' (jstr ''measured-tee''), kv ''epochId'' (JStr (b_epochId B)),
          kv ''bind'' (jstr ''atomic''), kv ''only'' (jstr ''bind'')]))
     else if action = jstr ''bind'' then
       (if \<not> es_initialized st
        then (st, Inl (JsError ''not initialized: the host must call init before the first bind''))
        else case handleBind B P (fld req ''digestB64'') st of (st', r) \<Rightarrow>
          awaiting st' r (\<lambda>proof. (st', Inr (JObj [kv ''proof'' proof]))))
     else awaiting st (js_String action) (\<lambda>name. (st, Inr (JObj [kv ''error''
       (JStr (u16 ''Unknown action: '' @ name @ u16 ''. This enclave does one thing: bind.''))])))))"

definition released :: "jv res \<Rightarrow> jv list" where
  "released r = (case r of Inr v \<Rightarrow> (if fld v ''proof'' = JUndefined then [] else [fld v ''proof'']) | Inl _ \<Rightarrow> [])"

subsection \<open>What a bind releases\<close>

lemma bind_proof_fields [simp]:
  "fld (bind_proof B a c sig att slot slotSig) ''version'' = jstr ''bitgraph/1''"
  "fld (bind_proof B a c sig att slot slotSig) ''artifact'' = a"
  "fld (bind_proof B a c sig att slot slotSig) ''commit'' = c"
  "fld (bind_proof B a c sig att slot slotSig) ''signer'' =
     JObj [kv ''publicKeyB64'' (publicKeyB64 B), kv ''signatureB64'' (JStr (b64_encode sig))]"
  "fld (bind_proof B a c sig att slot slotSig) ''environment'' =
     JObj [kv ''enforcement'' (jstr ''measured-tee''), kv ''measurement'' (JStr (b_measurement B)),
        kv ''attestation'' (JObj [kv ''format'' (JStr (fst att)), kv ''reportB64'' (JStr (b64_encode (snd att)))])]"
  "fld (bind_proof B a c sig att slot slotSig) ''slotAllocation'' = JObj (slot @ [kv ''signatureB64'' (JStr (b64_encode slotSig))])"
  "fld (bind_proof B a c sig att slot slotSig) ''agency'' = JUndefined"
  "fld (bind_proof B a c sig att slot slotSig) ''policy'' = JUndefined"
  "fld (bind_proof B a c sig att slot slotSig) ''attribution'' = JUndefined"
  "typeof_object (bind_proof B a c sig att slot slotSig)"
  by (simp_all add: bind_proof_def typeof_object_def)

lemma commit_fields_simps [simp]:
  "fld (JObj (commit_fields B nb n sh prev)) ''nonceB64'' = JStr nb"
  "fld (JObj (commit_fields B nb n sh prev)) ''counter'' = count_str (n + 1)"
  "fld (JObj (commit_fields B nb n sh prev)) ''slotCounter'' = count_str n"
  "fld (JObj (commit_fields B nb n sh prev)) ''slotHashB64'' = JStr sh"
  "fld (JObj (commit_fields B nb n sh prev)) ''epochId'' = JStr (b_epochId B)"
  "fld (JObj (commit_fields B nb n sh prev)) ''atomic'' = JBool True"
  "fld (JObj (commit_fields B nb n sh prev)) ''chainId'' = CHAIN_ID"
  "fld (JObj (commit_fields B nb n sh prev)) ''prevB64'' = (case prev of None \<Rightarrow> JUndefined | Some h \<Rightarrow> JStr h)"
  "fld (JObj (commit_fields B nb n sh prev)) ''time'' = JUndefined"
  "fld (JObj (commit_fields B nb n sh prev)) ''epochLink'' = JUndefined"
  by (cases prev; simp add: commit_fields_def)+

lemma slot_fields_simps [simp]:
  "fld (JObj (bind_slot_body B nb n @ [kv ''signatureB64'' v])) ''version'' = jstr ''bitgraph/slot/1''"
  "fld (JObj (bind_slot_body B nb n @ [kv ''signatureB64'' v])) ''nonceB64'' = JStr nb"
  "fld (JObj (bind_slot_body B nb n @ [kv ''signatureB64'' v])) ''counter'' = count_str n"
  "fld (JObj (bind_slot_body B nb n @ [kv ''signatureB64'' v])) ''epochId'' = JStr (b_epochId B)"
  "fld (JObj (bind_slot_body B nb n @ [kv ''signatureB64'' v])) ''publicKeyB64'' = publicKeyB64 B"
  "fld (JObj (bind_slot_body B nb n @ [kv ''signatureB64'' v])) ''chainId'' = CHAIN_ID"
  "fld (JObj (bind_slot_body B nb n @ [kv ''signatureB64'' v])) ''signatureB64'' = v"
  "fld (JObj (bind_slot_body B nb n @ [kv ''signatureB64'' v])) ''time'' = JUndefined"
  by (simp_all add: bind_slot_body_def)

lemma bigint_count_str [simp]: "bigint_of (count_str n) = Inr (int n)"
  by (simp add: bigint_of_def bigint_parse_def count_str_def)

lemma count_str_simps [simp]:
  "count_str n \<noteq> JUndefined" "count_str n \<noteq> JNull" "nonempty_str (count_str n)" "opt_str (count_str n)"
  "js_eq (count_str n) (count_str n)"
  by (simp_all add: count_str_def)

lemma handleBind_cases:
  assumes "handleBind B P d st = (st', Inr p)"
  obtains nonce slotCanonical slotSig finalCanonical att sig pc where
    "valid_digest d" "pf_nonce P = Inr nonce"
    "canonicalize (JObj (bind_slot_body B (b64_encode nonce) (es_counter st + 1))) = Inr slotCanonical"
    "b_sign B slotCanonical = Inr slotSig"
    "canonicalize (bind_signed_body B (bind_artifact d) (JObj (commit_fields B (b64_encode nonce) (es_counter st + 1)
        (b64_encode (b_sha256 B slotCanonical)) (es_lastProofHashB64 st)))) = Inr finalCanonical"
    "pf_attest P (b_sha256 B finalCanonical) = Inr att" "b_sign B finalCanonical = Inr sig"
    "p = bind_proof B (bind_artifact d) (JObj (commit_fields B (b64_encode nonce) (es_counter st + 1)
        (b64_encode (b_sha256 B slotCanonical)) (es_lastProofHashB64 st))) sig att
        (bind_slot_body B (b64_encode nonce) (es_counter st + 1)) slotSig"
    "canonicalize p = Inr pc"
    "st' = st\<lparr>es_counter := es_counter st + 2, es_lastProofHashB64 := Some (b64_encode (b_sha256 B pc))\<rparr>"
  using assms by (auto simp: handleBind_def Let_def res_simps split: if_splits)

abbreviation enclave_bind :: "boot \<Rightarrow> jv \<Rightarrow> int \<Rightarrow> bool" where
  "enclave_bind B \<equiv> bind_of (b_epochId B) (b64_encode (b_publicKey B)) (u16 ''bitgraph:main'')"

lemma bind_proof_chain_hash:
  "canonicalize (bind_proof B a c sig att slot slotSig) = Inr pc \<Longrightarrow>
   computeChainHash H (bind_proof B a c sig att slot slotSig) = Inr (b64_encode (H pc))"
proof -
  have "hashable (bind_proof B a c sig att slot slotSig) = bind_proof B a c sig att slot slotSig"
    by (rule hashable_plain) (simp add: bind_proof_def own_props_def LEDGER_ADDED_FIELDS_def)
  then show "canonicalize (bind_proof B a c sig att slot slotSig) = Inr pc \<Longrightarrow> ?thesis"
    by (simp add: computeChainHash_def)
qed

lemma handleBind_proof:
  assumes "handleBind B P d st = (st', Inr p)"
  shows "enclave_bind B p (int (es_counter st) + 1)"
    and "es_counter st' = es_counter st + 2" "es_initialized st' = es_initialized st"
    and "map_option Inr (es_lastProofHashB64 st') = Some (computeChainHash (b_sha256 B) p)"
    and "fld (fld p ''commit'') ''prevB64'' = (case es_lastProofHashB64 st of None \<Rightarrow> JUndefined | Some h \<Rightarrow> JStr h)"
    and "fld (fld p ''artifact'') ''digestB64'' = d"
    and "fld p ''slotAllocation'' \<noteq> JUndefined"
  using assms
  by (auto elim!: handleBind_cases simp: bind_of_def is_bind_def nonce_count_def commit_count_def or_else_def
      publicKeyB64_def CHAIN_ID_def jstr_def bind_artifact_def bind_proof_chain_hash)

subsection \<open>Refusals\<close>

lemma valid_digest_iff: "valid_digest d \<longleftrightarrow> (\<exists>h. length h = 32 \<and> d = JStr (b64_encode h))"
proof
  assume "valid_digest d"
  then obtain s where "d = JStr s" "length (b64_decode s) = 32" "b64_encode (b64_decode s) = s"
    by (auto simp: valid_digest_def split: jv.splits)
  then show "\<exists>h. length h = 32 \<and> d = JStr (b64_encode h)" by metis
qed (auto simp: valid_digest_def b64_decode_encode)

text \<open>What the enclave builds has a canonical form, so the call after the counter's move never throws.\<close>

lemma json_ok_bind:
  "valid_digest d \<Longrightarrow> json_ok (JObj (bind_slot_body B nb n))"
  "valid_digest d \<Longrightarrow> json_ok (bind_signed_body B (bind_artifact d) (JObj (commit_fields B nb n sh prev)))"
  "valid_digest d \<Longrightarrow> json_ok (bind_proof B (bind_artifact d) (JObj (commit_fields B nb n sh prev)) sig att (bind_slot_body B nb n) ss)"
  by (auto simp: valid_digest_iff bind_slot_body_def bind_signed_body_def bind_artifact_def bind_proof_def commit_fields_def
      jstr_def publicKeyB64_def CHAIN_ID_def count_str_def split: option.splits)

lemma handleBind_refused: "handleBind B P d st = (st', Inl e) \<Longrightarrow> st' = st"
proof -
  assume h: "handleBind B P d st = (st', Inl e)"
  have "canonicalize (bind_proof B (bind_artifact d) (JObj (commit_fields B nb n sh prev)) sig att (bind_slot_body B nb n) ss) \<noteq> Inl e"
    if "valid_digest d" for nb n sh prev sig att ss
    using canonicalize_total [OF json_ok_bind(3) [OF that]] by (metis sum.distinct(1))
  then show "st' = st" using h by (auto simp: handleBind_def Let_def res_simps split: if_splits)
qed

lemma handleRequest_refused: "handleRequest B st i = (st', Inl e) \<Longrightarrow> st' = st"
  by (cases i) (auto simp: handleRequest_def res_simps dest: handleBind_refused split: if_splits prod.splits)

interpretation enclave: guarded_system "handleRequest B" isl
    "\<lambda>st. even (es_counter st) \<and> (es_counter st = 0 \<longleftrightarrow> es_lastProofHashB64 st = None)
      \<and> (0 < es_counter st \<longrightarrow> es_initialized st)" for B
proof
  fix st :: enclave_state and i :: "jv \<times> platform"
  obtain req P where i: "i = (req, P)" by (cases i)
  show "isl (snd (handleRequest B st i)) \<Longrightarrow> fst (handleRequest B st i) = st"
    using handleRequest_refused [of B st i] by (cases "handleRequest B st i") (auto simp: isl_def)
  have b: "handleBind B P d st = (st', Inr p) \<Longrightarrow> es_counter st' = es_counter st + 2
      \<and> es_lastProofHashB64 st' \<noteq> None \<and> es_initialized st' = es_initialized st" for d p st'
    by (auto elim!: handleBind_cases)
  assume inv: "even (es_counter st) \<and> (es_counter st = 0 \<longleftrightarrow> es_lastProofHashB64 st = None)
      \<and> (0 < es_counter st \<longrightarrow> es_initialized st)"
  show "even (es_counter (fst (handleRequest B st i)))
      \<and> (es_counter (fst (handleRequest B st i)) = 0 \<longleftrightarrow> es_lastProofHashB64 (fst (handleRequest B st i)) = None)
      \<and> (0 < es_counter (fst (handleRequest B st i)) \<longrightarrow> es_initialized (fst (handleRequest B st i)))"
  proof (cases "snd (handleRequest B st i)")
    case (Inl e)
    then have "fst (handleRequest B st i) = st" by (intro handleRequest_refused [of B st i _ e]) (simp add: prod_eq_iff)
    with inv show ?thesis by simp
  next
    case (Inr r)
    then have "handleRequest B st i = (fst (handleRequest B st i), Inr r)" by (simp add: prod_eq_iff)
    then show ?thesis using inv by (auto simp: handleRequest_def i res_simps dest!: b split: if_splits prod.splits)
  qed
qed

subsection \<open>Runs\<close>

abbreviation enclave_run :: "boot \<Rightarrow> enclave_state \<Rightarrow> (jv \<times> platform) list \<Rightarrow> enclave_state \<times> jv res list" where
  "enclave_run B \<equiv> guarded_system.run (handleRequest B)"

definition proofs_of :: "jv res list \<Rightarrow> jv list" where
  "proofs_of rs = concat (map released rs)"

lemma proofs_of_simps [simp]: "proofs_of [] = []" "proofs_of (r # rs) = released r @ proofs_of rs"
  by (simp_all add: proofs_of_def)

lemma released_simps [simp]:
  "released (Inl e) = []" "p \<noteq> JUndefined \<Longrightarrow> released (Inr (JObj [kv ''proof'' p])) = [p]"
  by (simp_all add: released_def)

lemma enclave_bind_defined: "enclave_bind B p n \<Longrightarrow> p \<noteq> JUndefined"
  by (auto simp: bind_of_def)

text \<open>A request either releases nothing and leaves the chain where it is, or is a successful bind.\<close>

lemma handleRequest_cases:
  assumes "handleRequest B st i = (st', r)"
  obtains "released r = []" "es_counter st' = es_counter st" "es_lastProofHashB64 st' = es_lastProofHashB64 st"
  | P d p where "released r = [p]" "handleBind B P d st = (st', Inr p)" "i = (fst i, P)"
      "d = fld (fst i) ''digestB64''" "es_initialized st"
proof -
  obtain req P where i: "i = (req, P)" by (cases i)
  show ?thesis
  proof (cases "fld req ''action'' = jstr ''bind'' \<and> es_initialized st \<and> (\<exists>st2 p. handleBind B P (fld req ''digestB64'') st = (st2, Inr p))")
    case True
    then obtain p st2 where b: "handleBind B P (fld req ''digestB64'') st = (st2, Inr p)" by auto
    have "p \<noteq> JUndefined" using handleBind_proof(1) [OF b] by (rule enclave_bind_defined)
    moreover have "get req ''action'' = Inr (jstr ''bind'')" using True by (auto simp: get_def fld_def jstr_def)
    ultimately have "released r = [p]" "st' = st2"
      using assms True b by (auto simp: handleRequest_def i jstr_def)
    then show ?thesis using that(2) b True i by auto
  next
    case False
    have "released r = [] \<and> es_counter st' = es_counter st \<and> es_lastProofHashB64 st' = es_lastProofHashB64 st"
    proof (cases r)
      case (Inl e)
      then show ?thesis using handleRequest_refused assms by fastforce
    next
      case (Inr v)
      then show ?thesis
        using assms False by (auto simp: handleRequest_def i released_def res_simps get_def split: if_splits prod.splits)
    qed
    then show ?thesis using that(1) by blast
  qed
qed

text \<open>The state a proof leaves behind, and what the next requests then release.\<close>

definition after_proof :: "boot \<Rightarrow> jv \<Rightarrow> enclave_state \<Rightarrow> bool" where
  "after_proof B q st \<longleftrightarrow> map_option Inr (es_lastProofHashB64 st) = Some (computeChainHash (b_sha256 B) q)"

lemma bind_links:
  assumes "handleBind B P d st = (st', Inr p)" and "after_proof B q st"
  shows "linked (b_sha256 B) q p"
  using handleBind_proof(5) [OF assms(1)] assms(2) by (auto simp: after_proof_def linked_def split: option.splits)

lemma run_after:
  assumes "after_proof B q st"
  shows "binds_from (b_sha256 B) (b_epochId B) (b64_encode (b_publicKey B)) (u16 ''bitgraph:main'')
           q (int (es_counter st) + 1) (proofs_of (snd (enclave_run B st is)))
    \<and> es_counter (fst (enclave_run B st is)) = es_counter st + 2 * length (proofs_of (snd (enclave_run B st is)))"
  using assms
proof (induction "is" arbitrary: st q)
  case (Cons i "is")
  obtain st' r where step: "handleRequest B st i = (st', r)" by (cases "handleRequest B st i")
  from step show ?case
  proof (cases rule: handleRequest_cases)
    case 1
    then have "after_proof B q st'" using Cons.prems by (simp add: after_proof_def)
    from Cons.IH [OF this] show ?thesis using step 1 by (simp add: enclave.run.simps)
  next
    case (2 P d p)
    have "after_proof B p st'" using handleBind_proof(4) [OF 2(2)] by (simp add: after_proof_def)
    from Cons.IH [OF this] show ?thesis
      using step 2(1) handleBind_proof(1,2) [OF 2(2)] bind_links [OF 2(2) Cons.prems]
      by (simp add: enclave.run.simps add.commute add.left_commute)
  qed
qed (simp add: enclave.run.simps)

lemma run_from_boot:
  assumes "es_counter st = 0" and "es_lastProofHashB64 st = None"
  shows "es_counter (fst (enclave_run B st is)) = 2 * length (proofs_of (snd (enclave_run B st is)))
    \<and> (case proofs_of (snd (enclave_run B st is)) of [] \<Rightarrow> True
      | p # ps \<Rightarrow> enclave_bind B p 1 \<and> fld (fld p ''commit'') ''prevB64'' = JUndefined
          \<and> binds_from (b_sha256 B) (b_epochId B) (b64_encode (b_publicKey B)) (u16 ''bitgraph:main'') p 3 ps)"
  using assms
proof (induction "is" arbitrary: st)
  case (Cons i "is")
  obtain st' r where step: "handleRequest B st i = (st', r)" by (cases "handleRequest B st i")
  from step show ?case
  proof (cases rule: handleRequest_cases)
    case 1
    from Cons.IH [of st'] show ?thesis using step 1 Cons.prems by (simp add: enclave.run.simps)
  next
    case (2 P d p)
    have "after_proof B p st'" using handleBind_proof(4) [OF 2(2)] by (simp add: after_proof_def)
    from run_after [OF this, of "is"] show ?thesis
      using step 2(1) handleBind_proof(1,2,5) [OF 2(2)] Cons.prems by (simp add: enclave.run.simps)
  qed
qed (simp add: enclave.run.simps)

lemma binds_from_nth:
  "binds_from H e pk ch q c ps \<Longrightarrow> i < length ps \<Longrightarrow> bind_of e pk ch (ps ! i) (c + 2 * int i)"
proof (induction ps arbitrary: q c i)
  case (Cons p ps)
  show ?case
  proof (cases i)
    case (Suc j)
    then have "bind_of e pk ch (ps ! j) (c + 2 + 2 * int j)" using Cons.prems by (intro Cons.IH [of p]) simp_all
    with Suc show ?thesis by (simp add: algebra_simps)
  qed (use Cons.prems in simp)
qed simp

lemma binds_from_drop_take:
  "binds_from H e pk ch q c ps \<Longrightarrow> binds_from H e pk ch q c (take n ps)"
proof (induction ps arbitrary: q c n)
  case (Cons p ps)
  then show ?case by (cases n) simp_all
qed simp

lemma binds_from_drop:
  "binds_from H e pk ch q c ps \<Longrightarrow> i < length ps \<Longrightarrow> binds_from H e pk ch (ps ! i) (c + 2 * int i + 2) (drop (Suc i) ps)"
proof (induction ps arbitrary: q c i)
  case (Cons p ps)
  show ?case
  proof (cases i)
    case (Suc j)
    then have "binds_from H e pk ch (ps ! j) (c + 2 + 2 * int j + 2) (drop (Suc j) ps)"
      using Cons.prems by (intro Cons.IH [of p]) simp_all
    with Suc show ?thesis by (simp add: algebra_simps)
  qed (use Cons.prems in simp)
qed simp

lemma run_member:
  "p \<in> set (proofs_of (snd (enclave_run B st is))) \<Longrightarrow>
   \<exists>st1 st2 P d. handleBind B P d st1 = (st2, Inr p) \<and> P \<in> snd ` set is"
proof (induction "is" arbitrary: st)
  case (Cons i "is")
  obtain st' r where step: "handleRequest B st i = (st', r)" by (cases "handleRequest B st i")
  from step show ?case
  proof (cases rule: handleRequest_cases)
    case 1
    then show ?thesis using Cons step by (fastforce simp: enclave.run.simps)
  next
    case (2 P d p')
    then have "snd i = P" by (cases i) simp
    then show ?thesis using Cons.IH [of st'] Cons.prems step 2 by (auto simp: enclave.run.simps)
  qed
qed (simp add: enclave.run.simps)

lemma no_init_no_release:
  "\<not> es_initialized st \<Longrightarrow> \<forall>i \<in> set is. fld (fst i) ''action'' \<noteq> jstr ''init'' \<Longrightarrow>
   proofs_of (snd (enclave_run B st is)) = []"
proof (induction "is" arbitrary: st)
  case (Cons i "is")
  obtain st' r where step: "handleRequest B st i = (st', r)" by (cases "handleRequest B st i")
  then have "st' = st" "released r = []"
    using Cons.prems by (auto simp: handleRequest_def released_def awaiting_def get_def
      split: prod.splits if_splits sum.splits)
  then show ?case using Cons step by (simp add: enclave.run.simps)
qed (simp add: enclave.run.simps)

subsection \<open>Released proofs verify\<close>

text \<open>What the verifier needs of the enclave's parts: one hash function, an Ed25519 pair whose
  signatures verify, and non-empty values; and of the platform: a non-empty nonce and report and the
  format the enclave signs.\<close>

definition boot_ok :: "crypto \<Rightarrow> boot \<Rightarrow> bool" where
  "boot_ok C B \<longleftrightarrow> c_sha256 C = b_sha256 B \<and> hash32 (b_sha256 B) \<and> length (b_publicKey B) = 32 \<and> b_measurement B \<noteq> [] \<and> b_epochId B \<noteq> []
     \<and> (\<forall>m s. b_sign B m = Inr s \<longrightarrow> length s = 64 \<and> c_ed_verify C s m (b_publicKey B) = Inr True)"

definition platform_ok :: "platform \<Rightarrow> bool" where
  "platform_ok P \<longleftrightarrow> (\<forall>n. pf_nonce P = Inr n \<longrightarrow> n \<noteq> [])
     \<and> (\<forall>h f r. pf_attest P h = Inr (f, r) \<longrightarrow> f = u16 ''aws-nitro'' \<and> r \<noteq> [])"

lemma slot_body_again:
  "slot_body (JObj (bind_slot_body B nb n @ [kv ''signatureB64'' v])) = bind_slot_body B nb n"
  by (simp add: slot_body_def kv_if_def CHAIN_ID_def jstr_def truthy_def) (simp add: bind_slot_body_def CHAIN_ID_def jstr_def)

lemma signed_body_again:
  "fst att = u16 ''aws-nitro'' \<Longrightarrow> buildSignedBody (bind_proof B a c sig att slot slotSig) = Inr (bind_signed_body B a c)"
  by (simp add: buildSignedBody_def Let_def kv_if_def bind_signed_body_def jstr_def publicKeyB64_def)

lemma bind_verifies:
  assumes b: "handleBind B P d st = (st', Inr p)" and B: "boot_ok C B" and P: "platform_ok P"
  shows "static_checks C p None = pass" and "fld (fld p ''commit'') ''epochLink'' = JUndefined"
proof -
  let ?n = "es_counter st + 1"
  from b obtain nonce sc ss fc f rep sig pc where h: "valid_digest d" "pf_nonce P = Inr nonce"
    "canonicalize (JObj (bind_slot_body B (b64_encode nonce) ?n)) = Inr sc" "b_sign B sc = Inr ss"
    "canonicalize (bind_signed_body B (bind_artifact d) (JObj (commit_fields B (b64_encode nonce) ?n
        (b64_encode (b_sha256 B sc)) (es_lastProofHashB64 st)))) = Inr fc"
    "pf_attest P (b_sha256 B fc) = Inr (f, rep)" "b_sign B fc = Inr sig"
    "p = bind_proof B (bind_artifact d) (JObj (commit_fields B (b64_encode nonce) ?n
        (b64_encode (b_sha256 B sc)) (es_lastProofHashB64 st))) sig (f, rep)
        (bind_slot_body B (b64_encode nonce) ?n) ss"
    by (auto elim!: handleBind_cases)
  obtain dig where d: "length dig = 32" "d = JStr (b64_encode dig)" using h(1) by (auto simp: valid_digest_iff)
  have sg: "length sig = 64" "c_ed_verify C sig fc (b_publicKey B) = Inr True"
    "length ss = 64" "c_ed_verify C ss sc (b_publicKey B) = Inr True" "c_sha256 C = b_sha256 B" "length (b_publicKey B) = 32"
    "b_measurement B \<noteq> []" "b_epochId B \<noteq> []" "b_sha256 B sc \<noteq> []"
    using h(4,7) B by (auto simp: boot_ok_def hash32_def dest!: spec [of _ sc])
  have ne: "dig \<noteq> []" "nonce \<noteq> []" "rep \<noteq> []" "f = u16 ''aws-nitro''" "sig \<noteq> []" "ss \<noteq> []" "b_publicKey B \<noteq> []"
    using d h(2,6) P sg(1,3,6) by (auto simp: platform_ok_def)
  have "validateStructure p = pass"
    using ne sg(7) d by (simp add: h(8) validateStructure_def bind_artifact_def jstr_def publicKeyB64_def
        VALID_ENFORCEMENT_TIERS_def split: option.splits)
  moreover have "check_artifact C p None = pass"
    by (simp add: check_artifact_def h(8) bind_artifact_def d(2))
  moreover have "check_signature C p = pass"
    using sg h(5) ne by (auto simp: check_signature_def h(8) signed_body_again publicKeyB64_def check_ed_def)
  moreover have "verifySlotAllocation C p = pass"
  proof -
    have fb: "list_all (\<lambda>q. fst q \<notin> set forbiddenKeys) (bind_slot_body B (b64_encode nonce) ?n)"
      by (simp add: bind_slot_body_def forbiddenKeys_def)
    show ?thesis
      using sg h(3) ne fb
      by (auto simp: verifySlotAllocation_def Let_def h(8) slot_body_again publicKeyB64_def check_ed_def jstr_def
          constantTimeEqual_iff)
  qed
  moreover have "check_atomic p = pass" by (simp add: check_atomic_def Let_def h(8))
  ultimately show "static_checks C p None = pass" by (simp add: static_checks_def h(8))
  show "fld (fld p ''commit'') ''epochLink'' = JUndefined" by (simp add: h(8))
qed

subsection \<open>A bind succeeds when the platform does\<close>

lemma handleBind_total:
  assumes "valid_digest d" and "pf_nonce P = Inr nonce" and "\<forall>m. \<exists>s. b_sign B m = Inr s"
    and "\<forall>h. \<exists>a. pf_attest P h = Inr a"
  shows "\<exists>p st'. handleBind B P d st = (st', Inr p)"
proof -
  let ?n = "es_counter st + 1" and ?slot = "bind_slot_body B (b64_encode nonce) (es_counter st + 1)"
  obtain sc where sc: "canonicalize (JObj ?slot) = Inr sc" using canonicalize_total json_ok_bind(1) assms(1) by blast
  obtain ss where ss: "b_sign B sc = Inr ss" using assms(3) by blast
  let ?commit = "JObj (commit_fields B (b64_encode nonce) ?n (b64_encode (b_sha256 B sc)) (es_lastProofHashB64 st))"
  obtain fc where fc: "canonicalize (bind_signed_body B (bind_artifact d) ?commit) = Inr fc"
    using canonicalize_total json_ok_bind(2) assms(1) by blast
  obtain att sig where att: "pf_attest P (b_sha256 B fc) = Inr att" "b_sign B fc = Inr sig" using assms(3,4) by blast
  obtain pc where "canonicalize (bind_proof B (bind_artifact d) ?commit sig att ?slot ss) = Inr pc"
    using canonicalize_total json_ok_bind(3) assms(1) by blast
  then show ?thesis using assms(1,2) sc ss fc att by (auto simp: handleBind_def Let_def)
qed

end
