(* ===== verification/BG_System.thy ===== *)
theory BG_System
  imports BG_Enclave
begin

text \<open>
  The properties that join the enclave, the verifier and the stretch check: what the enclave
  releases, the verifier accepts; what the verifier accepts is signed and ordered as claimed; and an
  accepted stretch accounts for every count. Concrete runs of the enclave serve as witnesses.
\<close>

subsection \<open>A concrete enclave\<close>

definition demo_crypto :: crypto where
  "demo_crypto = \<lparr>c_sha256 = demo_hash, c_ed_verify = (\<lambda>sig msg key. Inr (length sig = 64)),
     c_p256_verify = (\<lambda>key msg sig. Inr False), c_json_parse = (\<lambda>_. None), c_url_host = (\<lambda>_. None)\<rparr>"

definition demo_boot :: boot where
  "demo_boot = \<lparr>b_sha256 = demo_hash, b_sign = (\<lambda>_. Inr (replicate 64 1)), b_publicKey = replicate 32 2,
     b_measurement = u16 ''00'', b_epochId = u16 ''epoch''\<rparr>"

definition demo_platform :: platform where
  "demo_platform = \<lparr>pf_nonce = Inr (replicate 32 3), pf_attest = (\<lambda>h. Inr (u16 ''aws-nitro'', h @ [1]))\<rparr>"

definition demo_digest :: jv where
  "demo_digest = JStr (b64_encode (replicate 32 7))"

definition init_request :: "jv \<times> platform" where
  "init_request = (JObj [kv ''action'' (jstr ''init'')], demo_platform)"

definition bind_request :: "jv \<times> platform" where
  "bind_request = (JObj [kv ''action'' (jstr ''bind''), kv ''digestB64'' demo_digest], demo_platform)"

lemma demo_boot_ok: "boot_ok demo_crypto demo_boot"
  by (simp add: boot_ok_def demo_crypto_def demo_boot_def)

lemma demo_platform_ok: "platform_ok demo_platform"
  by (simp add: platform_ok_def demo_platform_def)

lemma demo_bind: "\<exists>p st'. handleBind demo_boot demo_platform demo_digest st = (st', Inr p)"
  by (rule handleBind_total [where nonce = "replicate 32 3"])
     (auto simp: valid_digest_iff demo_digest_def demo_platform_def demo_boot_def)

lemma demo_bind_request:
  assumes "es_initialized st"
  shows "\<exists>p st'. handleRequest demo_boot st bind_request = (st', Inr (JObj [kv ''proof'' p]))
    \<and> p \<noteq> JUndefined \<and> es_initialized st'"
proof -
  obtain p st' where b: "handleBind demo_boot demo_platform demo_digest st = (st', Inr p)" using demo_bind by blast
  then have "p \<noteq> JUndefined" "es_initialized st'"
    using handleBind_proof(1,3) [OF b] assms by (auto dest: enclave_bind_defined)
  then show ?thesis using assms b by (simp add: handleRequest_def bind_request_def jstr_def)
qed

lemma demo_binds:
  "es_initialized st \<Longrightarrow> length (proofs_of (snd (enclave_run demo_boot st (replicate n bind_request)))) = n"
proof (induction n arbitrary: st)
  case (Suc n)
  obtain p st' where "handleRequest demo_boot st bind_request = (st', Inr (JObj [kv ''proof'' p]))"
      "p \<noteq> JUndefined" "es_initialized st'"
    using demo_bind_request [OF Suc.prems] by blast
  with Suc.IH [of st'] show ?case by (simp add: enclave.run.simps)
qed (simp add: enclave.run.simps)

definition demo_requests :: "nat \<Rightarrow> (jv \<times> platform) list" where
  "demo_requests n = init_request # replicate n bind_request"

definition demo_proofs :: "nat \<Rightarrow> jv list" where
  "demo_proofs n = proofs_of (snd (enclave_run demo_boot boot_state (demo_requests n)))"

lemma length_demo_proofs [simp]: "length (demo_proofs n) = n"
proof -
  have "handleRequest demo_boot boot_state init_request =
      (boot_state\<lparr>es_initialized := True\<rparr>, Inr (JObj [kv ''counter'' (count_str 0),
          kv ''epochId'' (JStr (b_epochId demo_boot)), kv ''chains'' (JNum 1)]))"
    by (simp add: handleRequest_def init_request_def boot_state_def)
  moreover have "released (Inr (JObj [kv ''counter'' (count_str 0),
          kv ''epochId'' (JStr (b_epochId demo_boot)), kv ''chains'' (JNum 1)])) = []"
    by (simp add: released_def)
  ultimately show ?thesis
    by (simp add: demo_proofs_def demo_requests_def enclave.run.simps demo_binds)
qed

lemma demo_proofs_bind: "p \<in> set (demo_proofs n) \<Longrightarrow>
    \<exists>st1 st2 d. handleBind demo_boot demo_platform d st1 = (st2, Inr p)"
  using run_member [of p demo_boot boot_state "demo_requests n"]
  by (auto simp: demo_proofs_def demo_requests_def init_request_def bind_request_def)

subsection \<open>The enclave\<close>

abbreviation boot_proofs :: "boot \<Rightarrow> (jv \<times> platform) list \<Rightarrow> jv list" where
  "boot_proofs B reqs \<equiv> proofs_of (snd (enclave_run B boot_state reqs))"

lemma boot_run:
  "es_counter (fst (enclave_run B boot_state reqs)) = 2 * length (boot_proofs B reqs)"
  "boot_proofs B reqs = p # ps \<Longrightarrow> enclave_bind B p 1 \<and> fld (fld p ''commit'') ''prevB64'' = JUndefined
    \<and> binds_from (b_sha256 B) (b_epochId B) (b64_encode (b_publicKey B)) (u16 ''bitgraph:main'') p 3 ps"
  using run_from_boot [of boot_state B reqs] by (simp_all add: boot_state_def)

lemma boot_nth: "i < length (boot_proofs B reqs) \<Longrightarrow> enclave_bind B (boot_proofs B reqs ! i) (2 * int i + 1)"
proof -
  assume i: "i < length (boot_proofs B reqs)"
  then obtain p ps where ps: "boot_proofs B reqs = p # ps" by (cases "boot_proofs B reqs") auto
  show ?thesis
  proof (cases i)
    case 0
    then show ?thesis using boot_run(2) [OF ps] ps by simp
  next
    case (Suc j)
    then have "enclave_bind B (ps ! j) (3 + 2 * int j)"
      using boot_run(2) [OF ps] i ps by (intro binds_from_nth) auto
    then show ?thesis using Suc ps by (simp add: algebra_simps)
  qed
qed

lemma boot_stretch:
  assumes "i < j" and "j < length (boot_proofs B reqs)"
  shows "\<exists>s. verifyStretch (b_sha256 B) (slice i (j + 1) (boot_proofs B reqs)) = Inr s \<and> sr_ok s"
proof -
  obtain p ps where ps: "boot_proofs B reqs = p # ps" using assms by (cases "boot_proofs B reqs") auto
  let ?all = "p # ps" and ?pk = "b64_encode (b_publicKey B)" and ?ch = "u16 ''bitgraph:main''"
  have run: "enclave_bind B p 1" "binds_from (b_sha256 B) (b_epochId B) ?pk ?ch p 3 ps"
    using boot_run(2) [OF ps] by simp_all
  have first: "enclave_bind B (?all ! i) (2 * int i + 1)" using boot_nth [of i B reqs] assms ps by simp
  have "binds_from (b_sha256 B) (b_epochId B) ?pk ?ch (?all ! i) (2 * int i + 3) (drop (Suc i) ?all)"
  proof (cases i)
    case (Suc k)
    then have "binds_from (b_sha256 B) (b_epochId B) ?pk ?ch (ps ! k) (3 + 2 * int k + 2) (drop (Suc k) ps)"
      using assms ps by (intro binds_from_drop [OF run(2)]) simp
    with Suc show ?thesis by (simp add: algebra_simps)
  qed (use run in simp)
  then have rest: "binds_from (b_sha256 B) (b_epochId B) ?pk ?ch (?all ! i) (2 * int i + 1 + 2) (take (j - i) (drop (Suc i) ?all))"
    by (intro binds_from_drop_take) (simp add: add.assoc)
  have "slice i (j + 1) ?all = ?all ! i # take (j - i) (drop (Suc i) ?all)"
    using assms ps by (simp add: slice_def Cons_nth_drop_Suc [symmetric] Suc_diff_le del: drop_Suc_Cons)
  moreover have "take (j - i) (drop (Suc i) ?all) \<noteq> []" using assms ps by auto
  ultimately show ?thesis using verifyStretch_pass [OF first rest] ps by simp
qed

text \<open>C1: From boot, whatever the requests and whatever fails, the counter stands at twice the number of
  released proofs, and every count is accounted for: the \<open>i\<close>-th proof (from 0) has its nonce at count
  \<open>2 i + 1\<close> and its payload at \<open>2 i + 2\<close>.\<close>

theorem enclave_counts:
  assumes "i < length (proofs_of (snd (enclave_run B boot_state reqs)))"
  shows "nonce_count (proofs_of (snd (enclave_run B boot_state reqs)) ! i) = Inr (2 * int i + 1)
    \<and> commit_count (proofs_of (snd (enclave_run B boot_state reqs)) ! i) = Inr (2 * int i + 2)
    \<and> es_counter (fst (enclave_run B boot_state reqs)) = 2 * length (proofs_of (snd (enclave_run B boot_state reqs)))"
  using boot_nth [OF assms] boot_run(1) by (simp add: bind_of_def is_bind_def)

theorem enclave_counts_witness:
  "nonce_count (demo_proofs 3 ! 2) = Inr 5 \<and> commit_count (demo_proofs 3 ! 2) = Inr 6
    \<and> es_counter (fst (enclave_run demo_boot boot_state (demo_requests 3))) = 6"
  using enclave_counts [of 2 demo_boot "demo_requests 3"] length_demo_proofs [of 3] unfolding demo_proofs_def by simp

text \<open>C3: The proofs the enclave releases form unbroken stretches: any two or more consecutive ones pass
  \<^verbatim>\<open>verifyStretch\<close>, so each links to the one before it and no count between the first and the last is
  missing.\<close>

theorem enclave_stretch:
  assumes "i < j" and "j < length (proofs_of (snd (enclave_run B boot_state reqs)))"
  shows "\<exists>s. verifyStretch (b_sha256 B) (slice i (j + 1) (proofs_of (snd (enclave_run B boot_state reqs)))) = Inr s \<and> sr_ok s"
  by (rule boot_stretch [OF assms])

lemma demo_stretch_fact: "\<exists>s. verifyStretch demo_hash (demo_proofs 3) = Inr s \<and> sr_ok s"
  using boot_stretch [of 0 2 demo_boot "demo_requests 3"] length_demo_proofs [of 3] slice_all [of "demo_proofs 3"]
  unfolding demo_proofs_def by (simp add: demo_boot_def)

theorem enclave_stretch_witness:
  "\<exists>s. verifyStretch (b_sha256 demo_boot) (slice 1 3 (demo_proofs 3)) = Inr s \<and> sr_ok s"
  using enclave_stretch [of 1 2 demo_boot "demo_requests 3"] length_demo_proofs [of 3]
  unfolding demo_proofs_def by simp

text \<open>C2: Every proof the enclave releases passes the offline verifier's integrity check, given that
  Ed25519 signatures verify and the platform answers in its documented form.\<close>

theorem enclave_proof_verifies:
  assumes "p \<in> set (proofs_of (snd (enclave_run B boot_state reqs)))" and "boot_ok C B"
    and "\<forall>P \<in> snd ` set reqs. platform_ok P"
  shows "verifyProofIntegrity C p None ctx = (Valid, ctx)"
proof -
  obtain st1 st2 P d where h: "handleBind B P d st1 = (st2, Inr p)" "P \<in> snd ` set reqs"
    using run_member [OF assms(1)] by blast
  have "platform_ok P" using h(2) assms(3) by blast
  from bind_verifies [OF h(1) assms(2) this]
  show ?thesis by (simp add: verifyProofIntegrity_def runChecks_def Let_def opt_check_def)
qed

theorem enclave_proof_verifies_witness:
  "verifyProofIntegrity demo_crypto (demo_proofs 2 ! 1) None createVerificationContext = (Valid, createVerificationContext)"
proof (rule enclave_proof_verifies [where B = demo_boot and reqs = "demo_requests 2"])
  show "demo_proofs 2 ! 1 \<in> set (proofs_of (snd (enclave_run demo_boot boot_state (demo_requests 2))))"
    using length_demo_proofs [of 2] nth_mem [of 1 "demo_proofs 2"] unfolding demo_proofs_def by simp
qed (auto simp: demo_boot_ok demo_platform_ok demo_requests_def init_request_def bind_request_def)

text \<open>C35: Refusals. A bind runs seven calls that may throw, the last one after the counter has moved; every
  call's error comes with the state reached so far. Whatever the request, the state and the platform: an
  error comes back with the state as it was, so no failure moves the counter without the chain hash or
  spends a count. Hence the refused requests of a run can be struck out: the others alone, from boot,
  give the same answers and end in the same state. And where no request is an init, no proof is
  released.\<close>

theorem enclave_refusal:
  "(isl (snd (handleRequest B st req)) \<longrightarrow> fst (handleRequest B st req) = st)
    \<and> enclave_run B boot_state (map fst (filter (\<lambda>p. \<not> isl (snd p)) (zip reqs (snd (enclave_run B boot_state reqs)))))
        = (fst (enclave_run B boot_state reqs), filter (\<lambda>r. \<not> isl r) (snd (enclave_run B boot_state reqs)))
    \<and> ((\<forall>i \<in> set reqs. fld (fst i) ''action'' \<noteq> jstr ''init'') \<longrightarrow> proofs_of (snd (enclave_run B boot_state reqs)) = [])"
proof (intro conjI impI)
  assume "isl (snd (handleRequest B st req))"
  then show "fst (handleRequest B st req) = st"
    using handleRequest_refused [of B st req] by (cases "handleRequest B st req") (auto simp: isl_def)
next
  show "enclave_run B boot_state (map fst (filter (\<lambda>p. \<not> isl (snd p)) (zip reqs (snd (enclave_run B boot_state reqs)))))
        = (fst (enclave_run B boot_state reqs), filter (\<lambda>r. \<not> isl r) (snd (enclave_run B boot_state reqs)))"
    using enclave.run_granted [of boot_state B reqs] by (simp add: enclave.granted_def boot_state_def)
next
  assume "\<forall>i \<in> set reqs. fld (fst i) ''action'' \<noteq> jstr ''init''"
  then show "proofs_of (snd (enclave_run B boot_state reqs)) = []"
    by (intro no_init_no_release) (simp_all add: boot_state_def)
qed

text \<open>A bind whose attestation fails, after the nonce has been drawn and the slot record signed.\<close>

definition failing_request :: "jv \<times> platform" where
  "failing_request = (fst bind_request, demo_platform\<lparr>pf_attest := \<lambda>_. Inl (JsError ''attestation'')\<rparr>)"

lemma failing_bind: "es_initialized st \<Longrightarrow> isl (snd (handleRequest demo_boot st failing_request))"
proof -
  let ?slot = "bind_slot_body demo_boot (b64_encode (replicate 32 3)) (es_counter st + 1)"
  have d: "valid_digest demo_digest" by (auto simp: valid_digest_iff demo_digest_def)
  obtain sc where "canonicalize (JObj ?slot) = Inr sc" using canonicalize_total json_ok_bind(1) [OF d] by blast
  moreover obtain fc where "canonicalize (bind_signed_body demo_boot (bind_artifact demo_digest) (JObj (commit_fields demo_boot
      (b64_encode (replicate 32 3)) (es_counter st + 1) (b64_encode (b_sha256 demo_boot sc)) (es_lastProofHashB64 st)))) = Inr fc"
    using canonicalize_total json_ok_bind(2) [OF d] by blast
  ultimately have "snd (handleBind demo_boot (snd failing_request) demo_digest st) = Inl (JsError ''attestation'')"
    using d by (simp add: handleBind_def Let_def failing_request_def demo_platform_def demo_boot_def)
  moreover assume "es_initialized st"
  ultimately show ?thesis
    by (cases "handleBind demo_boot (snd failing_request) demo_digest st")
       (simp add: handleRequest_def failing_request_def bind_request_def jstr_def)
qed

theorem enclave_refusal_witness:
  "fst (handleRequest demo_boot (boot_state\<lparr>es_initialized := True\<rparr>) failing_request) = boot_state\<lparr>es_initialized := True\<rparr>
    \<and> proofs_of (snd (enclave_run demo_boot boot_state [bind_request])) = []"
proof -
  have "isl (snd (handleRequest demo_boot (boot_state\<lparr>es_initialized := True\<rparr>) failing_request))"
    by (rule failing_bind) simp
  then show ?thesis
    using enclave_refusal [of demo_boot "boot_state\<lparr>es_initialized := True\<rparr>" failing_request "[bind_request]"]
    by (simp add: bind_request_def jstr_def)
qed

text \<open>C36: A bind on a well-formed digest succeeds whenever the hardware RNG, the attestation and the
  signature do: no other step can fail.\<close>

theorem enclave_bind_succeeds:
  assumes "valid_digest d" and "pf_nonce P = Inr nonce" and "\<forall>m. \<exists>s. b_sign B m = Inr s"
    and "\<forall>h. \<exists>a. pf_attest P h = Inr a"
  shows "\<exists>p st'. handleBind B P d st = (st', Inr p) \<and> es_counter st' = es_counter st + 2"
  using handleBind_total [OF assms] handleBind_proof(2) by blast

theorem enclave_bind_succeeds_witness:
  "\<exists>p st'. handleBind demo_boot demo_platform demo_digest boot_state = (st', Inr p) \<and> es_counter st' = es_counter boot_state + 2"
  by (rule enclave_bind_succeeds [where nonce = "replicate 32 3"])
     (auto simp: valid_digest_iff demo_digest_def demo_platform_def demo_boot_def)

subsection \<open>The verifier\<close>

text \<open>\<^verbatim>\<open>verify\<close> accepts exactly when the bytes-free integrity check accepts and the artifact's bytes
  hash to the committed digest: the two entry points differ in that comparison alone.\<close>

lemma verify_is_integrity_and_digest:
  "fst (verify C proof b pol ctx) = Valid \<longleftrightarrow> fst (verifyProofIntegrity C proof pol ctx) = Valid
     \<and> fromBase64 (str_of (fld (fld proof ''artifact'') ''digestB64'')) = Inr (c_sha256 C b)"
  by (rule verifyAccepts)

lemma integrity_static: "fst (verifyProofIntegrity C proof pol ctx) = Valid \<Longrightarrow> static_checks C proof None = pass"
  by (auto simp: verifyProofIntegrity_def Let_def split_def runChecks_pass)

lemma demo_valid: "\<exists>p. fst (verifyProofIntegrity demo_crypto p None ctx) = Valid
    \<and> fld (fld p ''commit'') ''atomic'' = JBool True \<and> fld p ''slotAllocation'' \<noteq> JUndefined"
proof -
  obtain p st' where b: "handleBind demo_boot demo_platform demo_digest boot_state = (st', Inr p)" using demo_bind by blast
  from bind_verifies [OF b demo_boot_ok demo_platform_ok] handleBind_proof(1,7) [OF b]
  show ?thesis by (auto simp: verifyProofIntegrity_def runChecks_def Let_def opt_check_def bind_of_def is_bind_def
      intro!: exI [of _ p])
qed

text \<open>C4: What acceptance means for a bind: the signer's key signed the canonical body; the same key
  signed the slot record, whose hash the body carries; the nonce is the same in both, and the payload's
  count is the one right after the nonce's.\<close>

theorem accepted_bind:
  assumes "fst (verifyProofIntegrity C p pol ctx) = Valid" and "fld (fld p ''commit'') ''atomic'' \<noteq> JUndefined"
  shows "\<exists>key sig body msg slotSig slotMsg n.
      fld (fld p ''signer'') ''publicKeyB64'' = JStr (b64_encode key)
    \<and> buildSignedBody p = Inr body \<and> canonicalize body = Inr msg \<and> c_ed_verify C sig msg key = Inr True
    \<and> canonicalize (JObj (slot_body (fld p ''slotAllocation''))) = Inr slotMsg
    \<and> c_ed_verify C slotSig slotMsg key = Inr True
    \<and> fld (fld p ''commit'') ''slotHashB64'' = JStr (b64_encode (c_sha256 C slotMsg))
    \<and> fld (fld p ''slotAllocation'') ''nonceB64'' = fld (fld p ''commit'') ''nonceB64''
    \<and> bigint_of (fld (fld p ''slotAllocation'') ''counter'') = Inr n
    \<and> bigint_of (fld (fld p ''commit'') ''counter'') = Inr (n + 1)"
proof -
  note st = integrity_static [OF assms(1)]
  obtain key sig body msg where s: "fld (fld p ''signer'') ''publicKeyB64'' = JStr (b64_encode key)"
      "buildSignedBody p = Inr body" "canonicalize body = Inr msg" "c_ed_verify C sig msg key = Inr True"
    using accepted_signature [OF st] by metis
  have at: "check_atomic p = pass" using accepted_structure(4) [OF st] .
  then have slot: "fld p ''slotAllocation'' \<noteq> JUndefined" using assms(2) by (simp add: check_atomic_def Let_def)
  obtain key' ssig smsg n c where t: "fld (fld p ''signer'') ''publicKeyB64'' = JStr (b64_encode key')"
      "canonicalize (JObj (slot_body (fld p ''slotAllocation''))) = Inr smsg" "c_ed_verify C ssig smsg key' = Inr True"
      "fld (fld p ''commit'') ''slotHashB64'' = JStr (b64_encode (c_sha256 C smsg))"
      "fld (fld p ''slotAllocation'') ''nonceB64'' = fld (fld p ''commit'') ''nonceB64''"
      "bigint_of (fld (fld p ''slotAllocation'') ''counter'') = Inr n" "bigint_of (fld (fld p ''commit'') ''counter'') = Inr c"
    using accepted_slot [OF accepted_structure(3) [OF st slot]] by metis
  have "key' = key" using s(1) t(1) by simp
  moreover have "c = n + 1"
    using at assms(2) t(6,7) by (auto simp: check_atomic_def Let_def bigint_of_def get_def split: if_splits)
  ultimately show ?thesis using s t by blast
qed

theorem accepted_bind_witness:
  "\<exists>p n. bigint_of (fld (fld p ''slotAllocation'') ''counter'') = Inr n
     \<and> bigint_of (fld (fld p ''commit'') ''counter'') = Inr (n + 1)"
proof -
  obtain p where "fst (verifyProofIntegrity demo_crypto p None createVerificationContext) = Valid"
      "fld (fld p ''commit'') ''atomic'' = JBool True"
    using demo_valid by blast
  then show ?thesis using accepted_bind [of demo_crypto p None createVerificationContext] by auto
qed

text \<open>A proof of the kind old enclaves made: no slot, with an epoch link.\<close>

definition demo_link :: jv where
  "demo_link = JObj [kv ''prevEpochId'' (jstr ''e1''), kv ''prevPublicKeyB64'' (JStr (b64_encode (replicate 32 3))), kv ''prevCounter'' (jstr ''7''),
     kv ''prevProofHashB64'' (jstr ''h''), kv ''toEpochId'' (jstr ''e2''), kv ''toPublicKeyB64'' (JStr (b64_encode (replicate 32 2)))]"

definition demo_linked :: jv where
  "demo_linked = JObj [kv ''version'' (jstr ''bitgraph/1''),
     kv ''artifact'' (JObj [kv ''hashAlg'' (jstr ''sha256''), kv ''digestB64'' demo_digest]),
     kv ''commit'' (JObj [kv ''nonceB64'' (jstr ''n''), kv ''epochLink'' demo_link]),
     kv ''signer'' (JObj [kv ''publicKeyB64'' (JStr (b64_encode (replicate 32 2))), kv ''signatureB64'' (JStr (b64_encode (replicate 64 1)))]),
     kv ''environment'' (JObj [kv ''enforcement'' (jstr ''stub''), kv ''measurement'' (jstr ''m'')])]"

lemma demo_linked_static: "static_checks demo_crypto demo_linked None = pass"
proof -
  have "\<exists>m. rbind (buildSignedBody demo_linked) canonicalize = Inr m"
  proof -
    obtain body where b: "buildSignedBody demo_linked = Inr body" "json_ok body"
      by (simp add: buildSignedBody_def Let_def demo_linked_def kv_if_def jstr_def demo_link_def demo_digest_def)
    with canonicalize_total [OF b(2)] show ?thesis by auto
  qed
  then have "check_signature demo_crypto demo_linked = pass"
    by (auto simp: check_signature_def demo_linked_def check_ed_def demo_crypto_def res_simps)
  moreover have "validateStructure demo_linked = pass"
    by (simp add: validateStructure_def demo_linked_def jstr_def demo_digest_def typeof_object_def VALID_ENFORCEMENT_TIERS_def)
  ultimately show ?thesis
    by (simp add: static_checks_def check_artifact_def check_atomic_def demo_linked_def demo_digest_def)
qed

lemma demo_linked_accepted:
  "fst (runChecks demo_crypto demo_linked None None createVerificationContext) = pass"
  "epoch_link demo_linked \<noteq> JUndefined"
proof -
  have "js_bigint (u16 ''7'') = Some 7"
    by (simp add: js_bigint_def js_trim_def js_space_def digits_in_def unit_digit_def u16_def Let_def)
  then have "validateEpochLinkShape demo_linked = pass"
    by (simp add: validateEpochLinkShape_def Let_def demo_linked_def demo_link_def jstr_def bigint_of_def bigint_parse_def)
  then have "\<exists>pend. checkEpochLink demo_crypto demo_linked createVerificationContext = Inr (None, pend)"
    by (simp add: checkEpochLink_def Let_def createVerificationContext_def)
  then show "fst (runChecks demo_crypto demo_linked None None createVerificationContext) = pass"
    using demo_linked_static by (simp add: runChecks_pass opt_check_def)
  show "epoch_link demo_linked \<noteq> JUndefined" by (simp add: demo_linked_def demo_link_def)
qed

text \<open>C5: The single-successor rule holds over a whole verification run: once a proof that consumes a
  predecessor has been accepted, every proof accepted later in the same context that consumes that
  predecessor names the same successor epoch. A rejected proof in between changes nothing.\<close>

theorem single_successor:
  assumes "fst (runChecks C p b pol ctx) = pass" and "epoch_link p \<noteq> JUndefined"
    and "ctx' = fst (guarded_system.run (verifier_step C) (snd (runChecks C p b pol ctx)) reqs)"
    and "fst (runChecks C q b' pol' ctx') = pass" and "epoch_link q \<noteq> JUndefined"
    and "computeSuccessorKey C (epoch_link q) = computeSuccessorKey C (epoch_link p)"
  shows "to_epoch q = to_epoch p"
proof -
  let ?k = "computeSuccessorKey C (epoch_link p)" and ?ctx = "snd (runChecks C p b pol ctx)"
  have "?ctx ?k = Some (to_epoch p)" by (rule accepted_link(1) [OF assms(1,2)])
  moreover have "?ctx \<subseteq>\<^sub>m ctx'"
    unfolding assms(3) by (rule verifier.run_inv) simp
  ultimately have "ctx' ?k = Some (to_epoch p)" by (auto simp: map_le_def dom_def)
  with accepted_link(2) [OF assms(4,5)] assms(6) show ?thesis by simp
qed

theorem single_successor_witness:
  "\<exists>p. to_epoch demo_linked = to_epoch p \<and> epoch_link p \<noteq> JUndefined"
proof -
  let ?r = "(demo_linked, None, None)" and ?c = "snd (runChecks demo_crypto demo_linked None None createVerificationContext)"
  have again: "fst (runChecks demo_crypto demo_linked None None ?c) = pass"
  proof -
    have "?c (computeSuccessorKey demo_crypto (epoch_link demo_linked)) = Some (to_epoch demo_linked)"
      by (rule accepted_link(1) [OF demo_linked_accepted])
    moreover have "validateEpochLinkShape demo_linked = pass"
      using demo_linked_accepted by (auto simp: runChecks_pass checkEpochLink_def res_simps split: option.splits)
    ultimately show ?thesis
      using demo_linked_static by (simp add: runChecks_pass opt_check_def checkEpochLink_def Let_def)
  qed
  have "to_epoch demo_linked = to_epoch demo_linked"
    by (rule single_successor [OF demo_linked_accepted _ again demo_linked_accepted(2) refl, where reqs = "[]"])
       (simp add: verifier.run.simps)
  then show ?thesis using demo_linked_accepted(2) by blast
qed

subsection \<open>Stretches\<close>

text \<open>C31: An accepted stretch accounts for every count: from the first nonce count \<open>c\<close> on, the \<open>i\<close>-th
  proof takes exactly the counts \<open>c + 2 i\<close> and \<open>c + 2 i + 1\<close>, all are of one epoch, key and chain, and
  each carries the chain hash of the one before.\<close>

theorem verifyStretch_sound:
  assumes "verifyStretch H ps = Inr s" and "sr_ok s"
  shows "\<exists>c. \<forall>i < length ps. is_bind (ps ! i) (c + 2 * int i) \<and> same_origin (ps ! i) (hd ps)
    \<and> (i + 1 < length ps \<longrightarrow> linked H (ps ! i) (ps ! (i + 1)))"
proof -
  obtain c p qs where h: "ps = p # qs" "is_bind p c" "unbroken H p (c + 2) qs" "\<forall>q \<in> set ps. same_origin q p"
    using verifyStretch_ok [OF assms] by blast
  have "is_bind (ps ! i) (c + 2 * int i)" if "i < length ps" for i
  proof (cases i)
    case (Suc j)
    then have "is_bind (qs ! j) (c + 2 + 2 * int j)" using that h(1) by (intro unbroken_nth [OF h(3)]) simp
    with Suc h(1) show ?thesis by (simp add: algebra_simps)
  qed (use h in simp)
  moreover have "linked H (ps ! i) (ps ! (i + 1))" if "i + 1 < length ps" for i
    using unbroken_linked [OF h(3)] that h(1) by simp
  moreover have "same_origin (ps ! i) (hd ps)" if "i < length ps" for i using h(4) nth_mem [OF that] unfolding h(1) list.sel by blast
  ultimately show ?thesis by blast
qed

theorem verifyStretch_sound_witness:
  "\<exists>c. \<forall>i < length (demo_proofs 3). is_bind (demo_proofs 3 ! i) (c + 2 * int i)
    \<and> same_origin (demo_proofs 3 ! i) (hd (demo_proofs 3))
    \<and> (i + 1 < length (demo_proofs 3) \<longrightarrow> linked demo_hash (demo_proofs 3 ! i) (demo_proofs 3 ! (i + 1)))"
proof -
  obtain s where "verifyStretch demo_hash (demo_proofs 3) = Inr s" "sr_ok s" using demo_stretch_fact by blast
  then show ?thesis by (rule verifyStretch_sound)
qed

text \<open>A short stretch under a hash that tells lengths apart.\<close>

definition length_hash :: hashfun where
  "length_hash x = [of_nat (length x)]"

definition mini_proof :: "string \<Rightarrow> string \<Rightarrow> jv \<Rightarrow> jv" where
  "mini_proof n m prev = JObj [kv ''commit'' (JObj [kv ''atomic'' (JBool True), kv ''chainId'' (jstr ''c''),
       kv ''counter'' (jstr m), kv ''epochId'' (jstr ''e''), kv ''prevB64'' prev]),
     kv ''slotAllocation'' (JObj [kv ''counter'' (jstr n)]), kv ''signer'' (JObj [kv ''publicKeyB64'' (jstr ''k'')])]"

definition mini_a :: jv where
  "mini_a = mini_proof ''1'' ''2'' JUndefined"

definition mini_b :: jv where
  "mini_b = mini_proof ''3'' ''4'' (JStr (b64_encode [131]))"

definition mini_c :: jv where
  "mini_c = mini_proof ''5'' ''6'' (JStr (b64_encode [148]))"

lemma mini_hash_a: "computeChainHash length_hash mini_a = Inr (b64_encode [131])"
  by code_simp

lemma mini_hash_b: "computeChainHash length_hash mini_b = Inr (b64_encode [148])"
  by code_simp

lemma mini_counts [simp]:
  "bigint_of (jstr ''1'') = Inr 1" "bigint_of (jstr ''2'') = Inr 2" "bigint_of (jstr ''3'') = Inr 3"
  "bigint_of (jstr ''4'') = Inr 4" "bigint_of (jstr ''5'') = Inr 5" "bigint_of (jstr ''6'') = Inr 6"
  by code_simp+

lemma mini_binds:
  "bind_of (u16 ''e'') (u16 ''k'') (u16 ''c'') mini_a 1" "bind_of (u16 ''e'') (u16 ''k'') (u16 ''c'') mini_b 3"
  "bind_of (u16 ''e'') (u16 ''k'') (u16 ''c'') mini_c 5"
  by (simp_all add: bind_of_def is_bind_def nonce_count_def commit_count_def or_else_def mini_a_def mini_b_def
      mini_c_def mini_proof_def jstr_def [of "''e''"] jstr_def [of "''k''"] jstr_def [of "''c''"])
     (simp_all add: jstr_def)

lemma mini_between: "\<exists>s. verifyBetween length_hash [mini_a, mini_b, mini_c] mini_b = Inr s \<and> sr_ok s"
proof -
  have "linked length_hash mini_a mini_b" "linked length_hash mini_b mini_c"
    using mini_hash_a mini_hash_b by (simp_all add: linked_def) (simp_all add: mini_b_def mini_c_def mini_proof_def)
  then have "\<exists>s. verifyStretch length_hash [mini_a, mini_b, mini_c] = Inr s \<and> sr_ok s"
    using mini_binds by (intro verifyStretch_pass [where c = 1]) simp_all
  moreover have "b64_encode [131] \<noteq> b64_encode [148]" unfolding b64_encode_eq by simp
  ultimately show ?thesis using mini_hash_a mini_hash_b by (auto simp: verifyBetween_def simp del: b64_encode.simps b64_encode_eq)
qed

end
