(* ===== verification/BG_Graph.thy ===== *)
theory BG_Graph
  imports BG_Json "HOL-Library.AList" "HOL-Library.Product_Lexorder"
begin

text \<open>
  What the audit uses of JavaScript collections: \<^verbatim>\<open>Array.prototype.sort\<close> with a comparison
  function, \<^verbatim>\<open>Map\<close> and \<^verbatim>\<open>Set\<close> with their insertion order, and the iterative depth-first search that
  appears in several of its files.
\<close>

subsection \<open>Sorting with a comparison function\<close>

text \<open>The sort is stable, so with a consistent comparison the result is this insertion sort's.\<close>

fun js_insert :: "('a \<Rightarrow> 'a \<Rightarrow> int) \<Rightarrow> 'a \<Rightarrow> 'a list \<Rightarrow> 'a list" where
  "js_insert cmp x [] = [x]"
| "js_insert cmp x (y # ys) = (if cmp x y \<le> 0 then x # y # ys else y # js_insert cmp x ys)"

definition js_sort :: "('a \<Rightarrow> 'a \<Rightarrow> int) \<Rightarrow> 'a list \<Rightarrow> 'a list" where
  "js_sort cmp xs = foldr (js_insert cmp) xs []"

lemma mset_js_insert [simp]: "mset (js_insert cmp x xs) = add_mset x (mset xs)"
  by (induction xs) auto

lemma mset_js_sort [simp]: "mset (js_sort cmp xs) = mset xs"
  by (induction xs) (auto simp: js_sort_def)

lemma set_js_sort [simp]: "set (js_sort cmp xs) = set xs"
  by (metis mset_js_sort set_mset_mset)

lemma length_js_sort [simp]: "length (js_sort cmp xs) = length xs"
  by (metis mset_js_sort size_mset)

lemma js_sort_simps [simp]: "js_sort cmp [] = []" "js_sort cmp [x] = [x]"
  by (simp_all add: js_sort_def)

text \<open>A comparison is consistent when it compares keys of a linear order; the result is then the
  library's \<open>sort_key\<close>.\<close>

locale comparison =
  fixes cmp :: "'a \<Rightarrow> 'a \<Rightarrow> int"
    and key :: "'a \<Rightarrow> 'k :: linorder"
  assumes cmp_key: "cmp a b \<le> 0 \<longleftrightarrow> key a \<le> key b"
begin

lemma js_insert_eq: "js_insert cmp x xs = insort_key key x xs"
  by (induction xs) (auto simp: cmp_key)

lemma js_sort_eq: "js_sort cmp xs = sort_key key xs"
  by (induction xs) (auto simp: js_sort_def js_insert_eq sort_key_def)

lemma sorted_js_sort: "sorted (map key (js_sort cmp xs))"
  by (simp add: js_sort_eq)

lemma sort_keys: "map key (js_sort cmp xs) = sort (map key xs)"
  by (rule properties_for_sort [symmetric]) (simp_all add: sorted_js_sort)

lemma order_independent: "mset xs = mset ys \<Longrightarrow> map key (js_sort cmp xs) = map key (js_sort cmp ys)"
  unfolding sort_keys by (intro properties_for_sort) (simp_all add: mset_map)

end

text \<open>\<^verbatim>\<open>a < b ? -1 : a > b ? 1 : 0\<close> on strings.\<close>

definition compare_str :: "jsstr \<Rightarrow> jsstr \<Rightarrow> int" where
  "compare_str a b = (if a < b then - 1 else if a > b then 1 else 0)"

interpretation str_order: comparison compare_str "\<lambda>s. s"
  by unfold_locales (auto simp: compare_str_def)

subsection \<open>Maps and sets with insertion order\<close>

text \<open>\<^verbatim>\<open>map.set(k, v)\<close> is \<open>AList.update\<close>: an existing key keeps its place, a new one comes last.\<close>

definition push_map :: "'k \<Rightarrow> 'v \<Rightarrow> ('k \<times> 'v list) list \<Rightarrow> ('k \<times> 'v list) list" where
  "push_map k v m = (case map_of m k of None \<Rightarrow> AList.update k [v] m | Some vs \<Rightarrow> AList.update k (vs @ [v]) m)"

definition set_add :: "'a \<Rightarrow> 'a list \<Rightarrow> 'a list" where
  "set_add x s = (if x \<in> set s then s else s @ [x])"

definition add_to_set_map :: "'k \<Rightarrow> 'v \<Rightarrow> ('k \<times> 'v list) list \<Rightarrow> ('k \<times> 'v list) list" where
  "add_to_set_map k v m = (case map_of m k of None \<Rightarrow> AList.update k [v] m | Some vs \<Rightarrow> AList.update k (set_add v vs) m)"

text \<open>\<^verbatim>\<open>map.get(k) ?? []\<close>.\<close>

definition get_list :: "('k \<times> 'v list) list \<Rightarrow> 'k \<Rightarrow> 'v list" where
  "get_list m k = (case map_of m k of None \<Rightarrow> [] | Some vs \<Rightarrow> vs)"

lemma set_set_add [simp]: "set (set_add x s) = insert x (set s)"
  by (auto simp: set_add_def)

lemma distinct_set_add [simp]: "distinct s \<Longrightarrow> distinct (set_add x s)"
  by (auto simp: set_add_def)

lemma get_list_Nil [simp]: "get_list [] k = []"
  by (simp add: get_list_def)

lemma get_push_map [simp]: "get_list (push_map k v m) k' = (if k' = k then get_list m k @ [v] else get_list m k')"
  by (auto simp: get_list_def push_map_def update_conv' split: option.splits)

lemma get_add_to_set_map:
  "get_list (add_to_set_map k v m) k' = (if k' = k then set_add v (get_list m k) else get_list m k')"
  by (auto simp: get_list_def add_to_set_map_def update_conv' set_add_def split: option.splits)

lemma get_list_keys: "k \<notin> fst ` set m \<Longrightarrow> get_list m k = []"
  by (auto simp: get_list_def dest: map_of_eq_None_iff [THEN iffD2] split: option.splits intro: map_of_SomeD)

subsection \<open>Depth-first search\<close>

text \<open>\<open>g\<close> lists the successors of a node in the order they come off the stack.\<close>

function dfs :: "('k \<times> 'k list) list \<Rightarrow> 'k list \<Rightarrow> 'k list \<Rightarrow> 'k list" where
  "dfs g [] visited = visited"
| "dfs g (k # stack) visited =
     (if k \<in> set visited then dfs g stack visited else dfs g (get_list g k @ stack) (visited @ [k]))"
  by pat_completeness auto

lemma dfs_step:
  "k \<notin> set visited \<Longrightarrow>
   card (fst ` set g - set (visited @ [k])) < card (fst ` set g - set visited)
   \<or> card (fst ` set g - set (visited @ [k])) = card (fst ` set g - set visited)
     \<and> length (get_list g k @ stack) < length (k # stack)"
proof (cases "k \<in> fst ` set g")
  case True
  assume "k \<notin> set visited"
  with True show ?thesis by (intro disjI1 psubset_card_mono) auto
next
  case False
  then have "fst ` set g - set (visited @ [k]) = fst ` set g - set visited" by auto
  with False show ?thesis by (simp add: get_list_keys)
qed

termination dfs
proof (relation "measures [\<lambda>(g, stack, visited). card (fst ` set g - set visited), \<lambda>(g, stack, visited). length stack]",
    goal_cases)
  case (3 g k stack visited)
  then show ?case using dfs_step [of k visited g stack] by auto
qed auto

definition edges_of :: "('k \<times> 'k list) list \<Rightarrow> ('k \<times> 'k) set" where
  "edges_of g = {(a, b). b \<in> set (get_list g a)}"

lemma dfs_incl: "set visited \<union> set stack \<subseteq> set (dfs g stack visited)"
  by (induction g stack visited rule: dfs.induct) auto

lemma dfs_sound:
  "set (dfs g stack visited) \<subseteq> set visited \<union> (edges_of g)\<^sup>* `` set stack"
proof (induction g stack visited rule: dfs.induct)
  case (2 g k stack visited)
  have "(edges_of g)\<^sup>* `` set (get_list g k @ stack) \<subseteq> (edges_of g)\<^sup>* `` set (k # stack)"
    by (auto simp: edges_of_def intro: converse_rtrancl_into_rtrancl)
  then show ?case using 2 by auto
qed simp

lemma dfs_closed:
  assumes "\<forall>v \<in> set visited. set (get_list g v) \<subseteq> set visited \<union> set stack"
  shows "\<forall>v \<in> set (dfs g stack visited). set (get_list g v) \<subseteq> set (dfs g stack visited)"
  using assms by (induction g stack visited rule: dfs.induct) auto

lemma dfs_reach:
  "set (dfs g stack []) = (edges_of g)\<^sup>* `` set stack"
proof
  show "set (dfs g stack []) \<subseteq> (edges_of g)\<^sup>* `` set stack" using dfs_sound [of g stack "[]"] by simp
  show "(edges_of g)\<^sup>* `` set stack \<subseteq> set (dfs g stack [])"
  proof
    fix v assume "v \<in> (edges_of g)\<^sup>* `` set stack"
    then obtain s where s: "s \<in> set stack" "(s, v) \<in> (edges_of g)\<^sup>*" by blast
    from s(2) show "v \<in> set (dfs g stack [])"
    proof (induction rule: rtrancl_induct)
      case base
      then show ?case using s(1) dfs_incl [of "[]" stack g] by auto
    next
      case (step y z)
      then show ?case using dfs_closed [of "[]" g stack] by (auto simp: edges_of_def)
    qed
  qed
qed

lemma dfs_distinct: "distinct visited \<Longrightarrow> distinct (dfs g stack visited)"
  by (induction g stack visited rule: dfs.induct) auto

declare dfs.simps(2) [simp del]

text \<open>Searches run one after another, each keeping what the earlier ones visited.\<close>

lemma dfs_runs:
  assumes "\<forall>v \<in> set visited. set (get_list g v) \<subseteq> set visited" and "distinct visited"
  shows "set (fold (\<lambda>k. dfs g [k]) ks visited) = set visited \<union> (edges_of g)\<^sup>* `` set ks
    \<and> distinct (fold (\<lambda>k. dfs g [k]) ks visited)"
  using assms
proof (induction ks arbitrary: visited)
  case (Cons k ks)
  let ?V = "dfs g [k] visited"
  have closed: "\<forall>v \<in> set ?V. set (get_list g v) \<subseteq> set ?V"
    using Cons.prems by (intro dfs_closed) auto
  have "(edges_of g)\<^sup>* `` {k} \<subseteq> set ?V"
  proof
    fix v assume "v \<in> (edges_of g)\<^sup>* `` {k}"
    then have "(k, v) \<in> (edges_of g)\<^sup>*" by simp
    then show "v \<in> set ?V"
    proof (induction rule: rtrancl_induct)
      case base
      then show ?case using dfs_incl [of visited "[k]" g] by simp
    next
      case (step y z)
      then have "y \<in> set ?V" "z \<in> set (get_list g y)" by (auto simp: edges_of_def)
      then show ?case using closed by blast
    qed
  qed
  then have V: "set ?V = set visited \<union> (edges_of g)\<^sup>* `` {k}"
    using dfs_sound [of g "[k]" visited] dfs_incl [of visited "[k]" g] by auto
  have "set (fold (\<lambda>k. dfs g [k]) ks ?V) = set ?V \<union> (edges_of g)\<^sup>* `` set ks
      \<and> distinct (fold (\<lambda>k. dfs g [k]) ks ?V)"
    using Cons.prems closed by (intro Cons.IH) (auto intro: dfs_distinct)
  then show ?case by (auto simp: V)
qed simp

lemma get_list_map: "get_list (map (\<lambda>(k, v). (k, f v)) m) k = (if k \<in> fst ` set m then f (get_list m k) else [])"
  by (induction m) (auto simp: get_list_def)

lemma get_list_map_Nil: "f [] = [] \<Longrightarrow> get_list (map (\<lambda>(k, v). (k, f v)) m) k = f (get_list m k)"
  using get_list_keys [of k m] by (cases "k \<in> fst ` set m") (simp_all add: get_list_map)

end
