(* ===== verification/BG_Audit.thy ===== *)
theory BG_Audit
  imports BG_Verifier BG_Graph "HOL-Library.Monad_Syntax"
begin

text \<open>
  The records of \<^verbatim>\<open>packages/audit/src/types.ts\<close> that reconstruction, classification and the player
  read, the helpers of \<^verbatim>\<open>validity.ts\<close>, and the verification pass of \<^verbatim>\<open>verify-tiers.ts\<close>.
\<close>

subsection \<open>Observed proofs\<close>

datatype verification_tier = Full | Integrity

datatype verification_status = Verified | Failed | ArtifactUnavailable

record proof_verification =
  pv_tier :: verification_tier
  pv_status :: verification_status
  pv_reason :: "string option"
  pv_artifactPath :: "jsstr option"

record proof_source =
  ps_path :: jsstr
  ps_fileSha256Hex :: jsstr
  ps_byteLength :: nat

datatype embedded_status = EmbeddedAbsent | EmbeddedMatch | EmbeddedMismatch

record observed_proof =
  op_proofHash :: jsstr
  op_chainHash :: jsstr
  op_proof :: jv
  op_sources :: "proof_source list"
  op_version :: jsstr
  op_counter :: "jsstr option"
  op_slotCounter :: "jsstr option"
  op_prevB64 :: "jsstr option"
  op_epochId :: "jsstr option"
  op_chainId :: jsstr
  op_publicKeyB64 :: "jsstr option"
  op_measurement :: "jsstr option"
  op_enforcement :: "jsstr option"
  op_hasSlotAllocation :: bool
  op_hasAttestation :: bool
  op_hasAgency :: bool
  op_hasEpochLink :: bool
  op_embeddedProofHash :: embedded_status
  op_chainless :: bool
  op_verification :: "proof_verification option"

subsection \<open>Reconstruction results\<close>

record partition_key =
  pk_publicKeyB64 :: jsstr
  pk_epochId :: "jsstr option"
  pk_chainId :: jsstr

text \<open>The range holds the numbers whose decimal strings the code stores.\<close>

record chain_component =
  cc_memberProofHashes :: "jsstr list"
  cc_genesisProofHashes :: "jsstr list"
  cc_brokenLinkProofHashes :: "jsstr list"
  cc_terminalProofHashes :: "jsstr list"
  cc_hasCounterEvidence :: bool
  cc_positionRange :: "(nat \<times> nat) option"

record chain_partition =
  cp_key :: partition_key
  cp_memberProofHashes :: "jsstr list"
  cp_components :: "chain_component list"

record epoch_link_fields =
  el_prevEpochId :: jsstr
  el_prevPublicKeyB64 :: jsstr
  el_prevCounter :: jsstr
  el_prevProofHashB64 :: jsstr
  el_toEpochId :: jsstr
  el_toPublicKeyB64 :: jsstr

datatype edge_resolution = Matched | TerminalMissing | Dangling

record epoch_edge =
  ee_fromEpochId :: jsstr
  ee_toEpochId :: jsstr
  ee_viaProofHash :: jsstr
  ee_link :: epoch_link_fields
  ee_resolution :: edge_resolution
  ee_predecessorProofHash :: "jsstr option"
  ee_metadataConsistent :: "bool option"
  ee_inconsistencies :: "string list option"
  ee_referencedProofIsTerminal :: "bool option"
  ee_viaProofValid :: bool
  ee_predecessorValid :: "bool option"
  ee_hardEdge :: bool

text \<open>Reconstruction leaves \<^verbatim>\<open>anchorBounds\<close> undefined; the field is not part of this record.\<close>

record epoch_record =
  er_epochId :: jsstr
  er_chainIds :: "jsstr list"
  er_publicKeysB64 :: "jsstr list"
  er_proofCount :: nat
  er_linked :: bool
  er_linkedPredecessorEpochIds :: "jsstr list"
  er_linkedSuccessorEpochIds :: "jsstr list"

record epoch_relationships =
  er_epochs :: "epoch_record list"
  er_edges :: "epoch_edge list"
  er_orderedPairs :: "(jsstr \<times> jsstr) list"

record reconstruction =
  rc_partitions :: "chain_partition list"
  rc_unchained :: "jsstr list"
  rc_unpartitioned :: "jsstr list"
  rc_epochs :: epoch_relationships

subsection \<open>Temporal bounds\<close>

datatype bound_kind = NotBefore | NotAfter

datatype bound_evidence = ByChainLink | ByCounterOrder | BySignedFloor

text \<open>\<^verbatim>\<open>source\<close>, \<^verbatim>\<open>chain\<close>, \<^verbatim>\<open>timeSource\<close>, \<^verbatim>\<open>basis\<close> and \<^verbatim>\<open>boundClass\<close> have one or two literal
  values each; the block number is the number whose decimal string the code stores.\<close>

datatype time_source = FromHeader | FromSignature

record segment_bound =
  sb_kind :: bound_kind
  sb_anchorProofHash :: jsstr
  sb_signedFloor :: bool
  sb_base :: bool
  sb_timeSource :: "time_source option"
  sb_blockNumber :: "nat option"
  sb_blockHash :: jsstr
  sb_timestamp :: int
  sb_evidence :: bound_evidence
  sb_weaker :: bool
  sb_unpredictability :: bool
  sb_assumption :: bool
  sb_claim :: string

datatype segment_status = LowerWithFollowingAnchor | LowerBounded | UpperBounded | OrderedButUnanchored

record temporal_segment =
  ts_partition :: partition_key
  ts_memberProofHashes :: "jsstr list"
  ts_positionRange :: "(nat \<times> nat) option"
  ts_status :: segment_status
  ts_lowerBounds :: "segment_bound list"
  ts_upperBounds :: "segment_bound list"

text \<open>What the player reads of an \<^verbatim>\<open>AuditResult\<close>: \<^verbatim>\<open>ingest.proofs\<close>, \<^verbatim>\<open>ingest.counts.observed\<close>,
  \<^verbatim>\<open>reconstruction\<close> and \<^verbatim>\<open>temporal.segments\<close>.\<close>

record audit_result =
  au_proofs :: "observed_proof list"
  au_observed :: nat
  au_reconstruction :: reconstruction
  au_segments :: "temporal_segment list"

subsection \<open>Counters\<close>

definition parseCounter :: "jsstr option \<Rightarrow> nat option" where
  "parseCounter value = (case value of None \<Rightarrow> None
     | Some s \<Rightarrow> if s \<noteq> [] \<and> list_all digit_unit s then Some (units_val s) else None)"

text \<open>\<^verbatim>\<open>BigInt\<close> of a string the pattern accepts is its decimal value.\<close>

lemma parseCounter_BigInt: "parseCounter (Some s) = Some n \<Longrightarrow> js_bigint s = Some (int n)"
  by (auto simp: parseCounter_def js_bigint_digits split: if_splits)

definition byCounterThenHash :: "observed_proof \<Rightarrow> observed_proof \<Rightarrow> int" where
  "byCounterThenHash a b =
     (case (parseCounter (op_counter a), parseCounter (op_counter b)) of
        (Some ca, Some cb) \<Rightarrow> if ca \<noteq> cb then (if ca < cb then - 1 else 1)
          else compare_str (op_proofHash a) (op_proofHash b)
      | (Some _, None) \<Rightarrow> - 1
      | (None, Some _) \<Rightarrow> 1
      | (None, None) \<Rightarrow> compare_str (op_proofHash a) (op_proofHash b))"

definition counter_key :: "nat option \<Rightarrow> nat \<times> nat" where
  "counter_key c = (case c of Some n \<Rightarrow> (0, n) | None \<Rightarrow> (1, 0))"

interpretation by_counter: comparison byCounterThenHash
  "\<lambda>p. (counter_key (parseCounter (op_counter p)), op_proofHash p)"
  by unfold_locales
    (auto simp: byCounterThenHash_def counter_key_def compare_str_def less_eq_prod_def less_prod_def split: option.splits)

subsection \<open>Intrinsic validity\<close>

text \<open>The cache only avoids repeated work: proofs do not change after the verification pass.\<close>

definition isIntrinsicallyValid :: "crypto \<Rightarrow> observed_proof \<Rightarrow> bool" where
  "isIntrinsicallyValid C observed =
     (case map_option pv_status (op_verification observed) of
        Some Verified \<Rightarrow> True
      | Some ArtifactUnavailable \<Rightarrow> True
      | _ \<Rightarrow> fst (verifyProofIntegrity C (op_proof observed) None createVerificationContext) = Valid)"

end
