(* ===== verification/BG_Reconstruct.thy ===== *)
theory BG_Reconstruct
  imports BG_Audit
begin

text \<open>
  \<^verbatim>\<open>packages/audit/src/reconstruct.ts\<close>: the observed record is partitioned by signer, epoch and
  chain; each partition falls into components connected by \<^verbatim>\<open>prevB64\<close> links (a union-find with path
  compression); epochs are related by verified epoch links only. A loop of the union-find that may
  run forever is a \<open>partial_function\<close>: \<open>None\<close> is a run that does not return.
\<close>

subsection \<open>Partition keys\<close>

definition partition_key_of :: "observed_proof \<Rightarrow> jsstr \<Rightarrow> partition_key" where
  "partition_key_of proof publicKey =
     \<lparr>pk_publicKeyB64 = publicKey, pk_epochId = op_epochId proof, pk_chainId = op_chainId proof\<rparr>"

definition partition_map_key :: "partition_key \<Rightarrow> jsstr" where
  "partition_map_key key = js_stringify (JArr [JStr (pk_publicKeyB64 key),
     (case pk_epochId key of None \<Rightarrow> JNull | Some e \<Rightarrow> JStr e), JStr (pk_chainId key)])"

definition comparePartitionKeys :: "partition_key \<Rightarrow> partition_key \<Rightarrow> int" where
  "comparePartitionKeys a b =
     (if pk_chainId a \<noteq> pk_chainId b then (if pk_chainId a < pk_chainId b then - 1 else 1)
      else let ea = case_option [] id (pk_epochId a); eb = case_option [] id (pk_epochId b) in
        if ea \<noteq> eb then (if ea < eb then - 1 else 1)
        else if pk_publicKeyB64 a \<noteq> pk_publicKeyB64 b then (if pk_publicKeyB64 a < pk_publicKeyB64 b then - 1 else 1)
        else 0)"

interpretation key_order: comparison comparePartitionKeys
  "\<lambda>k. (pk_chainId k, case_option [] id (pk_epochId k), pk_publicKeyB64 k)"
  by unfold_locales (auto simp: comparePartitionKeys_def Let_def less_eq_prod_def less_prod_def)

subsection \<open>The partitioning loop\<close>

record split_state =
  sp_unchained :: "jsstr list"
  sp_unpartitioned :: "jsstr list"
  sp_byKey :: "(jsstr \<times> partition_key \<times> observed_proof list) list"

definition split_proof :: "observed_proof \<Rightarrow> split_state \<Rightarrow> split_state" where
  "split_proof proof s =
     (if op_chainless proof then s\<lparr>sp_unchained := sp_unchained s @ [op_proofHash proof]\<rparr>
      else case op_publicKeyB64 proof of
        None \<Rightarrow> s\<lparr>sp_unpartitioned := sp_unpartitioned s @ [op_proofHash proof]\<rparr>
      | Some publicKey \<Rightarrow>
          (let key = partition_key_of proof publicKey; mapKey = partition_map_key key in
           case map_of (sp_byKey s) mapKey of
             None \<Rightarrow> s\<lparr>sp_byKey := AList.update mapKey (key, [proof]) (sp_byKey s)\<rparr>
           | Some (key', members) \<Rightarrow> s\<lparr>sp_byKey := AList.update mapKey (key', members @ [proof]) (sp_byKey s)\<rparr>))"

definition split_proofs :: "observed_proof list \<Rightarrow> split_state" where
  "split_proofs proofs = fold split_proof proofs \<lparr>sp_unchained = [], sp_unpartitioned = [], sp_byKey = []\<rparr>"

subsection \<open>Union-find over member hashes\<close>

type_synonym parents = "jsstr \<Rightarrow> jsstr option"

partial_function (option) uf_root :: "parents \<Rightarrow> jsstr \<Rightarrow> jsstr option" where
  "uf_root parent x = (case parent x of None \<Rightarrow> None
     | Some y \<Rightarrow> if y = x then Some x else uf_root parent y)"

partial_function (option) uf_compress :: "parents \<Rightarrow> jsstr \<Rightarrow> jsstr \<Rightarrow> parents option" where
  "uf_compress parent root cursor = (if cursor = root then Some parent
     else case parent cursor of None \<Rightarrow> None
       | Some nxt \<Rightarrow> uf_compress (parent(cursor \<mapsto> root)) root nxt)"

definition uf_find :: "parents \<Rightarrow> jsstr \<Rightarrow> (jsstr \<times> parents) option" where
  "uf_find parent x = do { root \<leftarrow> uf_root parent x; parent' \<leftarrow> uf_compress parent root x; Some (root, parent') }"

definition uf_union :: "parents \<Rightarrow> jsstr \<Rightarrow> jsstr \<Rightarrow> parents option" where
  "uf_union parent a b = do {
     (ra, parent1) \<leftarrow> uf_find parent a;
     (rb, parent2) \<leftarrow> uf_find parent1 b;
     Some (if ra \<noteq> rb then parent2(ra \<mapsto> rb) else parent2) }"

subsection \<open>Components of a partition\<close>

fun fold_opt :: "('a \<Rightarrow> 's \<Rightarrow> 's option) \<Rightarrow> 'a list \<Rightarrow> 's \<Rightarrow> 's option" where
  "fold_opt f [] s = Some s"
| "fold_opt f (x # xs) s = do { s' \<leftarrow> f x s; fold_opt f xs s' }"

text \<open>\<^verbatim>\<open>new Map(xs.map((x) => [f(x), x]))\<close>: of several with the same key the last.\<close>

definition index_by :: "('a \<Rightarrow> 'k) \<Rightarrow> 'a list \<Rightarrow> 'k \<Rightarrow> 'a option" where
  "index_by f xs k = find (\<lambda>x. f x = k) (rev xs)"

record link_state =
  ls_successors :: "(jsstr \<times> observed_proof list) list"
  ls_resolvedPrev :: "jsstr list"
  ls_hasSuccessor :: "jsstr list"
  ls_parent :: parents

definition link_member :: "observed_proof list \<Rightarrow> observed_proof \<Rightarrow> link_state \<Rightarrow> link_state option" where
  "link_member members m s =
     (case op_prevB64 m of None \<Rightarrow> Some s
      | Some prev \<Rightarrow>
         (case index_by op_chainHash members prev of None \<Rightarrow> Some s
          | Some pred \<Rightarrow>
             if op_proofHash pred = op_proofHash m then Some s
             else do {
               parent \<leftarrow> uf_union (ls_parent s) (op_proofHash pred) (op_proofHash m);
               Some \<lparr>ls_successors = push_map (op_proofHash pred) m (ls_successors s),
                 ls_resolvedPrev = set_add (op_proofHash m) (ls_resolvedPrev s),
                 ls_hasSuccessor = set_add (op_proofHash pred) (ls_hasSuccessor s),
                 ls_parent = parent\<rparr> }))"

definition initial_parents :: "observed_proof list \<Rightarrow> parents" where
  "initial_parents members x = (if x \<in> op_proofHash ` set members then Some x else None)"

definition group_member :: "observed_proof \<Rightarrow> parents \<times> (jsstr \<times> observed_proof list) list
    \<Rightarrow> (parents \<times> (jsstr \<times> observed_proof list) list) option" where
  "group_member m s = do { (root, parent) \<leftarrow> uf_find (fst s) (op_proofHash m); Some (parent, push_map root m (snd s)) }"

definition position_list :: "observed_proof list \<Rightarrow> nat list" where
  "position_list ms = List.map_filter parseCounter (concat (map (\<lambda>m. [op_counter m, op_slotCounter m]) ms))"

definition widen :: "nat \<Rightarrow> (nat \<times> nat) option \<Rightarrow> (nat \<times> nat) option" where
  "widen n r = (case r of None \<Rightarrow> Some (n, n)
     | Some (lo, hi) \<Rightarrow> Some (if n < lo then n else lo, if hi < n then n else hi))"

text \<open>The traversal visits from the entry points, then from anything left over.\<close>

definition traversal :: "(jsstr \<times> observed_proof list) list \<Rightarrow> observed_proof list \<Rightarrow> jsstr list" where
  "traversal successors starts =
     fold (\<lambda>m visited. dfs (map (\<lambda>(k, next). (k, map op_proofHash (js_sort byCounterThenHash next))) successors)
             [op_proofHash m] visited) starts []"

definition buildComponent :: "observed_proof list \<Rightarrow> (jsstr \<times> observed_proof list) list \<Rightarrow> jsstr list \<Rightarrow> chain_component" where
  "buildComponent componentMembers successors resolvedPrev =
     (let sorted_ms = js_sort byCounterThenHash componentMembers;
          genesis = filter (\<lambda>m. op_prevB64 m = None) sorted_ms;
          broken = filter (\<lambda>m. op_prevB64 m \<noteq> None \<and> op_proofHash m \<notin> set resolvedPrev) sorted_ms;
          terminals = filter (\<lambda>m. get_list successors (op_proofHash m) = []) sorted_ms;
          range = fold widen (position_list componentMembers) None
      in \<lparr>cc_memberProofHashes = traversal successors (genesis @ broken @ sorted_ms),
          cc_genesisProofHashes = map op_proofHash genesis,
          cc_brokenLinkProofHashes = map op_proofHash broken,
          cc_terminalProofHashes = map op_proofHash terminals,
          cc_hasCounterEvidence = (range \<noteq> None),
          cc_positionRange = range\<rparr>)"

definition first_hash :: "jsstr list \<Rightarrow> jsstr" where
  "first_hash hs = (case hs of [] \<Rightarrow> [] | h # _ \<Rightarrow> h)"

definition compareComponents :: "chain_component \<Rightarrow> chain_component \<Rightarrow> int" where
  "compareComponents a b =
     (let ha = first_hash (cc_memberProofHashes a); hb = first_hash (cc_memberProofHashes b) in
      case (map_option fst (cc_positionRange a), map_option fst (cc_positionRange b)) of
        (Some ma, Some mb) \<Rightarrow> if ma \<noteq> mb then (if ma < mb then - 1 else 1) else compare_str ha hb
      | (Some _, None) \<Rightarrow> - 1
      | (None, Some _) \<Rightarrow> 1
      | (None, None) \<Rightarrow> compare_str ha hb)"

interpretation component_order: comparison compareComponents
  "\<lambda>c. (counter_key (map_option fst (cc_positionRange c)), first_hash (cc_memberProofHashes c))"
  by unfold_locales
    (auto simp: compareComponents_def counter_key_def compare_str_def Let_def less_eq_prod_def less_prod_def split: option.splits)

definition buildPartition :: "partition_key \<Rightarrow> observed_proof list \<Rightarrow> jsstr list \<Rightarrow> (chain_partition \<times> jsstr list) option" where
  "buildPartition key members hasSuccessor = do {
     s \<leftarrow> fold_opt (link_member members) members
       \<lparr>ls_successors = [], ls_resolvedPrev = [], ls_hasSuccessor = hasSuccessor, ls_parent = initial_parents members\<rparr>;
     (_, membersByRoot) \<leftarrow> fold_opt group_member members (ls_parent s, []);
     Some (\<lparr>cp_key = key,
        cp_memberProofHashes = map op_proofHash (js_sort byCounterThenHash members),
        cp_components = js_sort compareComponents
          (map (\<lambda>ms. buildComponent ms (ls_successors s) (ls_resolvedPrev s)) (map snd membersByRoot))\<rparr>,
       ls_hasSuccessor s) }"

subsection \<open>Epoch relationships\<close>

record epoch_accum =
  ea_chainIds :: "jsstr list"
  ea_publicKeys :: "jsstr list"
  ea_proofCount :: nat

definition accumulate_epoch :: "chain_partition \<Rightarrow> (jsstr \<times> epoch_accum) list \<Rightarrow> (jsstr \<times> epoch_accum) list" where
  "accumulate_epoch part accums = (case pk_epochId (cp_key part) of
     None \<Rightarrow> accums
   | Some epochId \<Rightarrow>
       (let accum = (case map_of accums epochId of
              None \<Rightarrow> \<lparr>ea_chainIds = [], ea_publicKeys = [], ea_proofCount = 0\<rparr> | Some a \<Rightarrow> a)
        in AList.update epochId
             \<lparr>ea_chainIds = set_add (pk_chainId (cp_key part)) (ea_chainIds accum),
              ea_publicKeys = set_add (pk_publicKeyB64 (cp_key part)) (ea_publicKeys accum),
              ea_proofCount = ea_proofCount accum + length (cp_memberProofHashes part)\<rparr> accums))"

text \<open>The six fields of a well-shaped \<^verbatim>\<open>commit.epochLink\<close>. The parsed proof is an object.\<close>

definition extractEpochLink :: "observed_proof \<Rightarrow> epoch_link_fields option" where
  "extractEpochLink proof =
     (let raw = fld (fld (op_proof proof) ''commit'') ''epochLink'' in
      if is_obj raw \<and> list_all (\<lambda>f. nonempty_str (fld raw f))
           [''prevEpochId'', ''prevPublicKeyB64'', ''prevCounter'', ''prevProofHashB64'', ''toEpochId'', ''toPublicKeyB64'']
      then Some \<lparr>el_prevEpochId = str_of (fld raw ''prevEpochId''),
        el_prevPublicKeyB64 = str_of (fld raw ''prevPublicKeyB64''), el_prevCounter = str_of (fld raw ''prevCounter''),
        el_prevProofHashB64 = str_of (fld raw ''prevProofHashB64''), el_toEpochId = str_of (fld raw ''toEpochId''),
        el_toPublicKeyB64 = str_of (fld raw ''toPublicKeyB64'')\<rparr>
      else None)"

definition countersEqual :: "jsstr option \<Rightarrow> jsstr \<Rightarrow> bool" where
  "countersEqual a b = (case a of None \<Rightarrow> False
     | Some s \<Rightarrow> s = b \<or> (parseCounter a \<noteq> None \<and> parseCounter (Some b) \<noteq> None \<and> parseCounter a = parseCounter (Some b)))"

definition edge_inconsistencies :: "epoch_link_fields \<Rightarrow> observed_proof \<Rightarrow> string list" where
  "edge_inconsistencies link predecessor =
     (if op_epochId predecessor \<noteq> Some (el_prevEpochId link)
      then [''epochId does not match epochLink.prevEpochId''] else []) @
     (if op_publicKeyB64 predecessor \<noteq> Some (el_prevPublicKeyB64 link)
      then [''signer key does not match epochLink.prevPublicKeyB64''] else []) @
     (if \<not> countersEqual (op_counter predecessor) (el_prevCounter link)
      then [''counter does not match epochLink.prevCounter''] else [])"

definition analyzeEdge :: "crypto \<Rightarrow> epoch_link_fields \<Rightarrow> observed_proof \<Rightarrow> (jsstr \<Rightarrow> observed_proof option)
    \<Rightarrow> (jsstr \<times> epoch_accum) list \<Rightarrow> jsstr list \<Rightarrow> jsstr list \<Rightarrow> epoch_edge" where
  "analyzeEdge C link viaProof byChainHash epochAccum hasSuccessor partitioned =
     (let viaProofValid = isIntrinsicallyValid C viaProof in
      case byChainHash (el_prevProofHashB64 link) of
        None \<Rightarrow> \<lparr>ee_fromEpochId = el_prevEpochId link, ee_toEpochId = el_toEpochId link,
           ee_viaProofHash = op_proofHash viaProof, ee_link = link,
           ee_resolution = (if el_prevEpochId link \<in> fst ` set epochAccum then TerminalMissing else Dangling),
           ee_predecessorProofHash = None, ee_metadataConsistent = None, ee_inconsistencies = None,
           ee_referencedProofIsTerminal = None, ee_viaProofValid = viaProofValid, ee_predecessorValid = None,
           ee_hardEdge = False\<rparr>
      | Some predecessor \<Rightarrow>
          (let inconsistencies = edge_inconsistencies link predecessor;
               predecessorValid = isIntrinsicallyValid C predecessor;
               metadataConsistent = (inconsistencies = []) in
           \<lparr>ee_fromEpochId = el_prevEpochId link, ee_toEpochId = el_toEpochId link,
            ee_viaProofHash = op_proofHash viaProof, ee_link = link, ee_resolution = Matched,
            ee_predecessorProofHash = Some (op_proofHash predecessor),
            ee_metadataConsistent = Some metadataConsistent,
            ee_inconsistencies = (if metadataConsistent then None else Some inconsistencies),
            ee_referencedProofIsTerminal = (if op_proofHash predecessor \<in> set partitioned
              then Some (op_proofHash predecessor \<notin> set hasSuccessor) else None),
            ee_viaProofValid = viaProofValid, ee_predecessorValid = Some predecessorValid,
            ee_hardEdge = (metadataConsistent \<and> viaProofValid \<and> predecessorValid)\<rparr>))"

subsection \<open>Ordered pairs of epochs\<close>

text \<open>A pair is stored as one string, the two ids joined by a space, and read back by splitting at
  spaces.\<close>

definition pair_key :: "jsstr \<Rightarrow> jsstr \<Rightarrow> jsstr" where
  "pair_key a b = a @ 32 # b"

fun split_space :: "jsstr \<Rightarrow> jsstr list" where
  "split_space [] = [[]]"
| "split_space (c # s) = (if c = 32 then [] # split_space s
     else (c # hd (split_space s)) # tl (split_space s))"

text \<open>The first two pieces; a pair string has at least one space.\<close>

definition read_pair :: "jsstr \<Rightarrow> jsstr \<times> jsstr" where
  "read_pair s = (split_space s ! 0, split_space s ! 1)"

definition hard_adjacency :: "epoch_edge list \<Rightarrow> (jsstr \<times> jsstr list) list" where
  "hard_adjacency edges = fold (\<lambda>e. add_to_set_map (ee_fromEpochId e) (ee_toEpochId e)) (filter ee_hardEdge edges) []"

definition hard_nodes :: "epoch_edge list \<Rightarrow> jsstr list" where
  "hard_nodes edges = fold (\<lambda>e s. set_add (ee_toEpochId e) (set_add (ee_fromEpochId e) s)) (filter ee_hardEdge edges) []"

text \<open>The stack's top is the last element pushed.\<close>

definition reached_from :: "(jsstr \<times> jsstr list) list \<Rightarrow> jsstr \<Rightarrow> jsstr list" where
  "reached_from adjacency start =
     (let g = map (\<lambda>(k, ns). (k, rev ns)) adjacency in dfs g (get_list g start) [])"

definition pair_strings :: "epoch_edge list \<Rightarrow> jsstr list" where
  "pair_strings edges = (let adjacency = hard_adjacency edges in
     fold (\<lambda>start ps. fold (\<lambda>node. set_add (pair_key start node)) (filter (\<lambda>n. n \<noteq> start) (reached_from adjacency start)) ps)
       (hard_nodes edges) [])"

definition compare_pairs :: "jsstr \<times> jsstr \<Rightarrow> jsstr \<times> jsstr \<Rightarrow> int" where
  "compare_pairs a b = (if fst a \<noteq> fst b then (if fst a < fst b then - 1 else 1) else compare_str (snd a) (snd b))"

interpretation pair_order: comparison compare_pairs "\<lambda>p. p"
  by unfold_locales (auto simp: compare_pairs_def compare_str_def less_eq_prod_def less_prod_def)

definition deriveOrderedPairs :: "epoch_edge list \<Rightarrow> (jsstr \<times> jsstr) list" where
  "deriveOrderedPairs edges = (let pairs = pair_strings edges in
     js_sort compare_pairs (map read_pair
       (filter (\<lambda>s. pair_key (snd (read_pair s)) (fst (read_pair s)) \<notin> set pairs) pairs)))"

definition buildEpochRelationships :: "crypto \<Rightarrow> observed_proof list \<Rightarrow> chain_partition list \<Rightarrow> jsstr list
    \<Rightarrow> jsstr list \<Rightarrow> epoch_relationships" where
  "buildEpochRelationships C proofs partitions hasSuccessor partitioned =
     (let epochAccum = fold accumulate_epoch partitions [];
          edges = List.map_filter (\<lambda>p. if \<not> op_hasEpochLink p then None
            else map_option (\<lambda>link. analyzeEdge C link p (index_by op_chainHash proofs) epochAccum hasSuccessor partitioned)
              (extractEpochLink p)) proofs;
          hard = filter ee_hardEdge edges;
          linked = fold (\<lambda>e s. set_add (ee_toEpochId e) (set_add (ee_fromEpochId e) s)) hard [];
          preds = fold (\<lambda>e. add_to_set_map (ee_toEpochId e) (ee_fromEpochId e)) hard [];
          succs = fold (\<lambda>e. add_to_set_map (ee_fromEpochId e) (ee_toEpochId e)) hard []
      in \<lparr>er_epochs = map (\<lambda>(epochId, accum). \<lparr>er_epochId = epochId, er_chainIds = sort (ea_chainIds accum),
             er_publicKeysB64 = sort (ea_publicKeys accum), er_proofCount = ea_proofCount accum,
             er_linked = (epochId \<in> set linked),
             er_linkedPredecessorEpochIds = sort (get_list preds epochId),
             er_linkedSuccessorEpochIds = sort (get_list succs epochId)\<rparr>)
             (js_sort (\<lambda>a b. compare_str (fst a) (fst b)) epochAccum),
          er_edges = edges, er_orderedPairs = deriveOrderedPairs edges\<rparr>)"

text \<open>\<open>None\<close> is a run that does not return.\<close>

definition build_partitions :: "(partition_key \<times> observed_proof list) list
    \<Rightarrow> chain_partition list \<times> jsstr list \<Rightarrow> (chain_partition list \<times> jsstr list) option" where
  "build_partitions = fold_opt (\<lambda>(key, members) (ps, hasSuccessor). do {
     (p, hasSuccessor') \<leftarrow> buildPartition key members hasSuccessor; Some (ps @ [p], hasSuccessor') })"

definition reconstructChains :: "crypto \<Rightarrow> observed_proof list \<Rightarrow> reconstruction option" where
  "reconstructChains C proofs =
     (let s = split_proofs proofs;
          entries = js_sort (\<lambda>a b. comparePartitionKeys (fst a) (fst b)) (map snd (sp_byKey s)) in do {
       (partitions, hasSuccessor) \<leftarrow> build_partitions entries ([], []);
       Some \<lparr>rc_partitions = partitions, rc_unchained = sp_unchained s, rc_unpartitioned = sp_unpartitioned s,
         rc_epochs = buildEpochRelationships C proofs partitions hasSuccessor
           (concat (map cp_memberProofHashes partitions))\<rparr> })"

end
