(* ===== verification/BG_Chains.thy ===== *)
theory BG_Chains
  imports BG_Reconstruct
begin

text \<open>
  The union-find of \<^verbatim>\<open>reconstruct.ts\<close> always returns, its classes are the connected components of
  the resolved \<^verbatim>\<open>prevB64\<close> links, and every component lists its members once.
\<close>

subsection \<open>The union-find invariant\<close>

text \<open>\<open>r\<close> is the representative the pointers lead to, \<open>d\<close> a depth that every pointer decreases.\<close>

definition uf_ok :: "(jsstr \<Rightarrow> nat) \<Rightarrow> parents \<Rightarrow> (jsstr \<Rightarrow> jsstr) \<Rightarrow> jsstr set \<Rightarrow> bool" where
  "uf_ok d p r M \<longleftrightarrow> (\<forall>x \<in> M. r x \<in> M \<and> r (r x) = r x \<and>
     (\<exists>y \<in> M. p x = Some y \<and> r y = r x \<and> (y = x \<longleftrightarrow> r x = x) \<and> (y \<noteq> x \<longrightarrow> d y < d x)))"

lemma uf_okE:
  assumes "uf_ok d p r M" "x \<in> M"
  obtains y where "y \<in> M" "p x = Some y" "r y = r x" "y = x \<longleftrightarrow> r x = x" "y \<noteq> x \<longrightarrow> d y < d x"
    "r x \<in> M" "r (r x) = r x"
  using assms by (auto simp: uf_ok_def)

lemma uf_root_ok:
  assumes "uf_ok d p r M"
  shows "x \<in> M \<Longrightarrow> uf_root p x = Some (r x)"
proof (induction "d x" arbitrary: x rule: less_induct)
  case less
  obtain y where "y \<in> M" "p x = Some y" "r y = r x" "y = x \<longleftrightarrow> r x = x" "y \<noteq> x \<longrightarrow> d y < d x"
    using uf_okE [OF assms less.prems] .
  then show ?case using less.hyps [of y] by (subst uf_root.simps) auto
qed

lemma uf_depth:
  assumes "uf_ok d p r M"
  shows "x \<in> M \<Longrightarrow> r x \<noteq> x \<Longrightarrow> d (r x) < d x"
proof (induction "d x" arbitrary: x rule: less_induct)
  case less
  obtain y where y: "y \<in> M" "r y = r x" "y = x \<longleftrightarrow> r x = x" "y \<noteq> x \<longrightarrow> d y < d x"
    using uf_okE [OF assms less.prems(1)] by metis
  then have "d y < d x" "r y \<noteq> y \<Longrightarrow> d (r y) < d y" using less.prems less.hyps [of y] by auto
  then show ?case using y(2) by (cases "r y = y") auto
qed

lemma uf_shortcut:
  assumes "uf_ok d p r M" "x \<in> M" "r x \<noteq> x"
  shows "uf_ok d (p(x \<mapsto> r x)) r M"
  using assms uf_depth [OF assms] unfolding uf_ok_def by (auto 0 3)

lemma uf_compress_ok:
  "uf_ok d p r M \<Longrightarrow> x \<in> M \<Longrightarrow> \<exists>p'. uf_compress p (r x) x = Some p' \<and> uf_ok d p' r M"
proof (induction "d x" arbitrary: x p rule: less_induct)
  case less
  obtain y where y: "y \<in> M" "p x = Some y" "r y = r x" "y = x \<longleftrightarrow> r x = x" "y \<noteq> x \<longrightarrow> d y < d x"
    using uf_okE [OF less.prems] .
  show ?case
  proof (cases "r x = x")
    case True
    then show ?thesis using less.prems by (subst uf_compress.simps) auto
  next
    case False
    then show ?thesis
      using less.hyps [of y "p(x \<mapsto> r x)"] uf_shortcut [OF less.prems False] y
      by (subst uf_compress.simps) (auto simp: eq_commute [of x])
  qed
qed

lemma uf_find_ok: "uf_ok d p r M \<Longrightarrow> x \<in> M \<Longrightarrow> \<exists>p'. uf_find p x = Some (r x, p') \<and> uf_ok d p' r M"
  using uf_compress_ok [of d p r M x] by (auto simp: uf_find_def uf_root_ok)

lemma uf_join:
  assumes ok: "uf_ok d p r M" and a: "a \<in> M" and b: "b \<in> M" and ne: "r a \<noteq> r b"
  shows "uf_ok (\<lambda>x. if r x = r a then d x + d (r b) + 1 else d x) (p(r a \<mapsto> r b)) (\<lambda>x. if r x = r a then r b else r x) M"
  unfolding uf_ok_def
proof (intro ballI conjI)
  fix x assume x: "x \<in> M"
  obtain y where y: "y \<in> M" "p x = Some y" "r y = r x" "y = x \<longleftrightarrow> r x = x" "y \<noteq> x \<longrightarrow> d y < d x"
      "r x \<in> M" "r (r x) = r x"
    using uf_okE [OF ok x] .
  have rb: "r b \<in> M" "r (r b) = r b" using ok b by (auto simp: uf_ok_def)
  have ra: "r a \<in> M" "r (r a) = r a" using ok a by (auto simp: uf_ok_def)
  show "(if r x = r a then r b else r x) \<in> M" using y rb by simp
  show "(if r (if r x = r a then r b else r x) = r a then r b else r (if r x = r a then r b else r x))
      = (if r x = r a then r b else r x)" using y rb by simp
  show "\<exists>y \<in> M. (p(r a \<mapsto> r b)) x = Some y \<and>
      (if r y = r a then r b else r y) = (if r x = r a then r b else r x) \<and>
      (y = x \<longleftrightarrow> (if r x = r a then r b else r x) = x) \<and>
      (y \<noteq> x \<longrightarrow> (if r y = r a then d y + d (r b) + 1 else d y) < (if r x = r a then d x + d (r b) + 1 else d x))"
  proof (cases "x = r a")
    case True
    then show ?thesis using ra rb ne by (intro bexI [of _ "r b"]) auto
  next
    case False
    have "r x = r a \<Longrightarrow> x \<noteq> r b" using ne rb by auto
    then show ?thesis using y False ne by (intro bexI [of _ y]) auto
  qed
qed

lemma uf_union_ok:
  assumes ok: "uf_ok d p r M" and a: "a \<in> M" and b: "b \<in> M"
  obtains p' d' where "uf_union p a b = Some p'" "uf_ok d' p' (\<lambda>x. if r x = r a then r b else r x) M"
proof -
  obtain p1 where p1: "uf_find p a = Some (r a, p1)" "uf_ok d p1 r M" using uf_find_ok [OF ok a] by auto
  obtain p2 where p2: "uf_find p1 b = Some (r b, p2)" "uf_ok d p2 r M" using uf_find_ok [OF p1(2) b] by auto
  show ?thesis
  proof (cases "r a = r b")
    case True
    then have "(\<lambda>x. if r x = r a then r b else r x) = r" by auto
    with True p1 p2 that [of p2 d] show ?thesis by (simp add: uf_union_def)
  next
    case False
    then show ?thesis using p1 p2 uf_join [OF p2(2) a b False] that by (auto simp: uf_union_def)
  qed
qed

subsection \<open>Connectedness\<close>

definition sym_closure :: "(jsstr \<times> jsstr) set \<Rightarrow> (jsstr \<times> jsstr) set" where
  "sym_closure L = (L \<union> L\<inverse>)\<^sup>*"

lemma sym_closure_sym: "(x, y) \<in> sym_closure L \<Longrightarrow> (y, x) \<in> sym_closure L"
  unfolding sym_closure_def by (rule symD [OF sym_rtrancl]) (auto intro: symI)

lemma sym_closure_trans: "(x, y) \<in> sym_closure L \<Longrightarrow> (y, z) \<in> sym_closure L \<Longrightarrow> (x, z) \<in> sym_closure L"
  unfolding sym_closure_def by (rule rtrancl_trans)

lemma sym_closure_edge: "(x, y) \<in> L \<Longrightarrow> (x, y) \<in> sym_closure L"
  by (auto simp: sym_closure_def)

lemma sym_closure_mono: "L \<subseteq> L' \<Longrightarrow> sym_closure L \<subseteq> sym_closure L'"
  unfolding sym_closure_def by (intro rtrancl_mono) auto

definition classes :: "(jsstr \<Rightarrow> jsstr) \<Rightarrow> jsstr set \<Rightarrow> (jsstr \<times> jsstr) set \<Rightarrow> bool" where
  "classes r M L \<longleftrightarrow> (\<forall>x \<in> M. \<forall>y \<in> M. r x = r y \<longleftrightarrow> (x, y) \<in> sym_closure L)"

lemma classes_join:
  assumes c: "classes r M L" and a: "a \<in> M" and b: "b \<in> M" and L: "L \<subseteq> M \<times> M"
  shows "classes (\<lambda>x. if r x = r a then r b else r x) M (insert (a, b) L)"
  unfolding classes_def
proof (intro ballI)
  let ?L = "insert (a, b) L" and ?r = "\<lambda>x. if r x = r a then r b else r x"
  fix x y assume xy: "x \<in> M" "y \<in> M"
  have old: "(u, v) \<in> sym_closure ?L" if "u \<in> M" "v \<in> M" "r u = r v" for u v
    using that c sym_closure_mono [of L ?L] by (auto simp: classes_def)
  have ab: "(a, b) \<in> sym_closure ?L" by (simp add: sym_closure_edge)
  have to_b: "(u, b) \<in> sym_closure ?L" if "u \<in> M" "?r u = r b" for u
    using that old [of u a] old [of u b] a b ab by (auto intro: sym_closure_trans split: if_splits)
  show "?r x = ?r y \<longleftrightarrow> (x, y) \<in> sym_closure ?L"
  proof
    assume eq: "?r x = ?r y"
    show "(x, y) \<in> sym_closure ?L"
    proof (cases "?r x = r b")
      case True
      then show ?thesis using to_b [of x] to_b [of y] eq xy by (metis sym_closure_sym sym_closure_trans)
    next
      case False
      then show ?thesis using eq old xy by (auto split: if_splits)
    qed
  next
    have step: "?r u = ?r v" if "(u, v) \<in> ?L \<union> ?L\<inverse>" for u v
    proof -
      have "(u, v) \<in> L \<union> L\<inverse> \<Longrightarrow> r u = r v"
        using c L sym_closure_edge [of u v L] sym_closure_edge [of v u L] by (fastforce simp: classes_def)
      then show ?thesis using that by auto
    qed
    assume "(x, y) \<in> sym_closure ?L"
    then show "?r x = ?r y" unfolding sym_closure_def by (induction rule: rtrancl_induct) (use step in auto)
  qed
qed

subsection \<open>The linking loop\<close>

definition link_pred :: "observed_proof list \<Rightarrow> observed_proof \<Rightarrow> observed_proof option" where
  "link_pred members m = (case op_prevB64 m of None \<Rightarrow> None
     | Some prev \<Rightarrow> (case index_by op_chainHash members prev of None \<Rightarrow> None
         | Some pred \<Rightarrow> if op_proofHash pred = op_proofHash m then None else Some pred))"

text \<open>The resolved links of a partition, from predecessor to successor.\<close>

definition links :: "observed_proof list \<Rightarrow> observed_proof list \<Rightarrow> (jsstr \<times> jsstr) set" where
  "links members ms = {(op_proofHash pred, op_proofHash m) | pred m. m \<in> set ms \<and> link_pred members m = Some pred}"

abbreviation hashes :: "observed_proof list \<Rightarrow> jsstr set" where
  "hashes ms \<equiv> op_proofHash ` set ms"

lemma index_by_Some: "index_by f xs k = Some x \<Longrightarrow> x \<in> set xs \<and> f x = k"
  unfolding index_by_def find_Some_iff by (metis length_rev nth_mem set_rev)

lemma link_pred_member: "link_pred members m = Some pred \<Longrightarrow> pred \<in> set members \<and> op_prevB64 m = Some (op_chainHash pred)"
  by (auto simp: link_pred_def dest: index_by_Some split: option.splits if_splits)

lemma links_within: "set ms \<subseteq> set members \<Longrightarrow> links members ms \<subseteq> hashes members \<times> hashes members"
  using link_pred_member by (fastforce simp: links_def)

lemma link_member_eq:
  "link_member members m s = (case link_pred members m of None \<Rightarrow> Some s
     | Some pred \<Rightarrow> do {
         parent \<leftarrow> uf_union (ls_parent s) (op_proofHash pred) (op_proofHash m);
         Some \<lparr>ls_successors = push_map (op_proofHash pred) m (ls_successors s),
           ls_resolvedPrev = set_add (op_proofHash m) (ls_resolvedPrev s),
           ls_hasSuccessor = set_add (op_proofHash pred) (ls_hasSuccessor s),
           ls_parent = parent\<rparr> })"
  by (auto simp: link_member_def link_pred_def split: option.splits)

text \<open>What the loop has established after the members \<open>ms\<close>.\<close>

definition chained :: "observed_proof list \<Rightarrow> observed_proof list \<Rightarrow> link_state \<Rightarrow> (jsstr \<Rightarrow> jsstr) \<Rightarrow> bool" where
  "chained members ms s r \<longleftrightarrow> (\<exists>d. uf_ok d (ls_parent s) r (hashes members))
     \<and> classes r (hashes members) (links members ms)
     \<and> (\<forall>h. get_list (ls_successors s) h = filter (\<lambda>m. map_option op_proofHash (link_pred members m) = Some h) ms)
     \<and> set (ls_resolvedPrev s) = op_proofHash ` {m \<in> set ms. link_pred members m \<noteq> None}"

lemma link_step:
  assumes l: "chained members ms s r" and m: "m \<in> set members" and ms: "set ms \<subseteq> set members"
  obtains s' r' where "link_member members m s = Some s'" "chained members (ms @ [m]) s' r'"
proof (cases "link_pred members m")
  case None
  then have "links members (ms @ [m]) = links members ms" by (auto simp: links_def)
  moreover have "op_proofHash ` {m' \<in> set (ms @ [m]). link_pred members m' \<noteq> None} = op_proofHash ` {m \<in> set ms. link_pred members m \<noteq> None}"
    using None by (rule_tac arg_cong [where f = "image op_proofHash"]) auto
  ultimately have "chained members (ms @ [m]) s r" using l None by (simp add: chained_def)
  then show ?thesis using that [of s r] None by (simp add: link_member_eq)
next
  case (Some pred)
  obtain d where d: "uf_ok d (ls_parent s) r (hashes members)" using l by (auto simp: chained_def)
  have in_M: "op_proofHash pred \<in> hashes members" "op_proofHash m \<in> hashes members"
    using link_pred_member [OF Some] m by auto
  obtain p' d' where p': "uf_union (ls_parent s) (op_proofHash pred) (op_proofHash m) = Some p'"
    "uf_ok d' p' (\<lambda>x. if r x = r (op_proofHash pred) then r (op_proofHash m) else r x) (hashes members)"
    using uf_union_ok [OF d in_M] .
  have "links members (ms @ [m]) = insert (op_proofHash pred, op_proofHash m) (links members ms)"
    using Some by (auto simp: links_def)
  then have c: "classes (\<lambda>x. if r x = r (op_proofHash pred) then r (op_proofHash m) else r x) (hashes members) (links members (ms @ [m]))"
    using classes_join [OF _ in_M links_within [OF ms]] l by (simp add: chained_def)
  have "{m' \<in> set (ms @ [m]). link_pred members m' \<noteq> None} = insert m {m' \<in> set ms. link_pred members m' \<noteq> None}"
    using Some by auto
  then have img: "op_proofHash ` {m' \<in> set (ms @ [m]). link_pred members m' \<noteq> None}
      = insert (op_proofHash m) (op_proofHash ` {m' \<in> set ms. link_pred members m' \<noteq> None})" by simp
  let ?s = "\<lparr>ls_successors = push_map (op_proofHash pred) m (ls_successors s),
           ls_resolvedPrev = set_add (op_proofHash m) (ls_resolvedPrev s),
           ls_hasSuccessor = set_add (op_proofHash pred) (ls_hasSuccessor s), ls_parent = p'\<rparr>"
  have "link_member members m s = Some ?s" using Some p'(1) by (simp add: link_member_eq)
  moreover have "chained members (ms @ [m]) ?s (\<lambda>x. if r x = r (op_proofHash pred) then r (op_proofHash m) else r x)"
    unfolding chained_def img using l p'(2) c Some by (auto simp: chained_def)
  ultimately show ?thesis by (rule that)
qed

lemma link_loop:
  "chained members ms s r \<Longrightarrow> set (ms @ ms') \<subseteq> set members \<Longrightarrow>
   \<exists>s' r'. fold_opt (link_member members) ms' s = Some s' \<and> chained members (ms @ ms') s' r'"
proof (induction ms' arbitrary: ms s r)
  case (Cons m ms')
  from Cons.prems have ms: "m \<in> set members" "set ms \<subseteq> set members" by auto
  obtain s' r' where s': "link_member members m s = Some s'" "chained members (ms @ [m]) s' r'"
    using link_step [OF Cons.prems(1) ms] .
  with Cons.IH [OF s'(2)] Cons.prems show ?case by auto
qed auto

lemma linked_initial:
  "chained members [] \<lparr>ls_successors = [], ls_resolvedPrev = [], ls_hasSuccessor = h, ls_parent = initial_parents members\<rparr> (\<lambda>x. x)"
proof -
  have "uf_ok (\<lambda>_. 0) (initial_parents members) (\<lambda>x. x) (hashes members)"
    by (auto simp: uf_ok_def initial_parents_def)
  moreover have "classes (\<lambda>x. x) (hashes members) (links members [])"
    by (auto simp: classes_def links_def sym_closure_def)
  ultimately show ?thesis by (auto simp: chained_def)
qed

subsection \<open>Grouping\<close>

lemma group_loop:
  "uf_ok d p r M \<Longrightarrow> hashes ms \<subseteq> M \<Longrightarrow>
   \<exists>p'. fold_opt group_member ms (p, g) = Some (p', fold (\<lambda>m. push_map (r (op_proofHash m)) m) ms g)"
proof (induction ms arbitrary: p g)
  case (Cons m ms)
  obtain p' where p': "uf_find p (op_proofHash m) = Some (r (op_proofHash m), p')" "uf_ok d p' r M"
    using uf_find_ok [OF Cons.prems(1), of "op_proofHash m"] Cons.prems(2) by auto
  then show ?case using Cons.IH [OF p'(2)] Cons.prems(2) by (simp add: group_member_def)
qed simp

lemma push_map_keys: "fst ` set (push_map k v m) = insert k (fst ` set m)"
  by (auto simp: push_map_def dom_update split: option.splits)

lemma distinct_push_map: "distinct (map fst m) \<Longrightarrow> distinct (map fst (push_map k v m))"
  by (auto simp: push_map_def intro: distinct_update split: option.splits)

lemma groups_get: "get_list (fold (\<lambda>m. push_map (k m) m) ms g) x = get_list g x @ filter (\<lambda>m. k m = x) ms"
  by (induction ms arbitrary: g) auto

lemma groups_keys: "fst ` set (fold (\<lambda>m. push_map (k m) m) ms g) = k ` set ms \<union> fst ` set g"
  by (induction ms arbitrary: g) (auto simp: push_map_keys)

lemma groups_distinct: "distinct (map fst g) \<Longrightarrow> distinct (map fst (fold (\<lambda>m. push_map (k m) m) ms g))"
  by (induction ms arbitrary: g) (auto intro: distinct_push_map)

text \<open>The groups: one per value of the key, in order of first appearance.\<close>

lemma groups_entry:
  "(x, l) \<in> set (fold (\<lambda>m. push_map (k m) m) ms []) \<Longrightarrow> l = filter (\<lambda>m. k m = x) ms \<and> x \<in> k ` set ms"
proof -
  let ?G = "fold (\<lambda>m. push_map (k m) m) ms []"
  assume e: "(x, l) \<in> set ?G"
  then have "map_of ?G x = Some l" using groups_distinct [of "[]"] by (intro map_of_is_SomeI) auto
  then have "l = get_list ?G x" by (simp add: get_list_def)
  moreover have "x \<in> k ` set ms" using e groups_keys [of k ms "[]"] by force
  ultimately show ?thesis by (simp add: groups_get)
qed

lemma group_present: "m \<in> set ms \<Longrightarrow> (k m, filter (\<lambda>m'. k m' = k m) ms) \<in> set (fold (\<lambda>m. push_map (k m) m) ms [])"
proof -
  let ?G = "fold (\<lambda>m. push_map (k m) m) ms []"
  assume "m \<in> set ms"
  then have "k m \<in> fst ` set ?G" by (simp add: groups_keys)
  then obtain l where "(k m, l) \<in> set ?G" by force
  then show ?thesis using groups_entry by fastforce
qed

subsection \<open>Components\<close>

lemma successors_hashes:
  assumes "chained members members s r"
  shows "set (get_list (map (\<lambda>(k, next). (k, map op_proofHash (js_sort byCounterThenHash next))) (ls_successors s)) h)
    = {h'. (h, h') \<in> links members members}"
proof -
  let ?S = "ls_successors s"
  have "set (get_list (map (\<lambda>(k, next). (k, map op_proofHash (js_sort byCounterThenHash next))) ?S) h)
      = op_proofHash ` set (get_list ?S h)"
    by (simp add: get_list_map_Nil [of "\<lambda>next. map op_proofHash (js_sort byCounterThenHash next)"])
  also have "get_list ?S h = filter (\<lambda>m. map_option op_proofHash (link_pred members m) = Some h) members"
    using assms by (simp add: chained_def)
  also have "op_proofHash ` set \<dots> = {h'. (h, h') \<in> links members members}"
    by (auto simp: links_def)
  finally show ?thesis .
qed

text \<open>The traversal lists a set of members closed under links once each.\<close>

lemma traversal_members:
  assumes l: "chained members members s r"
    and closed: "\<And>h h'. h \<in> hashes starts \<Longrightarrow> (h, h') \<in> links members members \<Longrightarrow> h' \<in> hashes starts"
  shows "set (traversal (ls_successors s) starts) = hashes starts \<and> distinct (traversal (ls_successors s) starts)"
proof -
  let ?g = "map (\<lambda>(k, next). (k, map op_proofHash (js_sort byCounterThenHash next))) (ls_successors s)"
  have E: "edges_of ?g = links members members" using successors_hashes [OF l] by (auto simp: edges_of_def)
  have "(links members members)\<^sup>* `` hashes starts = hashes starts"
  proof (intro equalityI subsetI)
    fix h assume "h \<in> (links members members)\<^sup>* `` hashes starts"
    then obtain k where k: "k \<in> hashes starts" "(k, h) \<in> (links members members)\<^sup>*" by blast
    from k(2) show "h \<in> hashes starts" by (induction rule: rtrancl_induct) (use k(1) closed in auto)
  qed auto
  moreover have "traversal (ls_successors s) starts = fold (\<lambda>k. dfs ?g [k]) (map op_proofHash starts) []"
    by (simp add: traversal_def fold_map comp_def)
  ultimately show ?thesis using dfs_runs [of "[]" ?g "map op_proofHash starts"] unfolding E by simp
qed

lemma component_members:
  assumes l: "chained members members s r" and g: "ms = filter (\<lambda>m. r (op_proofHash m) = root) members"
  shows "set (cc_memberProofHashes (buildComponent ms (ls_successors s) (ls_resolvedPrev s))) = hashes ms"
    and "distinct (cc_memberProofHashes (buildComponent ms (ls_successors s) (ls_resolvedPrev s)))"
proof -
  define starts where "starts = filter (\<lambda>m. op_prevB64 m = None) (js_sort byCounterThenHash ms)
    @ filter (\<lambda>m. op_prevB64 m \<noteq> None \<and> op_proofHash m \<notin> set (ls_resolvedPrev s)) (js_sort byCounterThenHash ms)
    @ js_sort byCounterThenHash ms"
  have st: "hashes starts = hashes ms" by (auto simp: starts_def)
  have closed: "h' \<in> hashes starts" if "h \<in> hashes starts" "(h, h') \<in> links members members" for h h'
  proof -
    have M: "h \<in> hashes members" "h' \<in> hashes members" using that(2) links_within [of members members] by auto
    then have "r h = r h'" using l that(2) by (auto simp: chained_def classes_def sym_closure_edge)
    then show ?thesis using that(1) M unfolding st g by auto
  qed
  have eq: "cc_memberProofHashes (buildComponent ms (ls_successors s) (ls_resolvedPrev s)) = traversal (ls_successors s) starts"
    by (simp add: buildComponent_def starts_def Let_def)
  show "set (cc_memberProofHashes (buildComponent ms (ls_successors s) (ls_resolvedPrev s))) = hashes ms"
    and "distinct (cc_memberProofHashes (buildComponent ms (ls_successors s) (ls_resolvedPrev s)))"
    using traversal_members [OF l closed] st unfolding eq by auto
qed

lemma distinct_concat_classes:
  "distinct (map fst G) \<Longrightarrow> (\<And>x l. (x, l) \<in> set G \<Longrightarrow> distinct (f l) \<and> (\<forall>h \<in> set (f l). r h = x)) \<Longrightarrow>
   distinct (concat (map (\<lambda>l. f l) (map snd G)))"
proof (induction G)
  case (Cons p G)
  obtain x l where p: "p = (x, l)" by (cases p)
  have IH: "distinct (concat (map (\<lambda>l. f l) (map snd G)))" using Cons by auto
  have "False" if "h \<in> set (f l)" "(y, l') \<in> set G" "h \<in> set (f l')" for h y l'
  proof -
    have "r h = x" "r h = y" using that Cons.prems(2) [of x l] Cons.prems(2) [of y l'] p by auto
    then have "x \<in> fst ` set G" using that by force
    then show False using Cons.prems(1) p by simp
  qed
  then show ?case using IH Cons.prems(2) [of x l] p by auto
qed simp

lemma mset_concat_perm: "mset xs = mset ys \<Longrightarrow> mset (concat (map f xs)) = mset (concat (map f ys))"
  by (simp add: mset_concat mset_map [symmetric] del: mset_map) (metis mset_map sum_mset_sum_list)

definition same_component :: "chain_partition \<Rightarrow> (jsstr \<times> jsstr) set" where
  "same_component p = {(x, y). \<exists>c \<in> set (cp_components p).
     x \<in> set (cc_memberProofHashes c) \<and> y \<in> set (cc_memberProofHashes c)}"

lemma buildPartition_spec:
  obtains p hs' where "buildPartition key members hs = Some (p, hs')" "cp_key p = key"
    "cp_memberProofHashes p = map op_proofHash (js_sort byCounterThenHash members)"
    "same_component p = sym_closure (links members members) \<inter> hashes members \<times> hashes members"
    "distinct (concat (map cc_memberProofHashes (cp_components p)))"
proof -
  let ?s0 = "\<lparr>ls_successors = [], ls_resolvedPrev = [], ls_hasSuccessor = hs, ls_parent = initial_parents members\<rparr>"
  obtain s r where s: "fold_opt (link_member members) members ?s0 = Some s" "chained members members s r"
    using link_loop [OF linked_initial, of members members hs] by auto
  obtain d where d: "uf_ok d (ls_parent s) r (hashes members)" using s(2) by (auto simp: chained_def)
  define G where "G = fold (\<lambda>m. push_map (r (op_proofHash m)) m) members []"
  obtain p' where p': "fold_opt group_member members (ls_parent s, []) = Some (p', G)"
    using group_loop [OF d, of members "[]"] by (auto simp: G_def)
  define f where "f = (\<lambda>ms. buildComponent ms (ls_successors s) (ls_resolvedPrev s))"
  define p where "p = \<lparr>cp_key = key, cp_memberProofHashes = map op_proofHash (js_sort byCounterThenHash members),
        cp_components = js_sort compareComponents (map f (map snd G))\<rparr>"
  have run: "buildPartition key members hs = Some (p, ls_hasSuccessor s)"
    using s(1) p' by (simp add: buildPartition_def p_def f_def)
  have comp: "set (cc_memberProofHashes (f l)) = {h \<in> hashes members. r h = x}" "distinct (cc_memberProofHashes (f l))"
    if "(x, l) \<in> set G" for x l
  proof -
    have l: "l = filter (\<lambda>m. r (op_proofHash m) = x) members" using groups_entry [OF that [unfolded G_def]] by simp
    show "set (cc_memberProofHashes (f l)) = {h \<in> hashes members. r h = x}" "distinct (cc_memberProofHashes (f l))"
      using component_members [OF s(2) l] l by (auto simp: f_def)
  qed
  have present: "\<exists>l. (r h, l) \<in> set G" if "h \<in> hashes members" for h
    using that group_present [where k = "\<lambda>m. r (op_proofHash m)"] unfolding G_def by blast
  have cls: "r x = r y \<longleftrightarrow> (x, y) \<in> sym_closure (links members members)" if "x \<in> hashes members" "y \<in> hashes members" for x y
    using s(2) that unfolding chained_def classes_def by blast
  have comps: "set (cp_components p) = {f l | x l. (x, l) \<in> set G}" by (force simp: p_def)
  have "same_component p = {(x, y). x \<in> hashes members \<and> y \<in> hashes members \<and> r x = r y}"
  proof (intro set_eqI iffI)
    fix q assume "q \<in> same_component p"
    then obtain x y k l where q: "q = (x, y)" "(k, l) \<in> set G"
      "x \<in> set (cc_memberProofHashes (f l))" "y \<in> set (cc_memberProofHashes (f l))"
      unfolding same_component_def comps by blast
    then show "q \<in> {(x, y). x \<in> hashes members \<and> y \<in> hashes members \<and> r x = r y}"
      unfolding comp(1) [OF q(2)] by simp
  next
    fix q assume "q \<in> {(x, y). x \<in> hashes members \<and> y \<in> hashes members \<and> r x = r y}"
    then obtain x y where q: "q = (x, y)" "x \<in> hashes members" "y \<in> hashes members" "r x = r y" by blast
    from present [OF q(2)] obtain l where l: "(r x, l) \<in> set G" by blast
    with q have "x \<in> set (cc_memberProofHashes (f l))" "y \<in> set (cc_memberProofHashes (f l))"
      unfolding comp(1) [OF l] by simp_all
    with l q(1) show "q \<in> same_component p" unfolding same_component_def comps by blast
  qed
  then have same: "same_component p = sym_closure (links members members) \<inter> hashes members \<times> hashes members"
    using cls by auto
  have "distinct (concat (map (\<lambda>l. cc_memberProofHashes (f l)) (map snd G)))"
  proof (rule distinct_concat_classes [where r = r])
    show "distinct (map fst G)" unfolding G_def by (rule groups_distinct) simp
  qed (use comp in auto)
  then have "distinct (concat (map cc_memberProofHashes (map f (map snd G))))" by (simp add: comp_def)
  moreover have "mset (concat (map cc_memberProofHashes (cp_components p)))
      = mset (concat (map cc_memberProofHashes (map f (map snd G))))"
    unfolding p_def chain_partition.simps by (rule mset_concat_perm) (rule mset_js_sort)
  ultimately have "distinct (concat (map cc_memberProofHashes (cp_components p)))"
    using mset_eq_imp_distinct_iff by blast
  then show ?thesis using that [OF run] same by (simp add: p_def)
qed

end
