(* ===== verification/BG_Lineages.thy ===== *)
theory BG_Lineages
  imports BG_Chains
begin

text \<open>
  Reconstruction as a whole: the partitions are exactly the signer lineages of the observed proofs,
  reconstruction returns on every input, and lineage edges are hard only with sound evidence.
\<close>

subsection \<open>The partitioning loop\<close>

text \<open>The lineage a proof belongs to, if any.\<close>

definition lineage_key :: "observed_proof \<Rightarrow> partition_key option" where
  "lineage_key p = (if op_chainless p then None else map_option (partition_key_of p) (op_publicKeyB64 p))"

lemma partition_map_key_inj [simp]: "partition_map_key a = partition_map_key b \<longleftrightarrow> a = b"
proof
  assume "partition_map_key a = partition_map_key b"
  then have "JArr [JStr (pk_publicKeyB64 a), (case pk_epochId a of None \<Rightarrow> JNull | Some e \<Rightarrow> JStr e), JStr (pk_chainId a)]
      = JArr [JStr (pk_publicKeyB64 b), (case pk_epochId b of None \<Rightarrow> JNull | Some e \<Rightarrow> JStr e), JStr (pk_chainId b)]"
    unfolding partition_map_key_def by (rule js_stringify_inj [rotated -1]) (auto split: option.splits)
  then show "a = b" by (auto split: option.splits)
qed simp

definition split_ok :: "observed_proof list \<Rightarrow> split_state \<Rightarrow> bool" where
  "split_ok ps s \<longleftrightarrow> sp_unchained s = map op_proofHash (filter op_chainless ps)
     \<and> sp_unpartitioned s = map op_proofHash (filter (\<lambda>p. \<not> op_chainless p \<and> op_publicKeyB64 p = None) ps)
     \<and> distinct (map fst (sp_byKey s))
     \<and> (\<forall>mk k ms. map_of (sp_byKey s) mk = Some (k, ms) \<longleftrightarrow>
          mk = partition_map_key k \<and> ms = filter (\<lambda>p. lineage_key p = Some k) ps \<and> ms \<noteq> [])"

lemma split_step:
  assumes "split_ok ps s"
  shows "split_ok (ps @ [p]) (split_proof p s)"
proof (cases "lineage_key p")
  case None
  then show ?thesis using assms by (auto simp: split_ok_def split_proof_def lineage_key_def split: option.splits)
next
  case (Some k)
  let ?mk = "partition_map_key k"
  have p: "\<not> op_chainless p" "\<exists>pub. op_publicKeyB64 p = Some pub \<and> partition_key_of p pub = k"
    using Some by (auto simp: lineage_key_def split: if_splits)
  have entry: "map_of (sp_byKey s) mk = Some (k', ms) \<longleftrightarrow>
      mk = partition_map_key k' \<and> ms = filter (\<lambda>p. lineage_key p = Some k') ps \<and> ms \<noteq> []" for mk k' ms
    using assms by (simp add: split_ok_def)
  define ms where "ms = filter (\<lambda>p. lineage_key p = Some k) ps"
  have upd: "split_proof p s = s\<lparr>sp_byKey := AList.update ?mk (k, ms @ [p]) (sp_byKey s)\<rparr>"
  proof (cases "map_of (sp_byKey s) ?mk")
    case None
    then have "ms = []" using entry [of ?mk k ms] by (auto simp: ms_def)
    with None p show ?thesis by (auto simp: split_proof_def Let_def)
  next
    case (Some q)
    obtain k' ms' where q: "q = (k', ms')" by (cases q)
    with Some entry [of ?mk k' ms'] have "k' = k" "ms' = ms" by (auto simp: ms_def)
    with Some q p show ?thesis by (auto simp: split_proof_def Let_def)
  qed
  have "map_of (AList.update ?mk (k, ms @ [p]) (sp_byKey s)) mk = Some (k', ms') \<longleftrightarrow>
      mk = partition_map_key k' \<and> ms' = filter (\<lambda>p. lineage_key p = Some k') (ps @ [p]) \<and> ms' \<noteq> []" for mk k' ms'
    using entry [of mk k' ms'] Some by (auto simp: update_conv' ms_def)
  then show ?thesis using assms p unfolding upd by (auto simp: split_ok_def intro: distinct_update)
qed

lemma split_loop: "split_ok ps s \<Longrightarrow> split_ok (ps @ qs) (fold split_proof qs s)"
proof (induction qs arbitrary: ps s)
  case (Cons q qs)
  then show ?case using Cons.IH [OF split_step [OF Cons.prems, of q]] by simp
qed simp

lemma split_proofs_ok: "split_ok ps (split_proofs ps)"
  using split_loop [of "[]" "\<lparr>sp_unchained = [], sp_unpartitioned = [], sp_byKey = []\<rparr>" ps]
  by (simp add: split_ok_def split_proofs_def)

text \<open>The members of a lineage, in observation order.\<close>

definition lineage :: "observed_proof list \<Rightarrow> partition_key \<Rightarrow> observed_proof list" where
  "lineage ps k = filter (\<lambda>p. lineage_key p = Some k) ps"

lemma split_entries:
  "set (map snd (sp_byKey (split_proofs ps))) = {(k, lineage ps k) | k. lineage ps k \<noteq> []}"
  "distinct (map fst (map snd (sp_byKey (split_proofs ps))))"
proof -
  let ?B = "sp_byKey (split_proofs ps)"
  have d: "distinct (map fst ?B)" and e: "\<And>mk k ms. map_of ?B mk = Some (k, ms) \<longleftrightarrow>
      mk = partition_map_key k \<and> ms = filter (\<lambda>p. lineage_key p = Some k) ps \<and> ms \<noteq> []"
    using split_proofs_ok [of ps] by (auto simp: split_ok_def)
  have mem: "(mk, k, ms) \<in> set ?B \<longleftrightarrow> mk = partition_map_key k \<and> ms = lineage ps k \<and> ms \<noteq> []" for mk k ms
    using map_of_eq_Some_iff [OF d, of mk "(k, ms)"] e [of mk k ms] by (simp add: lineage_def)
  have "set (map snd ?B) = {q. \<exists>mk. (mk, q) \<in> set ?B}" by force
  also have "\<dots> = {(k, lineage ps k) | k. lineage ps k \<noteq> []}" by (auto simp: mem)
  finally show "set (map snd ?B) = {(k, lineage ps k) | k. lineage ps k \<noteq> []}" .
  have "map fst ?B = map partition_map_key (map fst (map snd ?B))" using mem by (auto simp: comp_def)
  then have "distinct (map partition_map_key (map fst (map snd ?B)))" using d by (simp only:)
  then show "distinct (map fst (map snd ?B))" by (rule distinct_map [THEN iffD1, THEN conjunct1])
qed

subsection \<open>All partitions\<close>

definition partition_ok :: "partition_key \<times> observed_proof list \<Rightarrow> chain_partition \<Rightarrow> bool" where
  "partition_ok e p \<longleftrightarrow> cp_key p = fst e
     \<and> cp_memberProofHashes p = map op_proofHash (js_sort byCounterThenHash (snd e))
     \<and> same_component p = sym_closure (links (snd e) (snd e)) \<inter> hashes (snd e) \<times> hashes (snd e)
     \<and> distinct (concat (map cc_memberProofHashes (cp_components p)))"

lemma build_partitions_ok:
  "\<exists>qs hs'. build_partitions es (ps, hs) = Some (ps @ qs, hs') \<and> list_all2 partition_ok es qs"
proof (induction es arbitrary: ps hs)
  case (Cons e es)
  obtain p hs1 where b: "buildPartition (fst e) (snd e) hs = Some (p, hs1)" "cp_key p = fst e"
    "cp_memberProofHashes p = map op_proofHash (js_sort byCounterThenHash (snd e))"
    "same_component p = sym_closure (links (snd e) (snd e)) \<inter> hashes (snd e) \<times> hashes (snd e)"
    "distinct (concat (map cc_memberProofHashes (cp_components p)))"
    by (rule buildPartition_spec [of "fst e" "snd e" hs])
  then have p: "buildPartition (fst e) (snd e) hs = Some (p, hs1)" "partition_ok e p"
    by (simp_all add: partition_ok_def)
  obtain qs hs' where "build_partitions es (ps @ [p], hs1) = Some ((ps @ [p]) @ qs, hs')" "list_all2 partition_ok es qs"
    using Cons.IH by blast
  then show ?case using p by (cases e) (auto simp: build_partitions_def)
qed (simp add: build_partitions_def)

definition partition_entries :: "observed_proof list \<Rightarrow> (partition_key \<times> observed_proof list) list" where
  "partition_entries proofs =
     js_sort (\<lambda>a b. comparePartitionKeys (fst a) (fst b)) (map snd (sp_byKey (split_proofs proofs)))"

lemma reconstruct_parts:
  obtains r where "reconstructChains C proofs = Some r"
    "list_all2 partition_ok (partition_entries proofs) (rc_partitions r)"
    "rc_unchained r = map op_proofHash (filter op_chainless proofs)"
    "rc_unpartitioned r = map op_proofHash (filter (\<lambda>p. \<not> op_chainless p \<and> op_publicKeyB64 p = None) proofs)"
    "\<exists>hs ms. rc_epochs r = buildEpochRelationships C proofs (rc_partitions r) hs ms"
proof -
  obtain qs hs where qs: "build_partitions (partition_entries proofs) ([], []) = Some (qs, hs)"
    "list_all2 partition_ok (partition_entries proofs) qs"
    using build_partitions_ok [of "partition_entries proofs" "[]" "[]"] by auto
  define r where "r = \<lparr>rc_partitions = qs, rc_unchained = sp_unchained (split_proofs proofs),
    rc_unpartitioned = sp_unpartitioned (split_proofs proofs),
    rc_epochs = buildEpochRelationships C proofs qs hs (concat (map cp_memberProofHashes qs))\<rparr>"
  have "reconstructChains C proofs = Some r"
    using qs(1) by (simp add: reconstructChains_def partition_entries_def Let_def r_def)
  then show ?thesis using that [of r] qs(2) split_proofs_ok [of proofs] by (auto simp: r_def split_ok_def)
qed

lemma image_pairs: "(\<lambda>e. (fst e, F (snd e))) ` {(k, L k) | k. P k} = {(k, F (L k)) | k. P k}"
  by (auto simp: image_iff)

text \<open>C23: Partitions are the signer lineages. Chainless proofs and proofs without a signer key stay
  outside, in observation order; the partitions are exactly the non-empty groups of the remaining
  proofs with the same signer key, epoch and chain, one partition per group, its members listed by
  counter and then hash. Lineages are never merged or split.\<close>

theorem partitions_are_lineages:
  "\<exists>r. reconstructChains C proofs = Some r
     \<and> rc_unchained r = map op_proofHash (filter op_chainless proofs)
     \<and> rc_unpartitioned r = map op_proofHash (filter (\<lambda>p. \<not> op_chainless p \<and> op_publicKeyB64 p = None) proofs)
     \<and> distinct (map cp_key (rc_partitions r))
     \<and> {(cp_key p, cp_memberProofHashes p) | p. p \<in> set (rc_partitions r)} =
       {(k, map op_proofHash (js_sort byCounterThenHash (lineage proofs k))) | k. lineage proofs k \<noteq> []}"
proof -
  obtain r where r: "reconstructChains C proofs = Some r"
    "list_all2 partition_ok (partition_entries proofs) (rc_partitions r)"
    "rc_unchained r = map op_proofHash (filter op_chainless proofs)"
    "rc_unpartitioned r = map op_proofHash (filter (\<lambda>p. \<not> op_chainless p \<and> op_publicKeyB64 p = None) proofs)"
    using reconstruct_parts [of C proofs] by blast
  have es: "set (partition_entries proofs) = {(k, lineage proofs k) | k. lineage proofs k \<noteq> []}"
    using split_entries(1) [of proofs] by (simp add: partition_entries_def)
  have "mset (map fst (partition_entries proofs)) = mset (map fst (map snd (sp_byKey (split_proofs proofs))))"
    by (simp only: partition_entries_def mset_map mset_js_sort)
  then have dist: "distinct (map fst (partition_entries proofs))"
    using split_entries(2) [of proofs] mset_eq_imp_distinct_iff by blast
  have keys: "map cp_key (rc_partitions r) = map fst (partition_entries proofs)"
    using list_all2_map_eq [OF r(2), of fst cp_key] by (simp add: partition_ok_def)
  have "map (\<lambda>p. (cp_key p, cp_memberProofHashes p)) (rc_partitions r)
      = map (\<lambda>e. (fst e, map op_proofHash (js_sort byCounterThenHash (snd e)))) (partition_entries proofs)"
    using list_all2_map_eq [OF r(2), of "\<lambda>e. (fst e, map op_proofHash (js_sort byCounterThenHash (snd e)))"
      "\<lambda>p. (cp_key p, cp_memberProofHashes p)"] by (simp add: partition_ok_def)
  then have "(\<lambda>p. (cp_key p, cp_memberProofHashes p)) ` set (rc_partitions r)
      = (\<lambda>e. (fst e, map op_proofHash (js_sort byCounterThenHash (snd e)))) ` set (partition_entries proofs)"
    by (simp only: set_map [symmetric])
  then have "{(cp_key p, cp_memberProofHashes p) | p. p \<in> set (rc_partitions r)} =
       {(k, map op_proofHash (js_sort byCounterThenHash (lineage proofs k))) | k. lineage proofs k \<noteq> []}"
    unfolding es image_pairs [where F = "\<lambda>ms. map op_proofHash (js_sort byCounterThenHash ms)"] Setcompr_eq_image Collect_mem_eq .
  then show ?thesis using r keys dist by auto
qed

text \<open>C24: Components are the connected components of the hash links. Within a partition, two members
  are in one component exactly when they are joined by resolved \<^verbatim>\<open>prevB64\<close> links in some direction,
  whatever their counters say, and the components together list every member hash exactly once.\<close>

theorem components_are_connected:
  "\<exists>p hs'. buildPartition key members hs = Some (p, hs')
     \<and> same_component p = sym_closure (links members members) \<inter> hashes members \<times> hashes members
     \<and> distinct (concat (map cc_memberProofHashes (cp_components p)))"
  by (rule buildPartition_spec [of key members hs]) blast

subsection \<open>Epoch lineage\<close>

lemma analyzeEdge_hard:
  "ee_hardEdge (analyzeEdge C link via idx accs hs ms) \<longleftrightarrow>
     (\<exists>pred. idx (el_prevProofHashB64 link) = Some pred \<and> edge_inconsistencies link pred = []
        \<and> isIntrinsicallyValid C via \<and> isIntrinsicallyValid C pred)"
  by (auto simp: analyzeEdge_def Let_def split: option.splits)

lemma edge_consistent:
  "edge_inconsistencies link pred = [] \<longleftrightarrow> op_epochId pred = Some (el_prevEpochId link)
     \<and> op_publicKeyB64 pred = Some (el_prevPublicKeyB64 link) \<and> countersEqual (op_counter pred) (el_prevCounter link)"
  by (simp add: edge_inconsistencies_def)

text \<open>C25: Hard lineage edges. An edge that reconstruction reports as hard comes from two observed
  proofs: one that carries the epoch link and one whose chain hash the link names, whose epoch,
  signer key and counter are the ones the link declares, both intrinsically valid.\<close>

theorem hard_edge_sound:
  assumes "reconstructChains C proofs = Some r" and "e \<in> set (er_edges (rc_epochs r))" and "ee_hardEdge e"
  shows "\<exists>via pred link. via \<in> set proofs \<and> pred \<in> set proofs \<and> extractEpochLink via = Some link
     \<and> ee_viaProofHash e = op_proofHash via \<and> ee_predecessorProofHash e = Some (op_proofHash pred)
     \<and> op_chainHash pred = el_prevProofHashB64 link \<and> op_epochId pred = Some (ee_fromEpochId e)
     \<and> op_publicKeyB64 pred = Some (el_prevPublicKeyB64 link) \<and> countersEqual (op_counter pred) (el_prevCounter link)
     \<and> isIntrinsicallyValid C via \<and> isIntrinsicallyValid C pred"
proof -
  obtain hs ms where "rc_epochs r = buildEpochRelationships C proofs (rc_partitions r) hs ms"
    using reconstruct_parts [of C proofs] assms(1) by (metis option.inject)
  then obtain via link accs where v: "via \<in> set proofs" "extractEpochLink via = Some link"
    "e = analyzeEdge C link via (index_by op_chainHash proofs) accs hs ms"
    using assms(2) by (auto simp: buildEpochRelationships_def Let_def List.map_filter_def split: if_splits)
  then obtain pred where pred: "index_by op_chainHash proofs (el_prevProofHashB64 link) = Some pred"
    "edge_inconsistencies link pred = []" "isIntrinsicallyValid C via" "isIntrinsicallyValid C pred"
    using assms(3) by (auto simp: analyzeEdge_hard)
  then have "via \<in> set proofs \<and> pred \<in> set proofs \<and> extractEpochLink via = Some link
     \<and> ee_viaProofHash e = op_proofHash via \<and> ee_predecessorProofHash e = Some (op_proofHash pred)
     \<and> op_chainHash pred = el_prevProofHashB64 link \<and> op_epochId pred = Some (ee_fromEpochId e)
     \<and> op_publicKeyB64 pred = Some (el_prevPublicKeyB64 link) \<and> countersEqual (op_counter pred) (el_prevCounter link)
     \<and> isIntrinsicallyValid C via \<and> isIntrinsicallyValid C pred"
    using v index_by_Some [OF pred(1)] edge_consistent [of link pred] by (simp add: analyzeEdge_def Let_def)
  then show ?thesis by blast
qed

subsection \<open>Ordered pairs of epochs\<close>

definition hard_rel :: "epoch_edge list \<Rightarrow> (jsstr \<times> jsstr) set" where
  "hard_rel edges = {(ee_fromEpochId e, ee_toEpochId e) | e. e \<in> set edges \<and> ee_hardEdge e}"

lemma fold_set_map:
  "set (get_list (fold (\<lambda>e. add_to_set_map (f e) (h e)) es m) x) = set (get_list m x) \<union> h ` {e \<in> set es. f e = x}"
  by (induction es arbitrary: m) (auto simp: get_add_to_set_map)

lemma hard_adjacency_set: "set (get_list (hard_adjacency edges) x) = {y. (x, y) \<in> hard_rel edges}"
  unfolding hard_adjacency_def fold_set_map by (auto simp: hard_rel_def)

lemma fold_nodes: "set (fold (\<lambda>e s. set_add (f e) (set_add (h e) s)) es s) = set s \<union> h ` set es \<union> f ` set es"
  by (induction es arbitrary: s) auto

lemma hard_nodes_set: "set (hard_nodes edges) = Field (hard_rel edges)"
  unfolding hard_nodes_def fold_nodes by (auto simp: hard_rel_def Field_def Domain.simps Range.simps)

lemma reached_from_set: "set (reached_from (hard_adjacency edges) x) = {y. (x, y) \<in> (hard_rel edges)\<^sup>+}"
proof -
  let ?g = "map (\<lambda>(k, ns). (k, rev ns)) (hard_adjacency edges)"
  have g: "set (get_list ?g y) = {z. (y, z) \<in> hard_rel edges}" for y
    by (simp add: get_list_map_Nil [of rev] hard_adjacency_set)
  then have "edges_of ?g = hard_rel edges" by (auto simp: edges_of_def)
  then have "set (reached_from (hard_adjacency edges) x) = (hard_rel edges)\<^sup>* `` {z. (x, z) \<in> hard_rel edges}"
    by (simp add: reached_from_def Let_def dfs_reach g)
  then show ?thesis by (auto intro: rtrancl_into_trancl2 dest: tranclD)
qed

lemma fold_set_add: "set (fold (\<lambda>x. set_add (f x)) xs s) = set s \<union> f ` set xs"
  by (induction xs arbitrary: s) auto

lemma fold_pairs: "set (fold (\<lambda>x ps. fold (\<lambda>n. set_add (pair_key x n)) (F x) ps) xs s)
    = set s \<union> {pair_key x n | x n. x \<in> set xs \<and> n \<in> set (F x)}"
  by (induction xs arbitrary: s) (auto simp: fold_set_add)

lemma trancl_Field: "(a, b) \<in> R\<^sup>+ \<Longrightarrow> a \<in> Field R"
  by (auto dest: tranclD intro: FieldI1)

lemma pair_strings_set: "set (pair_strings edges) = {pair_key a b | a b. (a, b) \<in> (hard_rel edges)\<^sup>+ \<and> a \<noteq> b}"
  unfolding pair_strings_def Let_def fold_pairs hard_nodes_set set_filter reached_from_set
  using trancl_Field [of _ _ "hard_rel edges"] by (auto 4 4)

lemma split_space_plain: "32 \<notin> set s \<Longrightarrow> split_space s = [s]"
  by (induction s) auto

lemma split_space_pair: "32 \<notin> set a \<Longrightarrow> split_space (a @ 32 # s) = a # split_space s"
  by (induction a) auto

lemma read_pair_key: "32 \<notin> set a \<Longrightarrow> 32 \<notin> set b \<Longrightarrow> read_pair (pair_key a b) = (a, b)"
  by (simp add: read_pair_def pair_key_def split_space_pair split_space_plain)

lemma no_space_trancl:
  assumes "\<forall>e \<in> set edges. 32 \<notin> set (ee_fromEpochId e) \<and> 32 \<notin> set (ee_toEpochId e)"
  shows "(a, b) \<in> (hard_rel edges)\<^sup>+ \<Longrightarrow> 32 \<notin> set a \<and> 32 \<notin> set b"
  by (induction rule: trancl_induct) (use assms in \<open>auto simp: hard_rel_def\<close>)

text \<open>C29: Ordered epochs. When no epoch id contains a space, the ordered pairs are exactly the pairs
  of epochs joined by a chain of hard edges in one direction and by none in the other, sorted;
  evidence that runs both ways is asserted neither way.\<close>

theorem ordered_pairs_exact:
  assumes "\<forall>e \<in> set edges. 32 \<notin> set (ee_fromEpochId e) \<and> 32 \<notin> set (ee_toEpochId e)"
  shows "set (deriveOrderedPairs edges) = {(a, b). (a, b) \<in> (hard_rel edges)\<^sup>+ \<and> (b, a) \<notin> (hard_rel edges)\<^sup>+}
    \<and> sorted (deriveOrderedPairs edges)"
proof
  let ?T = "(hard_rel edges)\<^sup>+"
  have plain: "(a, b) \<in> ?T \<Longrightarrow> read_pair (pair_key a b) = (a, b)" for a b
    using no_space_trancl [OF assms] read_pair_key by blast
  have other: "pair_key b a \<in> set (pair_strings edges) \<longleftrightarrow> (b, a) \<in> ?T" if ab: "(a, b) \<in> ?T" "a \<noteq> b" for a b
  proof
    assume "pair_key b a \<in> set (pair_strings edges)"
    then obtain c d where cd: "pair_key b a = pair_key c d" "(c, d) \<in> ?T" unfolding pair_strings_set by blast
    have "read_pair (pair_key b a) = (b, a)" using no_space_trancl [OF assms ab(1)] read_pair_key by blast
    with cd plain [of c d] show "(b, a) \<in> ?T" by simp
  qed (use ab in \<open>auto simp: pair_strings_set\<close>)
  have "set (deriveOrderedPairs edges) = read_pair ` {s \<in> set (pair_strings edges).
      pair_key (snd (read_pair s)) (fst (read_pair s)) \<notin> set (pair_strings edges)}"
    by (simp add: deriveOrderedPairs_def Let_def)
  also have "\<dots> = {(a, b). (a, b) \<in> ?T \<and> a \<noteq> b \<and> pair_key b a \<notin> set (pair_strings edges)}"
  proof (intro set_eqI iffI)
    fix q assume "q \<in> read_pair ` {s \<in> set (pair_strings edges).
      pair_key (snd (read_pair s)) (fst (read_pair s)) \<notin> set (pair_strings edges)}"
    then obtain s where s: "s \<in> set (pair_strings edges)" "q = read_pair s"
      "pair_key (snd (read_pair s)) (fst (read_pair s)) \<notin> set (pair_strings edges)" by blast
    then obtain a b where "s = pair_key a b" "(a, b) \<in> ?T" "a \<noteq> b" unfolding pair_strings_set by blast
    then show "q \<in> {(a, b). (a, b) \<in> ?T \<and> a \<noteq> b \<and> pair_key b a \<notin> set (pair_strings edges)}"
      using s plain [of a b] by simp
  next
    fix q assume "q \<in> {(a, b). (a, b) \<in> ?T \<and> a \<noteq> b \<and> pair_key b a \<notin> set (pair_strings edges)}"
    then obtain a b where q: "q = (a, b)" "(a, b) \<in> ?T" "a \<noteq> b" "pair_key b a \<notin> set (pair_strings edges)" by blast
    then have "pair_key a b \<in> set (pair_strings edges)" unfolding pair_strings_set by blast
    with q plain [of a b] show "q \<in> read_pair ` {s \<in> set (pair_strings edges).
      pair_key (snd (read_pair s)) (fst (read_pair s)) \<notin> set (pair_strings edges)}"
      by (intro image_eqI [of _ _ "pair_key a b"]) simp_all
  qed
  also have "\<dots> = {(a, b). (a, b) \<in> ?T \<and> (b, a) \<notin> ?T}" using other by blast
  finally show "set (deriveOrderedPairs edges) = {(a, b). (a, b) \<in> ?T \<and> (b, a) \<notin> ?T}" .
  show "sorted (deriveOrderedPairs edges)"
    using pair_order.sorted_js_sort by (simp add: deriveOrderedPairs_def Let_def)
qed

subsection \<open>Concrete runs\<close>

definition demo_edge :: "string \<Rightarrow> string \<Rightarrow> epoch_edge" where
  "demo_edge a b = \<lparr>ee_fromEpochId = u16 a, ee_toEpochId = u16 b, ee_viaProofHash = [],
     ee_link = \<lparr>el_prevEpochId = u16 a, el_prevPublicKeyB64 = [], el_prevCounter = [], el_prevProofHashB64 = [],
       el_toEpochId = u16 b, el_toPublicKeyB64 = []\<rparr>,
     ee_resolution = Matched, ee_predecessorProofHash = None, ee_metadataConsistent = Some True,
     ee_inconsistencies = None, ee_referencedProofIsTerminal = None, ee_viaProofValid = True,
     ee_predecessorValid = Some True, ee_hardEdge = True\<rparr>"

lemma demo_edge_simps [simp]:
  "ee_fromEpochId (demo_edge a b) = u16 a" "ee_toEpochId (demo_edge a b) = u16 b" "ee_hardEdge (demo_edge a b)"
  by (simp_all add: demo_edge_def)

lemma hard_rel_simps [simp]:
  "hard_rel [] = {}"
  "hard_rel (e # es) = (if ee_hardEdge e then {(ee_fromEpochId e, ee_toEpochId e)} else {}) \<union> hard_rel es"
  by (auto simp: hard_rel_def)

lemma ordered_pairs_exact_witness:
  "(u16 ''a'', u16 ''c'') \<in> set (deriveOrderedPairs [demo_edge ''a'' ''b'', demo_edge ''b'' ''c''])"
proof -
  let ?es = "[demo_edge ''a'' ''b'', demo_edge ''b'' ''c'']"
  have R: "hard_rel ?es = {(u16 ''a'', u16 ''b''), (u16 ''b'', u16 ''c'')}" by auto
  have "(u16 ''a'', u16 ''c'') \<in> (hard_rel ?es)\<^sup>+" unfolding R by (rule trancl_into_trancl) auto
  moreover have "(u16 ''c'', u16 ''a'') \<notin> (hard_rel ?es)\<^sup>+" unfolding R by (auto dest!: tranclD)
  moreover have "\<forall>e \<in> set ?es. 32 \<notin> set (ee_fromEpochId e) \<and> 32 \<notin> set (ee_toEpochId e)"
    by (simp add: u16_def)
  ultimately show ?thesis using ordered_pairs_exact [of ?es] by simp
qed

text \<open>An epoch id with a space. The pair strings are split at the first two spaces, so a hard edge
  from the epoch \<^verbatim>\<open>a b\<close> to the epoch \<^verbatim>\<open>c\<close> is reported as \<^verbatim>\<open>a\<close> before \<^verbatim>\<open>b\<close>: a pair no edge supports,
  while the pair that holds is lost.\<close>

lemma ordered_pairs_space:
  "deriveOrderedPairs [demo_edge ''a b'' ''c''] = [(u16 ''a'', u16 ''b'')]
     \<and> hard_rel [demo_edge ''a b'' ''c''] = {(u16 ''a b'', u16 ''c'')}"
proof
  show "deriveOrderedPairs [demo_edge ''a b'' ''c''] = [(u16 ''a'', u16 ''b'')]" by code_simp
qed simp

text \<open>A first epoch of one proof, and a second whose only proof links to it.\<close>

definition demo_proof :: observed_proof where
  "demo_proof = \<lparr>op_proofHash = u16 ''p1'', op_chainHash = u16 ''h1'', op_proof = JObj [], op_sources = [],
     op_version = u16 ''bitgraph/1'', op_counter = Some (u16 ''2''), op_slotCounter = Some (u16 ''1''), op_prevB64 = None,
     op_epochId = Some (u16 ''e1''), op_chainId = u16 ''global'', op_publicKeyB64 = Some (u16 ''k1''),
     op_measurement = None, op_enforcement = None, op_hasSlotAllocation = True, op_hasAttestation = False,
     op_hasAgency = False, op_hasEpochLink = False, op_embeddedProofHash = EmbeddedAbsent, op_chainless = False,
     op_verification = Some \<lparr>pv_tier = Full, pv_status = Verified, pv_reason = None, pv_artifactPath = None\<rparr>\<rparr>"

definition demo_linked_proof :: observed_proof where
  "demo_linked_proof = demo_proof\<lparr>op_proofHash := u16 ''p2'', op_chainHash := u16 ''h2'', op_epochId := Some (u16 ''e2''),
     op_publicKeyB64 := Some (u16 ''k2''), op_hasEpochLink := True,
     op_proof := JObj [(u16 ''commit'', JObj [(u16 ''epochLink'', JObj [(u16 ''prevEpochId'', JStr (u16 ''e1'')),
       (u16 ''prevPublicKeyB64'', JStr (u16 ''k1'')), (u16 ''prevCounter'', JStr (u16 ''2'')),
       (u16 ''prevProofHashB64'', JStr (u16 ''h1'')), (u16 ''toEpochId'', JStr (u16 ''e2'')),
       (u16 ''toPublicKeyB64'', JStr (u16 ''k2''))])])]\<rparr>"

definition demo_epoch_link :: epoch_link_fields where
  "demo_epoch_link = \<lparr>el_prevEpochId = u16 ''e1'', el_prevPublicKeyB64 = u16 ''k1'', el_prevCounter = u16 ''2'',
     el_prevProofHashB64 = u16 ''h1'', el_toEpochId = u16 ''e2'', el_toPublicKeyB64 = u16 ''k2''\<rparr>"

definition no_crypto :: crypto where
  "no_crypto = \<lparr>c_sha256 = demo_hash, c_ed_verify = (\<lambda>_ _ _. Inr False), c_p256_verify = (\<lambda>_ _ _. Inr False),
     c_json_parse = (\<lambda>_. None), c_url_host = (\<lambda>_. None)\<rparr>"

lemma demo_epoch_link_read: "extractEpochLink demo_linked_proof = Some demo_epoch_link"
  by (simp add: extractEpochLink_def demo_linked_proof_def demo_epoch_link_def)

lemma demo_pair_valid [simp]: "isIntrinsicallyValid C demo_proof" "isIntrinsicallyValid C demo_linked_proof"
  by (simp_all add: isIntrinsicallyValid_def demo_proof_def demo_linked_proof_def)

lemma demo_edge_hard: "ee_hardEdge (analyzeEdge C demo_epoch_link demo_linked_proof (index_by op_chainHash [demo_proof, demo_linked_proof]) accs hs ms)"
  unfolding analyzeEdge_hard
  by (rule exI [of _ demo_proof])
     (simp add: index_by_def demo_epoch_link_def demo_proof_def demo_linked_proof_def edge_consistent countersEqual_def
       isIntrinsicallyValid_def)

lemma demo_has_edge:
  "\<exists>r e. reconstructChains C [demo_proof, demo_linked_proof] = Some r \<and> e \<in> set (er_edges (rc_epochs r)) \<and> ee_hardEdge e"
proof -
  obtain r hs ms where r: "reconstructChains C [demo_proof, demo_linked_proof] = Some r"
    "rc_epochs r = buildEpochRelationships C [demo_proof, demo_linked_proof] (rc_partitions r) hs ms"
    using reconstruct_parts [of C "[demo_proof, demo_linked_proof]"] by metis
  have "op_hasEpochLink demo_linked_proof" by (simp add: demo_linked_proof_def)
  then have "analyzeEdge C demo_epoch_link demo_linked_proof (index_by op_chainHash [demo_proof, demo_linked_proof])
      (fold accumulate_epoch (rc_partitions r) []) hs ms \<in> set (er_edges (rc_epochs r))"
    unfolding r(2) by (simp add: buildEpochRelationships_def Let_def List.map_filter_def demo_epoch_link_read)
  then show ?thesis using r(1) demo_edge_hard by blast
qed

lemma hard_edge_sound_witness:
  "\<exists>r (e :: epoch_edge). \<exists>(via :: observed_proof) (pred :: observed_proof). reconstructChains no_crypto [demo_proof, demo_linked_proof] = Some r \<and> ee_hardEdge e
     \<and> ee_viaProofHash e = op_proofHash via \<and> op_epochId pred = Some (ee_fromEpochId e)"
proof -
  obtain r e where re: "reconstructChains no_crypto [demo_proof, demo_linked_proof] = Some r"
    "e \<in> set (er_edges (rc_epochs r))" "ee_hardEdge e"
    using demo_has_edge [of no_crypto] by blast
  from hard_edge_sound [OF re] have "\<exists>(via :: observed_proof) (pred :: observed_proof). ee_viaProofHash e = op_proofHash via
      \<and> op_epochId pred = Some (ee_fromEpochId e)" by blast
  with re(1,3) show ?thesis by blast
qed

end
