(* ===== verification/BG_Player.thy ===== *)
theory BG_Player
  imports BG_Js
begin

text \<open>
  \<^verbatim>\<open>packages/player/src/logic.ts\<close>, \<^verbatim>\<open>types.ts\<close> and \<^verbatim>\<open>rule.ts\<close>: the three-valued connectives, the
  evidence tiers, the spellings of a digest and the strict parser of rule files. The parser works on
  the value \<^verbatim>\<open>JSON.parse\<close> returned (\<open>None\<close> when it threw); issues are the code's texts without the
  interpolated places and names.
\<close>

subsection \<open>Strong Kleene connectives\<close>

datatype three = TRUE | FALSE | UNDETERMINED

definition kleeneNot :: "three \<Rightarrow> three" where
  "kleeneNot v = (if v = TRUE then FALSE else if v = FALSE then TRUE else UNDETERMINED)"

fun kleene_all_loop :: "bool \<Rightarrow> three list \<Rightarrow> three" where
  "kleene_all_loop saw [] = (if saw then UNDETERMINED else TRUE)"
| "kleene_all_loop saw (v # vs) =
     (if v = FALSE then FALSE else kleene_all_loop (saw \<or> v = UNDETERMINED) vs)"

definition kleeneAll :: "three list \<Rightarrow> three" where
  "kleeneAll values = kleene_all_loop False values"

fun kleene_any_loop :: "bool \<Rightarrow> three list \<Rightarrow> three" where
  "kleene_any_loop saw [] = (if saw then UNDETERMINED else FALSE)"
| "kleene_any_loop saw (v # vs) =
     (if v = TRUE then TRUE else kleene_any_loop (saw \<or> v = UNDETERMINED) vs)"

definition kleeneAny :: "three list \<Rightarrow> three" where
  "kleeneAny values = kleene_any_loop False values"

subsection \<open>Evidence tiers\<close>

datatype evidence_tier = HashLinked | AssumptionDependent

datatype order_basis = ChainLink | CounterOrder | EpochLineage | AnchorBounds

definition basisTier :: "order_basis \<Rightarrow> evidence_tier" where
  "basisTier b = (case b of ChainLink \<Rightarrow> HashLinked | EpochLineage \<Rightarrow> HashLinked
     | CounterOrder \<Rightarrow> AssumptionDependent | AnchorBounds \<Rightarrow> AssumptionDependent)"

definition meetsFloor :: "evidence_tier \<Rightarrow> evidence_tier \<Rightarrow> bool" where
  "meetsFloor tier floor \<longleftrightarrow> floor = AssumptionDependent \<or> tier = HashLinked"

subsection \<open>Digest spellings\<close>

definition HEX64 :: "jsstr \<Rightarrow> bool" where
  "HEX64 s \<longleftrightarrow> length s = 64 \<and> list_all (\<lambda>c. unit_digit c \<noteq> None) s"

fun hex_decode :: "jsstr \<Rightarrow> bytes" where
  "hex_decode (c # d # s) = of_nat (the (unit_digit c) * 16 + the (unit_digit d)) # hex_decode s"
| "hex_decode _ = []"

definition alnum_unit :: "16 word \<Rightarrow> bool" where
  "alnum_unit c \<longleftrightarrow> (65 \<le> c \<and> c \<le> 90) \<or> (97 \<le> c \<and> c \<le> 122) \<or> (48 \<le> c \<and> c \<le> 57)"

definition std_unit :: "16 word \<Rightarrow> bool" where
  "std_unit c \<longleftrightarrow> alnum_unit c \<or> c = 43 \<or> c = 47"

definition url_unit :: "16 word \<Rightarrow> bool" where
  "url_unit c \<longleftrightarrow> alnum_unit c \<or> c = 95 \<or> c = 45"

definition B64_STD :: "jsstr \<Rightarrow> bool" where
  "B64_STD s \<longleftrightarrow> length s = 44 \<and> list_all std_unit (take 43 s) \<and> s ! 43 = 61"

definition B64_URL :: "jsstr \<Rightarrow> bool" where
  "B64_URL s \<longleftrightarrow> list_all url_unit (take 43 s) \<and> (length s = 43 \<or> (length s = 44 \<and> s ! 43 = 61))"

text \<open>\<^verbatim>\<open>s.replace(/=+$/, "")\<close>\<close>

definition strip_pad :: "jsstr \<Rightarrow> jsstr" where
  "strip_pad s = rev (dropWhile (\<lambda>c. c = 61) (rev s))"

definition b64url_encode :: "bytes \<Rightarrow> jsstr" where
  "b64url_encode b = map (\<lambda>c. if c = 43 then 45 else if c = 47 then 95 else c) (strip_pad (b64_encode b))"

definition lower_unit :: "16 word \<Rightarrow> 16 word" where
  "lower_unit c = (if 65 \<le> c \<and> c \<le> 90 then c + 32 else c)"

definition strip_prefix :: "jsstr \<Rightarrow> jsstr" where
  "strip_prefix s = (if take 7 (map lower_unit s) = u16 ''sha256:'' then drop 7 s else s)"

definition normalizeDigest :: "jsstr \<Rightarrow> jsstr option" where
  "normalizeDigest input = (let s = strip_prefix (js_trim input); bytes = b64_decode s in
     if HEX64 s then Some (b64_encode (hex_decode s))
     else if B64_STD s then (if length bytes = 32 \<and> b64_encode bytes = s then Some s else None)
     else if B64_URL s then (if length bytes = 32 \<and> b64url_encode bytes = strip_pad s then Some (b64_encode bytes) else None)
     else None)"

text \<open>One or more characters of the alphabet, then any number of \<^verbatim>\<open>=\<close>.\<close>

definition padded :: "(16 word \<Rightarrow> bool) \<Rightarrow> jsstr \<Rightarrow> bool" where
  "padded P s \<longleftrightarrow> strip_pad s \<noteq> [] \<and> list_all P (strip_pad s)"

definition decodeDigestBytes :: "jsstr \<Rightarrow> bytes option" where
  "decodeDigestBytes input = (let s = js_trim input; bytes = b64_decode s in
     if HEX64 s then Some (hex_decode s)
     else if padded std_unit s \<or> padded url_unit s then (if length bytes = 32 then Some bytes else None)
     else None)"

subsection \<open>Rules\<close>

datatype cast_pin = PinHash jsstr | PinPosition jsstr jsstr

record cast_entry =
  ce_digest :: jsstr
  ce_means :: "jsstr option"
  ce_at :: "cast_pin option"
  ce_signedBy :: "jv option"
  ce_optional :: "bool option"

datatype claim =
    Exists jsstr | Before jsstr jsstr | After jsstr jsstr | Between jsstr jsstr jsstr
  | AllOf "claim list" | AnyOf "claim list" | NotOf claim | SignedBy jsstr jsstr

datatype rule_format = Player1 | Player2

record trusted_key =
  tk_alg :: jsstr
  tk_publicKey :: jsstr

record rule =
  r_format :: rule_format
  r_id :: jsstr
  r_cast :: "(jsstr \<times> cast_entry) list"
  r_ordering :: evidence_tier
  r_trustedKeys :: "(jsstr \<times> trusted_key) list option"
  r_claim :: claim
  r_then :: "jsstr option"

type_synonym issues = "string list"

definition rejectUnknownKeys :: "(jsstr \<times> jv) list \<Rightarrow> jsstr list \<Rightarrow> issues" where
  "rejectUnknownKeys obj allowed = concat (map (\<lambda>q. if fst q \<in> set allowed then [] else [''unknown field'']) obj)"

definition all_digits :: "jsstr \<Rightarrow> bool" where
  "all_digits s \<longleftrightarrow> s \<noteq> [] \<and> list_all digit_unit s"

definition role_name :: "jsstr \<Rightarrow> bool" where
  "role_name s \<longleftrightarrow> s \<noteq> [] \<and> list_all (\<lambda>c. alnum_unit c \<or> c = 95 \<or> c = 46 \<or> c = 45) s"

abbreviation has :: "string \<Rightarrow> (jsstr \<times> jv) list \<Rightarrow> bool" where
  "has k ps \<equiv> u16 k \<in> fst ` set ps"

definition parsePin :: "jv \<Rightarrow> cast_pin option \<times> issues" where
  "parsePin v = (case v of
     JObj ps \<Rightarrow>
       if has ''proofHash'' ps \<and> (has ''epochId'' ps \<or> has ''counter'' ps)
       then (None, [''\"at\" must be {proofHash} or {epochId, counter}, not both''])
       else if has ''proofHash'' ps then
         (let unk = rejectUnknownKeys ps [u16 ''proofHash''] in
          if nonempty_str (fld v ''proofHash'') then (Some (PinHash (str_of (fld v ''proofHash''))), unk)
          else (None, unk @ [''\"at.proofHash\" must be a non-empty string'']))
       else if has ''epochId'' ps \<or> has ''counter'' ps then
         (let unk = rejectUnknownKeys ps [u16 ''epochId'', u16 ''counter''] in
          if \<not> nonempty_str (fld v ''epochId'') then (None, unk @ [''\"at.epochId\" must be a non-empty string''])
          else if \<not> (is_str (fld v ''counter'') \<and> all_digits (str_of (fld v ''counter'')))
          then (None, unk @ [''\"at.counter\" must be a decimal string''])
          else (Some (PinPosition (str_of (fld v ''epochId'')) (str_of (fld v ''counter''))), unk))
       else (None, [''\"at\" must be {proofHash} or {epochId, counter}''])
   | _ \<Rightarrow> (None, [''\"at\" must be an object'']))"

definition parseCastEntry :: "jv \<Rightarrow> cast_entry option \<times> issues" where
  "parseCastEntry v = (case v of
     JObj ps \<Rightarrow>
       (let unk = rejectUnknownKeys ps (map u16 [''digest'', ''means'', ''at'', ''signedBy'', ''optional'']);
            digest = fld v ''digest'' in
        if \<not> is_str digest then (None, unk @ [''\"digest\" is required and must be a string''])
        else if normalizeDigest (str_of digest) = None
        then (None, unk @ [''\"digest\" is not a well-formed 32-byte SHA-256 in any accepted spelling''])
        else let (at, at_issues) = (if has ''at'' ps then parsePin (fld v ''at'') else (None, [])) in
          (Some \<lparr>ce_digest = str_of digest,
             ce_means = (if has ''means'' ps \<and> is_str (fld v ''means'') then Some (str_of (fld v ''means'')) else None),
             ce_at = at,
             ce_signedBy = (if has ''signedBy'' ps then Some (fld v ''signedBy'') else None),
             ce_optional = (case fld v ''optional'' of JBool b \<Rightarrow> Some b | _ \<Rightarrow> None)\<rparr>,
           unk @ (if has ''means'' ps \<and> \<not> is_str (fld v ''means'') then [''\"means\" must be a string''] else [])
             @ at_issues
             @ (if has ''optional'' ps \<and> (\<nexists>b. fld v ''optional'' = JBool b) then [''\"optional\" must be a boolean''] else [])))
   | _ \<Rightarrow> (None, [''must be an object'']))"

text \<open>Two or three role names.\<close>

definition roles :: "jv \<Rightarrow> nat \<Rightarrow> jsstr list option" where
  "roles body n = (case body of JArr xs \<Rightarrow> if length xs = n \<and> list_all is_str xs then Some (map str_of xs) else None
     | _ \<Rightarrow> None)"

text \<open>The end of the \<^verbatim>\<open>all\<close> and \<^verbatim>\<open>any\<close> cases: every child's issues, and the claim when all parsed.\<close>

definition claims_of :: "(claim list \<Rightarrow> claim) \<Rightarrow> (claim option \<times> issues) list \<Rightarrow> claim option \<times> issues" where
  "claims_of con rs = (if list_all (\<lambda>r. fst r \<noteq> None) rs then Some (con (map (\<lambda>r. the (fst r)) rs)) else None,
     concat (map snd rs))"

fun parseClaim :: "nat \<Rightarrow> rule_format \<Rightarrow> jv \<Rightarrow> claim option \<times> issues" where
  "parseClaim depth format (JObj [(op, body)]) =
     (if 32 < depth then (None, [''claim nesting exceeds the maximum depth of 32''])
      else if op = u16 ''exists'' then
        (if nonempty_str body then (Some (Exists (str_of body)), []) else (None, [''must be a role name'']))
      else if op = u16 ''before'' \<or> op = u16 ''after'' then
        (case roles body 2 of Some [x, y] \<Rightarrow> (Some (if op = u16 ''before'' then Before x y else After x y), [])
         | _ \<Rightarrow> (None, [''must be a two-element array of role names'']))
      else if op = u16 ''between'' then
        (case roles body 3 of Some [s, l, u] \<Rightarrow> (Some (Between s l u), [])
         | _ \<Rightarrow> (None, [''must be [subject, lowerRole, upperRole]'']))
      else if op = u16 ''all'' \<or> op = u16 ''any'' then
        (case body of JArr (x # xs) \<Rightarrow>
           claims_of (if op = u16 ''all'' then AllOf else AnyOf) (map (parseClaim (depth + 1) format) (x # xs))
         | _ \<Rightarrow> (None, [''must be a non-empty array of claims'']))
      else if op = u16 ''not'' then
        (let (c, issues) = parseClaim (depth + 1) format body in (map_option NotOf c, issues))
      else if op = u16 ''signedBy'' then
        (if format \<noteq> Player2 then (None, [''signedBy: requires rule format \"bitgraph-player/2\"''])
         else case roles body 2 of Some [r, k] \<Rightarrow> (Some (SignedBy r k), [])
           | _ \<Rightarrow> (None, [''must be [roleName, trustedKeyName]'']))
      else (None, [''unknown operator'']))"
| "parseClaim depth format (JObj ps) =
     (None, [if 32 < depth then ''claim nesting exceeds the maximum depth of 32'' else ''a claim must have exactly one operator''])"
| "parseClaim depth format v =
     (None, [if 32 < depth then ''claim nesting exceeds the maximum depth of 32'' else ''must be an object''])"

fun referenced_keys :: "claim \<Rightarrow> jsstr list" where
  "referenced_keys (SignedBy r k) = [k]"
| "referenced_keys (AllOf cs) = concat (map referenced_keys cs)"
| "referenced_keys (AnyOf cs) = concat (map referenced_keys cs)"
| "referenced_keys (NotOf c) = referenced_keys c"
| "referenced_keys _ = []"

definition parse_role :: "jsstr \<times> jv \<Rightarrow> (jsstr \<times> cast_entry) list \<times> issues" where
  "parse_role q = (let role = fst q in
     if \<not> role_name role then ([], [''role name must match [A-Za-z0-9_.-]+''])
     else if all_digits role then ([], [''role name must contain at least one non-digit character''])
     else let (e, issues) = parseCastEntry (snd q) in
       ((case e of Some e' \<Rightarrow> [(role, e')] | None \<Rightarrow> []), issues))"

definition parse_cast :: "jv \<Rightarrow> (jsstr \<times> cast_entry) list \<times> issues" where
  "parse_cast v = (case v of
     JObj (p # ps) \<Rightarrow> (concat (map (\<lambda>q. fst (parse_role q)) (p # ps)), concat (map (\<lambda>q. snd (parse_role q)) (p # ps)))
   | _ \<Rightarrow> ([], [''\"cast\" is required and must declare at least one role'']))"

definition parse_key :: "jsstr \<times> jv \<Rightarrow> (jsstr \<times> trusted_key) list \<times> issues" where
  "parse_key q = (let name = fst q; entry = snd q in
     if \<not> role_name name \<or> all_digits name
     then ([], [''key name must match [A-Za-z0-9_.-]+ with at least one non-digit''])
     else case entry of
       JObj es \<Rightarrow>
         (let unk = rejectUnknownKeys es [u16 ''alg'', u16 ''publicKey''];
              alg = fld entry ''alg''; publicKey = fld entry ''publicKey'' in
          if alg \<noteq> JStr (u16 ''ed25519'') \<and> alg \<noteq> JStr (u16 ''es256'')
          then ([], unk @ [''\"alg\" must be \"ed25519\" or \"es256\"''])
          else if \<not> nonempty_str publicKey
          then ([], unk @ [''\"publicKey\" is required and must be a non-empty string''])
          else ([(name, \<lparr>tk_alg = str_of alg, tk_publicKey = str_of publicKey\<rparr>)], unk))
     | _ \<Rightarrow> ([], [''must be an object'']))"

definition parse_trusted :: "rule_format \<Rightarrow> (jsstr \<times> jv) list \<Rightarrow> jv \<Rightarrow> (jsstr \<times> trusted_key) list option \<times> issues" where
  "parse_trusted format raw v =
     (if \<not> has ''trustedKeys'' raw then (None, [])
      else if format \<noteq> Player2 then (None, [''\"trustedKeys\" requires rule format \"bitgraph-player/2\"''])
      else case v of
        JObj (p # ps) \<Rightarrow> (Some (concat (map (\<lambda>q. fst (parse_key q)) (p # ps))),
          concat (map (\<lambda>q. snd (parse_key q)) (p # ps)))
      | _ \<Rightarrow> (None, [''\"trustedKeys\" must be an object naming at least one key'']))"

definition parse_ordering :: "jv \<Rightarrow> evidence_tier option \<times> issues" where
  "parse_ordering v = (case v of
     JObj ps \<Rightarrow>
       (let unk = rejectUnknownKeys ps [u16 ''ordering''] in
        if fld v ''ordering'' = JStr (u16 ''hash-linked'') then (Some HashLinked, unk)
        else if fld v ''ordering'' = JStr (u16 ''assumption-dependent'') then (Some AssumptionDependent, unk)
        else (None, unk @ [''requires.ordering must be \"hash-linked\" or \"assumption-dependent\"'']))
   | _ \<Rightarrow> (None, [''\"requires\" is required: a rule must declare its trust floor via requires.ordering'']))"

definition parse_then :: "(jsstr \<times> jv) list \<Rightarrow> jv \<Rightarrow> jsstr option \<times> issues" where
  "parse_then raw v =
     (if \<not> has ''then'' raw then (None, [])
      else case v of
        JObj ps \<Rightarrow>
          (let unk = rejectUnknownKeys ps [u16 ''label''] in
           if nonempty_str (fld v ''label'') then (Some (str_of (fld v ''label'')), unk)
           else (None, unk @ [''then.label must be a non-empty string'']))
      | _ \<Rightarrow> (None, [''\"then\" must be an object'']))"

definition undeclared_keys :: "claim option \<Rightarrow> (jsstr \<times> trusted_key) list option \<Rightarrow> issues" where
  "undeclared_keys c keys = (case c of None \<Rightarrow> []
     | Some c' \<Rightarrow> concat (map (\<lambda>k. if (case keys of None \<Rightarrow> False | Some ks \<Rightarrow> k \<in> fst ` set ks) then []
         else [''signedBy references a trusted key which trustedKeys does not declare'']) (referenced_keys c')))"

text \<open>\<open>Inl\<close> are the issues of the \<^verbatim>\<open>RuleError\<close>.\<close>

definition parseRule :: "jv option \<Rightarrow> issues + rule" where
  "parseRule parsed = (case parsed of
     None \<Rightarrow> Inl [''not valid JSON'']
   | Some (JObj raw) \<Rightarrow>
      (let v = JObj raw;
           unk = rejectUnknownKeys raw (map u16 [''rule'', ''id'', ''cast'', ''world'', ''requires'', ''trustedKeys'', ''claim'', ''then'']);
           format = (if fld v ''rule'' = JStr (u16 ''bitgraph-player/2'') then Player2 else Player1);
           i_format = (if fld v ''rule'' \<in> {JStr (u16 ''bitgraph-player/1''), JStr (u16 ''bitgraph-player/2'')} then []
             else [''\"rule\" must be \"bitgraph-player/1\" or \"bitgraph-player/2\"'']);
           i_id = (if nonempty_str (fld v ''id'') then [] else [''\"id\" is required and must be a non-empty string'']);
           i_world = (if fld v ''world'' = JStr (u16 ''closed'') then [] else [''\"world\" is required and must be exactly \"closed\"'']);
           (ordering, i_ord) = parse_ordering (fld v ''requires'');
           (cast, i_cast) = parse_cast (fld v ''cast'');
           (keys, i_keys) = parse_trusted format raw (fld v ''trustedKeys'');
           (claim, i_claim) = (if has ''claim'' raw then parseClaim 0 format (fld v ''claim'') else (None, [''\"claim\" is required'']));
           (label, i_then) = parse_then raw (fld v ''then'');
           issues = unk @ i_format @ i_id @ i_world @ i_ord @ i_cast @ i_keys @ i_claim @ undeclared_keys claim keys @ i_then
       in if issues \<noteq> [] then Inl issues
          else Inr \<lparr>r_format = format, r_id = str_of (fld v ''id''), r_cast = cast, r_ordering = the ordering,
            r_trustedKeys = keys, r_claim = the claim, r_then = label\<rparr>)
   | Some _ \<Rightarrow> Inl [''rule file must be a JSON object''])"

end
