(* ===== verification/BG_Order.thy ===== *)
theory BG_Order
  imports BG_Lineages BG_Player
begin

text \<open>
  \<^verbatim>\<open>packages/player/src/order.ts\<close>: the order of two recordings, with the evidence it rests on. A
  partition is named by its index in \<^verbatim>\<open>reconstruction.partitions\<close>, as the code compares them by
  identity.
\<close>

datatype order_relation = RBefore | RAfter | RSame | RUnordered

record order_result =
  or_relation :: order_relation
  or_basis :: "order_basis option"
  or_tier :: "evidence_tier option"
  or_assumptionDependent :: bool
  or_weaker :: bool
  or_detail :: jsstr

definition unordered :: "jsstr \<Rightarrow> order_result" where
  "unordered detail = \<lparr>or_relation = RUnordered, or_basis = None, or_tier = None,
     or_assumptionDependent = False, or_weaker = False, or_detail = detail\<rparr>"

subsection \<open>Lookups\<close>

fun find_index :: "('a \<Rightarrow> bool) \<Rightarrow> 'a list \<Rightarrow> nat option" where
  "find_index P [] = None"
| "find_index P (x # xs) = (if P x then Some 0 else map_option Suc (find_index P xs))"

abbreviation partitions :: "audit_result \<Rightarrow> chain_partition list" where
  "partitions audit \<equiv> rc_partitions (au_reconstruction audit)"

definition partitionOf :: "audit_result \<Rightarrow> jsstr \<Rightarrow> nat option" where
  "partitionOf audit h = find_index (\<lambda>p. h \<in> set (cp_memberProofHashes p)) (partitions audit)"

definition segmentOf :: "audit_result \<Rightarrow> jsstr \<Rightarrow> temporal_segment option" where
  "segmentOf audit h = find (\<lambda>s. h \<in> set (ts_memberProofHashes s)) (au_segments audit)"

definition proofsByHash :: "audit_result \<Rightarrow> jsstr \<Rightarrow> observed_proof option" where
  "proofsByHash audit = index_by op_proofHash (au_proofs audit)"

definition part_members :: "audit_result \<Rightarrow> nat \<Rightarrow> jsstr list" where
  "part_members audit i = cp_memberProofHashes (partitions audit ! i)"

definition chainHashIndex :: "audit_result \<Rightarrow> nat \<Rightarrow> jsstr \<Rightarrow> observed_proof option" where
  "chainHashIndex audit i = index_by op_chainHash (List.map_filter (proofsByHash audit) (part_members audit i))"

subsection \<open>Directed paths\<close>

text \<open>The observed predecessor inside the partition.\<close>

definition parent_in :: "jsstr list \<Rightarrow> (jsstr \<Rightarrow> observed_proof option) \<Rightarrow> observed_proof \<Rightarrow> observed_proof option" where
  "parent_in members byChainHash current = (case op_prevB64 current of None \<Rightarrow> None
     | Some prev \<Rightarrow> (case byChainHash prev of None \<Rightarrow> None
         | Some parent \<Rightarrow> if op_proofHash parent \<in> set members then Some parent else None))"

function ancestor_walk :: "jsstr \<Rightarrow> jsstr list \<Rightarrow> (jsstr \<Rightarrow> observed_proof option) \<Rightarrow> jsstr list \<Rightarrow> observed_proof \<Rightarrow> bool" where
  "ancestor_walk target members byChainHash visited current =
     (case parent_in members byChainHash current of None \<Rightarrow> False
      | Some parent \<Rightarrow>
         if op_proofHash parent \<in> set visited then False
         else if op_proofHash parent = target then True
         else ancestor_walk target members byChainHash (visited @ [op_proofHash parent]) parent)"
  by pat_completeness auto

lemma parent_in_member: "parent_in ms idx c = Some p \<Longrightarrow> op_proofHash p \<in> set ms"
  by (auto simp: parent_in_def split: option.splits if_splits)

termination ancestor_walk
proof (relation "measure (\<lambda>(_, members, _, visited, _). card (set members - set visited))", goal_cases)
  case (2 target members idx visited current parent)
  then show ?case by (auto intro!: psubset_card_mono dest: parent_in_member)
qed simp

declare ancestor_walk.simps [simp del]

definition isDirectedAncestor :: "observed_proof \<Rightarrow> observed_proof \<Rightarrow> audit_result \<Rightarrow> nat \<Rightarrow> bool" where
  "isDirectedAncestor ancestor descendant audit i =
     ancestor_walk (op_proofHash ancestor) (part_members audit i) (chainHashIndex audit i) [] descendant"

subsection \<open>Epoch lineage\<close>

definition partition_key_string :: "partition_key \<Rightarrow> jsstr" where
  "partition_key_string key = js_stringify (JObj ([(u16 ''publicKeyB64'', JStr (pk_publicKeyB64 key))]
     @ (case pk_epochId key of None \<Rightarrow> [] | Some e \<Rightarrow> [(u16 ''epochId'', JStr e)])
     @ [(u16 ''chainId'', JStr (pk_chainId key))]))"

definition key_string :: "audit_result \<Rightarrow> nat \<Rightarrow> jsstr" where
  "key_string audit i = partition_key_string (cp_key (partitions audit ! i))"

definition usable_edges :: "audit_result \<Rightarrow> epoch_edge list" where
  "usable_edges audit = filter (\<lambda>e. ee_hardEdge e \<and> ee_predecessorProofHash e \<noteq> None)
     (er_edges (rc_epochs (au_reconstruction audit)))"

definition edge_pred :: "audit_result \<Rightarrow> epoch_edge \<Rightarrow> observed_proof option" where
  "edge_pred audit e = proofsByHash audit (the (ee_predecessorProofHash e))"

definition hop_tier :: "observed_proof \<Rightarrow> observed_proof \<Rightarrow> audit_result \<Rightarrow> nat \<Rightarrow> evidence_tier option" where
  "hop_tier a pred audit partA =
     (if op_proofHash pred = op_proofHash a \<or> isDirectedAncestor a pred audit partA then Some HashLinked
      else case (parseCounter (op_counter a), parseCounter (op_counter pred)) of
        (Some ca, Some cp) \<Rightarrow> if ca < cp then Some AssumptionDependent else None
      | _ \<Rightarrow> None)"

definition first_hop :: "observed_proof \<Rightarrow> nat \<Rightarrow> audit_result \<Rightarrow> epoch_edge \<Rightarrow> (jsstr \<times> evidence_tier) option" where
  "first_hop a partA audit edge = do {
     pred \<leftarrow> edge_pred audit edge;
     predPartition \<leftarrow> partitionOf audit (op_proofHash pred);
     if predPartition \<noteq> partA then None else do {
       hopTier \<leftarrow> hop_tier a pred audit partA;
       viaPartition \<leftarrow> partitionOf audit (ee_viaProofHash edge);
       Some (key_string audit viaPartition, hopTier) } }"

text \<open>The partitions a later edge leads from and to.\<close>

definition later_hop :: "audit_result \<Rightarrow> epoch_edge \<Rightarrow> (jsstr \<times> jsstr) option" where
  "later_hop audit edge = do {
     pred \<leftarrow> edge_pred audit edge;
     predPartition \<leftarrow> partitionOf audit (op_proofHash pred);
     viaPartition \<leftarrow> partitionOf audit (ee_viaProofHash edge);
     Some (key_string audit predPartition, key_string audit viaPartition) }"

definition tier_weight :: "evidence_tier option \<Rightarrow> nat" where
  "tier_weight t = (case t of None \<Rightarrow> 2 | Some AssumptionDependent \<Rightarrow> 1 | Some HashLinked \<Rightarrow> 0)"

function lineage_bfs :: "(jsstr \<times> jsstr) list \<Rightarrow> jsstr \<Rightarrow> (jsstr \<Rightarrow> evidence_tier option)
    \<Rightarrow> (jsstr \<times> evidence_tier) list \<Rightarrow> evidence_tier option \<Rightarrow> evidence_tier option" where
  "lineage_bfs hops target seen [] best = best"
| "lineage_bfs hops target seen ((key, tier) # queue) best =
     (if seen key = Some HashLinked \<or> seen key = Some tier then lineage_bfs hops target seen queue best
      else let seen' = seen(key \<mapsto> tier) in
        if key = target then
          (if tier = HashLinked then Some HashLinked
           else lineage_bfs hops target seen' queue (if best = None then Some tier else best))
        else lineage_bfs hops target seen'
          (queue @ map (\<lambda>h. (snd h, tier)) (filter (\<lambda>h. fst h = key) hops)) best)"
  by pat_completeness auto

definition bfs_weight :: "(jsstr \<times> jsstr) list \<Rightarrow> (jsstr \<Rightarrow> evidence_tier option) \<Rightarrow> nat" where
  "bfs_weight hops seen = (\<Sum>k \<in> fst ` set hops. tier_weight (seen k))"

lemma tier_weight_upgrade:
  "\<not> (t0 = Some HashLinked \<or> t0 = Some t) \<Longrightarrow> tier_weight (Some t) < tier_weight t0"
  by (cases t0; cases t; auto simp: tier_weight_def split: evidence_tier.splits)

lemma bfs_weight_le:
  assumes "\<not> (seen k = Some HashLinked \<or> seen k = Some t)"
  shows "bfs_weight hops (seen(k \<mapsto> t)) \<le> bfs_weight hops seen"
  unfolding bfs_weight_def using tier_weight_upgrade [OF assms] by (intro sum_mono) (auto intro: less_imp_le)

lemma bfs_weight_less:
  assumes "\<not> (seen k = Some HashLinked \<or> seen k = Some t)" and "k \<in> fst ` set hops"
  shows "bfs_weight hops (seen(k \<mapsto> t)) < bfs_weight hops seen"
  unfolding bfs_weight_def using tier_weight_upgrade [OF assms(1)] assms(2)
  by (intro sum_strict_mono_ex1) (auto intro: less_imp_le)

lemma bfs_step:
  assumes "\<not> (seen k = Some HashLinked \<or> seen k = Some t)"
  shows "bfs_weight hops (seen(k \<mapsto> t)) < bfs_weight hops seen
    \<or> bfs_weight hops (seen(k \<mapsto> t)) = bfs_weight hops seen \<and> filter (\<lambda>h. fst h = k) hops = []"
proof (cases "k \<in> fst ` set hops")
  case True
  then show ?thesis using bfs_weight_less [of seen k t hops] assms by blast
next
  case False
  then have "filter (\<lambda>h. fst h = k) hops = []" by (force simp: filter_empty_conv)
  then show ?thesis using bfs_weight_le [of seen k t hops] assms by linarith
qed

termination lineage_bfs
proof (relation "measures [\<lambda>(hops, _, seen, _, _). bfs_weight hops seen, \<lambda>(_, _, _, queue, _). length queue]", goal_cases)
  case (3 hops target seen key tier queue best)
  then show ?case using bfs_weight_le [of seen key tier hops] by (auto simp: le_eq_less_or_eq)
next
  case (4 hops target seen key tier queue best)
  then show ?case using bfs_step [of seen key tier hops] by auto
qed auto

declare lineage_bfs.simps(2) [simp del]

definition lineagePrecedes :: "observed_proof \<Rightarrow> nat \<Rightarrow> nat \<Rightarrow> audit_result \<Rightarrow> evidence_tier option" where
  "lineagePrecedes a partA partB audit =
     (let edges = usable_edges audit in
      lineage_bfs (List.map_filter (later_hop audit) edges) (key_string audit partB) (\<lambda>_. None)
        (List.map_filter (first_hop a partA audit) edges) None)"

subsection \<open>Anchor bounds\<close>

definition boundsStrictlyOrdered :: "segment_bound \<Rightarrow> segment_bound \<Rightarrow> bool" where
  "boundsStrictlyOrdered upper lower =
     (case (sb_blockNumber upper, sb_blockNumber lower) of
        (Some u, Some l) \<Rightarrow> u < l
      | _ \<Rightarrow> sb_timestamp upper < sb_timestamp lower)"

definition isFloorBound :: "segment_bound \<Rightarrow> bool" where
  "isFloorBound b = sb_signedFloor b"

text \<open>The best pair so far: whether it is weaker, and its two bounds.\<close>

type_synonym anchor_hit = "(bool \<times> segment_bound \<times> segment_bound) option"

definition better_hit :: "segment_bound \<Rightarrow> segment_bound \<Rightarrow> anchor_hit \<Rightarrow> anchor_hit" where
  "better_hit upper lower best =
     (if isFloorBound upper \<or> isFloorBound lower \<or> \<not> boundsStrictlyOrdered upper lower then best
      else let weaker = (sb_weaker upper \<or> sb_weaker lower) in
        case best of None \<Rightarrow> Some (weaker, upper, lower)
        | Some (w, _, _) \<Rightarrow> if w \<and> \<not> weaker then Some (weaker, upper, lower) else best)"

definition anchorPrecedes :: "temporal_segment \<Rightarrow> temporal_segment \<Rightarrow> anchor_hit" where
  "anchorPrecedes firstSegment secondSegment =
     fold (\<lambda>upper. fold (better_hit upper) (ts_lowerBounds secondSegment)) (ts_upperBounds firstSegment) None"

subsection \<open>Comparing two recordings\<close>

definition compare_counters :: "observed_proof \<Rightarrow> observed_proof \<Rightarrow> order_result" where
  "compare_counters a b = (case (parseCounter (op_counter a), parseCounter (op_counter b)) of
     (Some ca, Some cb) \<Rightarrow>
       if ca = cb then unordered (u16 ''two distinct recordings claim the same commit counter in one partition: an anomaly, not an order'')
       else \<lparr>or_relation = (if ca < cb then RBefore else RAfter), or_basis = Some CounterOrder,
         or_tier = Some AssumptionDependent, or_assumptionDependent = True, or_weaker = True,
         or_detail = u16 ''no prevB64 path in the bundle connects the recordings; commit counters '' @ the (op_counter a)
           @ u16 '' vs '' @ the (op_counter b) @ u16 '' rest on the authority's counter discipline''\<rparr>
   | _ \<Rightarrow> unordered (u16 ''no prevB64 path connects the recordings and at least one carries no parseable strict-decimal commit counter''))"

definition contradicts :: "nat option \<Rightarrow> nat option \<Rightarrow> bool" where
  "contradicts ca cb = (case (ca, cb) of (Some m, Some n) \<Rightarrow> n \<le> m | _ \<Rightarrow> False)"

definition compare_within :: "observed_proof \<Rightarrow> observed_proof \<Rightarrow> audit_result \<Rightarrow> nat \<Rightarrow> order_result" where
  "compare_within a b audit i =
     (let aBeforeB = isDirectedAncestor a b audit i; bBeforeA = isDirectedAncestor b a audit i;
          ca = parseCounter (op_counter a); cb = parseCounter (op_counter b) in
      if aBeforeB \<and> bBeforeA then unordered (u16 ''prevB64 links form a cycle between these recordings: an anomaly, not an order'')
      else if aBeforeB \<or> bBeforeA then
        (if (if aBeforeB then contradicts ca cb else contradicts cb ca)
         then unordered (u16 ''a verified prevB64 path contradicts the commit counters: an anomaly, not an order'')
         else \<lparr>or_relation = (if aBeforeB then RBefore else RAfter), or_basis = Some ChainLink,
           or_tier = Some HashLinked, or_assumptionDependent = False, or_weaker = False,
           or_detail = u16 ''a directed prevB64 path through observed proofs connects the recordings; the path decides the direction''\<rparr>)
      else compare_counters a b)"

definition describeBound :: "segment_bound \<Rightarrow> jsstr" where
  "describeBound bound = (case sb_blockNumber bound of Some n \<Rightarrow> u16 ''block '' @ int_units (int n)
     | None \<Rightarrow> u16 ''t='' @ int_units (sb_timestamp bound))"

definition anchor_result :: "order_relation \<Rightarrow> bool \<times> segment_bound \<times> segment_bound \<Rightarrow> order_result" where
  "anchor_result relation hit = (case hit of (weaker, upper, lower) \<Rightarrow>
     \<lparr>or_relation = relation, or_basis = Some AnchorBounds, or_tier = Some AssumptionDependent,
      or_assumptionDependent = True, or_weaker = weaker,
      or_detail = u16 ''not-after anchor '' @ describeBound upper @ u16 '' strictly precedes not-before anchor ''
        @ describeBound lower @ u16 ''; rests on the anchor-freshness assumption''\<rparr>)"

definition concurrent :: "observed_proof \<Rightarrow> observed_proof \<Rightarrow> order_result" where
  "concurrent a b = unordered (u16 ''epochs '' @ case_option (u16 ''(none)'') id (op_epochId a) @ u16 '' and ''
     @ case_option (u16 ''(none)'') id (op_epochId b)
     @ u16 '' are concurrent-or-unordered for this pair: no covering lineage and no strict anchor-bound separation'')"

definition compare_anchors :: "observed_proof \<Rightarrow> observed_proof \<Rightarrow> audit_result \<Rightarrow> order_result" where
  "compare_anchors a b audit =
     (case (segmentOf audit (op_proofHash a), segmentOf audit (op_proofHash b)) of
        (Some segA, Some segB) \<Rightarrow>
          (case (anchorPrecedes segA segB, anchorPrecedes segB segA) of
             (Some _, Some _) \<Rightarrow> unordered
               (u16 ''anchor bounds satisfy strict precedence in both directions: contradictory evidence, an anomaly, not an order'')
           | (Some hit, None) \<Rightarrow> anchor_result RBefore hit
           | (None, Some hit) \<Rightarrow> anchor_result RAfter hit
           | (None, None) \<Rightarrow> concurrent a b)
      | _ \<Rightarrow> concurrent a b)"

definition lineage_result :: "order_relation \<Rightarrow> evidence_tier \<Rightarrow> order_result" where
  "lineage_result relation tier = \<lparr>or_relation = relation, or_basis = Some EpochLineage, or_tier = Some tier,
     or_assumptionDependent = (tier = AssumptionDependent), or_weaker = (tier = AssumptionDependent),
     or_detail = u16 (if tier = AssumptionDependent
       then ''hard epochLink succession covers this pair, with the predecessor-side coverage resting on counter discipline''
       else ''hard epochLink succession covers this pair: the earlier recording precedes the referenced predecessor by hash links, and the later one is signed by a key created after it'')\<rparr>"

definition compare_across :: "observed_proof \<Rightarrow> nat \<Rightarrow> observed_proof \<Rightarrow> nat \<Rightarrow> audit_result \<Rightarrow> order_result" where
  "compare_across a partA b partB audit =
     (if op_epochId a \<noteq> None \<and> op_epochId b \<noteq> None \<and> op_epochId a = op_epochId b
      then unordered (u16 ''same epochId under a different signer key or chain: counters are not comparable and no cross-partition evidence orders them'')
      else case (lineagePrecedes a partA partB audit, lineagePrecedes b partB partA audit) of
        (Some _, Some _) \<Rightarrow> unordered
          (u16 ''epochLink lineage evidence runs in both directions between these recordings: contradictory, an anomaly, not an order'')
      | (Some tier, None) \<Rightarrow> lineage_result RBefore tier
      | (None, Some tier) \<Rightarrow> lineage_result RAfter tier
      | (None, None) \<Rightarrow> compare_anchors a b audit)"

definition compare :: "observed_proof \<Rightarrow> observed_proof \<Rightarrow> audit_result \<Rightarrow> order_result" where
  "compare a b audit =
     (if op_proofHash a = op_proofHash b
      then \<lparr>or_relation = RSame, or_basis = None, or_tier = None, or_assumptionDependent = False, or_weaker = False,
        or_detail = u16 ''both roles resolved to the identical recording''\<rparr>
      else case (partitionOf audit (op_proofHash a), partitionOf audit (op_proofHash b)) of
        (Some partA, Some partB) \<Rightarrow> if partA = partB then compare_within a b audit partA
          else compare_across a partA b partB audit
      | _ \<Rightarrow> unordered (u16 ''at least one recording is observed-but-unchained (no counter or epochId): it holds no causal position to compare''))"

subsection \<open>Asked the other way round\<close>

definition flip :: "order_relation \<Rightarrow> order_relation" where
  "flip r = (case r of RBefore \<Rightarrow> RAfter | RAfter \<Rightarrow> RBefore | _ \<Rightarrow> r)"

text \<open>The answer without its wording, and its mirror image.\<close>

definition answer :: "order_result \<Rightarrow> order_result" where
  "answer r = r\<lparr>or_detail := []\<rparr>"

definition flipped :: "order_result \<Rightarrow> order_result" where
  "flipped r = r\<lparr>or_relation := flip (or_relation r)\<rparr>"

lemma flip_simps [simp]: "flip RBefore = RAfter" "flip RAfter = RBefore" "flip RSame = RSame" "flip RUnordered = RUnordered"
  by (simp_all add: flip_def)

lemma answer_unordered [simp]: "answer (unordered d) = unordered []" "answer (concurrent a b) = unordered []"
  by (simp_all add: answer_def unordered_def concurrent_def)

lemma flipped_unordered [simp]: "flipped (unordered d) = unordered d"
  by (simp add: flipped_def unordered_def)

lemma flipped_results [simp]:
  "flipped (answer (lineage_result RBefore t)) = answer (lineage_result RAfter t)"
  "flipped (answer (lineage_result RAfter t)) = answer (lineage_result RBefore t)"
  "flipped (answer (anchor_result RBefore h)) = answer (anchor_result RAfter h)"
  "flipped (answer (anchor_result RAfter h)) = answer (anchor_result RBefore h)"
  by (simp_all add: flipped_def answer_def lineage_result_def anchor_result_def split: prod.splits)

lemma counters_flip: "answer (compare_counters b a) = flipped (answer (compare_counters a b))"
  by (auto simp: compare_counters_def flipped_def answer_def unordered_def split: option.splits)

lemma within_flip: "answer (compare_within b a audit i) = flipped (answer (compare_within a b audit i))"
  using counters_flip [of b a]
  by (auto simp: compare_within_def Let_def) (auto simp: flipped_def answer_def)

lemma anchors_flip: "answer (compare_anchors b a audit) = flipped (answer (compare_anchors a b audit))"
  by (auto simp: compare_anchors_def split: option.splits)

lemma across_flip: "answer (compare_across b partB a partA audit) = flipped (answer (compare_across a partA b partB audit))"
  using anchors_flip [of b a audit] by (auto simp: compare_across_def split: option.splits)

text \<open>C28: One order, whichever recording is named first. Comparing \<open>b\<close> with \<open>a\<close> gives the mirror
  image of comparing \<open>a\<close> with \<open>b\<close>: before becomes after, everything else of the answer (basis,
  tier, its weakness) is the same up to its wording, so no pair of recordings is reported before each
  other both ways.\<close>

theorem compare_mirror: "answer (compare b a audit) = flipped (answer (compare a b audit))"
proof (cases "op_proofHash a = op_proofHash b")
  case True
  then show ?thesis by (simp add: compare_def answer_def flipped_def)
next
  case False
  then show ?thesis
    by (cases "partitionOf audit (op_proofHash a)"; cases "partitionOf audit (op_proofHash b)")
      (simp_all add: compare_def within_flip [of b a] across_flip [of b _ a])
qed

end
