(* ===== verification/BG_Digest.thy ===== *)
theory BG_Digest
  imports BG_Player
begin

text \<open>
  The digest spellings of \<^verbatim>\<open>packages/player/src/rule.ts\<close>: exactly which strings
  \<^verbatim>\<open>normalizeDigest\<close> accepts, and that its result decodes to the digest's bytes.
\<close>

subsection \<open>The shape of base64 text\<close>

lemma std_unit_not_pad [simp]: "\<not> std_unit 61" "\<not> url_unit 61"
  by (simp_all add: std_unit_def url_unit_def alnum_unit_def)

lemma std_unit_b64_char: "n < 64 \<Longrightarrow> std_unit (b64_char n)"
  by (auto simp: std_unit_def alnum_unit_def b64_char_def word_le_nat_alt unat_of_nat take_bit_eq_mod)

lemma b64_shape:
  "length b mod 3 = 2 \<Longrightarrow>
   \<exists>p. b64_encode b = p @ [61] \<and> list_all std_unit p \<and> 3 * length p = 4 * length b + 1"
proof (induction b rule: b64_encode.induct)
  case (1 x y z bs)
  then obtain p where p: "b64_encode bs = p @ [61]" "list_all std_unit p" "3 * length p = 4 * length bs + 1"
    by auto
  let ?q = "[b64_char (unat x div 4), b64_char (unat x mod 4 * 16 + unat y div 16),
      b64_char (unat y mod 16 * 4 + unat z div 64), b64_char (unat z mod 64)]"
  have "list_all std_unit ?q"
    using sextet_bounds(1,2) [of x y] sextet_bounds(1,2) [of y z] byte_parts [of x]
    by (simp add: std_unit_b64_char)
  with p have "b64_encode (x # y # z # bs) = (?q @ p) @ [61] \<and> list_all std_unit (?q @ p)
      \<and> 3 * length (?q @ p) = 4 * length (x # y # z # bs) + 1" by simp
  then show ?case by blast
next
  case (2 x y)
  let ?q = "[b64_char (unat x div 4), b64_char (unat x mod 4 * 16 + unat y div 16), b64_char (unat y mod 16 * 4)]"
  have "list_all std_unit ?q"
    using sextet_bounds(1,2) [of x y] sextet_bounds(3,4) [of y] byte_parts [of x] by (simp add: std_unit_b64_char)
  then have "b64_encode [x, y] = ?q @ [61] \<and> list_all std_unit ?q \<and> 3 * length ?q = 4 * length [x, y] + 1" by simp
  then show ?case by blast
qed simp_all

lemma b64_32:
  assumes "length h = 32"
  obtains p where "b64_encode h = p @ [61]" "length p = 43" "list_all std_unit p"
  using b64_shape [of h] assms by auto

lemma lower_unit_colon [simp]: "lower_unit c = 58 \<longleftrightarrow> c = 58"
proof
  assume "lower_unit c = 58"
  moreover have "c + 32 = 58 \<Longrightarrow> c = 26"
    using add_right_cancel [of c 32 26] by simp
  ultimately show "c = 58" by (auto simp: lower_unit_def split: if_splits)
qed (simp add: lower_unit_def word_le_nat_alt)

lemma std_unit_plain: "std_unit c \<or> url_unit c \<Longrightarrow> \<not> js_space c \<and> c \<noteq> 58"
  by (auto simp: std_unit_def url_unit_def alnum_unit_def js_space_def word_le_nat_alt)

lemma plain_pad: "\<not> js_space 61"
  by (simp add: js_space_def word_le_nat_alt)

lemma trim_plain: "list_all (\<lambda>c. \<not> js_space c) s \<Longrightarrow> js_trim s = s"
proof -
  assume d: "list_all (\<lambda>c. \<not> js_space c) s"
  have id: "dropWhile js_space t = t" if "list_all (\<lambda>c. \<not> js_space c) t" for t
    using that by (cases t) auto
  show ?thesis using id [OF d] id [of "rev s"] d by (simp add: js_trim_def)
qed

lemma prefix_plain: "list_all (\<lambda>c. c \<noteq> 58) s \<Longrightarrow> strip_prefix s = s"
proof -
  assume d: "list_all (\<lambda>c. c \<noteq> 58) s"
  have "(58 :: 16 word) \<in> set (u16 ''sha256:'')" by (simp add: u16_def)
  moreover have "58 \<notin> set (take 7 (map lower_unit s))"
    using d lower_unit_colon by (fastforce simp: list_all_iff dest!: in_set_takeD)
  ultimately have "take 7 (map lower_unit s) \<noteq> u16 ''sha256:''" by metis
  then show ?thesis by (simp add: strip_prefix_def)
qed

lemma length_hex_decode [simp]: "length (hex_decode s) = length s div 2"
  by (induction s rule: hex_decode.induct) auto

lemma strip_pad_plain: "list_all (\<lambda>c. c \<noteq> 61) p \<Longrightarrow> strip_pad (p @ replicate n 61) = p"
proof -
  assume p: "list_all (\<lambda>c. c \<noteq> 61) p"
  have "dropWhile (\<lambda>c. c = 61) (replicate n 61 @ rev p) = dropWhile (\<lambda>c. c = 61) (rev p)"
    by (intro dropWhile_append2) simp
  also have "\<dots> = rev p" using p by (cases p rule: rev_cases) simp_all
  finally have "dropWhile (\<lambda>c. c = 61) (replicate n 61 @ rev p) = rev p" .
  then show ?thesis by (simp add: strip_pad_def)
qed

lemma no_pad: "list_all std_unit p \<or> list_all url_unit p \<Longrightarrow> list_all (\<lambda>c. c \<noteq> 61) p"
  by (auto simp: list_all_iff)

subsection \<open>Hexadecimal text\<close>

text \<open>Two lowercase digits per byte: \<^verbatim>\<open>bytesToHex\<close> of \<^verbatim>\<open>packages/verify/src/fuse.ts\<close> and
  \<^verbatim>\<open>toString("hex")\<close>.\<close>

definition hex_text :: "bytes \<Rightarrow> jsstr" where
  "hex_text bs = concat (map (\<lambda>b. [hex_unit (unat b div 16), hex_unit (unat b mod 16)]) bs)"

lemma unit_digit_plain: "unit_digit c \<noteq> None \<Longrightarrow> \<not> js_space c"
  by (auto simp: unit_digit_def js_space_def word_le_nat_alt split: if_splits)

lemma unit_digit_hex: "n < 16 \<Longrightarrow> unit_digit (hex_unit n) = Some n"
  by (auto simp: unit_digit_def hex_unit_def word_le_nat_alt unat_of_nat take_bit_eq_mod)

lemma hex_unit_props: "n < 16 \<Longrightarrow> unit_digit (hex_unit n) = Some n \<and> \<not> js_space (hex_unit n)"
  using unit_digit_hex [of n] unit_digit_plain [of "hex_unit n"] by simp

lemma hex_text_simps [simp]: "hex_text [] = []"
  "hex_text (b # bs) = hex_unit (unat b div 16) # hex_unit (unat b mod 16) # hex_text bs"
  by (simp_all add: hex_text_def)

lemma hex_text_props:
  "length (hex_text bs) = 2 * length bs" "list_all (\<lambda>c. unit_digit c \<noteq> None) (hex_text bs)"
  "list_all (\<lambda>c. \<not> js_space c) (hex_text bs)" "hex_decode (hex_text bs) = bs"
proof -
  have "unat (b :: byte) div 16 < 16" for b by (simp add: less_mult_imp_div_less)
  then show "length (hex_text bs) = 2 * length bs" "list_all (\<lambda>c. unit_digit c \<noteq> None) (hex_text bs)"
    "list_all (\<lambda>c. \<not> js_space c) (hex_text bs)" "hex_decode (hex_text bs) = bs"
    by (induction bs) (simp_all add: hex_unit_props)
qed

subsection \<open>The URL-safe alphabet\<close>

definition to_url :: "16 word \<Rightarrow> 16 word" where
  "to_url c = (if c = 43 then 45 else if c = 47 then 95 else c)"

lemma b64_val_to_url: "std_unit c \<Longrightarrow> b64_val (to_url c) = b64_val c"
  by (auto simp: to_url_def b64_val_def Let_def)

lemma url_unit_to_url: "std_unit c \<Longrightarrow> url_unit (to_url c)"
  by (auto simp: to_url_def std_unit_def url_unit_def)

lemma to_url_alnum: "std_unit c \<Longrightarrow> std_unit (to_url c) \<Longrightarrow> to_url c = c"
  by (auto simp: to_url_def std_unit_def alnum_unit_def word_le_nat_alt split: if_splits)

lemma map_filter_to_url:
  "list_all std_unit p \<Longrightarrow> List.map_filter b64_val (map to_url p) = List.map_filter b64_val p"
  by (induction p) (auto simp: List.map_filter_simps b64_val_to_url split: option.splits)

lemma takeWhile_plain: "list_all (\<lambda>c. c \<noteq> 61) p \<Longrightarrow> takeWhile (\<lambda>c. c \<noteq> 61) (p @ replicate n 61) = p"
  by (induction p) (cases n; auto)+

lemma b64_decode_plain:
  "list_all (\<lambda>c. c \<noteq> 61) p \<Longrightarrow> b64_decode (p @ replicate n 61) = sextets_bytes (List.map_filter b64_val p)"
  by (simp add: b64_decode_def takeWhile_plain)


subsection \<open>Exactly the accepted spellings\<close>

text \<open>The spellings of a 32-byte digest, after the prefix and the surrounding spaces are gone.\<close>

definition spelling :: "bytes \<Rightarrow> jsstr \<Rightarrow> bool" where
  "spelling h s \<longleftrightarrow> HEX64 s \<and> hex_decode s = h
     \<or> s = b64_encode h \<or> s = b64url_encode h \<or> s = b64url_encode h @ [61]"

lemma std_32:
  assumes "length h = 32"
  shows "B64_STD (b64_encode h)" "\<not> HEX64 (b64_encode h)" "padded std_unit (b64_encode h)"
    and "list_all (\<lambda>c. \<not> js_space c) (b64_encode h)" "list_all (\<lambda>c. c \<noteq> 58) (b64_encode h)"
proof -
  obtain p where p: "b64_encode h = p @ [61]" "length p = 43" "list_all std_unit p"
    using b64_32 [OF assms] .
  have strip: "strip_pad (p @ [61]) = p" using strip_pad_plain [of p 1] no_pad p by simp
  show "B64_STD (b64_encode h)" "\<not> HEX64 (b64_encode h)" "padded std_unit (b64_encode h)"
    using p strip by (auto simp: B64_STD_def HEX64_def padded_def nth_append)
  show "list_all (\<lambda>c. \<not> js_space c) (b64_encode h)" "list_all (\<lambda>c. c \<noteq> 58) (b64_encode h)"
    using p std_unit_plain plain_pad by (auto simp: list_all_iff)
qed

lemma url_32:
  assumes "length h = 32"
  obtains p where "b64_encode h = p @ [61]" "b64url_encode h = map to_url p" "length p = 43"
    "list_all std_unit p" "list_all url_unit (map to_url p)" "list_all (\<lambda>c. c \<noteq> 61) (map to_url p)"
    "b64_decode (map to_url p) = h" "b64_decode (map to_url p @ [61]) = h"
proof -
  obtain p where p: "b64_encode h = p @ [61]" "length p = 43" "list_all std_unit p"
    using b64_32 [OF assms] .
  have np: "list_all (\<lambda>c. c \<noteq> 61) p" using p no_pad by simp
  have url: "list_all url_unit (map to_url p)" using p url_unit_to_url by (auto simp: list_all_iff)
  then have nq: "list_all (\<lambda>c. c \<noteq> 61) (map to_url p)" using no_pad by blast
  have h: "h = sextets_bytes (List.map_filter b64_val p)"
    using b64_decode_encode [of h] b64_decode_plain [OF np, of 1] p by simp
  have "b64url_encode h = map to_url p"
    using p strip_pad_plain [OF np, of 1] by (simp add: b64url_encode_def to_url_def)
  moreover have "b64_decode (map to_url p) = h" "b64_decode (map to_url p @ [61]) = h"
    using b64_decode_plain [OF nq, of 0] b64_decode_plain [OF nq, of 1] map_filter_to_url [OF p(3)] h by simp_all
  ultimately show ?thesis using that p url nq by blast
qed

definition digest_of :: "jsstr \<Rightarrow> jsstr option" where
  "digest_of s = (if HEX64 s then Some (b64_encode (hex_decode s))
     else if B64_STD s then (if length (b64_decode s) = 32 \<and> b64_encode (b64_decode s) = s then Some s else None)
     else if B64_URL s then (if length (b64_decode s) = 32 \<and> b64url_encode (b64_decode s) = strip_pad s
       then Some (b64_encode (b64_decode s)) else None)
     else None)"

lemma normalizeDigest_eq: "normalizeDigest input = digest_of (strip_prefix (js_trim input))"
  by (simp add: normalizeDigest_def digest_of_def Let_def)

lemma url_text:
  assumes "B64_URL s"
  shows "s = strip_pad s \<or> s = strip_pad s @ [61]"
proof -
  let ?p = "take 43 s"
  have np: "list_all (\<lambda>c. c \<noteq> 61) ?p" using assms no_pad by (auto simp: B64_URL_def)
  consider "length s = 43" | "length s = 44" "s ! 43 = 61" using assms by (auto simp: B64_URL_def)
  then show ?thesis
  proof cases
    case 1
    then show ?thesis using strip_pad_plain [OF np, of 0] by simp
  next
    case 2
    then have "s = ?p @ [61]" using take_Suc_conv_app_nth [of 43 s] by simp
    then show ?thesis using strip_pad_plain [OF np, of 1] by simp
  qed
qed

lemma digest_of_sound: "digest_of s = Some d \<Longrightarrow> \<exists>h. length h = 32 \<and> d = b64_encode h \<and> spelling h s"
  using url_text [of s] by (auto simp: digest_of_def spelling_def HEX64_def split: if_splits)

lemma digest_of_std: "length h = 32 \<Longrightarrow> digest_of (b64_encode h) = Some (b64_encode h)"
  using std_32 [of h] by (simp add: digest_of_def b64_decode_encode)

lemma digest_of_url:
  assumes "length h = 32"
  shows "digest_of (b64url_encode h) = Some (b64_encode h)" "digest_of (b64url_encode h @ [61]) = Some (b64_encode h)"
proof -
  obtain p where p: "b64_encode h = p @ [61]" "b64url_encode h = map to_url p" "length p = 43"
    "list_all std_unit p" "list_all url_unit (map to_url p)" "list_all (\<lambda>c. c \<noteq> 61) (map to_url p)"
    "b64_decode (map to_url p) = h" "b64_decode (map to_url p @ [61]) = h"
    using url_32 [OF assms] .
  have strip: "strip_pad (map to_url p) = map to_url p" "strip_pad (map to_url p @ [61]) = map to_url p"
    using strip_pad_plain [OF p(6), of 0] strip_pad_plain [OF p(6), of 1] by simp_all
  show "digest_of (b64url_encode h) = Some (b64_encode h)"
    using p strip assms by (simp add: digest_of_def HEX64_def B64_STD_def B64_URL_def)
  have "map to_url p = p" if "list_all std_unit (map to_url p)"
    using that p(4) to_url_alnum by (auto simp: list_all_iff intro: map_idI)
  then show "digest_of (b64url_encode h @ [61]) = Some (b64_encode h)"
    using p strip assms by (auto simp: digest_of_def HEX64_def B64_STD_def B64_URL_def nth_append)
qed

lemma digest_of_iff: "digest_of s = Some d \<longleftrightarrow> (\<exists>h. length h = 32 \<and> d = b64_encode h \<and> spelling h s)"
proof
  assume "\<exists>h. length h = 32 \<and> d = b64_encode h \<and> spelling h s"
  then obtain h where h: "length h = 32" "d = b64_encode h" "spelling h s" by blast
  show "digest_of s = Some d"
  proof (cases "HEX64 s \<and> hex_decode s = h")
    case True
    then show ?thesis using h by (simp add: digest_of_def)
  next
    case False
    then show ?thesis using h digest_of_std digest_of_url by (auto simp: spelling_def)
  qed
qed (rule digest_of_sound)

lemma decodeDigestBytes_std: "length h = 32 \<Longrightarrow> decodeDigestBytes (b64_encode h) = Some h"
  using std_32 [of h] by (simp add: decodeDigestBytes_def trim_plain b64_decode_encode)

lemma normalizeDigest_std: "length h = 32 \<Longrightarrow> normalizeDigest (b64_encode h) = Some (b64_encode h)"
  using std_32 [of h] by (simp add: normalizeDigest_eq trim_plain prefix_plain digest_of_std)

lemma normalized_decodes:
  assumes "normalizeDigest s = Some d"
  obtains h where "length h = 32" "d = b64_encode h" "decodeDigestBytes d = Some h" "normalizeDigest d = Some d"
  using assms decodeDigestBytes_std normalizeDigest_std by (auto simp: normalizeDigest_eq digest_of_iff)

text \<open>C38: The digest spellings. \<^verbatim>\<open>normalizeDigest\<close> accepts exactly the canonical spellings of a
  32-byte digest (64 hexadecimal digits, standard base64, base64url with or without its padding,
  each with an optional \<^verbatim>\<open>sha256:\<close> prefix and surrounding space) and returns its standard base64,
  which normalises to itself and decodes to the 32 bytes; spellings with stray trailing bits are
  refused.\<close>

theorem normalizeDigest_exact:
  "normalizeDigest s = Some d \<longleftrightarrow>
     (\<exists>h. length h = 32 \<and> d = b64_encode h \<and> spelling h (strip_prefix (js_trim s))
        \<and> decodeDigestBytes d = Some h \<and> normalizeDigest d = Some d)"
  using decodeDigestBytes_std normalizeDigest_std by (auto simp: normalizeDigest_eq digest_of_iff)

end
