(* ===== verification/BG_Evaluate.thy ===== *)
theory BG_Evaluate
  imports BG_Order BG_Digest
begin

text \<open>
  \<^verbatim>\<open>packages/player/src/cast.ts\<close>, \<^verbatim>\<open>sig.ts\<close> and \<^verbatim>\<open>evaluate.ts\<close>: a role resolves to one recording,
  a claim tree is walked in full and every sub-claim recorded with the texts the code gives as its
  reasons; the key-object cache of the code only avoids repeated work.
\<close>

subsection \<open>Cast resolution\<close>

datatype resolution =
    Resolved jsstr observed_proof verification_tier nat
  | Absent jsstr bool
  | Ambiguous jsstr nat "jsstr list"
  | InvalidRole jsstr jsstr

definition matchesPin :: "observed_proof \<Rightarrow> cast_pin \<Rightarrow> bool" where
  "matchesPin proof pin = (case pin of PinHash h \<Rightarrow> op_proofHash proof = h
     | PinPosition epochId counter \<Rightarrow> op_epochId proof = Some epochId \<and> op_counter proof = Some counter)"

definition verificationPassed :: "observed_proof \<Rightarrow> bool" where
  "verificationPassed proof \<longleftrightarrow> map_option pv_status (op_verification proof) \<in> {Some Verified, Some ArtifactUnavailable}"

text \<open>The digest a parsed proof declares; ingest has checked it is a string.\<close>

definition proof_digest :: "observed_proof \<Rightarrow> bytes option" where
  "proof_digest proof = decodeDigestBytes (str_of (fld (fld (op_proof proof) ''artifact'') ''digestB64''))"

definition role_matches :: "audit_result \<Rightarrow> bytes \<Rightarrow> observed_proof list" where
  "role_matches audit target = filter (\<lambda>p. proof_digest p = Some target) (au_proofs audit)"

definition none_passed :: "nat \<Rightarrow> jsstr" where
  "none_passed n = int_units (int n) @ u16 '' recording(s) of this digest are present but none passed verification''"

definition pin_missed :: "nat \<Rightarrow> jsstr" where
  "pin_missed n = u16 ''\"at\" pin matches none of the '' @ int_units (int n) @ u16 '' verified recording(s) of this digest''"

definition resolveRole :: "jsstr \<Rightarrow> cast_entry \<Rightarrow> audit_result \<Rightarrow> resolution" where
  "resolveRole role entry audit =
     (case normalizeDigest (ce_digest entry) of
        None \<Rightarrow> InvalidRole role (u16 ''digest is not a well-formed 32-byte SHA-256'')
      | Some digestB64 \<Rightarrow>
         (let anyMatch = role_matches audit (the (decodeDigestBytes digestB64));
              verified = filter verificationPassed anyMatch;
              candidates = (case ce_at entry of None \<Rightarrow> verified | Some pin \<Rightarrow> filter (\<lambda>p. matchesPin p pin) verified)
          in if verified = [] then
               (if anyMatch \<noteq> [] then InvalidRole role (none_passed (length anyMatch))
                else Absent role (ce_optional entry = Some True))
             else (case candidates of
               [] \<Rightarrow> InvalidRole role (pin_missed (length verified))
             | [proof] \<Rightarrow> Resolved role proof (case op_verification proof of None \<Rightarrow> Integrity | Some v \<Rightarrow> pv_tier v) (length verified)
             | _ \<Rightarrow> Ambiguous role (length candidates) (sort (map op_proofHash candidates)))))"

definition resolveCast :: "(jsstr \<times> cast_entry) list \<Rightarrow> audit_result \<Rightarrow> (jsstr \<times> resolution) list" where
  "resolveCast cast audit = fold (\<lambda>(role, entry). AList.update role (resolveRole role entry audit)) cast []"

subsection \<open>Signature files\<close>

text \<open>Node's \<^verbatim>\<open>createPublicKey\<close> and \<^verbatim>\<open>verify\<close> and \<^verbatim>\<open>JSON.parse\<close> are parameters; a key object is named
  by the DER it was made from, \<open>sk_p256\<close> tells whether it is an EC key on prime256v1.\<close>

record sig_kit =
  sk_json :: "bytes \<Rightarrow> jv option"
  sk_createPublicKey :: "bytes \<Rightarrow> bool"
  sk_p256 :: "bytes \<Rightarrow> bool"
  sk_verify :: "bool \<Rightarrow> bytes \<Rightarrow> bytes \<Rightarrow> bytes \<Rightarrow> bool option"

record sig_file =
  sf_over :: jsstr
  sf_alg :: jsstr
  sf_publicKey :: jsstr
  sf_signature :: jsstr

definition ED25519_SPKI_PREFIX :: bytes where
  "ED25519_SPKI_PREFIX = [0x30, 0x2a, 0x30, 0x05, 0x06, 0x03, 0x2b, 0x65, 0x70, 0x03, 0x21, 0x00]"

definition sigMessage :: "jsstr \<Rightarrow> bytes" where
  "sigMessage targetSha256Hex = utf8 (u16 ''bitgraph-sig/1'' @ 10 # map lower_unit targetSha256Hex)"

definition parseSigFile :: "sig_kit \<Rightarrow> bytes \<Rightarrow> sig_file option" where
  "parseSigFile K bytes = (case sk_json K bytes of
     Some (JObj ps) \<Rightarrow>
       (let raw = JObj ps; over = fld raw ''over''; alg = fld raw ''alg'';
            publicKey = fld raw ''publicKey''; signature = fld raw ''signature'' in
        if fld raw ''sig'' = JStr (u16 ''bitgraph-sig/1'') \<and> nonempty_str over
          \<and> (alg = JStr (u16 ''ed25519'') \<or> alg = JStr (u16 ''es256'')) \<and> nonempty_str publicKey \<and> nonempty_str signature
        then Some \<lparr>sf_over = str_of over, sf_alg = str_of alg, sf_publicKey = str_of publicKey, sf_signature = str_of signature\<rparr>
        else None)
   | _ \<Rightarrow> None)"

definition decodeB64Strict :: "jsstr \<Rightarrow> bytes option" where
  "decodeB64Strict s = (if \<not> padded std_unit s then None
     else let bytes = b64_decode s in if b64_encode bytes = s then Some bytes else None)"

definition keyObjectFor :: "sig_kit \<Rightarrow> trusted_key \<Rightarrow> bytes option" where
  "keyObjectFor K key = (case decodeB64Strict (tk_publicKey key) of
     None \<Rightarrow> None
   | Some material \<Rightarrow>
       if tk_alg key = u16 ''ed25519'' then
         (if length material \<noteq> 32 then None
          else let der = ED25519_SPKI_PREFIX @ material in if sk_createPublicKey K der then Some der else None)
       else if sk_createPublicKey K material \<and> sk_p256 K material then Some material else None)"

definition verifySigFile :: "sig_kit \<Rightarrow> sig_file \<Rightarrow> trusted_key \<Rightarrow> bytes \<Rightarrow> jsstr \<Rightarrow> bool" where
  "verifySigFile K sig key keyObject targetSha256Hex =
     (if sf_alg sig \<noteq> tk_alg key \<or> sf_publicKey sig \<noteq> tk_publicKey key then False
      else let overBytes = decodeDigestBytes (strip_prefix (js_trim (sf_over sig)));
               targetBytes = decodeDigestBytes targetSha256Hex in
        if overBytes = None \<or> targetBytes = None \<or> overBytes \<noteq> targetBytes then False
        else case decodeB64Strict (sf_signature sig) of
          None \<Rightarrow> False
        | Some signature \<Rightarrow>
            if sf_alg sig = u16 ''ed25519'' \<and> length signature \<noteq> 64 then False
            else sk_verify K (sf_alg sig \<noteq> u16 ''ed25519'') (sigMessage targetSha256Hex) keyObject signature = Some True)"

subsection \<open>The evaluator\<close>

record derived_step =
  ds_claim :: jsstr
  ds_result :: three
  ds_basis :: "order_basis option"
  ds_evidenceTier :: "evidence_tier option"
  ds_because :: "(jsstr \<times> jv) list"

record play_env =
  pe_rule :: rule
  pe_resolutions :: "(jsstr \<times> resolution) list"
  pe_audit :: audit_result
  pe_sigEvidence :: "(jsstr \<times> bytes) list"
  pe_kit :: sig_kit

text \<open>What the walk changes: the steps recorded and the tiers that decided one.\<close>

record walk_state =
  wk_steps :: "derived_step list"
  wk_tiers :: "evidence_tier list"

definition positionOf :: "observed_proof \<Rightarrow> jv" where
  "positionOf proof = JObj ([(u16 ''proofHash'', JStr (op_proofHash proof))]
     @ (case op_epochId proof of None \<Rightarrow> [] | Some e \<Rightarrow> [(u16 ''epochId'', JStr e)])
     @ [(u16 ''chainId'', JStr (op_chainId proof))]
     @ (case op_counter proof of None \<Rightarrow> [] | Some c \<Rightarrow> [(u16 ''counter'', JStr c)])
     @ (case op_slotCounter proof of None \<Rightarrow> [] | Some c \<Rightarrow> [(u16 ''slotCounter'', JStr c)]))"

datatype role_class = IsResolved observed_proof | DefinitelyAbsent | IsUndetermined jsstr

definition quoted :: "string \<Rightarrow> jsstr \<Rightarrow> string \<Rightarrow> jsstr" where
  "quoted before name after = u16 before @ 34 # name @ 34 # u16 after"

definition classify :: "play_env \<Rightarrow> jsstr \<Rightarrow> role_class" where
  "classify E role = (case map_of (pe_resolutions E) role of
     None \<Rightarrow> IsUndetermined (quoted ''role '' role '' is not declared in the cast'')
   | Some (Resolved _ proof _ _) \<Rightarrow> IsResolved proof
   | Some (Absent _ optional) \<Rightarrow> if optional then DefinitelyAbsent
       else IsUndetermined (quoted ''required role '' role '' has no verified recording in the bundle'')
   | Some (Ambiguous _ matchCount _) \<Rightarrow> IsUndetermined (quoted ''role '' role '' matches '' @ int_units (int matchCount)
       @ u16 '' recordings and no \"at\" pin selects one'')
   | Some (InvalidRole _ reason) \<Rightarrow> IsUndetermined (quoted ''role '' role '': '' @ reason))"

definition record_step :: "derived_step \<Rightarrow> walk_state \<Rightarrow> three \<times> walk_state" where
  "record_step step w = (ds_result step, w\<lparr>wk_steps := wk_steps w @ [step]\<rparr>)"

abbreviation plain_step :: "jsstr \<Rightarrow> three \<Rightarrow> (jsstr \<times> jv) list \<Rightarrow> derived_step" where
  "plain_step c r because \<equiv> \<lparr>ds_claim = c, ds_result = r, ds_basis = None, ds_evidenceTier = None, ds_because = because\<rparr>"

abbreviation reason :: "jsstr \<Rightarrow> (jsstr \<times> jv) list" where
  "reason m \<equiv> [(u16 ''reason'', JStr m)]"

definition evalExists :: "play_env \<Rightarrow> jsstr \<Rightarrow> walk_state \<Rightarrow> three \<times> walk_state" where
  "evalExists E role w = (let name = u16 ''exists('' @ role @ u16 '')'' in
     case classify E role of
       IsResolved proof \<Rightarrow> record_step (plain_step name TRUE [(u16 ''recording'', positionOf proof)]) w
     | DefinitelyAbsent \<Rightarrow> record_step (plain_step name FALSE
         (reason (u16 ''no verified recording of the declared digest is in the bundle; definite absence within the declared closed world''))) w
     | IsUndetermined m \<Rightarrow> record_step (plain_step name UNDETERMINED (reason m)) w)"

definition relation_text :: "order_relation \<Rightarrow> string" where
  "relation_text r = (case r of RBefore \<Rightarrow> ''before'' | RAfter \<Rightarrow> ''after'' | RSame \<Rightarrow> ''same'' | RUnordered \<Rightarrow> ''unordered'')"

definition tier_text :: "evidence_tier \<Rightarrow> string" where
  "tier_text t = (case t of HashLinked \<Rightarrow> ''hash-linked'' | AssumptionDependent \<Rightarrow> ''assumption-dependent'')"

definition basis_text :: "order_basis \<Rightarrow> string" where
  "basis_text b = (case b of ChainLink \<Rightarrow> ''chain-link'' | CounterOrder \<Rightarrow> ''counter-order''
     | EpochLineage \<Rightarrow> ''epoch-lineage'' | AnchorBounds \<Rightarrow> ''anchor-bounds'')"

definition below_floor :: "order_basis \<Rightarrow> evidence_tier \<Rightarrow> evidence_tier \<Rightarrow> jsstr" where
  "below_floor basis tier floor = quoted ''ordering evidence ('' (u16 (basis_text basis)) '', tier ''
     @ quoted [] (u16 (tier_text tier)) '') is below the rule's declared floor (''
     @ quoted [] (u16 (tier_text floor)) '')''"

definition evalPrecedes :: "play_env \<Rightarrow> jsstr \<Rightarrow> jsstr \<Rightarrow> jsstr \<Rightarrow> walk_state \<Rightarrow> three \<times> walk_state" where
  "evalPrecedes E name x y w =
     (case (classify E x, classify E y) of
        (IsUndetermined m, _) \<Rightarrow> record_step (plain_step name UNDETERMINED (reason m @ [(u16 ''role'', JStr x)])) w
      | (_, IsUndetermined m) \<Rightarrow> record_step (plain_step name UNDETERMINED (reason m @ [(u16 ''role'', JStr y)])) w
      | (IsResolved a, IsResolved b) \<Rightarrow>
          (let order = compare a b (pe_audit E);
               because = [(u16 ''a'', positionOf a), (u16 ''b'', positionOf b),
                 (u16 ''relation'', JStr (u16 (relation_text (or_relation order)))),
                 (u16 ''detail'', JStr (or_detail order))] in
           if or_relation order = RSame then record_step (plain_step name FALSE because) w
           else if or_relation order = RUnordered then record_step (plain_step name UNDETERMINED because) w
           else let basis = the (or_basis order);
                    tier = (case or_tier order of Some t \<Rightarrow> t | None \<Rightarrow> basisTier basis);
                    floor = r_ordering (pe_rule E);
                    because' = because @ [(u16 ''weaker'', JBool (or_weaker order)),
                      (u16 ''assumptionDependent'', JBool (or_assumptionDependent order))] in
             if \<not> meetsFloor tier floor then
               record_step \<lparr>ds_claim = name, ds_result = UNDETERMINED, ds_basis = Some basis, ds_evidenceTier = Some tier,
                 ds_because = because' @ [(u16 ''floor'', JStr (u16 (tier_text floor))),
                   (u16 ''reason'', JStr (below_floor basis tier floor))]\<rparr> w
             else record_step \<lparr>ds_claim = name, ds_result = (if or_relation order = RBefore then TRUE else FALSE),
               ds_basis = Some basis, ds_evidenceTier = Some tier, ds_because = because'\<rparr>
               (w\<lparr>wk_tiers := set_add tier (wk_tiers w)\<rparr>))
      | (cx, _) \<Rightarrow> record_step (plain_step name FALSE
          (reason (quoted ''role '' (if cx = DefinitelyAbsent then x else y)
             '' is definitely absent within the declared closed world; no ordering claim about it can hold''))) w)"

text \<open>The first candidate, in ascending order of content hash, whose signature verifies.\<close>

definition find_signature :: "play_env \<Rightarrow> trusted_key \<Rightarrow> bytes \<Rightarrow> jsstr \<Rightarrow> jsstr option" where
  "find_signature E key keyObject targetHex =
     find (\<lambda>h. case parseSigFile (pe_kit E) (the (map_of (pe_sigEvidence E) h)) of None \<Rightarrow> False
         | Some sig \<Rightarrow> verifySigFile (pe_kit E) sig key keyObject targetHex)
       (sort (map fst (pe_sigEvidence E)))"

definition no_signature :: "play_env \<Rightarrow> jsstr \<Rightarrow> jsstr" where
  "no_signature E keyName =
     quoted ''no valid bitgraph-sig/1 by trusted key '' keyName '' over the role digest is present in the supplied evidence (''
     @ int_units (int (length (pe_sigEvidence E))) @ u16 '' candidate file(s), ''
     @ int_units (int (length (filter (\<lambda>e. parseSigFile (pe_kit E) (snd e) \<noteq> None) (pe_sigEvidence E))))
     @ u16 '' parsed as signatures); absence of a signature from a bundle proves nothing''"

definition evalSignedBy :: "play_env \<Rightarrow> jsstr \<Rightarrow> jsstr \<Rightarrow> walk_state \<Rightarrow> three \<times> walk_state" where
  "evalSignedBy E role keyName w =
     (let name = u16 ''signedBy('' @ role @ u16 '', '' @ keyName @ u16 '')'';
          undetermined = (\<lambda>m. record_step (plain_step name UNDETERMINED (reason m)) w) in
      case map_of (r_cast (pe_rule E)) role of
        None \<Rightarrow> undetermined (quoted ''role '' role '' is not declared in the cast'')
      | Some entry \<Rightarrow>
         (case (case r_trustedKeys (pe_rule E) of None \<Rightarrow> None | Some ks \<Rightarrow> map_of ks keyName) of
            None \<Rightarrow> undetermined (quoted ''trusted key '' keyName '' is not declared'')
          | Some key \<Rightarrow>
             (case keyObjectFor (pe_kit E) key of
                None \<Rightarrow> undetermined (quoted ''trusted key '' keyName '' is not decodable as '' @ tk_alg key
                 @ u16 '' key material; no signature can verify against it'')
              | Some keyObject \<Rightarrow>
                 (let targetHex = hex_text (the (decodeDigestBytes (the (normalizeDigest (ce_digest entry))))) in
                  case find_signature E key keyObject targetHex of
                    Some h \<Rightarrow> record_step (plain_step name TRUE
                      [(u16 ''signatureSha256Hex'', JStr h), (u16 ''alg'', JStr (tk_alg key)), (u16 ''keyName'', JStr keyName),
                       (u16 ''over'', JStr (u16 ''sha256:'' @ targetHex)),
                       (u16 ''note'', JStr (u16 ''signature math verified here; that this key belongs to the named party is declared, never derived''))]) w
                  | None \<Rightarrow> undetermined (no_signature E keyName)))))"

definition pair_text :: "string \<Rightarrow> jsstr \<Rightarrow> jsstr \<Rightarrow> jsstr" where
  "pair_text f x y = u16 f @ u16 ''('' @ x @ u16 '', '' @ y @ u16 '')''"

fun evalClaim :: "play_env \<Rightarrow> claim \<Rightarrow> walk_state \<Rightarrow> three \<times> walk_state"
  and evalClaims :: "play_env \<Rightarrow> claim list \<Rightarrow> walk_state \<Rightarrow> three list \<times> walk_state" where
  "evalClaim E (Exists role) w = evalExists E role w"
| "evalClaim E (SignedBy role keyName) w = evalSignedBy E role keyName w"
| "evalClaim E (Before x y) w = evalPrecedes E (pair_text ''before'' x y) x y w"
| "evalClaim E (After x y) w = evalPrecedes E (pair_text ''after'' x y) y x w"
| "evalClaim E (Between s l u) w =
     (let name = u16 ''between('' @ s @ u16 '', '' @ l @ u16 '', '' @ u @ u16 ''): '';
          (afterPart, w1) = evalPrecedes E (name @ pair_text ''after'' s l) l s w;
          (beforePart, w2) = evalPrecedes E (name @ pair_text ''before'' s u) s u w1 in
      (kleeneAll [afterPart, beforePart], w2))"
| "evalClaim E (AllOf cs) w = (let (vs, w') = evalClaims E cs w in (kleeneAll vs, w'))"
| "evalClaim E (AnyOf cs) w = (let (vs, w') = evalClaims E cs w in (kleeneAny vs, w'))"
| "evalClaim E (NotOf c) w = (let (v, w') = evalClaim E c w in (kleeneNot v, w'))"
| "evalClaims E [] w = ([], w)"
| "evalClaims E (c # cs) w = (let (v, w1) = evalClaim E c w; (vs, w2) = evalClaims E cs w1 in (v # vs, w2))"

record evaluation =
  ev_result :: three
  ev_steps :: "derived_step list"
  ev_weakestEvidence :: "evidence_tier option"

definition evaluate :: "play_env \<Rightarrow> evaluation" where
  "evaluate E =
     (let (result, w) = evalClaim E (r_claim (pe_rule E)) \<lparr>wk_steps = [], wk_tiers = []\<rparr> in
      \<lparr>ev_result = result, ev_steps = wk_steps w,
       ev_weakestEvidence = (if AssumptionDependent \<in> set (wk_tiers w) then Some AssumptionDependent
         else if HashLinked \<in> set (wk_tiers w) then Some HashLinked else None)\<rparr>)"

end
