(* ===== verification/BG_Evidence.thy ===== *)
theory BG_Evidence
  imports BG_Order
begin

text \<open>
  What the answers of \<^verbatim>\<open>packages/player/src/order.ts\<close> rest on: chain-link answers on a directed path
  of \<^verbatim>\<open>prevB64\<close> links, lineage answers on a chain of hard epoch edges.
\<close>

subsection \<open>Directed paths\<close>

text \<open>\<open>p\<close> is an observed predecessor of \<open>c\<close> in the partition \<open>i\<close>.\<close>

definition prev_link :: "audit_result \<Rightarrow> nat \<Rightarrow> observed_proof \<Rightarrow> observed_proof \<Rightarrow> bool" where
  "prev_link audit i c p \<longleftrightarrow> op_prevB64 c = Some (op_chainHash p) \<and> p \<in> set (au_proofs audit)
     \<and> op_proofHash p \<in> set (part_members audit i)"

inductive descends :: "audit_result \<Rightarrow> nat \<Rightarrow> observed_proof \<Rightarrow> observed_proof \<Rightarrow> bool" for audit i where
  one: "prev_link audit i c p \<Longrightarrow> descends audit i c p"
| more: "prev_link audit i c p \<Longrightarrow> descends audit i p q \<Longrightarrow> descends audit i c q"

inductive_simps descends_simp: "descends audit i c q"

lemma parent_in_link:
  assumes "parent_in (part_members audit i) (chainHashIndex audit i) c = Some p"
  shows "prev_link audit i c p"
proof -
  have p: "op_prevB64 c = Some (op_chainHash p)" "p \<in> set (List.map_filter (proofsByHash audit) (part_members audit i))"
    "op_proofHash p \<in> set (part_members audit i)"
    using assms by (auto simp: parent_in_def chainHashIndex_def dest: index_by_Some split: option.splits if_splits)
  from p(2) obtain h where "proofsByHash audit h = Some p" by (auto simp: List.map_filter_def)
  then have "p \<in> set (au_proofs audit)" using index_by_Some by (fastforce simp: proofsByHash_def)
  with p show ?thesis by (simp add: prev_link_def)
qed

lemma ancestor_walk_sound:
  "ancestor_walk target members idx visited c \<Longrightarrow> members = part_members audit i \<Longrightarrow> idx = chainHashIndex audit i \<Longrightarrow>
   \<exists>p. descends audit i c p \<and> op_proofHash p = target"
proof (induction target members idx visited c rule: ancestor_walk.induct)
  case (1 target members idx visited c)
  from 1(2) obtain p where p: "parent_in members idx c = Some p" "op_proofHash p \<notin> set visited"
    by (subst (asm) ancestor_walk.simps) (auto split: option.splits if_splits)
  then have link: "prev_link audit i c p" using 1(3,4) parent_in_link by simp
  show ?case
  proof (cases "op_proofHash p = target")
    case True
    then show ?thesis using link descends.one by blast
  next
    case False
    then have "ancestor_walk target members idx (visited @ [op_proofHash p]) p"
      using p 1(2) by (subst (asm) ancestor_walk.simps) simp
    then show ?thesis using 1(1) [OF p(1)] p(2) False 1(3,4) link descends.more by blast
  qed
qed

lemma ancestor_descends: "isDirectedAncestor a b audit i \<Longrightarrow> \<exists>p. descends audit i b p \<and> op_proofHash p = op_proofHash a"
  unfolding isDirectedAncestor_def by (rule ancestor_walk_sound) simp_all

subsection \<open>The lineage search\<close>

definition at_least :: "evidence_tier option \<Rightarrow> evidence_tier \<Rightarrow> bool" where
  "at_least s t \<longleftrightarrow> s = Some HashLinked \<or> s = Some t"

lemma at_least_None [simp]: "\<not> at_least None t"
  by (simp add: at_least_def)

lemma bfs_sound:
  assumes "\<forall>k t k'. P k t \<longrightarrow> (k, k') \<in> set hops \<longrightarrow> P k' t"
    and "\<forall>(k, t) \<in> set queue. P k t" and "\<forall>t. best = Some t \<longrightarrow> P target t"
    and "lineage_bfs hops target seen queue best = Some t"
  shows "P target t"
  using assms
proof (induction hops target seen queue best rule: lineage_bfs.induct)
  case (2 hops target seen key tier queue best)
  have key: "P key tier" using 2(5) by simp
  have next_ok: "\<forall>(k, t) \<in> set (queue @ map (\<lambda>h. (snd h, tier)) (filter (\<lambda>h. fst h = key) hops)). P k t"
    using 2(5) 2(4) key by auto
  consider "seen key = Some HashLinked \<or> seen key = Some tier"
    | "\<not> (seen key = Some HashLinked \<or> seen key = Some tier)" "key = target" "tier = HashLinked"
    | "\<not> (seen key = Some HashLinked \<or> seen key = Some tier)" "key = target" "tier \<noteq> HashLinked"
    | "\<not> (seen key = Some HashLinked \<or> seen key = Some tier)" "key \<noteq> target" by blast
  then show ?case
  proof cases
    case 1
    then show ?thesis using 2(1) [OF 1 2(4)] 2(5-7) by (simp add: lineage_bfs.simps(2))
  next
    case c: 2
    then show ?thesis using key 2(7) by (simp add: lineage_bfs.simps(2))
  next
    case 3
    have "P target t"
    proof (rule 2(2) [OF 3(1) refl 3(2,3) 2(4)])
      show "\<forall>(k, t) \<in> set queue. P k t" using 2(5) by simp
      show "\<forall>t. (if best = None then Some tier else best) = Some t \<longrightarrow> P target t" using 2(6) key 3(2) by auto
      show "lineage_bfs hops target (seen(key \<mapsto> tier)) queue (if best = None then Some tier else best) = Some t"
        using 2(7) 3 by (simp add: lineage_bfs.simps(2) Let_def)
    qed
    then show ?thesis .
  next
    case 4
    then show ?thesis using 2(3) [OF 4(1) refl 4(2) 2(4) next_ok 2(6)] 2(7) by (simp add: lineage_bfs.simps(2) Let_def del: fun_upd_apply)
  qed
qed simp

text \<open>Nothing seen is left unexpanded: the target of every hop from a seen key is seen at least as
  well, or queued.\<close>

definition expanded :: "(jsstr \<times> jsstr) list \<Rightarrow> jsstr \<Rightarrow> (jsstr \<Rightarrow> evidence_tier option) \<Rightarrow> (jsstr \<times> evidence_tier) list \<Rightarrow> bool" where
  "expanded hops target seen queue \<longleftrightarrow> (\<forall>k t k'. seen k = Some t \<longrightarrow> k \<noteq> target \<longrightarrow> (k, k') \<in> set hops \<longrightarrow>
     at_least (seen k') t \<or> (k', t) \<in> set queue)"

definition pending :: "(jsstr \<Rightarrow> evidence_tier option) \<Rightarrow> (jsstr \<times> evidence_tier) list \<Rightarrow> jsstr \<Rightarrow> evidence_tier \<Rightarrow> bool" where
  "pending seen queue k t \<longleftrightarrow> at_least (seen k) t \<or> (k, t) \<in> set queue"

lemma at_least_upd: "at_least (seen k') t' \<Longrightarrow> \<not> at_least (seen k) t \<Longrightarrow> at_least ((seen(k \<mapsto> t)) k') t'"
  by (cases t; cases t') (auto simp: at_least_def)

lemma bfs_complete:
  assumes "expanded hops target seen queue" and "best = seen target" and "pending seen queue k t"
    and "(k, target) \<in> (set hops)\<^sup>*"
  shows "at_least (lineage_bfs hops target seen queue best) t"
  using assms
proof (induction hops target seen queue best arbitrary: k t rule: lineage_bfs.induct)
  case (1 hops target seen best)
  from "1.prems"(4,3) have "at_least (seen target) t"
  proof (induction arbitrary: t rule: converse_rtrancl_induct)
    case base
    then show ?case by (simp add: pending_def)
  next
    case (step y z)
    show ?case
    proof (cases "y = target")
      case True
      then show ?thesis using step.prems by (simp add: pending_def)
    next
      case False
      obtain s where s: "seen y = Some s" "s = HashLinked \<or> s = t"
        using step.prems by (auto simp: pending_def at_least_def)
      then have "at_least (seen z) s" using "1.prems"(1) False step.hyps(1) by (auto simp: expanded_def)
      then have "pending seen [] z t" using s(2) by (auto simp: pending_def at_least_def)
      then show ?thesis by (rule step.IH)
    qed
  qed
  then show ?case using "1.prems"(2) by simp
next
  case (2 hops target seen key tier queue best)
  have upd: "at_least ((seen(key \<mapsto> tier)) k') t'" if "at_least (seen k') t'" "\<not> at_least (seen key) tier" for k' t'
    using at_least_upd [of seen k' t' key tier] that by blast
  have self: "at_least ((seen(key \<mapsto> tier)) key) tier" by (simp add: at_least_def)
  note exp = "2.prems"(1) and best = "2.prems"(2) and pend = "2.prems"(3) and path = "2.prems"(4)
  consider (skip) "at_least (seen key) tier"
    | (hit) "\<not> at_least (seen key) tier" "key = target" "tier = HashLinked"
    | (weak) "\<not> at_least (seen key) tier" "key = target" "tier \<noteq> HashLinked"
    | (go) "\<not> at_least (seen key) tier" "key \<noteq> target" by blast
  then show ?case
  proof cases
    case skip
    then have c: "seen key = Some HashLinked \<or> seen key = Some tier" by (simp add: at_least_def)
    have "at_least (lineage_bfs hops target seen queue best) t"
    proof (rule "2.IH"(1) [OF c _ best _ path])
      have "at_least (seen k') t' \<or> (k', t') \<in> set queue" if "seen k1 = Some t'" "k1 \<noteq> target" "(k1, k') \<in> set hops" for k1 t' k'
        using exp that skip by (auto simp: expanded_def)
      then show "expanded hops target seen queue" by (simp add: expanded_def)
      show "pending seen queue k t" using pend skip by (auto simp: pending_def)
    qed
    then show ?thesis using c by (simp add: lineage_bfs.simps(2))
  next
    case hit
    then show ?thesis by (simp add: lineage_bfs.simps(2) at_least_def)
  next
    case weak
    then have n: "\<not> (seen key = Some HashLinked \<or> seen key = Some tier)" by (simp add: at_least_def)
    have none: "seen key = None" using n weak(3) by (cases "seen key"; cases tier) (auto, (metis evidence_tier.exhaust)+)
    have "at_least (lineage_bfs hops target (seen(key \<mapsto> tier)) queue (if best = None then Some tier else best)) t"
    proof (rule "2.IH"(2) [OF n refl weak(2,3) _ _ _ path])
      show "expanded hops target (seen(key \<mapsto> tier)) queue"
        using exp weak(2) upd [OF _ weak(1)] by (fastforce simp: expanded_def at_least_def)
      show "(if best = None then Some tier else best) = (seen(key \<mapsto> tier)) target" using best none weak(2) by simp
      show "pending (seen(key \<mapsto> tier)) queue k t"
        using pend upd [OF _ weak(1)] self by (auto simp: pending_def simp del: fun_upd_apply)
    qed
    then show ?thesis using n weak by (simp add: lineage_bfs.simps(2) Let_def)
  next
    case go
    then have n: "\<not> (seen key = Some HashLinked \<or> seen key = Some tier)" by (simp add: at_least_def)
    let ?q = "queue @ map (\<lambda>h. (snd h, tier)) (filter (\<lambda>h. fst h = key) hops)"
    have "at_least (lineage_bfs hops target (seen(key \<mapsto> tier)) ?q best) t"
    proof (rule "2.IH"(3) [OF n refl go(2) _ _ _ path])
      have "at_least ((seen(key \<mapsto> tier)) k') t' \<or> (k', t') \<in> set ?q"
        if "(seen(key \<mapsto> tier)) k1 = Some t'" "k1 \<noteq> target" "(k1, k') \<in> set hops" for k1 t' k'
      proof (cases "k1 = key")
        case True
        then show ?thesis using that by force
      next
        case False
        then have "at_least (seen k') t' \<or> (k', t') \<in> set ((key, tier) # queue)" using exp that by (auto simp: expanded_def)
        then show ?thesis using upd [OF _ go(1)] self by (auto simp del: fun_upd_apply)
      qed
      then show "expanded hops target (seen(key \<mapsto> tier)) ?q" unfolding expanded_def by blast
      show "best = (seen(key \<mapsto> tier)) target" using best go(2) by simp
      show "pending (seen(key \<mapsto> tier)) ?q k t"
        using pend upd [OF _ go(1)] self by (auto simp: pending_def simp del: fun_upd_apply)
    qed
    then show ?thesis using n go by (simp add: lineage_bfs.simps(2) Let_def)
  qed
qed

subsection \<open>What a lineage answer means\<close>

text \<open>The keys of the partitions hard edges lead from and to.\<close>

definition hop_rel :: "audit_result \<Rightarrow> (jsstr \<times> jsstr) set" where
  "hop_rel audit = {(k, k'). \<exists>e \<in> set (usable_edges audit). later_hop audit e = Some (k, k')}"

definition lineage_covers :: "observed_proof \<Rightarrow> nat \<Rightarrow> nat \<Rightarrow> audit_result \<Rightarrow> evidence_tier \<Rightarrow> bool" where
  "lineage_covers a partA partB audit t \<longleftrightarrow> (\<exists>e \<in> set (usable_edges audit). \<exists>k.
     first_hop a partA audit e = Some (k, t) \<and> (k, key_string audit partB) \<in> (hop_rel audit)\<^sup>*)"

lemma map_filter_set: "set (List.map_filter f xs) = {y. \<exists>x \<in> set xs. f x = Some y}"
  by (induction xs) (auto simp: List.map_filter_simps split: option.splits)

lemma later_hops_set: "set (List.map_filter (later_hop audit) (usable_edges audit)) = hop_rel audit"
  by (auto simp: map_filter_set hop_rel_def)

lemma lineage_sound: "lineagePrecedes a partA partB audit = Some t \<Longrightarrow> lineage_covers a partA partB audit t"
proof -
  assume h: "lineagePrecedes a partA partB audit = Some t"
  define P where "P = (\<lambda>k t. \<exists>e \<in> set (usable_edges audit). \<exists>k0. first_hop a partA audit e = Some (k0, t) \<and> (k0, k) \<in> (hop_rel audit)\<^sup>*)"
  have "P (key_string audit partB) t"
  proof (rule bfs_sound)
    show "lineage_bfs (List.map_filter (later_hop audit) (usable_edges audit)) (key_string audit partB) (\<lambda>_. None)
        (List.map_filter (first_hop a partA audit) (usable_edges audit)) None = Some t"
      using h by (simp add: lineagePrecedes_def Let_def)
    show "\<forall>k t k'. P k t \<longrightarrow> (k, k') \<in> set (List.map_filter (later_hop audit) (usable_edges audit)) \<longrightarrow> P k' t"
      unfolding later_hops_set P_def by (blast intro: rtrancl_into_rtrancl)
    show "\<forall>(k, t) \<in> set (List.map_filter (first_hop a partA audit) (usable_edges audit)). P k t"
      unfolding map_filter_set P_def by blast
  qed simp
  then show ?thesis by (simp add: P_def lineage_covers_def)
qed

lemma lineage_complete: "lineage_covers a partA partB audit t \<Longrightarrow> at_least (lineagePrecedes a partA partB audit) t"
proof -
  assume "lineage_covers a partA partB audit t"
  then obtain e k where e: "e \<in> set (usable_edges audit)" "first_hop a partA audit e = Some (k, t)"
    "(k, key_string audit partB) \<in> (hop_rel audit)\<^sup>*" by (auto simp: lineage_covers_def)
  show ?thesis unfolding lineagePrecedes_def Let_def
  proof (rule bfs_complete)
    show "pending (\<lambda>_. None) (List.map_filter (first_hop a partA audit) (usable_edges audit)) k t"
      using e by (auto simp: pending_def map_filter_set)
    show "(k, key_string audit partB) \<in> (set (List.map_filter (later_hop audit) (usable_edges audit)))\<^sup>*"
      using e(3) by (simp add: later_hops_set)
  qed (simp_all add: expanded_def)
qed

text \<open>C26: The lineage search. \<^verbatim>\<open>lineagePrecedes\<close> is complete and takes the best tier: it answers
  hash-linked exactly when some hard edge out of the partition, whose predecessor proof is the
  recording or descends from it, leads on by hard edges to the other partition; failing that,
  assumption-dependent exactly when such an edge is covered by counters only; and otherwise it does
  not answer. Its search returns on every edge set, cycles included.\<close>

theorem lineage_exact:
  "lineagePrecedes a partA partB audit =
     (if lineage_covers a partA partB audit HashLinked then Some HashLinked
      else if lineage_covers a partA partB audit AssumptionDependent then Some AssumptionDependent else None)"
  using lineage_sound [of a partA partB audit] lineage_complete [of a partA partB audit HashLinked]
    lineage_complete [of a partA partB audit AssumptionDependent]
  by (cases "lineagePrecedes a partA partB audit"; cases "the (lineagePrecedes a partA partB audit)")
     (auto simp: at_least_def)

text \<open>What a hash-linked "before" is backed by: within one partition a directed path of links from
  the later recording to the earlier; across partitions an edge with covered predecessor.\<close>

definition chain_evidence :: "observed_proof \<Rightarrow> observed_proof \<Rightarrow> audit_result \<Rightarrow> bool" where
  "chain_evidence a b audit \<longleftrightarrow> (\<exists>i. partitionOf audit (op_proofHash a) = Some i \<and> partitionOf audit (op_proofHash b) = Some i
     \<and> (\<exists>p. descends audit i b p \<and> op_proofHash p = op_proofHash a)
     \<and> \<not> contradicts (parseCounter (op_counter a)) (parseCounter (op_counter b)))"

definition lineage_evidence :: "observed_proof \<Rightarrow> observed_proof \<Rightarrow> audit_result \<Rightarrow> bool" where
  "lineage_evidence a b audit \<longleftrightarrow> (\<exists>i j e pred k. partitionOf audit (op_proofHash a) = Some i
     \<and> partitionOf audit (op_proofHash b) = Some j \<and> i \<noteq> j
     \<and> e \<in> set (usable_edges audit) \<and> edge_pred audit e = Some pred \<and> partitionOf audit (op_proofHash pred) = Some i
     \<and> (op_proofHash pred = op_proofHash a \<or> (\<exists>p. descends audit i pred p \<and> op_proofHash p = op_proofHash a))
     \<and> partitionOf audit (ee_viaProofHash e) = Some k
     \<and> (key_string audit k, key_string audit j) \<in> (hop_rel audit)\<^sup>*)"

lemma first_hop_HashLinked:
  assumes "first_hop a i audit e = Some (s, HashLinked)"
  obtains pred k where "edge_pred audit e = Some pred" "partitionOf audit (op_proofHash pred) = Some i"
    "op_proofHash pred = op_proofHash a \<or> (\<exists>p. descends audit i pred p \<and> op_proofHash p = op_proofHash a)"
    "partitionOf audit (ee_viaProofHash e) = Some k" "s = key_string audit k"
  using assms ancestor_descends [of a _ audit i]
  by (auto simp: first_hop_def hop_tier_def bind_eq_Some_conv split: if_splits option.splits)

lemma within_before: "or_relation (compare_within a b audit i) = RBefore \<Longrightarrow> or_tier (compare_within a b audit i) = Some HashLinked \<Longrightarrow>
   isDirectedAncestor a b audit i \<and> \<not> contradicts (parseCounter (op_counter a)) (parseCounter (op_counter b))"
  by (auto simp: compare_within_def compare_counters_def unordered_def Let_def split: if_splits option.splits)

lemma across_before: "or_relation (compare_across a i b j audit) = RBefore \<Longrightarrow> or_tier (compare_across a i b j audit) = Some HashLinked \<Longrightarrow>
   lineagePrecedes a i j audit = Some HashLinked"
  by (auto simp: compare_across_def compare_anchors_def lineage_result_def anchor_result_def concurrent_def unordered_def
      split: if_splits option.splits)

text \<open>C27: Hash-linked answers. When \<^verbatim>\<open>compare\<close> says that one recording precedes another at the
  hash-linked tier, either both are in one partition and a directed path of \<^verbatim>\<open>prevB64\<close> links through
  observed proofs leads from the later to the earlier, uncontradicted by their counters, or a hard
  epoch edge whose predecessor proof is the earlier recording or descends from it leads by hard
  edges to the partition of the later. Counters and anchors alone never carry that tier.\<close>

theorem hash_linked_evidence:
  assumes "or_relation (compare a b audit) = RBefore" and "or_tier (compare a b audit) = Some HashLinked"
  shows "chain_evidence a b audit \<or> lineage_evidence a b audit"
proof -
  obtain i j where ij: "partitionOf audit (op_proofHash a) = Some i" "partitionOf audit (op_proofHash b) = Some j"
    and ne: "op_proofHash a \<noteq> op_proofHash b"
    using assms by (auto simp: compare_def unordered_def split: if_splits option.splits)
  show ?thesis
  proof (cases "i = j")
    case True
    then have c: "compare a b audit = compare_within a b audit i" using ij ne by (simp add: compare_def)
    show ?thesis using within_before [of a b audit i] assms unfolding c
      by (intro disjI1) (use ij True ancestor_descends in \<open>auto simp: chain_evidence_def\<close>)
  next
    case False
    then have c: "compare a b audit = compare_across a i b j audit" using ij ne by (simp add: compare_def)
    then have "lineage_covers a i j audit HashLinked" using across_before assms lineage_sound by metis
    then obtain e s where e: "e \<in> set (usable_edges audit)" "first_hop a i audit e = Some (s, HashLinked)"
      "(s, key_string audit j) \<in> (hop_rel audit)\<^sup>*" by (auto simp: lineage_covers_def)
    from first_hop_HashLinked [OF e(2)] show ?thesis
      by (intro disjI2) (use e(1,3) ij False in \<open>unfold lineage_evidence_def, metis\<close>)
  qed
qed

text \<open>Two linked recordings of one partition.\<close>

definition demo_child :: observed_proof where
  "demo_child = demo_proof\<lparr>op_proofHash := u16 ''p3'', op_chainHash := u16 ''h3'', op_prevB64 := Some (u16 ''h1''),
     op_counter := Some (u16 ''4''), op_slotCounter := Some (u16 ''3'')\<rparr>"

definition demo_audit :: audit_result where
  "demo_audit = \<lparr>au_proofs = [demo_proof, demo_child], au_observed = 2,
     au_reconstruction = \<lparr>rc_partitions =
         [\<lparr>cp_key = \<lparr>pk_publicKeyB64 = u16 ''k1'', pk_epochId = Some (u16 ''e1''), pk_chainId = u16 ''global''\<rparr>,
           cp_memberProofHashes = [u16 ''p1'', u16 ''p3''], cp_components = []\<rparr>],
       rc_unchained = [], rc_unpartitioned = [],
       rc_epochs = \<lparr>er_epochs = [], er_edges = [], er_orderedPairs = []\<rparr>\<rparr>,
     au_segments = []\<rparr>"

lemma demo_compare: "or_relation (compare demo_proof demo_child demo_audit) = RBefore"
  "or_tier (compare demo_proof demo_child demo_audit) = Some HashLinked"
  by code_simp+

lemma hash_linked_evidence_witness:
  "chain_evidence demo_proof demo_child demo_audit \<or> lineage_evidence demo_proof demo_child demo_audit"
  by (rule hash_linked_evidence [OF demo_compare])

end
