(* ===== verification/BG_Rule.thy ===== *)
theory BG_Rule
  imports BG_Digest
begin

text \<open>
  What a rule that \<^verbatim>\<open>parseRule\<close> (\<^verbatim>\<open>packages/player/src/rule.ts\<close>) returns is known to satisfy: the
  evaluator relies on it.
\<close>

subsection \<open>Well-formed claims\<close>

text \<open>At most \<open>n\<close> further levels of nesting, no empty connective, signatures in format 2 only.\<close>

fun claim_ok :: "rule_format \<Rightarrow> nat \<Rightarrow> claim \<Rightarrow> bool" where
  "claim_ok f n (AllOf cs) \<longleftrightarrow> cs \<noteq> [] \<and> 0 < n \<and> (\<forall>c \<in> set cs. claim_ok f (n - 1) c)"
| "claim_ok f n (AnyOf cs) \<longleftrightarrow> cs \<noteq> [] \<and> 0 < n \<and> (\<forall>c \<in> set cs. claim_ok f (n - 1) c)"
| "claim_ok f n (NotOf c) \<longleftrightarrow> 0 < n \<and> claim_ok f (n - 1) c"
| "claim_ok f n (SignedBy r k) \<longleftrightarrow> f = Player2"
| "claim_ok f n (Exists r) \<longleftrightarrow> r \<noteq> []"
| "claim_ok f n _ \<longleftrightarrow> True"

lemma parseClaim_depth: "fst (parseClaim d f v) \<noteq> None \<Longrightarrow> d \<le> 32"
  by (cases "(d, f, v)" rule: parseClaim.cases) (auto split: if_splits)

lemma concat_map_Nil: "concat (map f xs) = [] \<longleftrightarrow> (\<forall>x \<in> set xs. f x = [])"
  by auto

text \<open>A result is either a claim that is in order or comes with an issue.\<close>

definition good :: "('a \<Rightarrow> bool) \<Rightarrow> 'a option \<times> issues \<Rightarrow> bool" where
  "good P r \<longleftrightarrow> (snd r = [] \<longrightarrow> (\<exists>c. fst r = Some c \<and> P c))"

lemma good_issue [simp]: "is \<noteq> [] \<Longrightarrow> good P (c, is)"
  by (simp add: good_def)

lemma good_Some [simp]: "good P (Some c, []) \<longleftrightarrow> P c"
  by (simp add: good_def)

lemma good_None: "good P (None, is) \<longleftrightarrow> is \<noteq> []"
  by (simp add: good_def)

lemma good_children:
  assumes g: "\<And>x. x \<in> set xs \<Longrightarrow> good (claim_ok f (32 - (d + 1))) (parseClaim (d + 1) f x)"
    and ne: "xs \<noteq> []" and con: "con = AllOf \<or> con = AnyOf"
  shows "good (claim_ok f (32 - d)) (claims_of con (map (parseClaim (d + 1) f) xs))"
proof (cases "\<forall>x \<in> set xs. snd (parseClaim (d + 1) f x) = []")
  case True
  have ch: "\<exists>c. parseClaim (d + 1) f x = (Some c, []) \<and> claim_ok f (32 - (d + 1)) c" if "x \<in> set xs" for x
    using g [OF that] True that by (cases "parseClaim (d + 1) f x") (auto simp: good_def)
  then have all: "list_all (\<lambda>r. fst r \<noteq> None) (map (parseClaim (d + 1) f) xs)"
    by (fastforce simp: list_all_iff)
  have ok: "\<forall>c \<in> set (map (\<lambda>r. the (fst r)) (map (parseClaim (d + 1) f) xs)). claim_ok f (32 - (d + 1)) c"
    using ch by fastforce
  have "hd xs \<in> set xs" using ne by simp
  then have "d + 1 \<le> 32" using ch [of "hd xs"] parseClaim_depth [of "d + 1" f "hd xs"] by auto
  then have "claim_ok f (32 - d) (con (map (\<lambda>r. the (fst r)) (map (parseClaim (d + 1) f) xs)))"
    using con ok ne by auto
  moreover have "concat (map snd (map (parseClaim (d + 1) f) xs)) = []" using True by simp
  ultimately show ?thesis unfolding claims_of_def if_P [OF all] by (simp only: good_Some)
next
  case False
  then have "concat (map snd (map (parseClaim (d + 1) f) xs)) \<noteq> []" by simp
  then show ?thesis unfolding claims_of_def by (intro good_issue)
qed

lemma parseClaim_good: "good (claim_ok f (32 - d)) (parseClaim d f v)"
proof (induction d f v rule: parseClaim.induct)
  case (1 d f op body)
  show ?case
  proof (cases "32 < d")
    case d: False
    consider "op = u16 ''all''" | "op = u16 ''any''" | "op = u16 ''not''" | "op = u16 ''exists''"
      | "op = u16 ''before'' \<or> op = u16 ''after''" | "op = u16 ''between''" | "op = u16 ''signedBy''"
      | "op \<notin> u16 ` {''all'', ''any'', ''not'', ''exists'', ''before'', ''after'', ''between'', ''signedBy''}" by blast
    then show ?thesis
    proof cases
      case 1
      show ?thesis
      proof (cases "\<exists>x xs. body = JArr (x # xs)")
        case True
        then obtain x xs where b: "body = JArr (x # xs)" by blast
        show ?thesis using good_children [of "x # xs" f d AllOf] "1.IH"(1) [OF d] 1 b d by (simp del: list.map)
      qed (use 1 d in \<open>auto split: jv.splits list.splits\<close>)
    next
      case 2
      show ?thesis
      proof (cases "\<exists>x xs. body = JArr (x # xs)")
        case True
        then obtain x xs where b: "body = JArr (x # xs)" by blast
        show ?thesis using good_children [of "x # xs" f d AnyOf] "1.IH"(1) [OF d] 2 b d by (simp del: list.map)
      qed (use 2 d in \<open>auto split: jv.splits list.splits\<close>)
    next
      case 3
      then have g: "good (claim_ok f (32 - (d + 1))) (parseClaim (d + 1) f body)" using "1.IH"(2) [OF d] by simp
      show ?thesis
      proof (cases "parseClaim (d + 1) f body")
        case (Pair c "is")
        then show ?thesis using g 3 d parseClaim_depth [of "d + 1" f body] by (auto simp: good_def)
      qed
    next
      case 4
      then show ?thesis using d by (auto simp: nonempty_str_def str_of_def split: jv.splits)
    next
      case 5
      then show ?thesis using d by (auto split: option.splits list.splits)
    next
      case 6
      then show ?thesis using d by (auto split: option.splits list.splits)
    next
      case 7
      then show ?thesis using d by (auto split: option.splits list.splits)
    next
      case 8
      then show ?thesis using d by simp
    qed
  qed simp
qed simp_all

subsection \<open>Casts, keys and the trust floor\<close>

definition name_ok :: "jsstr \<Rightarrow> bool" where
  "name_ok s \<longleftrightarrow> role_name s \<and> \<not> all_digits s"

definition entry_ok :: "cast_entry \<Rightarrow> bool" where
  "entry_ok e \<longleftrightarrow> normalizeDigest (ce_digest e) \<noteq> None
     \<and> (case ce_at e of Some (PinHash h) \<Rightarrow> h \<noteq> [] | Some (PinPosition ep c) \<Rightarrow> ep \<noteq> [] \<and> all_digits c | None \<Rightarrow> True)"

lemma parsePin_good: "good (\<lambda>p. case p of PinHash h \<Rightarrow> h \<noteq> [] | PinPosition ep c \<Rightarrow> ep \<noteq> [] \<and> all_digits c) (parsePin v)"
proof (cases v)
  case (JObj ps)
  have ne: "nonempty_str w \<Longrightarrow> str_of w \<noteq> []" for w by (auto elim: nonempty_strE)
  show ?thesis unfolding JObj parsePin_def jv.case Let_def
    by (auto simp: good_def ne)
qed (simp_all add: parsePin_def)

lemma parseCastEntry_good: "good entry_ok (parseCastEntry v)"
proof (cases v)
  case (JObj ps)
  let ?at = "if has ''at'' ps then parsePin (fld v ''at'') else (None, [])"
  obtain a i where at: "?at = (a, i)" by (cases ?at)
  have "i = [] \<Longrightarrow> case a of Some (PinHash h) \<Rightarrow> h \<noteq> [] | Some (PinPosition ep c) \<Rightarrow> ep \<noteq> [] \<and> all_digits c | None \<Rightarrow> True"
    using at parsePin_good [of "fld v ''at''"] by (auto simp: good_def split: if_splits)
  with at JObj show ?thesis unfolding parseCastEntry_def
    by (auto simp: Let_def good_def entry_ok_def split del: if_split split: prod.splits if_splits)
qed (simp_all add: parseCastEntry_def)

definition cast_ok :: "(jsstr \<times> cast_entry) list \<Rightarrow> bool" where
  "cast_ok cs \<longleftrightarrow> cs \<noteq> [] \<and> (\<forall>(role, e) \<in> set cs. name_ok role \<and> entry_ok e)"

lemma parse_role_ok: "snd (parse_role q) = [] \<Longrightarrow> \<exists>e. fst (parse_role q) = [(fst q, e)] \<and> name_ok (fst q) \<and> entry_ok e"
  using parseCastEntry_good [of "snd q"]
  by (auto simp: parse_role_def Let_def good_def name_ok_def split: prod.splits if_splits)

lemma parse_cast_ok:
  assumes "snd (parse_cast v) = []"
  shows "cast_ok (fst (parse_cast v))"
proof -
  obtain p ps where v: "v = JObj (p # ps)"
    using assms by (auto simp: parse_cast_def split: jv.splits list.splits)
  then have "\<forall>q \<in> set (p # ps). \<exists>e. fst (parse_role q) = [(fst q, e)] \<and> name_ok (fst q) \<and> entry_ok e"
    using assms parse_role_ok by (auto simp: parse_cast_def)
  then show ?thesis unfolding v by (fastforce simp: parse_cast_def cast_ok_def)
qed

lemma parse_ordering_good: "good (\<lambda>_. True) (parse_ordering v)"
  by (auto simp: parse_ordering_def good_def Let_def split: jv.splits)

lemma undeclared_keys_Nil:
  "undeclared_keys (Some c) keys = [] \<Longrightarrow>
   \<forall>k \<in> set (referenced_keys c). \<exists>ks. keys = Some ks \<and> k \<in> fst ` set ks"
  by (cases keys) (auto simp: undeclared_keys_def split: if_splits)

definition key_ok :: "jsstr \<times> trusted_key \<Rightarrow> bool" where
  "key_ok p \<longleftrightarrow> name_ok (fst p) \<and> tk_publicKey (snd p) \<noteq> [] \<and> tk_alg (snd p) \<in> {u16 ''ed25519'', u16 ''es256''}"

definition keys_ok :: "rule_format \<Rightarrow> (jsstr \<times> trusted_key) list option \<Rightarrow> bool" where
  "keys_ok f keys \<longleftrightarrow> (case keys of None \<Rightarrow> True | Some ks \<Rightarrow> f = Player2 \<and> (\<forall>p \<in> set ks. key_ok p))"

lemma parse_key_ok: "p \<in> set (fst (parse_key q)) \<Longrightarrow> key_ok p"
  by (auto simp: parse_key_def Let_def key_ok_def name_ok_def split: if_splits jv.splits elim!: nonempty_strE)

lemma parse_trusted_ok: "keys_ok f (fst (parse_trusted f raw v))"
  using parse_key_ok by (auto simp: parse_trusted_def keys_ok_def split: jv.splits list.splits)

subsection \<open>Rules\<close>

definition rule_wf :: "rule \<Rightarrow> bool" where
  "rule_wf r \<longleftrightarrow> r_id r \<noteq> [] \<and> cast_ok (r_cast r) \<and> keys_ok (r_format r) (r_trustedKeys r)
     \<and> claim_ok (r_format r) 32 (r_claim r)
     \<and> (\<forall>k \<in> set (referenced_keys (r_claim r)). \<exists>ks. r_trustedKeys r = Some ks \<and> k \<in> fst ` set ks)"

lemma parseRule_ok:
  assumes "parseRule parsed = Inr r"
  shows "rule_wf r"
proof -
  obtain raw where raw: "parsed = Some (JObj raw)"
    using assms by (auto simp: parseRule_def split: option.splits jv.splits)
  let ?v = "JObj raw"
  let ?f = "if fld ?v ''rule'' = JStr (u16 ''bitgraph-player/2'') then Player2 else Player1"
  let ?c = "if has ''claim'' raw then parseClaim 0 ?f (fld ?v ''claim'') else (None, [''\"claim\" is required''])"
  let ?k = "parse_trusted ?f raw (fld ?v ''trustedKeys'')"
  have good_c: "good (claim_ok ?f 32) ?c" using parseClaim_good [of ?f 0] by auto
  show ?thesis
    using assms good_c parse_cast_ok [of "fld ?v ''cast''"] parse_trusted_ok [of ?f raw "fld ?v ''trustedKeys''"]
      undeclared_keys_Nil [of _ "fst ?k"]
    unfolding raw parseRule_def option.case jv.case Let_def
    by (auto simp: rule_wf_def good_def elim!: nonempty_strE split: prod.splits if_splits)
qed

text \<open>C39: The rule parser. Every rule \<^verbatim>\<open>parseRule\<close> returns is well-formed: it has an id and a
  non-empty cast whose role names and digests are in order (so each digest normalises) and whose
  pins are complete; its claim nests at most 32 deep, has no empty connective, uses signatures only
  in format 2 and only by keys that are declared, with known algorithms.\<close>

theorem parseRule_wf:
  assumes "parseRule parsed = Inr r"
  shows "rule_wf r"
  using assms by (rule parseRule_ok)

text \<open>A rule file: one role whose digest is 32 equal bytes, and a signature of it.\<close>

definition demo_file_digest :: jsstr where
  "demo_file_digest = b64_encode (replicate 32 7)"

lemma demo_digest_ok [simp]: "normalizeDigest demo_file_digest = Some demo_file_digest"
  unfolding demo_file_digest_def by (rule normalizeDigest_std) simp

definition demo_rule_json :: jv where
  "demo_rule_json = JObj [(u16 ''rule'', JStr (u16 ''bitgraph-player/2'')), (u16 ''id'', JStr (u16 ''r'')),
     (u16 ''cast'', JObj [(u16 ''doc'', JObj [(u16 ''digest'', JStr demo_file_digest)])]),
     (u16 ''world'', JStr (u16 ''closed'')),
     (u16 ''requires'', JObj [(u16 ''ordering'', JStr (u16 ''hash-linked''))]),
     (u16 ''trustedKeys'', JObj [(u16 ''k'', JObj [(u16 ''alg'', JStr (u16 ''ed25519'')), (u16 ''publicKey'', JStr (u16 ''p''))])]),
     (u16 ''claim'', JObj [(u16 ''all'', JArr [JObj [(u16 ''exists'', JStr (u16 ''doc''))],
        JObj [(u16 ''not'', JObj [(u16 ''signedBy'', JArr [JStr (u16 ''doc''), JStr (u16 ''k'')])])]])])]"

definition demo_rule :: rule where
  "demo_rule = \<lparr>r_format = Player2, r_id = u16 ''r'',
     r_cast = [(u16 ''doc'', \<lparr>ce_digest = demo_file_digest, ce_means = None, ce_at = None, ce_signedBy = None, ce_optional = None\<rparr>)],
     r_ordering = HashLinked,
     r_trustedKeys = Some [(u16 ''k'', \<lparr>tk_alg = u16 ''ed25519'', tk_publicKey = u16 ''p''\<rparr>)],
     r_claim = AllOf [Exists (u16 ''doc''), NotOf (SignedBy (u16 ''doc'') (u16 ''k''))], r_then = None\<rparr>"

lemma demo_names [simp]: "role_name (u16 ''doc'')" "\<not> all_digits (u16 ''doc'')" "role_name (u16 ''k'')" "\<not> all_digits (u16 ''k'')"
  by code_simp+

lemma demo_rule_parses: "parseRule (Some demo_rule_json) = Inr demo_rule"
  by (simp add: parseRule_def demo_rule_json_def claims_of_def roles_def rejectUnknownKeys_def parse_ordering_def parse_cast_def
      parse_role_def parseCastEntry_def parse_trusted_def parse_key_def parse_then_def undeclared_keys_def Let_def demo_rule_def)

lemma parseRule_wf_witness: "parseRule (Some demo_rule_json) = Inr demo_rule \<and> rule_wf demo_rule"
  using parseRule_wf [OF demo_rule_parses] demo_rule_parses by simp

end
