(* ===== verification/BG_Claims.thy ===== *)
theory BG_Claims
  imports BG_Evaluate BG_Evidence BG_Rule
begin

text \<open>
  What the evaluator of \<^verbatim>\<open>packages/player/src\<close> answers: roles, claims, the trust floor, signatures.
\<close>

subsection \<open>The connectives\<close>

lemma kleene_all_loop_eq: "kleene_all_loop saw vs = (if FALSE \<in> set vs then FALSE
   else if saw \<or> UNDETERMINED \<in> set vs then UNDETERMINED else TRUE)"
  by (induction saw vs rule: kleene_all_loop.induct) auto

lemma kleene_any_loop_eq: "kleene_any_loop saw vs = (if TRUE \<in> set vs then TRUE
   else if saw \<or> UNDETERMINED \<in> set vs then UNDETERMINED else FALSE)"
  by (induction saw vs rule: kleene_any_loop.induct) auto

lemma kleeneAll_eq: "kleeneAll vs = (if FALSE \<in> set vs then FALSE else if UNDETERMINED \<in> set vs then UNDETERMINED else TRUE)"
  by (simp add: kleeneAll_def kleene_all_loop_eq)

lemma kleeneAny_eq: "kleeneAny vs = (if TRUE \<in> set vs then TRUE else if UNDETERMINED \<in> set vs then UNDETERMINED else FALSE)"
  by (simp add: kleeneAny_def kleene_any_loop_eq)

lemma kleeneAll_values:
  "kleeneAll vs = FALSE \<longleftrightarrow> FALSE \<in> set vs" "kleeneAll vs = TRUE \<longleftrightarrow> (\<forall>v \<in> set vs. v = TRUE)"
  by (simp_all add: kleeneAll_eq) (metis three.exhaust three.distinct(1,3))

lemma kleeneAny_values:
  "kleeneAny vs = TRUE \<longleftrightarrow> TRUE \<in> set vs" "kleeneAny vs = FALSE \<longleftrightarrow> (\<forall>v \<in> set vs. v = FALSE)"
  by (simp_all add: kleeneAny_eq) (metis three.exhaust three.distinct(1,5))

text \<open>\<open>a\<close> says no more than \<open>b\<close>.\<close>

definition vaguer :: "three \<Rightarrow> three \<Rightarrow> bool" where
  "vaguer a b \<longleftrightarrow> a = UNDETERMINED \<or> a = b"

lemma vaguer_refl [simp]: "vaguer a a"
  by (simp add: vaguer_def)

lemma vaguer_not: "vaguer a b \<Longrightarrow> vaguer (kleeneNot a) (kleeneNot b)"
  by (auto simp: vaguer_def kleeneNot_def)

lemma vaguer_mem: "list_all2 vaguer vs ws \<Longrightarrow> v \<in> set vs \<Longrightarrow> v \<noteq> UNDETERMINED \<Longrightarrow> v \<in> set ws"
  by (induction rule: list_all2_induct) (auto simp: vaguer_def)

lemma vaguer_mem_rev: "list_all2 vaguer vs ws \<Longrightarrow> UNDETERMINED \<notin> set vs \<Longrightarrow> vs = ws"
  by (induction rule: list_all2_induct) (auto simp: vaguer_def)

lemma vaguer_all: "list_all2 vaguer vs ws \<Longrightarrow> vaguer (kleeneAll vs) (kleeneAll ws)"
  using vaguer_mem [of vs ws FALSE] vaguer_mem_rev [of vs ws] by (auto simp: vaguer_def kleeneAll_eq)

lemma vaguer_any: "list_all2 vaguer vs ws \<Longrightarrow> vaguer (kleeneAny vs) (kleeneAny ws)"
  using vaguer_mem [of vs ws TRUE] vaguer_mem_rev [of vs ws] by (auto simp: vaguer_def kleeneAny_eq)

subsection \<open>The meaning of a claim\<close>

text \<open>
  Said without the evaluator: what the evidence establishes of a claim, as true or as false. A role is
  found with a resolved recording, and excluded when it is optional and absent. An order counts when
  the adapter's \<^verbatim>\<open>compare\<close> (characterised in \<open>BG_Order\<close> and \<open>BG_Evidence\<close>) gives it on evidence
  the floor admits: any, or hash-linked, which chain links and epoch lineages are and counters and
  anchors are not.
\<close>

definition found :: "play_env \<Rightarrow> jsstr \<Rightarrow> observed_proof option" where
  "found E role = (case map_of (pe_resolutions E) role of Some (Resolved _ p _ _) \<Rightarrow> Some p | _ \<Rightarrow> None)"

definition excluded :: "play_env \<Rightarrow> jsstr \<Rightarrow> bool" where
  "excluded E role \<longleftrightarrow> (case map_of (pe_resolutions E) role of Some (Absent _ optional) \<Rightarrow> optional | _ \<Rightarrow> False)"

definition floor_admits :: "evidence_tier \<Rightarrow> order_result \<Rightarrow> bool" where
  "floor_admits floor r \<longleftrightarrow> floor = AssumptionDependent
     \<or> (case or_tier r of Some t \<Rightarrow> t = HashLinked | None \<Rightarrow> or_basis r \<in> {Some ChainLink, Some EpochLineage})"

definition precedes :: "play_env \<Rightarrow> bool \<Rightarrow> jsstr \<Rightarrow> jsstr \<Rightarrow> bool" where
  "precedes E b x y = (case (found E x, found E y) of
     (Some p, Some q) \<Rightarrow> (let r = compare p q (pe_audit E) in
        or_relation r = RSame \<and> \<not> b
        \<or> or_relation r = (if b then RBefore else RAfter) \<and> floor_admits (r_ordering (pe_rule E)) r)
   | (Some _, None) \<Rightarrow> \<not> b \<and> excluded E y
   | (None, Some _) \<Rightarrow> \<not> b \<and> excluded E x
   | (None, None) \<Rightarrow> \<not> b \<and> excluded E x \<and> excluded E y)"

text \<open>A signature file in the evidence, by the trusted key, over the role's digest.\<close>

definition signed :: "play_env \<Rightarrow> jsstr \<Rightarrow> jsstr \<Rightarrow> bool" where
  "signed E role keyName \<longleftrightarrow> (\<exists>entry keys key keyObject digest h bytes sig signature.
     map_of (r_cast (pe_rule E)) role = Some entry \<and> normalizeDigest (ce_digest entry) = Some (b64_encode digest)
     \<and> length digest = 32
     \<and> r_trustedKeys (pe_rule E) = Some keys \<and> map_of keys keyName = Some key \<and> keyObjectFor (pe_kit E) key = Some keyObject
     \<and> map_of (pe_sigEvidence E) h = Some bytes \<and> parseSigFile (pe_kit E) bytes = Some sig
     \<and> sf_alg sig = tk_alg key \<and> sf_publicKey sig = tk_publicKey key
     \<and> decodeDigestBytes (strip_prefix (js_trim (sf_over sig))) = Some digest
     \<and> decodeB64Strict (sf_signature sig) = Some signature
     \<and> (sf_alg sig = u16 ''ed25519'' \<longrightarrow> length signature = 64)
     \<and> sk_verify (pe_kit E) (sf_alg sig \<noteq> u16 ''ed25519'') (sigMessage (hex_text digest)) keyObject signature = Some True)"

text \<open>\<open>established E True c\<close>: the evidence shows \<open>c\<close>; \<open>established E False c\<close>: it refutes \<open>c\<close>. All of a list
  are shown when each is and refuted when one is, any of them the other way round, a negation swaps
  the two, and a missing signature refutes nothing.\<close>

fun established :: "play_env \<Rightarrow> bool \<Rightarrow> claim \<Rightarrow> bool" where
  "established E b (Exists role) = (if b then found E role \<noteq> None else excluded E role)"
| "established E b (Before x y) = precedes E b x y"
| "established E b (After x y) = precedes E b y x"
| "established E b (Between s l u) =
     (if b then precedes E True l s \<and> precedes E True s u else precedes E False l s \<or> precedes E False s u)"
| "established E b (AllOf cs) =
     (if b then \<forall>c \<in> set cs. established E True c else \<exists>c \<in> set cs. established E False c)"
| "established E b (AnyOf cs) =
     (if b then \<exists>c \<in> set cs. established E True c else \<forall>c \<in> set cs. established E False c)"
| "established E b (NotOf c) = established E (\<not> b) c"
| "established E b (SignedBy role k) = (b \<and> signed E role k)"

definition meaning :: "play_env \<Rightarrow> claim \<Rightarrow> three" where
  "meaning E c = (if established E True c then TRUE else if established E False c then FALSE else UNDETERMINED)"

subsection \<open>The value the walk computes\<close>

definition exists_value :: "play_env \<Rightarrow> jsstr \<Rightarrow> three" where
  "exists_value E role = (case classify E role of IsResolved _ \<Rightarrow> TRUE | DefinitelyAbsent \<Rightarrow> FALSE | IsUndetermined _ \<Rightarrow> UNDETERMINED)"

definition order_value :: "evidence_tier \<Rightarrow> order_result \<Rightarrow> three" where
  "order_value floor r = (case or_relation r of RSame \<Rightarrow> FALSE | RUnordered \<Rightarrow> UNDETERMINED
     | rel \<Rightarrow> if meetsFloor (case or_tier r of Some t \<Rightarrow> t | None \<Rightarrow> basisTier (the (or_basis r))) floor
              then (if rel = RBefore then TRUE else FALSE) else UNDETERMINED)"

definition precedes_value :: "play_env \<Rightarrow> jsstr \<Rightarrow> jsstr \<Rightarrow> three" where
  "precedes_value E x y = (case (classify E x, classify E y) of
     (IsUndetermined _, _) \<Rightarrow> UNDETERMINED
   | (_, IsUndetermined _) \<Rightarrow> UNDETERMINED
   | (IsResolved a, IsResolved b) \<Rightarrow> order_value (r_ordering (pe_rule E)) (compare a b (pe_audit E))
   | _ \<Rightarrow> FALSE)"

fun walk_value :: "play_env \<Rightarrow> claim \<Rightarrow> three" where
  "walk_value E (Exists role) = exists_value E role"
| "walk_value E (Before x y) = precedes_value E x y"
| "walk_value E (After x y) = precedes_value E y x"
| "walk_value E (Between s l u) = kleeneAll [precedes_value E l s, precedes_value E s u]"
| "walk_value E (AllOf cs) = kleeneAll (map (walk_value E) cs)"
| "walk_value E (AnyOf cs) = kleeneAny (map (walk_value E) cs)"
| "walk_value E (NotOf c) = kleeneNot (walk_value E c)"
| "walk_value E (SignedBy role k) = (if signed E role k then TRUE else UNDETERMINED)"

fun leaves :: "claim \<Rightarrow> nat" where
  "leaves (AllOf cs) = sum_list (map leaves cs)"
| "leaves (AnyOf cs) = sum_list (map leaves cs)"
| "leaves (NotOf c) = leaves c"
| "leaves (Between s l u) = 2"
| "leaves _ = 1"

text \<open>What one step adds to the walk.\<close>

definition adds :: "nat \<Rightarrow> walk_state \<Rightarrow> walk_state \<Rightarrow> bool" where
  "adds n w w' \<longleftrightarrow> length (wk_steps w') = length (wk_steps w) + n \<and> take (length (wk_steps w)) (wk_steps w') = wk_steps w"

lemma adds_trans: "adds m w w1 \<Longrightarrow> adds n w1 w2 \<Longrightarrow> adds (m + n) w w2"
  unfolding adds_def by (metis add.assoc le_add1 min.absorb1 take_take)

lemma adds_record [simp]: "adds (Suc 0) w (snd (record_step st w))" "adds (Suc 0) w (snd (record_step st (w\<lparr>wk_tiers := ts\<rparr>)))"
  by (simp_all add: adds_def record_step_def)

lemma fst_record [simp]: "fst (record_step st w) = ds_result st"
  by (simp add: record_step_def)

lemma evalExists_ok: "fst (evalExists E role w) = exists_value E role \<and> adds 1 w (snd (evalExists E role w))"
  by (auto simp: evalExists_def exists_value_def Let_def split: role_class.splits)

lemma evalPrecedes_ok: "fst (evalPrecedes E name x y w) = precedes_value E x y \<and> adds 1 w (snd (evalPrecedes E name x y w))"
  by (auto simp: evalPrecedes_def precedes_value_def order_value_def Let_def split: role_class.splits order_relation.splits)

subsection \<open>Signatures\<close>

lemma decode_hex_text: "length d = 32 \<Longrightarrow> decodeDigestBytes (hex_text d) = Some d"
  using hex_text_props [of d] by (simp add: decodeDigestBytes_def HEX64_def trim_plain Let_def)

lemma find_in: "find P xs = Some x \<Longrightarrow> x \<in> set xs \<and> P x"
  by (metis find_Some_iff nth_mem)

lemma verifySigFile_iff:
  assumes "length digest = 32"
  shows "verifySigFile K sig key keyObject (hex_text digest) \<longleftrightarrow>
     sf_alg sig = tk_alg key \<and> sf_publicKey sig = tk_publicKey key
     \<and> decodeDigestBytes (strip_prefix (js_trim (sf_over sig))) = Some digest
     \<and> (\<exists>signature. decodeB64Strict (sf_signature sig) = Some signature
         \<and> (sf_alg sig = u16 ''ed25519'' \<longrightarrow> length signature = 64)
         \<and> sk_verify K (sf_alg sig \<noteq> u16 ''ed25519'') (sigMessage (hex_text digest)) keyObject signature = Some True)"
  using decode_hex_text [OF assms] by (auto simp: verifySigFile_def Let_def split: option.splits)

lemma find_signature_iff:
  assumes "length digest = 32"
  shows "find_signature E key keyObject (hex_text digest) \<noteq> None \<longleftrightarrow>
    (\<exists>h bytes sig. map_of (pe_sigEvidence E) h = Some bytes \<and> parseSigFile (pe_kit E) bytes = Some sig
       \<and> verifySigFile (pe_kit E) sig key keyObject (hex_text digest))"
proof -
  let ?ok = "\<lambda>h. case parseSigFile (pe_kit E) (the (map_of (pe_sigEvidence E) h)) of None \<Rightarrow> False
      | Some sig \<Rightarrow> verifySigFile (pe_kit E) sig key keyObject (hex_text digest)"
  have "find_signature E key keyObject (hex_text digest) \<noteq> None \<longleftrightarrow> (\<exists>h \<in> dom (map_of (pe_sigEvidence E)). ?ok h)"
    unfolding find_signature_def find_None_iff by (simp add: dom_map_of_conv_image_fst)
  also have "\<dots> \<longleftrightarrow> (\<exists>h bytes. map_of (pe_sigEvidence E) h = Some bytes \<and> ?ok h)"
    by (simp add: dom_def)
  also have "\<dots> \<longleftrightarrow> (\<exists>h bytes sig. map_of (pe_sigEvidence E) h = Some bytes \<and> parseSigFile (pe_kit E) bytes = Some sig
       \<and> verifySigFile (pe_kit E) sig key keyObject (hex_text digest))"
  proof (intro iff_exI)
    fix h bytes
    show "map_of (pe_sigEvidence E) h = Some bytes \<and> ?ok h \<longleftrightarrow> (\<exists>sig. map_of (pe_sigEvidence E) h = Some bytes
        \<and> parseSigFile (pe_kit E) bytes = Some sig \<and> verifySigFile (pe_kit E) sig key keyObject (hex_text digest))"
      by (cases "map_of (pe_sigEvidence E) h = Some bytes") (simp_all split: option.split)
  qed
  finally show ?thesis .
qed

text \<open>The digests of a parsed rule normalise.\<close>

definition digests_ok :: "rule \<Rightarrow> bool" where
  "digests_ok r \<longleftrightarrow> (\<forall>(role, e) \<in> set (r_cast r). normalizeDigest (ce_digest e) \<noteq> None)"

lemma rule_wf_digests: "rule_wf r \<Longrightarrow> digests_ok r"
  by (auto simp: rule_wf_def cast_ok_def entry_ok_def digests_ok_def)

lemma evalSignedBy_ok:
  assumes "digests_ok (pe_rule E)"
  shows "fst (evalSignedBy E role k w) = (if signed E role k then TRUE else UNDETERMINED)
    \<and> adds 1 w (snd (evalSignedBy E role k w))"
proof (cases "\<exists>entry keys key keyObject. map_of (r_cast (pe_rule E)) role = Some entry
    \<and> r_trustedKeys (pe_rule E) = Some keys \<and> map_of keys k = Some key \<and> keyObjectFor (pe_kit E) key = Some keyObject")
  case True
  then obtain entry keys key keyObject where p: "map_of (r_cast (pe_rule E)) role = Some entry"
    "r_trustedKeys (pe_rule E) = Some keys" "map_of keys k = Some key" "keyObjectFor (pe_kit E) key = Some keyObject"
    by blast
  have "(role, entry) \<in> set (r_cast (pe_rule E))" using p(1) by (rule map_of_SomeD)
  then obtain d where d: "normalizeDigest (ce_digest entry) = Some d" using assms by (auto simp: digests_ok_def)
  obtain digest where dg: "length digest = 32" "d = b64_encode digest" "decodeDigestBytes d = Some digest"
    using normalized_decodes [OF d] .
  have "signed E role k \<longleftrightarrow> find_signature E key keyObject (hex_text digest) \<noteq> None"
    unfolding find_signature_iff [OF dg(1)] verifySigFile_iff [OF dg(1)] signed_def using p d dg by auto
  then show ?thesis using p d dg by (auto simp: evalSignedBy_def Let_def split: option.splits)
next
  case False
  then have "\<not> signed E role k" unfolding signed_def by blast
  with False show ?thesis by (auto simp: evalSignedBy_def Let_def split: option.splits)
qed

subsection \<open>The walk\<close>

lemma evalBetween_ok: "fst (evalClaim E (Between s l u) w) = walk_value E (Between s l u) \<and> adds 2 w (snd (evalClaim E (Between s l u) w))"
proof -
  let ?name = "u16 ''between('' @ s @ u16 '', '' @ l @ u16 '', '' @ u @ u16 ''): ''"
  obtain v1 w1 where 1: "evalPrecedes E (?name @ pair_text ''after'' s l) l s w = (v1, w1)" by force
  obtain v2 w2 where 2: "evalPrecedes E (?name @ pair_text ''before'' s u) s u w1 = (v2, w2)" by force
  have "v1 = precedes_value E l s" "adds 1 w w1" "v2 = precedes_value E s u" "adds 1 w1 w2"
    using evalPrecedes_ok [of E "?name @ pair_text ''after'' s l" l s w]
      evalPrecedes_ok [of E "?name @ pair_text ''before'' s u" s u w1] 1 2 by auto
  with adds_trans [of 1 w w1 1 w2] show ?thesis using 1 2 by (simp add: Let_def numeral_2_eq_2)
qed

lemma adds_refl [simp]: "adds 0 w w"
  by (simp add: adds_def)

lemma evalClaim_ok:
  "digests_ok (pe_rule E) \<Longrightarrow> fst (evalClaim E c w) = walk_value E c \<and> adds (leaves c) w (snd (evalClaim E c w))"
  "digests_ok (pe_rule E) \<Longrightarrow> fst (evalClaims E cs w) = map (walk_value E) cs
     \<and> adds (sum_list (map leaves cs)) w (snd (evalClaims E cs w))"
proof (induction E c w and E cs w rule: evalClaim_evalClaims.induct)
  case (5 E s l u w)
  show ?case using evalBetween_ok [of E s l u w] by (simp only: leaves.simps)
next
  case (10 E c cs w)
  obtain v w1 where 1: "evalClaim E c w = (v, w1)" by force
  obtain vs w2 where 2: "evalClaims E cs w1 = (vs, w2)" by force
  have "v = walk_value E c" "adds (leaves c) w w1" using "10.IH"(1) [OF "10.prems"] 1 by simp_all
  moreover have "vs = map (walk_value E) cs" "adds (sum_list (map leaves cs)) w1 w2"
    using "10.IH"(2) [OF _ refl "10.prems"] 1 2 by simp_all
  ultimately show ?case using 1 2 adds_trans [of "leaves c" w w1] by simp
qed (use evalExists_ok evalPrecedes_ok evalSignedBy_ok in \<open>auto simp: split: prod.splits\<close>)

text \<open>The three values against the two conditions.\<close>

lemma classify_found:
  "classify E role = IsResolved p \<longleftrightarrow> found E role = Some p" "classify E role = DefinitelyAbsent \<longleftrightarrow> excluded E role"
  by (auto simp: classify_def found_def excluded_def split: option.splits resolution.splits)

lemma found_excluded: "found E role = Some p \<Longrightarrow> \<not> excluded E role"
  by (auto simp: found_def excluded_def split: option.splits resolution.splits)

definition based :: "order_result \<Rightarrow> bool" where
  "based r \<longleftrightarrow> or_relation r = RBefore \<or> or_relation r = RAfter \<longrightarrow> or_basis r \<noteq> None"

lemma based_simps [simp]: "based (unordered d)" "based (anchor_result rel hit)" "based (lineage_result rel t)" "based (concurrent a b)"
  by (simp_all add: based_def unordered_def anchor_result_def lineage_result_def concurrent_def split: prod.splits)

lemma based_counters: "based (compare_counters a b)"
  by (simp add: compare_counters_def split: option.splits) (simp add: based_def)

lemma based_within: "based (compare_within a b audit i)"
  by (simp add: compare_within_def Let_def based_counters) (simp add: based_def)

lemma based_anchors: "based (compare_anchors a b audit)"
  by (simp add: compare_anchors_def split: option.splits)

lemma based_compare: "based (compare a b audit)"
  by (simp add: compare_def compare_across_def based_within based_anchors split: option.splits) (simp add: based_def)

lemma floor_admits_iff:
  "or_basis r \<noteq> None \<Longrightarrow>
   meetsFloor (case or_tier r of Some t \<Rightarrow> t | None \<Rightarrow> basisTier (the (or_basis r))) floor = floor_admits floor r"
  by (cases "or_tier r") (auto simp: floor_admits_def meetsFloor_def basisTier_def split: order_basis.splits)

lemma order_value_iff:
  assumes "based r"
  shows "order_value floor r = TRUE \<longleftrightarrow> or_relation r = RBefore \<and> floor_admits floor r"
    and "order_value floor r = FALSE \<longleftrightarrow> or_relation r = RSame \<or> or_relation r = RAfter \<and> floor_admits floor r"
proof -
  have "or_relation r = RBefore \<or> or_relation r = RAfter \<Longrightarrow> or_basis r \<noteq> None" using assms by (simp add: based_def)
  then show "order_value floor r = TRUE \<longleftrightarrow> or_relation r = RBefore \<and> floor_admits floor r"
    and "order_value floor r = FALSE \<longleftrightarrow> or_relation r = RSame \<or> or_relation r = RAfter \<and> floor_admits floor r"
    using floor_admits_iff [of r floor] by (cases "or_relation r"; simp add: order_value_def)+
qed

lemma precedes_value_iff:
  "precedes_value E x y = TRUE \<longleftrightarrow> precedes E True x y" "precedes_value E x y = FALSE \<longleftrightarrow> precedes E False x y"
proof -
  have c: "case classify E role of IsResolved p \<Rightarrow> found E role = Some p | DefinitelyAbsent \<Rightarrow> found E role = None \<and> excluded E role
      | IsUndetermined _ \<Rightarrow> found E role = None \<and> \<not> excluded E role" for role
    by (simp add: classify_def found_def excluded_def split: option.split resolution.split)
  show "precedes_value E x y = TRUE \<longleftrightarrow> precedes E True x y" "precedes_value E x y = FALSE \<longleftrightarrow> precedes E False x y"
    using c [of x] c [of y]
    by (cases "classify E x"; cases "classify E y";
        simp add: precedes_value_def precedes_def Let_def order_value_iff [OF based_compare]; blast)+
qed

lemma walk_value_established:
  "(walk_value E c = TRUE \<longleftrightarrow> established E True c) \<and> (walk_value E c = FALSE \<longleftrightarrow> established E False c)"
proof (induction c)
  case (Exists role)
  then show ?case using classify_found [of E role] found_excluded [of E role]
    by (cases "classify E role") (auto simp: exists_value_def)
next
  case (Between s l u)
  then show ?case using precedes_value_iff [of E l s] precedes_value_iff [of E s u]
    by (cases "precedes_value E l s"; cases "precedes_value E s u"; simp add: kleeneAll_eq)
next
  case (AllOf cs)
  then have "(\<exists>c \<in> set cs. walk_value E c = FALSE) \<longleftrightarrow> established E False (AllOf cs)"
    "(\<forall>c \<in> set cs. walk_value E c = TRUE) \<longleftrightarrow> established E True (AllOf cs)" by simp_all
  moreover have "kleeneAll (map (walk_value E) cs) = FALSE \<longleftrightarrow> (\<exists>c \<in> set cs. walk_value E c = FALSE)"
    "kleeneAll (map (walk_value E) cs) = TRUE \<longleftrightarrow> (\<forall>c \<in> set cs. walk_value E c = TRUE)"
    by (force simp: kleeneAll_values)+
  ultimately show ?case unfolding walk_value.simps by blast
next
  case (AnyOf cs)
  then have "(\<forall>c \<in> set cs. walk_value E c = FALSE) \<longleftrightarrow> established E False (AnyOf cs)"
    "(\<exists>c \<in> set cs. walk_value E c = TRUE) \<longleftrightarrow> established E True (AnyOf cs)" by simp_all
  moreover have "kleeneAny (map (walk_value E) cs) = TRUE \<longleftrightarrow> (\<exists>c \<in> set cs. walk_value E c = TRUE)"
    "kleeneAny (map (walk_value E) cs) = FALSE \<longleftrightarrow> (\<forall>c \<in> set cs. walk_value E c = FALSE)"
    by (force simp: kleeneAny_values)+
  ultimately show ?case unfolding walk_value.simps by blast
next
  case (NotOf c)
  then show ?case by (auto simp: kleeneNot_def)
qed (simp_all add: precedes_value_iff)

lemma walk_value_meaning: "walk_value E c = meaning E c"
  using walk_value_established [of E c] by (cases "walk_value E c") (auto simp: meaning_def)

subsection \<open>The properties\<close>

lemma evaluate_walk:
  assumes "rule_wf (pe_rule E)"
  shows "ev_result (evaluate E) = walk_value E (r_claim (pe_rule E))
    \<and> length (ev_steps (evaluate E)) = leaves (r_claim (pe_rule E))"
  using evalClaim_ok(1) [OF rule_wf_digests [OF assms], of "r_claim (pe_rule E)" "\<lparr>wk_steps = [], wk_tiers = []\<rparr>"]
  by (auto simp: evaluate_def adds_def Let_def split: prod.splits)

text \<open>C20: The evaluator computes the meaning of the claim. For a rule that parsed, the stateful walk ends
  in true exactly when the evidence establishes the claim and in false exactly when it refutes it
  (never both), and in undetermined when it does neither. The two conditions are stated of the claim
  itself, without the evaluator's connectives, role classes and floor test: a conjunction is refuted
  by one refuted part, an existence claim only by an absent optional role, an ordering claim follows
  the order \<^verbatim>\<open>compare\<close> gives when the declared floor admits its evidence, a signature claim is never
  refuted. The walk never short-circuits: it records one step per elementary claim, two for a between.\<close>

theorem evaluate_meaning:
  assumes "rule_wf (pe_rule E)"
  shows "(ev_result (evaluate E) = TRUE \<longleftrightarrow> established E True (r_claim (pe_rule E)))
    \<and> (ev_result (evaluate E) = FALSE \<longleftrightarrow> established E False (r_claim (pe_rule E)))
    \<and> length (ev_steps (evaluate E)) = leaves (r_claim (pe_rule E))"
  using evaluate_walk [OF assms] walk_value_established [of E "r_claim (pe_rule E)"] by simp

definition with_floor :: "evidence_tier \<Rightarrow> play_env \<Rightarrow> play_env" where
  "with_floor floor E = E\<lparr>pe_rule := (pe_rule E)\<lparr>r_ordering := floor\<rparr>\<rparr>"

lemma with_floor_simps [simp]:
  "pe_resolutions (with_floor f E) = pe_resolutions E" "pe_audit (with_floor f E) = pe_audit E"
  "r_ordering (pe_rule (with_floor f E)) = f" "r_claim (pe_rule (with_floor f E)) = r_claim (pe_rule E)"
  "rule_wf (pe_rule (with_floor f E)) = rule_wf (pe_rule E)" "classify (with_floor f E) = classify E"
  "signed (with_floor f E) = signed E"
  by (auto simp: with_floor_def rule_wf_def classify_def fun_eq_iff signed_def)

lemma order_value_floor: "vaguer (order_value HashLinked r) (order_value AssumptionDependent r)"
  by (auto simp: order_value_def vaguer_def meetsFloor_def split: order_relation.splits)

lemma precedes_floor: "vaguer (precedes_value (with_floor HashLinked E) x y) (precedes_value (with_floor AssumptionDependent E) x y)"
  using order_value_floor by (auto simp: precedes_value_def split: role_class.splits)

lemma walk_value_floor: "vaguer (walk_value (with_floor HashLinked E) c) (walk_value (with_floor AssumptionDependent E) c)"
proof (induction c)
  case (Between s l u)
  show ?case unfolding walk_value.simps by (rule vaguer_all) (simp add: precedes_floor)
next
  case (AllOf cs)
  then show ?case unfolding walk_value.simps by (intro vaguer_all) (simp add: list_all2_map1 list_all2_map2 list_all2_same)
next
  case (AnyOf cs)
  then show ?case unfolding walk_value.simps by (intro vaguer_any) (simp add: list_all2_map1 list_all2_map2 list_all2_same)
next
  case (NotOf c)
  then show ?case by (simp add: vaguer_not)
qed (simp_all add: precedes_floor exists_value_def)

text \<open>C22: The trust floor gates evidence, not polarity. Raising the floor of a rule from
  assumption-dependent to hash-linked either leaves its result or turns it into undetermined; no
  true becomes false, no false becomes true, and nothing undetermined is decided, whatever
  negations and alternatives the claim has.\<close>

theorem floor_only_removes_answers:
  assumes "rule_wf (pe_rule E)"
  shows "vaguer (ev_result (evaluate (with_floor HashLinked E))) (ev_result (evaluate (with_floor AssumptionDependent E)))"
  using evaluate_walk [of "with_floor HashLinked E"] evaluate_walk [of "with_floor AssumptionDependent E"]
    walk_value_floor [of E "r_claim (pe_rule E)"] assms by simp

text \<open>C37: Resolution of a role. A digest that normalises has 32 bytes; a role resolves exactly when
  one verified recording of those bytes is left, after the pin where there is one; it is absent
  exactly when no proof of the bundle carries the bytes in any spelling, broken ones included; two or
  more recordings left are ambiguous, never a silent pick.\<close>

theorem resolveRole_exact:
  assumes "normalizeDigest (ce_digest entry) = Some d"
  shows "\<exists>h. length h = 32 \<and> d = b64_encode h \<and>
    (let verified = filter verificationPassed (filter (\<lambda>p. proof_digest p = Some h) (au_proofs audit));
         left = filter (\<lambda>p. case ce_at entry of None \<Rightarrow> True | Some pin \<Rightarrow> matchesPin p pin) verified in
     (\<forall>p t n. resolveRole role entry audit = Resolved role p t n \<longleftrightarrow> left = [p] \<and> n = length verified
        \<and> t = (case op_verification p of None \<Rightarrow> Integrity | Some v \<Rightarrow> pv_tier v))
     \<and> (resolveRole role entry audit = Absent role (ce_optional entry = Some True)
        \<longleftrightarrow> filter (\<lambda>p. proof_digest p = Some h) (au_proofs audit) = [])
     \<and> ((\<exists>n hs. resolveRole role entry audit = Ambiguous role n hs) \<longleftrightarrow> 2 \<le> length left))"
proof -
  obtain h where h: "length h = 32" "d = b64_encode h" "decodeDigestBytes d = Some h"
    using normalized_decodes [OF assms] .
  define anyMatch where "anyMatch = filter (\<lambda>p. proof_digest p = Some h) (au_proofs audit)"
  define verified where "verified = filter verificationPassed anyMatch"
  define left where "left = filter (\<lambda>p. case ce_at entry of None \<Rightarrow> True | Some pin \<Rightarrow> matchesPin p pin) verified"
  have cand: "(case ce_at entry of None \<Rightarrow> verified | Some pin \<Rightarrow> filter (\<lambda>p. matchesPin p pin) verified) = left"
    by (auto simp: left_def split: option.splits)
  have role_eq: "role_matches audit h = anyMatch" by (simp add: role_matches_def anyMatch_def)
  have "verified = [] \<Longrightarrow> left = []" "anyMatch = [] \<Longrightarrow> verified = []" by (simp_all add: left_def verified_def)
  moreover have "resolveRole role entry audit =
     (if verified = [] then
        (if anyMatch \<noteq> [] then InvalidRole role (none_passed (length anyMatch))
         else Absent role (ce_optional entry = Some True))
      else (case left of
        [] \<Rightarrow> InvalidRole role (pin_missed (length verified))
      | [proof] \<Rightarrow> Resolved role proof (case op_verification proof of None \<Rightarrow> Integrity | Some v \<Rightarrow> pv_tier v) (length verified)
      | _ \<Rightarrow> Ambiguous role (length left) (sort (map op_proofHash left))))"
    by (simp only: resolveRole_def assms h(3) option.case option.sel role_eq Let_def
        verified_def [symmetric] cand)
  ultimately show ?thesis using h(1,2)
    by (intro exI [of _ h]) (auto simp: Let_def anyMatch_def [symmetric] verified_def [symmetric] left_def [symmetric] split: list.splits)
qed

subsection \<open>A concrete evaluation\<close>

definition demo_recording :: observed_proof where
  "demo_recording = demo_proof\<lparr>op_proof := JObj [(u16 ''artifact'', JObj [(u16 ''digestB64'', JStr demo_file_digest)])]\<rparr>"

definition demo_kit :: sig_kit where
  "demo_kit = \<lparr>sk_json = (\<lambda>_. None), sk_createPublicKey = (\<lambda>_. False), sk_p256 = (\<lambda>_. False), sk_verify = (\<lambda>_ _ _ _. None)\<rparr>"

definition demo_env :: play_env where
  "demo_env = \<lparr>pe_rule = demo_rule, pe_resolutions = [(u16 ''doc'', Resolved (u16 ''doc'') demo_recording Full 1)],
     pe_audit = demo_audit\<lparr>au_proofs := [demo_recording]\<rparr>, pe_sigEvidence = [], pe_kit = demo_kit\<rparr>"

lemma demo_rule_wf: "rule_wf demo_rule"
  using parseRule_ok [OF demo_rule_parses] .

lemma evaluate_meaning_witness:
  "(ev_result (evaluate demo_env) = TRUE \<longleftrightarrow> established demo_env True (r_claim demo_rule))
    \<and> (ev_result (evaluate demo_env) = FALSE \<longleftrightarrow> established demo_env False (r_claim demo_rule))
    \<and> length (ev_steps (evaluate demo_env)) = 2"
  using evaluate_meaning [of demo_env] demo_rule_wf by (simp add: demo_env_def demo_rule_def)

lemma floor_only_removes_answers_witness:
  "vaguer (ev_result (evaluate (with_floor HashLinked demo_env))) (ev_result (evaluate (with_floor AssumptionDependent demo_env)))"
  by (rule floor_only_removes_answers) (simp add: demo_env_def demo_rule_wf)

lemma resolveRole_exact_witness:
  "resolveRole (u16 ''doc'') (snd (hd (r_cast demo_rule))) (pe_audit demo_env) = Resolved (u16 ''doc'') demo_recording Full 1"
proof -
  have n: "normalizeDigest (ce_digest (snd (hd (r_cast demo_rule)))) = Some demo_file_digest" by (simp add: demo_rule_def)
  have d: "proof_digest demo_recording = Some (replicate 32 7)"
    using decodeDigestBytes_std [of "replicate 32 7"] by (simp add: proof_digest_def demo_recording_def demo_file_digest_def)
  have v: "verificationPassed demo_recording" "op_verification demo_recording
      = Some \<lparr>pv_tier = Full, pv_status = Verified, pv_reason = None, pv_artifactPath = None\<rparr>"
    by (simp_all add: verificationPassed_def demo_recording_def demo_proof_def)
  show ?thesis using resolveRole_exact [OF n, of "pe_audit demo_env" "u16 ''doc''"] d v
    by (auto simp: demo_env_def demo_file_digest_def Let_def demo_rule_def)
qed

end
