(* ===== verification/BG_Verdict.thy ===== *)
theory BG_Verdict
  imports BG_Claims
begin

text \<open>
  \<^verbatim>\<open>packages/player/src/verdict.ts\<close> and the pure part of \<^verbatim>\<open>play.ts\<close>: the verdict, its trust
  boundary (what was derived, what was declared) and its serialisation.
\<close>

subsection \<open>The verdict\<close>

definition PLAYER_VERSION :: string where
  "PLAYER_VERSION = ''0.18.1''"

definition resolutionLabel :: "resolution \<Rightarrow> string" where
  "resolutionLabel res = (case res of Resolved _ _ _ _ \<Rightarrow> ''resolved''
     | Absent _ optional \<Rightarrow> if optional then ''absent-optional'' else ''absent-required''
     | Ambiguous _ _ _ \<Rightarrow> ''ambiguous'' | InvalidRole _ _ \<Rightarrow> ''invalid'')"

abbreviation str :: "string \<Rightarrow> jv" where
  "str s \<equiv> JStr (u16 s)"

definition opt_field :: "string \<Rightarrow> jsstr option \<Rightarrow> (jsstr \<times> jv) list" where
  "opt_field k v = (case v of None \<Rightarrow> [] | Some s \<Rightarrow> [(u16 k, JStr s)])"

definition cast_summary :: "cast_entry \<Rightarrow> resolution \<Rightarrow> jv" where
  "cast_summary entry res = JObj ([(u16 ''digestB64'', JStr (the (normalizeDigest (ce_digest entry)))),
       (u16 ''resolution'', str (resolutionLabel res))]
     @ (case res of Resolved _ proof _ _ \<Rightarrow> [(u16 ''proofHash'', JStr (op_proofHash proof))]
          @ opt_field ''epochId'' (op_epochId proof) @ [(u16 ''chainId'', JStr (op_chainId proof))]
          @ opt_field ''counter'' (op_counter proof) @ opt_field ''slotCounter'' (op_slotCounter proof)
        | _ \<Rightarrow> []))"

definition declared_entry :: "string \<Rightarrow> (jsstr \<times> jv) list \<Rightarrow> jv" where
  "declared_entry assertion ps = JObj ((u16 ''assertion'', str assertion) # ps)"

definition role_entry :: "string \<Rightarrow> jsstr \<Rightarrow> (jsstr \<times> jv) list \<Rightarrow> jv" where
  "role_entry assertion role ps = declared_entry assertion
     ([(u16 ''role'', JStr role), (u16 ''verifiedHere'', JBool False)] @ ps)"

definition pin_json :: "cast_pin \<Rightarrow> jv" where
  "pin_json pin = (case pin of PinHash h \<Rightarrow> JObj [(u16 ''proofHash'', JStr h)]
     | PinPosition e c \<Rightarrow> JObj [(u16 ''epochId'', JStr e), (u16 ''counter'', JStr c)])"

definition declared_means :: "jsstr \<times> cast_entry \<Rightarrow> jv list" where
  "declared_means p = (case ce_means (snd p) of None \<Rightarrow> []
     | Some m \<Rightarrow> [role_entry ''means'' (fst p) [(u16 ''means'', JStr m),
         (u16 ''digestB64'', JStr (the (normalizeDigest (ce_digest (snd p)))))]])"

definition declared_pins :: "jsstr \<times> cast_entry \<Rightarrow> jv list" where
  "declared_pins p = (case ce_at (snd p) of None \<Rightarrow> []
     | Some pin \<Rightarrow> [role_entry ''pinned-occurrence'' (fst p) [(u16 ''at'', pin_json pin)]])"

definition declared_signers :: "jsstr \<times> cast_entry \<Rightarrow> jv list" where
  "declared_signers p = (case ce_signedBy (snd p) of None \<Rightarrow> []
     | Some evidence \<Rightarrow> [role_entry ''signedBy'' (fst p) [(u16 ''evidence'', evidence)]])"

definition declared_key :: "jsstr \<times> trusted_key \<Rightarrow> jv" where
  "declared_key p = declared_entry ''trusted-key'' [(u16 ''verifiedHere'', JBool False), (u16 ''keyName'', JStr (fst p)),
     (u16 ''alg'', JStr (tk_alg (snd p))), (u16 ''publicKey'', JStr (tk_publicKey (snd p)))]"

definition closed_world :: "rule \<Rightarrow> audit_result \<Rightarrow> jv" where
  "closed_world rule audit = declared_entry ''closed-world'' [(u16 ''verifiedHere'', JBool False),
     (u16 ''castSize'', JNum (int (length (r_cast rule)))), (u16 ''recordingsInBundle'', JNum (int (au_observed audit))),
     (u16 ''claim'', str ''Absence is asserted only among the declared cast. Nothing in BitGraph establishes that the declared cast is complete; that completeness is the rule author's assertion.'')]"

record verdict =
  vd_format :: rule_format
  vd_result :: three
  vd_ruleId :: jsstr
  vd_ruleSha256 :: jsstr
  vd_then :: "jsstr option"
  vd_weakestEvidence :: "evidence_tier option"
  vd_cast :: "(jsstr \<times> jv) list"
  vd_derived :: "derived_step list"
  vd_declared :: "jv list"

definition buildVerdict :: "rule \<Rightarrow> jsstr \<Rightarrow> (jsstr \<times> resolution) list \<Rightarrow> evaluation \<Rightarrow> audit_result \<Rightarrow> verdict" where
  "buildVerdict rule ruleSha256Hex resolutions evaluation audit =
     \<lparr>vd_format = r_format rule, vd_result = ev_result evaluation, vd_ruleId = r_id rule, vd_ruleSha256 = ruleSha256Hex,
      vd_then = r_then rule, vd_weakestEvidence = ev_weakestEvidence evaluation,
      vd_cast = map (\<lambda>(role, entry). (role, cast_summary entry (the (map_of resolutions role)))) (r_cast rule),
      vd_derived = ev_steps evaluation,
      vd_declared = concat (map declared_means (r_cast rule)) @ concat (map declared_pins (r_cast rule))
        @ concat (map declared_signers (r_cast rule))
        @ (case r_trustedKeys rule of None \<Rightarrow> [] | Some ks \<Rightarrow> map declared_key ks)
        @ [closed_world rule audit]\<rparr>"

subsection \<open>Serialisation\<close>

definition three_text :: "three \<Rightarrow> string" where
  "three_text v = (case v of TRUE \<Rightarrow> ''TRUE'' | FALSE \<Rightarrow> ''FALSE'' | UNDETERMINED \<Rightarrow> ''UNDETERMINED'')"

definition step_json :: "derived_step \<Rightarrow> jv" where
  "step_json s = JObj ([(u16 ''claim'', JStr (ds_claim s)), (u16 ''result'', str (three_text (ds_result s)))]
     @ (case ds_basis s of None \<Rightarrow> [] | Some b \<Rightarrow> [(u16 ''basis'', str (basis_text b))])
     @ (case ds_evidenceTier s of None \<Rightarrow> [] | Some t \<Rightarrow> [(u16 ''evidenceTier'', str (tier_text t))])
     @ [(u16 ''because'', JObj (ds_because s))])"

definition verdict_json :: "verdict \<Rightarrow> jv" where
  "verdict_json v = JObj ([
       (u16 ''verdict'', str (if vd_format v = Player2 then ''bitgraph-player-verdict/2'' else ''bitgraph-player-verdict/1'')),
       (u16 ''result'', str (three_text (vd_result v))),
       (u16 ''rule'', JObj [(u16 ''id'', JStr (vd_ruleId v)), (u16 ''sha256'', JStr (vd_ruleSha256 v))])]
     @ (case vd_then v of None \<Rightarrow> [] | Some l \<Rightarrow> [(u16 ''then'', JObj [(u16 ''label'', JStr l)])])
     @ (case vd_weakestEvidence v of None \<Rightarrow> [] | Some t \<Rightarrow> [(u16 ''weakestEvidence'', str (tier_text t))])
     @ [(u16 ''cast'', JObj (vd_cast v)), (u16 ''derived'', JArr (map step_json (vd_derived v))),
        (u16 ''declared'', JArr (vd_declared v)),
        (u16 ''evaluator'', JObj [(u16 ''name'', str ''@mikeargento/bitgraph-player''), (u16 ''version'', str PLAYER_VERSION)]),
        (u16 ''network'', str ''none'')])"

text \<open>\<^verbatim>\<open>JSON.stringify(v, null, 2)\<close>; \<open>n\<close> is the current indentation.\<close>

fun lines_of :: "nat \<Rightarrow> jsstr list \<Rightarrow> jsstr" where
  "lines_of n [] = []"
| "lines_of n [x] = 10 # replicate n 32 @ x"
| "lines_of n (x # y # xs) = 10 # replicate n 32 @ x @ 44 # lines_of n (y # xs)"

fun js_pretty :: "nat \<Rightarrow> jv \<Rightarrow> jsstr" where
  "js_pretty n (JArr xs) = (if xs = [] then [91, 93]
     else 91 # lines_of (n + 2) (map (js_pretty (n + 2)) xs) @ 10 # replicate n 32 @ [93])"
| "js_pretty n (JObj ps) = (let qs = filter (\<lambda>p. \<not> unprintable (snd p)) ps in if qs = [] then [123, 125]
     else 123 # lines_of (n + 2) (map (\<lambda>p. js_quote (fst p) @ 58 # 32 # js_pretty (n + 2) (snd p))
       (filter (\<lambda>p. \<not> unprintable (snd p)) ps)) @ 10 # replicate n 32 @ [125])"
| "js_pretty n v = js_stringify v"

definition serializeVerdict :: "verdict \<Rightarrow> jsstr" where
  "serializeVerdict v = js_pretty 0 (verdict_json v) @ [10]"

subsection \<open>The pipeline\<close>

fun claimUsesSignatures :: "claim \<Rightarrow> bool" where
  "claimUsesSignatures (SignedBy _ _) = True"
| "claimUsesSignatures (AllOf cs) = list_ex claimUsesSignatures cs"
| "claimUsesSignatures (AnyOf cs) = list_ex claimUsesSignatures cs"
| "claimUsesSignatures (NotOf c) = claimUsesSignatures c"
| "claimUsesSignatures _ = False"

definition SIG_EVIDENCE_MAX_BYTES :: nat where
  "SIG_EVIDENCE_MAX_BYTES = 1048576"

text \<open>The candidate files: the matched artifacts, first of each content hash, within the cap.\<close>

definition collect_evidence :: "rule \<Rightarrow> (jsstr \<times> bytes) list \<Rightarrow> (jsstr \<times> bytes) list" where
  "collect_evidence rule artifacts =
     (if r_format rule = Player2 \<and> claimUsesSignatures (r_claim rule)
      then fold (\<lambda>(h, bytes) m. if SIG_EVIDENCE_MAX_BYTES < length bytes \<or> map_of m h \<noteq> None then m
         else AList.update h bytes m) artifacts []
      else [])"

definition play_env_of :: "rule \<Rightarrow> audit_result \<Rightarrow> (jsstr \<times> bytes) list \<Rightarrow> sig_kit \<Rightarrow> play_env" where
  "play_env_of rule audit sigEvidence K =
     \<lparr>pe_rule = rule, pe_resolutions = resolveCast (r_cast rule) audit, pe_audit = audit,
      pe_sigEvidence = sigEvidence, pe_kit = K\<rparr>"

definition playAudit :: "rule \<Rightarrow> jsstr \<Rightarrow> audit_result \<Rightarrow> (jsstr \<times> bytes) list \<Rightarrow> sig_kit \<Rightarrow> verdict \<times> jsstr \<times> nat" where
  "playAudit rule ruleSha256Hex audit sigEvidence K =
     (let E = play_env_of rule audit sigEvidence K; evaluation = evaluate E;
          verdict = buildVerdict rule ruleSha256Hex (pe_resolutions E) evaluation audit in
      (verdict, serializeVerdict verdict,
       if ev_result evaluation = TRUE then 0 else if ev_result evaluation = FALSE then 1 else 2))"

text \<open>\<^verbatim>\<open>play\<close> after its file reads: the rule text parsed, the bundle audited, its artifacts matched.\<close>

definition play :: "jv option \<Rightarrow> jsstr \<Rightarrow> audit_result \<Rightarrow> (jsstr \<times> bytes) list \<Rightarrow> sig_kit
    \<Rightarrow> issues + verdict \<times> jsstr \<times> nat" where
  "play parsed ruleSha256Hex audit artifacts K = (case parseRule parsed of
     Inl issues \<Rightarrow> Inl issues
   | Inr rule \<Rightarrow> Inr (playAudit rule ruleSha256Hex audit (collect_evidence rule artifacts) K))"

subsection \<open>What a verdict stands for\<close>

text \<open>The deciding environment of a run.\<close>

definition run_env :: "rule \<Rightarrow> audit_result \<Rightarrow> (jsstr \<times> bytes) list \<Rightarrow> sig_kit \<Rightarrow> play_env" where
  "run_env rule audit artifacts K = play_env_of rule audit (collect_evidence rule artifacts) K"

text \<open>C21: From rule file to verdict. When \<^verbatim>\<open>play\<close> gives a verdict the rule file parsed, the verdict's
  result is the meaning of the rule's claim over the resolved cast, its exit code is 0, 1 or 2 for
  true, false and undetermined, it lists every role of the cast in declaration order and one step per
  elementary claim, and the last thing it declares is the closed world.\<close>

theorem play_sound:
  assumes "play parsed sha audit artifacts K = Inr (v, bytes, code)"
  shows "\<exists>r. parseRule parsed = Inr r \<and> vd_result v = meaning (run_env r audit artifacts K) (r_claim r)
     \<and> code = (case vd_result v of TRUE \<Rightarrow> 0 | FALSE \<Rightarrow> 1 | UNDETERMINED \<Rightarrow> 2)
     \<and> map fst (vd_cast v) = map fst (r_cast r) \<and> length (vd_derived v) = leaves (r_claim r)
     \<and> last (vd_declared v) = closed_world r audit \<and> bytes = serializeVerdict v"
proof -
  obtain r where r: "parseRule parsed = Inr r" "playAudit r sha audit (collect_evidence r artifacts) K = (v, bytes, code)"
    using assms by (auto simp: play_def split: sum.splits)
  define E where "E = run_env r audit artifacts K"
  have rule: "pe_rule E = r" by (simp add: E_def run_env_def play_env_of_def)
  have ev: "ev_result (evaluate E) = meaning E (r_claim r)" "length (ev_steps (evaluate E)) = leaves (r_claim r)"
    using evaluate_walk [of E] parseRule_ok [OF r(1)] by (simp_all add: rule walk_value_meaning)
  have v: "v = buildVerdict r sha (pe_resolutions E) (evaluate E) audit" "bytes = serializeVerdict v"
    "code = (if ev_result (evaluate E) = TRUE then 0 else if ev_result (evaluate E) = FALSE then 1 else 2)"
    using r(2) by (auto simp: playAudit_def Let_def E_def run_env_def)
  have fields: "vd_result v = ev_result (evaluate E)" "vd_derived v = ev_steps (evaluate E)"
    "last (vd_declared v) = closed_world r audit" "map fst (vd_cast v) = map fst (r_cast r)"
    by (simp_all add: v(1) buildVerdict_def case_prod_unfold comp_def)
  have code: "code = (case vd_result v of TRUE \<Rightarrow> 0 | FALSE \<Rightarrow> 1 | UNDETERMINED \<Rightarrow> 2)"
    unfolding fields v(3) by (simp split: three.split)
  show ?thesis
    by (rule exI [of _ r]) (use r(1) ev fields code v(2) in \<open>simp add: E_def\<close>)
qed

lemma play_sound_witness:
  "\<exists>v bytes code. play (Some demo_rule_json) [] demo_audit [] demo_kit = Inr (v, bytes, code)
     \<and> vd_result v = meaning (run_env demo_rule demo_audit [] demo_kit) (r_claim demo_rule)"
proof -
  obtain v bytes code where p: "play (Some demo_rule_json) [] demo_audit [] demo_kit = Inr (v, bytes, code)"
    using demo_rule_parses by (cases "playAudit demo_rule [] demo_audit (collect_evidence demo_rule []) demo_kit")
      (simp add: play_def)
  from play_sound [OF p] demo_rule_parses
  have "vd_result v = meaning (run_env demo_rule demo_audit [] demo_kit) (r_claim demo_rule)" by auto
  with p show ?thesis by blast
qed

end
