(* ===== verification/BG_Fuse.thy ===== *)
theory BG_Fuse
  imports BG_Digest BG_Verifier
begin

text \<open>
  The first half of \<^verbatim>\<open>packages/verify/src/fuse.ts\<close>: strict hexadecimal and base64, the commitment a
  fused file carries (version 1 binds the slot record, 2 and 3 also the floor block the proof signs),
  and the canonical payload that states a commitment and an origin.
\<close>

subsection \<open>Strict hexadecimal\<close>

definition lower_hex :: "16 word \<Rightarrow> bool" where
  "lower_hex c \<longleftrightarrow> (48 \<le> c \<and> c \<le> 57) \<or> (97 \<le> c \<and> c \<le> 102)"

definition hexBytes :: "jsstr \<Rightarrow> bytes option" where
  "hexBytes hex = (if odd (length hex) \<or> \<not> list_all lower_hex hex then None else Some (hex_decode hex))"

lemma lower_hex_unit: "n < 16 \<Longrightarrow> lower_hex (hex_unit n)"
  by (auto simp: lower_hex_def hex_unit_def word_le_nat_alt unat_of_nat take_bit_eq_mod)

lemma lower_hex_text: "list_all lower_hex (hex_text bs)"
proof -
  have "unat (b :: byte) div 16 < 16" for b by (simp add: less_mult_imp_div_less)
  then show ?thesis by (induction bs) (simp_all add: lower_hex_unit)
qed

lemma lower_hex_digit: "lower_hex c \<Longrightarrow> \<exists>n < 16. unit_digit c = Some n \<and> hex_unit n = c"
proof -
  assume h: "lower_hex c"
  then have "unat c < 103" by (auto simp: lower_hex_def word_le_nat_alt)
  then have c: "c = of_nat (unat c)" "unat c < 103" by simp_all
  with h show ?thesis
    by (auto simp: lower_hex_def unit_digit_def hex_unit_def word_le_nat_alt)
qed

lemma hex_text_decode: "list_all lower_hex s \<Longrightarrow> even (length s) \<Longrightarrow> hex_text (hex_decode s) = s"
proof (induction s rule: hex_decode.induct)
  case (1 c d s)
  obtain m n where m: "m < 16" "unit_digit c = Some m" "hex_unit m = c"
    and n: "n < 16" "unit_digit d = Some n" "hex_unit n = d"
    using lower_hex_digit [of c] lower_hex_digit [of d] "1.prems" by auto
  have b: "unat (of_nat (m * 16 + n) :: byte) = m * 16 + n"
    unfolding unat_of_nat take_bit_eq_mod using m(1) n(1) by simp
  then have "unat (of_nat (m * 16 + n) :: byte) div 16 = m" "unat (of_nat (m * 16 + n) :: byte) mod 16 = n"
    unfolding b using n(1) by simp_all
  then show ?case using m n 1 by simp
qed simp_all

text \<open>One digest has one spelling.\<close>

interpretation fuse_hex: strict_codec "\<lambda>_. True" hex_text hexBytes
proof unfold_locales
  fix bs :: bytes
  show "hexBytes (hex_text bs) = Some bs"
    using hex_text_props [of bs] lower_hex_text by (simp add: hexBytes_def)
next
  fix s bs
  assume "hexBytes s = Some bs"
  then show "True \<and> hex_text bs = s" using hex_text_decode by (auto simp: hexBytes_def split: if_splits)
qed

lemma hexBytes_hex_text [simp]: "hexBytes (hex_text bs) = Some bs"
  by (rule fuse_hex.dec_enc) simp

lemma hex_text_eq [simp]: "hex_text a = hex_text b \<longleftrightarrow> a = b"
  using fuse_hex.enc_inj [of a b] by blast

subsection \<open>Strict base64\<close>

fun quads :: "jsstr \<Rightarrow> bytes" where
  "quads (a # b # c # d # s) =
     (let n = the (b64_val a) * 262144 + the (b64_val b) * 4096 + (if c = 61 then 0 else the (b64_val c)) * 64
        + (if d = 61 then 0 else the (b64_val d))
      in of_nat (n div 65536) # of_nat (n div 256 mod 256) # of_nat (n mod 256) # quads s)"
| "quads _ = []"

definition b64_pads :: "jsstr \<Rightarrow> nat" where
  "b64_pads s = length s - length (strip_pad s)"

definition base64ToBytes :: "jsstr \<Rightarrow> bytes option" where
  "base64ToBytes b64 =
     (if length b64 mod 4 \<noteq> 0 \<or> \<not> (list_all std_unit (strip_pad b64) \<and> b64_pads b64 \<le> 2) then None
      else let out = take (length b64 div 4 * 3 - b64_pads b64) (quads b64) in
        if b64_encode out \<noteq> b64 then None else Some out)"

lemma quad_sum: "x = 4 * a + b \<Longrightarrow> y = 16 * c + d \<Longrightarrow> z = 64 * e + f \<Longrightarrow>
    a * 262144 + (b * 16 + c) * 4096 + (d * 4 + e) * 64 + f = x * 65536 + y * 256 + z" for a b c d e f x y z :: nat
  by simp

lemma base_256:
  fixes a b c :: nat
  assumes "b < 256" "c < 256"
  shows "(a * 65536 + b * 256 + c) div 65536 = a" "(a * 65536 + b * 256 + c) div 256 = a * 256 + b"
    "(a * 65536 + b * 256 + c) mod 256 = c"
proof -
  have "(b * 256 + c + a * 65536) div 65536 = a + (b * 256 + c) div 65536" by (rule div_mult_self1) simp
  then show "(a * 65536 + b * 256 + c) div 65536 = a" using assms by (simp add: add.commute add.left_commute)
  have e: "a * 65536 + b * 256 + c = c + (a * 256 + b) * 256" by simp
  show "(a * 65536 + b * 256 + c) div 256 = a * 256 + b" unfolding e using assms by (subst div_mult_self1) simp_all
  show "(a * 65536 + b * 256 + c) mod 256 = c" unfolding e using assms by (subst mod_mult_self1) simp
qed

lemma quad_bytes:
  fixes x y z :: byte
  assumes "n = unat x div 4 * 262144 + (unat x mod 4 * 16 + unat y div 16) * 4096
    + (unat y mod 16 * 4 + unat z div 64) * 64 + unat z mod 64"
  shows "(of_nat (n div 65536) :: byte) = x" "(of_nat (n div 256 mod 256) :: byte) = y" "(of_nat (n mod 256) :: byte) = z"
proof -
  have n: "n = unat x * 65536 + unat y * 256 + unat z"
    unfolding assms by (rule quad_sum) simp_all
  have "(unat x * 256 + unat y) mod 256 = unat y" by simp
  then show "(of_nat (n div 65536) :: byte) = x" "(of_nat (n div 256 mod 256) :: byte) = y" "(of_nat (n mod 256) :: byte) = z"
    unfolding n base_256 [OF unat_byte_less unat_byte_less] by simp_all
qed

definition bytes_of_quad :: "nat \<Rightarrow> bytes" where
  "bytes_of_quad n = [of_nat (n div 65536), of_nat (n div 256 mod 256), of_nat (n mod 256)]"

lemma quads_chunk:
  assumes "a < 64" "b < 64" "c < 64" "d < 64"
  shows "quads (b64_char a # b64_char b # b64_char c # b64_char d # s)
      = bytes_of_quad (a * 262144 + b * 4096 + c * 64 + d) @ quads s"
    "quads (b64_char a # b64_char b # 61 # 61 # s) = bytes_of_quad (a * 262144 + b * 4096 + 0 * 64 + 0) @ quads s"
    "quads (b64_char a # b64_char b # b64_char c # 61 # s)
      = bytes_of_quad (a * 262144 + b * 4096 + c * 64 + 0) @ quads s"
  unfolding quads.simps Let_def bytes_of_quad_def append.simps
  by (simp_all only: b64_char_val [OF assms(1)] b64_char_val [OF assms(2)] b64_char_val [OF assms(3)]
      b64_char_val [OF assms(4)] b64_char_pad [OF assms(3)] b64_char_pad [OF assms(4)] option.sel if_True if_False simp_thms)

lemma bytes_of_quad_bytes:
  "bytes_of_quad (unat (x :: byte) div 4 * 262144 + (unat x mod 4 * 16 + unat (y :: byte) div 16) * 4096
    + (unat y mod 16 * 4 + unat (z :: byte) div 64) * 64 + unat z mod 64) = [x, y, z]"
  unfolding bytes_of_quad_def quad_bytes [OF refl] ..

lemma quads_encode: "\<exists>r. quads (b64_encode bs) = bs @ r"
proof (induction bs rule: b64_encode.induct)
  case (1 x y z bs)
  have "quads (b64_encode (x # y # z # bs)) = [x, y, z] @ quads (b64_encode bs)"
    unfolding b64_encode.simps append.simps
      quads_chunk(1) [OF byte_parts(1) sextet_bounds(1) sextet_bounds(2) mod_less_divisor [OF zero_less_numeral]]
      bytes_of_quad_bytes ..
  with 1 show ?case by auto
next
  case (2 x y)
  have "quads (b64_encode [x, y]) = [x, y, 0] @ quads []"
    unfolding b64_encode.simps quads_chunk(3) [OF byte_parts(1) sextet_bounds(1) sextet_bounds(4) zero_less_numeral]
    using bytes_of_quad_bytes [of x y 0] by simp
  then show ?case by simp
next
  case (3 x)
  have "quads (b64_encode [x]) = [x, 0, 0] @ quads []"
    unfolding b64_encode.simps quads_chunk(2) [OF byte_parts(1) sextet_bounds(3) zero_less_numeral zero_less_numeral]
    using bytes_of_quad_bytes [of x 0 0] by simp
  then show ?case by simp
qed simp

lemma b64_form:
  "\<exists>p n. b64_encode bs = p @ replicate n 61 \<and> list_all std_unit p \<and> n \<le> 2
     \<and> length (b64_encode bs) mod 4 = 0 \<and> length (b64_encode bs) div 4 * 3 - n = length bs"
proof (induction bs rule: b64_encode.induct)
  case (1 x y z bs)
  then obtain p n where p: "b64_encode bs = p @ replicate n 61" "list_all std_unit p" "n \<le> 2"
    "length (b64_encode bs) mod 4 = 0" "length (b64_encode bs) div 4 * 3 - n = length bs" by (elim exE conjE) (rule that)
  let ?q = "[b64_char (unat x div 4), b64_char (unat x mod 4 * 16 + unat y div 16),
      b64_char (unat y mod 16 * 4 + unat z div 64), b64_char (unat z mod 64)]"
  have q: "list_all std_unit ?q"
    using sextet_bounds(1,2) [of x y] sextet_bounds(1,2) [of y z] byte_parts [of x] by (simp add: std_unit_b64_char)
  have "n \<le> length (b64_encode bs) div 4 * 3" using p(1,3,4) by (cases "n = 0") auto
  moreover have "(4 + (length p + n)) div 4 = (length p + n) div 4 + 1" by simp
  ultimately have "(4 + (length p + n)) div 4 * 3 - n = length bs + 3" using p(1,5) by simp
  then have "b64_encode (x # y # z # bs) = (?q @ p) @ replicate n 61 \<and> list_all std_unit (?q @ p) \<and> n \<le> 2
      \<and> length (b64_encode (x # y # z # bs)) mod 4 = 0
      \<and> length (b64_encode (x # y # z # bs)) div 4 * 3 - n = length (x # y # z # bs)"
    using p q by simp
  then show ?case by (intro exI [of _ "?q @ p"] exI [of _ n])
next
  case (2 x y)
  let ?q = "[b64_char (unat x div 4), b64_char (unat x mod 4 * 16 + unat y div 16), b64_char (unat y mod 16 * 4)]"
  have "list_all std_unit ?q"
    using sextet_bounds(1,2) [of x y] sextet_bounds(3,4) [of y] byte_parts [of x] by (simp add: std_unit_b64_char)
  then show ?case by (intro exI [of _ ?q] exI [of _ 1]) simp
next
  case (3 x)
  let ?q = "[b64_char (unat x div 4), b64_char (unat x mod 4 * 16)]"
  have "list_all std_unit ?q" using sextet_bounds(3,4) [of x] byte_parts [of x] by (simp add: std_unit_b64_char)
  then show ?case by (intro exI [of _ ?q] exI [of _ 2]) (simp add: numeral_2_eq_2)
qed (intro exI [of _ "[]"] exI [of _ 0], simp)

lemma base64ToBytes_iff: "base64ToBytes s = Some b \<longleftrightarrow> s = b64_encode b"
proof
  assume "base64ToBytes s = Some b"
  then show "s = b64_encode b" by (auto simp: base64ToBytes_def Let_def split: if_splits)
next
  assume s: "s = b64_encode b"
  obtain p n where p: "b64_encode b = p @ replicate n 61" "list_all std_unit p" "n \<le> 2"
    "length (b64_encode b) mod 4 = 0" "length (b64_encode b) div 4 * 3 - n = length b" using b64_form [of b] by (elim exE conjE) (rule that)
  have strip: "strip_pad (b64_encode b) = p" unfolding p(1) using p(2) by (intro strip_pad_plain no_pad) simp
  then have "b64_pads (b64_encode b) = n" by (simp add: b64_pads_def p(1) strip_pad_plain)
  moreover obtain r where "quads (b64_encode b) = b @ r" using quads_encode by blast
  ultimately show "base64ToBytes s = Some b" using p s strip by (simp add: base64ToBytes_def)
qed

interpretation fuse_b64: strict_codec "\<lambda>_. True" b64_encode base64ToBytes
  by unfold_locales (auto simp: base64ToBytes_iff)

lemma base64ToBytes_encode [simp]: "base64ToBytes (b64_encode b) = Some b"
  by (simp add: base64ToBytes_iff)

subsection \<open>Commitments\<close>

definition profile_domain :: "string \<Rightarrow> bytes" where
  "profile_domain label = utf8 (u16 label) @ [0]"

definition FUSE_DOMAIN :: bytes where "FUSE_DOMAIN = profile_domain ''bitgraph-fuse/1''"

definition FUSE2_DOMAIN :: bytes where "FUSE2_DOMAIN = profile_domain ''bitgraph-fuse/2''"

definition FUSE3_DOMAIN :: bytes where "FUSE3_DOMAIN = profile_domain ''bitgraph-fuse/3''"

definition computeSlotRecordHash :: "hashfun \<Rightarrow> jv \<Rightarrow> bytes res" where
  "computeSlotRecordHash H slot = rbind (canonicalize (JObj (slot_body slot))) (\<lambda>b. Inr (H b))"

definition slot_nonce :: "jv \<Rightarrow> bytes res" where
  "slot_nonce slot = rbind (get slot ''nonceB64'') (\<lambda>v. case v of
     JStr s \<Rightarrow> (case base64ToBytes s of Some b \<Rightarrow> if length b = 32 then Inr b
          else Inl (TypeError ''slot.nonceB64 must decode to exactly 32 bytes'')
        | None \<Rightarrow> Inl (TypeError ''slot.nonceB64 must decode to exactly 32 bytes''))
   | _ \<Rightarrow> Inl (TypeError ''slot.nonceB64 must decode to exactly 32 bytes''))"

definition slotCommitmentPreimage :: "hashfun \<Rightarrow> jv \<Rightarrow> bytes res" where
  "slotCommitmentPreimage H slot = rbind (slot_nonce slot) (\<lambda>nonce.
     rbind (computeSlotRecordHash H slot) (\<lambda>h. Inr (FUSE_DOMAIN @ h @ nonce)))"

definition computeSlotCommitment :: "hashfun \<Rightarrow> jv \<Rightarrow> bytes res" where
  "computeSlotCommitment H slot = rbind (slotCommitmentPreimage H slot) (\<lambda>b. Inr (H b))"

text \<open>\<^verbatim>\<open>floorBlockHash.toLowerCase().replace(/^0x/, "")\<close>: no other character lowers to a hexadecimal digit.\<close>

definition floorHashBytes :: "jsstr \<Rightarrow> bytes res" where
  "floorHashBytes floorBlockHash = (let s = map lower_unit floorBlockHash in
     case hexBytes (if take 2 s = u16 ''0x'' then drop 2 s else s) of
       Some b \<Rightarrow> if length b = 32 then Inr b else Inl (TypeError ''the floor block hash must be 32 bytes'')
     | None \<Rightarrow> Inl (TypeError ''the floor block hash must be 32 bytes''))"

definition slotCommitment2Preimage :: "hashfun \<Rightarrow> jv \<Rightarrow> jsstr \<Rightarrow> bytes res" where
  "slotCommitment2Preimage H slot floorBlockHash = rbind (slot_nonce slot) (\<lambda>nonce.
     rbind (computeSlotRecordHash H slot) (\<lambda>h. rbind (floorHashBytes floorBlockHash) (\<lambda>f.
       Inr (FUSE2_DOMAIN @ h @ nonce @ f))))"

definition computeSlotCommitment2 :: "hashfun \<Rightarrow> jv \<Rightarrow> jsstr \<Rightarrow> bytes res" where
  "computeSlotCommitment2 H slot floorBlockHash = rbind (slotCommitment2Preimage H slot floorBlockHash) (\<lambda>b. Inr (H b))"

definition slotCommitment3Preimage :: "hashfun \<Rightarrow> jv \<Rightarrow> jsstr \<Rightarrow> bytes res" where
  "slotCommitment3Preimage H slot floorBlockHash = rbind (slot_nonce slot) (\<lambda>nonce.
     rbind (computeSlotRecordHash H slot) (\<lambda>h. rbind (floorHashBytes floorBlockHash) (\<lambda>f.
       Inr (FUSE3_DOMAIN @ h @ nonce @ f))))"

definition computeSlotCommitment3 :: "hashfun \<Rightarrow> jv \<Rightarrow> jsstr \<Rightarrow> bytes res" where
  "computeSlotCommitment3 H slot floorBlockHash = rbind (slotCommitment3Preimage H slot floorBlockHash) (\<lambda>b. Inr (H b))"

definition fuseVersionOfName :: "jv \<Rightarrow> nat option" where
  "fuseVersionOfName name = (if name = JStr (u16 ''bitgraph-fuse/1'') then Some 1
     else if name = JStr (u16 ''bitgraph-fuse/2'') then Some 2
     else if name = JStr (u16 ''bitgraph-fuse/3'') then Some 3 else None)"

definition fuseNameOfVersion :: "nat \<Rightarrow> jsstr" where
  "fuseNameOfVersion version = u16 (if version = 3 then ''bitgraph-fuse/3''
     else if version = 2 then ''bitgraph-fuse/2'' else ''bitgraph-fuse/1'')"

subsection \<open>The floor a proof signs\<close>

datatype floor_chain = EthereumFloor | BaseFloor

record signed_floor =
  fl_chain :: floor_chain
  fl_blockNumber :: jv
  fl_blockHash :: jsstr
  fl_blockTimestamp :: jv
  fl_anchorCounter :: jv

definition safe_integer :: "jv \<Rightarrow> bool" where
  "safe_integer v \<longleftrightarrow> (case v of JNum n \<Rightarrow> \<bar>n\<bar> \<le> 9007199254740991 | _ \<Rightarrow> False)"

definition base_hash :: "jv \<Rightarrow> bool" where
  "base_hash v \<longleftrightarrow> (case v of JStr s \<Rightarrow> take 2 s = u16 ''0x'' \<and> length s = 66 \<and> list_all lower_hex (drop 2 s) | _ \<Rightarrow> False)"

definition signedFloorOf :: "jv \<Rightarrow> signed_floor option res" where
  "signedFloorOf proof =
     (let a = fld (fld proof ''commit'') ''slotAnchor''; f = fld (fld proof ''commit'') ''slotFloor'' in
      if truthy a \<and> truthy f then Inl (TypeError ''the proof signs two floors (commit.slotAnchor and commit.slotFloor); it is ambiguous and binds neither'')
      else if truthy f then
        (if fld f ''chain'' \<noteq> JStr (u16 ''base'') \<or> fld f ''evmChainId'' \<noteq> JNum 8453
         then Inl (TypeError ''commit.slotFloor does not name Base mainnet'')
         else if \<not> base_hash (fld f ''blockHash'') then Inl (TypeError ''commit.slotFloor.blockHash is not a 32-byte hash'')
         else if \<not> (safe_integer (fld f ''blockNumber'') \<and> safe_integer (fld f ''blockTimestamp''))
         then Inl (TypeError ''commit.slotFloor carries no block number or time'')
         else Inr (Some \<lparr>fl_chain = BaseFloor, fl_blockNumber = fld f ''blockNumber'',
           fl_blockHash = str_of (fld f ''blockHash''), fl_blockTimestamp = fld f ''blockTimestamp'', fl_anchorCounter = JUndefined\<rparr>))
      else if truthy a then
        (if \<not> is_str (fld a ''blockHash'') then Inl (TypeError ''commit.slotAnchor.blockHash is missing'')
         else Inr (Some \<lparr>fl_chain = EthereumFloor, fl_blockNumber = fld a ''blockNumber'',
           fl_blockHash = map lower_unit (str_of (fld a ''blockHash'')), fl_blockTimestamp = JUndefined,
           fl_anchorCounter = fld a ''counter''\<rparr>))
      else Inr None)"

definition commitmentForProof :: "hashfun \<Rightarrow> jv \<Rightarrow> jv \<Rightarrow> bytes res" where
  "commitmentForProof H proof slot =
     (let version = fuseVersionOfName (fld (fld proof ''attribution'') ''name'') in
      if version = Some 1 \<or> version = None then computeSlotCommitment H slot
      else rbind (signedFloorOf proof) (\<lambda>floor.
        if version = Some 2 then
          (case floor of Some f \<Rightarrow> if fl_chain f = EthereumFloor then computeSlotCommitment2 H slot (fl_blockHash f)
               else Inl (TypeError ''a bitgraph-fuse/2 proof must carry a signed commit.slotAnchor to bind'')
             | None \<Rightarrow> Inl (TypeError ''a bitgraph-fuse/2 proof must carry a signed commit.slotAnchor to bind''))
        else
          (case floor of Some f \<Rightarrow> if fl_chain f = BaseFloor then computeSlotCommitment3 H slot (fl_blockHash f)
               else Inl (TypeError ''a bitgraph-fuse/3 proof must carry a signed commit.slotFloor (a Base block) to bind'')
             | None \<Rightarrow> Inl (TypeError ''a bitgraph-fuse/3 proof must carry a signed commit.slotFloor (a Base block) to bind''))))"

text \<open>What a producer commits to, from the floor its allocation returned.\<close>

definition producerCommitment :: "hashfun \<Rightarrow> jv \<Rightarrow> jv \<Rightarrow> (bytes \<times> nat) res" where
  "producerCommitment H slot floor =
     (if truthy floor \<and> is_str (fld floor ''blockHash'') then
        (if fld floor ''chain'' = JStr (u16 ''base'')
         then rbind (computeSlotCommitment3 H slot (str_of (fld floor ''blockHash''))) (\<lambda>c. Inr (c, 3))
         else rbind (computeSlotCommitment2 H slot (str_of (fld floor ''blockHash''))) (\<lambda>c. Inr (c, 2)))
      else rbind (computeSlotCommitment H slot) (\<lambda>c. Inr (c, 1)))"

subsection \<open>What a commitment binds\<close>

definition commit_version :: "jv \<Rightarrow> nat" where
  "commit_version proof = (case fuseVersionOfName (fld (fld proof ''attribution'') ''name'') of Some v \<Rightarrow> v | None \<Rightarrow> 1)"

definition commit_domain :: "nat \<Rightarrow> bytes" where
  "commit_domain v = (if v = 1 then FUSE_DOMAIN else if v = 2 then FUSE2_DOMAIN else FUSE3_DOMAIN)"

text \<open>The block hash a proof of version 2 or 3 binds.\<close>

definition bound_floor :: "jv \<Rightarrow> bytes" where
  "bound_floor proof = (case signedFloorOf proof of Inr (Some f) \<Rightarrow>
     (case floorHashBytes (fl_blockHash f) of Inr b \<Rightarrow> b | Inl _ \<Rightarrow> []) | _ \<Rightarrow> [])"

definition preimage_for :: "hashfun \<Rightarrow> jv \<Rightarrow> jv \<Rightarrow> bytes res" where
  "preimage_for H proof slot = rbind (slot_nonce slot) (\<lambda>n. rbind (computeSlotRecordHash H slot) (\<lambda>h.
     Inr (commit_domain (commit_version proof) @ h @ n @ (if commit_version proof = 1 then [] else bound_floor proof))))"

text \<open>The strings hashed to recompute a proof's commitment.\<close>

definition hashed_for :: "hashfun \<Rightarrow> jv \<Rightarrow> jv \<Rightarrow> bytes set" where
  "hashed_for H proof slot = {x. canonicalize (JObj (slot_body slot)) = Inr x \<or> preimage_for H proof slot = Inr x}"

lemma length_domain [simp]: "length (commit_domain v) = 16"
proof -
  have "length FUSE_DOMAIN = 16" "length FUSE2_DOMAIN = 16" "length FUSE3_DOMAIN = 16" by code_simp+
  then show ?thesis by (simp add: commit_domain_def)
qed

lemma domain_inj: "v \<in> {1, 2, 3} \<Longrightarrow> w \<in> {1, 2, 3} \<Longrightarrow> commit_domain v = commit_domain w \<Longrightarrow> v = w"
proof -
  have "FUSE_DOMAIN \<noteq> FUSE2_DOMAIN" "FUSE_DOMAIN \<noteq> FUSE3_DOMAIN" "FUSE2_DOMAIN \<noteq> FUSE3_DOMAIN" by code_simp+
  then show "v \<in> {1, 2, 3} \<Longrightarrow> w \<in> {1, 2, 3} \<Longrightarrow> commit_domain v = commit_domain w \<Longrightarrow> v = w"
    by (auto simp: commit_domain_def split: if_splits)
qed

lemma version_range: "commit_version p \<in> {1, 2, 3}"
  by (simp add: commit_version_def fuseVersionOfName_def)

lemma floorHashBytes_length: "floorHashBytes s = Inr b \<Longrightarrow> length b = 32"
  by (auto simp: floorHashBytes_def Let_def split: option.splits if_splits)

lemma slot_nonce_length: "slot_nonce slot = Inr n \<Longrightarrow> length n = 32"
  by (auto simp: slot_nonce_def split: jv.splits option.splits if_splits)

lemma commitment_form:
  assumes "commitmentForProof H p slot = Inr c"
  obtains x where "preimage_for H p slot = Inr x" "c = H x"
    "commit_version p \<noteq> 1 \<Longrightarrow> length (bound_floor p) = 32"
proof (cases "commit_version p = 1")
  case True
  then show thesis
    using that assms unfolding commitmentForProof_def commit_version_def Let_def
    by (auto simp: computeSlotCommitment_def slotCommitmentPreimage_def preimage_for_def res_simps
        commit_version_def commit_domain_def fuseVersionOfName_def split: if_splits)
next
  case False
  then obtain v f where v: "fuseVersionOfName (fld (fld p ''attribution'') ''name'') = Some v" "v = 2 \<or> v = 3"
    "commit_version p = v" "signedFloorOf p = Inr (Some f)"
    "v = 2 \<Longrightarrow> computeSlotCommitment2 H slot (fl_blockHash f) = Inr c"
    "v = 3 \<Longrightarrow> computeSlotCommitment3 H slot (fl_blockHash f) = Inr c"
    using assms unfolding commitmentForProof_def Let_def
    by (auto simp: commit_version_def fuseVersionOfName_def res_simps split: if_splits option.splits)
  then obtain b where b: "floorHashBytes (fl_blockHash f) = Inr b"
    by (auto simp: computeSlotCommitment2_def slotCommitment2Preimage_def computeSlotCommitment3_def
        slotCommitment3Preimage_def res_simps)
  with v have bf: "bound_floor p = b" "length b = 32" by (simp_all add: bound_floor_def floorHashBytes_length)
  show thesis
    using that v b bf
    by (auto simp: computeSlotCommitment2_def slotCommitment2Preimage_def computeSlotCommitment3_def
        slotCommitment3Preimage_def preimage_for_def commit_domain_def res_simps)
qed

lemma preimage_split:
  assumes "hash32 H" "preimage_for H p slot = Inr x"
  obtains n b where "slot_nonce slot = Inr n" "canonicalize (JObj (slot_body slot)) = Inr b"
    "x = commit_domain (commit_version p) @ H b @ n @ (if commit_version p = 1 then [] else bound_floor p)"
    "length (H b) = 32" "length n = 32"
  using assms by (auto simp: preimage_for_def computeSlotRecordHash_def res_simps hash32_def dest: slot_nonce_length)

text \<open>C10: A commitment names one reservation. Two fused proofs whose commitments are equal, with no
  collision among the strings hashed, have the same commitment version, the same nonce and slot
  records that agree on every field the enclave signs; from version 2 on they bind the same floor
  block. So bytes that carry a commitment were finished for one reservation, after its floor.\<close>

theorem commitment_binds:
  assumes "hash32 H" "commitmentForProof H p slot = Inr c" "commitmentForProof H p' slot' = Inr c"
    and "inj_on H (hashed_for H p slot \<union> hashed_for H p' slot')"
    and "finite_nums (JObj (slot_body slot))" "finite_nums (JObj (slot_body slot'))"
    and "jv_ok (JObj (slot_body slot))" "jv_ok (JObj (slot_body slot'))"
  shows "commit_version p = commit_version p' \<and> slot_nonce slot = slot_nonce slot'
    \<and> (\<forall>k. k \<noteq> u16 ''__proto__'' \<longrightarrow> canonical_field (slot_body slot) k = canonical_field (slot_body slot') k)
    \<and> (commit_version p \<noteq> 1 \<longrightarrow> bound_floor p = bound_floor p')"
proof -
  obtain x where x: "preimage_for H p slot = Inr x" "c = H x" "commit_version p \<noteq> 1 \<Longrightarrow> length (bound_floor p) = 32"
    using commitment_form [OF assms(2)] by metis
  obtain y where y: "preimage_for H p' slot' = Inr y" "c = H y" "commit_version p' \<noteq> 1 \<Longrightarrow> length (bound_floor p') = 32"
    using commitment_form [OF assms(3)] by metis
  have "x = y" using inj_onD [OF assms(4), of x y] x(1,2) y(1,2) by (simp add: hashed_for_def)
  obtain n b where nb: "slot_nonce slot = Inr n" "canonicalize (JObj (slot_body slot)) = Inr b"
    "x = commit_domain (commit_version p) @ H b @ n @ (if commit_version p = 1 then [] else bound_floor p)"
    "length (H b) = 32" "length n = 32"
    using preimage_split [OF assms(1) x(1)] .
  obtain m d where md: "slot_nonce slot' = Inr m" "canonicalize (JObj (slot_body slot')) = Inr d"
    "y = commit_domain (commit_version p') @ H d @ m @ (if commit_version p' = 1 then [] else bound_floor p')"
    "length (H d) = 32" "length m = 32"
    using preimage_split [OF assms(1) y(1)] .
  have eq: "commit_domain (commit_version p) = commit_domain (commit_version p')" "H b = H d" "n = m"
    "(if commit_version p = 1 then [] else bound_floor p) = (if commit_version p' = 1 then [] else bound_floor p')"
    using \<open>x = y\<close> nb(3-5) md(3-5) by simp_all
  then have v: "commit_version p = commit_version p'" using domain_inj version_range by blast
  have "b = d" using inj_onD [OF assms(4) eq(2)] nb(2) md(2) by (simp add: hashed_for_def)
  then have "canonical_field (slot_body slot) k = canonical_field (slot_body slot') k" if "k \<noteq> u16 ''__proto__''" for k
    using same_bytes_fields [OF nb(2) _ assms(5-8) that] md(2) by simp
  with v eq(3,4) nb(1) md(1) show ?thesis by (auto split: if_splits)
qed

text \<open>The producer and the verifier compute one commitment.\<close>

lemma producer_commitment:
  assumes "producerCommitment H slot floor = Inr (c, v)"
    and "fld (fld proof ''attribution'') ''name'' = JStr (fuseNameOfVersion v)"
    and "v \<noteq> 1 \<Longrightarrow> signedFloorOf proof = Inr (Some f) \<and> fl_chain f = (if v = 3 then BaseFloor else EthereumFloor)
      \<and> floorHashBytes (fl_blockHash f) = floorHashBytes (str_of (fld floor ''blockHash''))"
  shows "commitmentForProof H proof slot = Inr c"
  using assms
  by (auto simp: producerCommitment_def commitmentForProof_def fuseVersionOfName_def fuseNameOfVersion_def
      computeSlotCommitment2_def slotCommitment2Preimage_def computeSlotCommitment3_def slotCommitment3Preimage_def
      res_simps Let_def split: if_splits)

subsection \<open>A concrete reservation\<close>

definition head_hash :: hashfun where
  "head_hash x = take 32 (x @ replicate 32 0)"

lemma head_hash32 [simp]: "hash32 head_hash"
  by (auto simp: hash32_def head_hash_def min_def)

definition demo_slot :: jv where
  "demo_slot = JObj [kv ''version'' (JStr (u16 ''bitgraph-slot/1'')), kv ''nonceB64'' (JStr (b64_encode (replicate 32 3))),
     kv ''counter'' (JStr (u16 ''1'')), kv ''epochId'' (JStr (u16 ''e'')), kv ''publicKeyB64'' (JStr (u16 ''k''))]"

definition demo_fused :: jv where
  "demo_fused = JObj [kv ''attribution'' (JObj [kv ''name'' (JStr (u16 ''bitgraph-fuse/3''))]),
     kv ''commit'' (JObj [kv ''slotFloor'' (JObj [kv ''chain'' (JStr (u16 ''base'')), kv ''evmChainId'' (JNum 8453),
       kv ''blockHash'' (JStr (u16 ''0x'' @ hex_text (replicate 32 5))), kv ''blockNumber'' (JNum 7), kv ''blockTimestamp'' (JNum 9)])])]"

lemma demo_nonce: "slot_nonce demo_slot = Inr (replicate 32 3)"
  by (simp add: slot_nonce_def demo_slot_def)

lemma demo_body: "slot_body demo_slot = [kv ''version'' (JStr (u16 ''bitgraph-slot/1'')),
    kv ''nonceB64'' (JStr (b64_encode (replicate 32 3))), kv ''counter'' (JStr (u16 ''1'')),
    kv ''epochId'' (JStr (u16 ''e'')), kv ''publicKeyB64'' (JStr (u16 ''k''))]"
  by (simp add: slot_body_def demo_slot_def kv_if_def truthy_def)

lemma demo_body_json: "json_ok (JObj (slot_body demo_slot))" "finite_nums (JObj (slot_body demo_slot))"
  "jv_ok (JObj (slot_body demo_slot))"
  by (simp_all add: demo_body)

lemma demo_floor: "signedFloorOf demo_fused = Inr (Some \<lparr>fl_chain = BaseFloor, fl_blockNumber = JNum 7,
    fl_blockHash = u16 ''0x'' @ hex_text (replicate 32 5), fl_blockTimestamp = JNum 9, fl_anchorCounter = JUndefined\<rparr>)"
proof -
  have "take 2 (u16 ''0x'' @ hex_text (replicate 32 5)) = u16 ''0x''" "length (u16 ''0x'' @ hex_text (replicate 32 5)) = 66"
    "drop 2 (u16 ''0x'' @ hex_text (replicate 32 5)) = hex_text (replicate 32 5)"
    using hex_text_props(1) [of "replicate 32 5"] by (simp_all add: u16_def)
  then show ?thesis
    using lower_hex_text by (simp add: signedFloorOf_def demo_fused_def base_hash_def safe_integer_def truthy_def)
qed

subsection \<open>ASCII text\<close>

lemma ascii_not_sur: "c < 128 \<Longrightarrow> \<not> hi_sur c \<and> \<not> lo_sur c"
  by (auto simp: hi_sur_def lo_sur_def word_le_nat_alt word_less_nat_alt)

lemma utf8_ascii_Cons: "c < 128 \<Longrightarrow> utf8 (c # s) = of_nat (unat c) # utf8 s"
  using ascii_not_sur [of c] by (cases s) (simp_all add: utf8_unit_def utf8_cp_def word_less_nat_alt)

lemma utf8_ascii: "list_all (\<lambda>c. c < 128) s \<Longrightarrow> utf8 s = map (\<lambda>c. of_nat (unat c)) s"
  by (induction s) (simp_all add: utf8_ascii_Cons)

lemma utf8_ascii_append: "list_all (\<lambda>c. c < 128) s \<Longrightarrow> utf8 (s @ t) = utf8 s @ utf8 t"
  by (induction s) (simp_all add: utf8_ascii_Cons)

lemma canonical_brace:
  assumes "canonicalize (JObj ps) = Inr b"
  shows "\<exists>r. b = 123 # r"
proof -
  obtain w where w: "sortedReplacer (JObj ps) = Inr w" "b = utf8 (js_stringify w)"
    using assms by (auto simp: canonicalize_eq_Inr)
  then obtain qs where "w = JObj qs" by (auto simp: res_simps)
  then show ?thesis using w(2) by (simp add: utf8_ascii_Cons)
qed

lemma demo_commitment: "\<exists>c. commitmentForProof head_hash demo_fused demo_slot = Inr c"
  and demo_no_collision: "inj_on head_hash (hashed_for head_hash demo_fused demo_slot)"
proof -
  obtain b where b: "canonicalize (JObj (slot_body demo_slot)) = Inr b"
    using canonicalize_total [OF demo_body_json(1)] by blast
  have f: "floorHashBytes (u16 ''0x'' @ hex_text (replicate 32 5)) = Inr (replicate 32 5)"
  proof -
    have "lower_unit c = c" if "lower_hex c" for c
      using that by (auto simp: lower_hex_def lower_unit_def word_le_nat_alt)
    then have "map lower_unit (hex_text (replicate 32 5)) = hex_text (replicate 32 5)"
      using lower_hex_text by (intro map_idI) (auto simp: list_all_iff)
    moreover have "map lower_unit (u16 ''0x'') = u16 ''0x''" by code_simp
    ultimately have "map lower_unit (u16 ''0x'' @ hex_text (replicate 32 5)) = u16 ''0x'' @ hex_text (replicate 32 5)" by simp
    moreover have "take 2 (u16 ''0x'' @ s) = u16 ''0x''" "drop 2 (u16 ''0x'' @ s) = s" for s by (simp_all add: u16_def)
    ultimately show ?thesis by (simp add: floorHashBytes_def Let_def)
  qed
  have v: "fuseVersionOfName (fld (fld demo_fused ''attribution'') ''name'') = Some 3"
    by (simp add: demo_fused_def fuseVersionOfName_def)
  show "\<exists>c. commitmentForProof head_hash demo_fused demo_slot = Inr c"
    by (simp add: commitmentForProof_def v demo_floor computeSlotCommitment3_def slotCommitment3Preimage_def demo_nonce
        computeSlotRecordHash_def b f)
  obtain r where r: "b = 123 # r" using canonical_brace [OF b] by blast
  have "FUSE3_DOMAIN = 98 # tl FUSE3_DOMAIN" by code_simp
  then have d: "\<exists>r. commit_domain (commit_version demo_fused) = 98 # r"
    by (auto simp: commit_version_def v commit_domain_def)
  have "head_hash x \<noteq> head_hash y" if "preimage_for head_hash demo_fused demo_slot = Inr x" "y = b" for x y
    using that r d by (auto simp: preimage_for_def res_simps head_hash_def)
  then show "inj_on head_hash (hashed_for head_hash demo_fused demo_slot)"
    unfolding inj_on_def hashed_for_def using b by (metis (mono_tags, lifting) mem_Collect_eq sum.inject(2))
qed

text \<open>The same reservation with its signature, as a proof carries it.\<close>

definition demo_signed_slot :: jv where
  "demo_signed_slot = JObj [kv ''signatureB64'' (JStr (u16 ''s'')), kv ''version'' (JStr (u16 ''bitgraph-slot/1'')),
     kv ''counter'' (JStr (u16 ''1'')), kv ''nonceB64'' (JStr (b64_encode (replicate 32 3))),
     kv ''epochId'' (JStr (u16 ''e'')), kv ''publicKeyB64'' (JStr (u16 ''k''))]"

lemma demo_signed_body: "slot_body demo_signed_slot = slot_body demo_slot" "slot_nonce demo_signed_slot = slot_nonce demo_slot"
proof -
  show "slot_body demo_signed_slot = slot_body demo_slot"
    unfolding demo_body by (simp add: slot_body_def demo_signed_slot_def kv_if_def truthy_def)
  show "slot_nonce demo_signed_slot = slot_nonce demo_slot"
    unfolding demo_nonce by (simp add: slot_nonce_def demo_signed_slot_def)
qed

lemma demo_signed_hash: "computeSlotRecordHash H demo_signed_slot = computeSlotRecordHash H demo_slot"
  by (simp add: computeSlotRecordHash_def demo_signed_body)

lemma demo_signed_commitment:
  "commitmentForProof H demo_fused demo_signed_slot = commitmentForProof H demo_fused demo_slot"
  "hashed_for H demo_fused demo_signed_slot = hashed_for H demo_fused demo_slot"
  unfolding commitmentForProof_def computeSlotCommitment_def slotCommitmentPreimage_def computeSlotCommitment2_def
    slotCommitment2Preimage_def computeSlotCommitment3_def slotCommitment3Preimage_def demo_signed_hash
    demo_signed_body hashed_for_def preimage_for_def by (rule refl)+

theorem commitment_binds_witness:
  "slot_nonce demo_slot = slot_nonce demo_signed_slot
    \<and> canonical_field (slot_body demo_slot) (u16 ''counter'') = canonical_field (slot_body demo_signed_slot) (u16 ''counter'')"
proof -
  obtain c where c: "commitmentForProof head_hash demo_fused demo_slot = Inr c" using demo_commitment by blast
  then have c': "commitmentForProof head_hash demo_fused demo_signed_slot = Inr c" by (simp add: demo_signed_commitment)
  show ?thesis
    using commitment_binds [OF head_hash32 c c' _ demo_body_json(2) demo_body_json(2) [folded demo_signed_body(1)]
        demo_body_json(3) demo_body_json(3) [folded demo_signed_body(1)]] demo_no_collision
    by (simp add: demo_signed_commitment)
qed

subsection \<open>The canonical payload\<close>

definition digest_obj :: "bytes \<Rightarrow> jv" where
  "digest_obj d = JObj [kv ''algorithm'' (JStr (u16 ''sha256'')), kv ''digest'' (JStr (hex_text d))]"

definition fuse_payload :: "bytes \<Rightarrow> bytes option \<Rightarrow> jv" where
  "fuse_payload commitment originDigest = JObj (kv ''type'' (JStr (u16 ''bitgraph-fuse/1''))
     # (case originDigest of Some d \<Rightarrow> [kv ''origin'' (digest_obj d)] | None \<Rightarrow> [])
     @ [kv ''slotCommitment'' (digest_obj commitment)])"

definition buildFusePayload :: "bytes \<Rightarrow> bytes option \<Rightarrow> bytes res" where
  "buildFusePayload commitment originDigest =
     (if length commitment \<noteq> 32 then Inl (TypeError ''commitment must be 32 bytes'')
      else if \<not> (case originDigest of Some d \<Rightarrow> length d = 32 | None \<Rightarrow> True)
      then Inl (TypeError ''originDigest must be 32 bytes'')
      else canonicalize (fuse_payload commitment originDigest))"

definition readDigestField :: "jv \<Rightarrow> bytes option" where
  "readDigestField x = (case x of
     JObj ps \<Rightarrow> if length ps \<noteq> 2 \<or> fld x ''algorithm'' \<noteq> JStr (u16 ''sha256'') \<or> \<not> is_str (fld x ''digest'') then None
       else (case hexBytes (str_of (fld x ''digest'')) of Some b \<Rightarrow> if length b = 32 then Some b else None | None \<Rightarrow> None)
   | _ \<Rightarrow> None)"

text \<open>\<open>json\<close> is \<^verbatim>\<open>JSON.parse\<close> of the fatal UTF-8 decoding of the bytes.\<close>

definition parseFusePayload :: "(bytes \<Rightarrow> jv option) \<Rightarrow> bytes \<Rightarrow> (bytes \<times> bytes option) option" where
  "parseFusePayload json bytes = (case json bytes of
     Some (JObj ps) \<Rightarrow>
       (let parsed = JObj ps; keys = join_units (sort (map fst ps)) in
        if \<not> (length ps = 2 \<and> keys = u16 ''slotCommitment,type'' \<or> length ps = 3 \<and> keys = u16 ''origin,slotCommitment,type'') then None
        else if fld parsed ''type'' \<noteq> JStr (u16 ''bitgraph-fuse/1'') then None
        else (case readDigestField (fld parsed ''slotCommitment'') of None \<Rightarrow> None
          | Some commitment \<Rightarrow>
             (case (if u16 ''origin'' \<in> fst ` set ps then map_option Some (readDigestField (fld parsed ''origin'')) else Some None) of
                None \<Rightarrow> None
              | Some originDigest \<Rightarrow> if buildFusePayload commitment originDigest \<noteq> Inr bytes then None
                  else Some (commitment, originDigest))))
   | _ \<Rightarrow> None)"

end
