(* ===== verification/BG_Placement.thy ===== *)
theory BG_Placement
  imports BG_Fuse
begin

text \<open>
  The second half of \<^verbatim>\<open>packages/verify/src/fuse.ts\<close>: the minimal ustar archive and the placements
  that put a commitment into a file's bytes (trailer/1, container/1, container/2) or produce them
  (produced/1), each with its builder, its strict locator and its frame.
\<close>

lemma length_u16 [simp]: "length (u16 s) = length s"
  by (simp add: u16_def)

subsection \<open>The text of a payload\<close>

definition payload_sorted :: "bytes \<Rightarrow> bytes option \<Rightarrow> jv" where
  "payload_sorted commitment originDigest = JObj (
     (case originDigest of Some d \<Rightarrow> [kv ''origin'' (digest_obj d)] | None \<Rightarrow> [])
     @ [kv ''slotCommitment'' (digest_obj commitment), kv ''type'' (JStr (u16 ''bitgraph-fuse/1''))])"

lemma payload_keys:
  "\<not> array_index (u16 ''algorithm'')" "\<not> array_index (u16 ''digest'')" "\<not> array_index (u16 ''origin'')"
  "\<not> array_index (u16 ''slotCommitment'')" "\<not> array_index (u16 ''type'')"
  "u16 ''algorithm'' < u16 ''digest''" "u16 ''origin'' < u16 ''slotCommitment''" "u16 ''slotCommitment'' < u16 ''type''"
  "u16 ''origin'' < u16 ''type''"
  by (simp_all add: u16_def array_index_def digit_unit_def word_le_nat_alt)

lemma sortedReplacer_digest [simp]: "sortedReplacer (digest_obj d) = Inr (digest_obj d)"
  using payload_keys by (simp add: digest_obj_def sortedReplacer_obj replace_prop_def js_put_def)

lemma sortedReplacer_payload: "sortedReplacer (fuse_payload c od) = Inr (payload_sorted c od)"
proof -
  have d: "digest_obj x \<noteq> JUndefined" for x by (simp add: digest_obj_def)
  have n: "\<not> u16 ''type'' < u16 ''origin''" "\<not> u16 ''type'' < u16 ''slotCommitment''" "\<not> u16 ''slotCommitment'' < u16 ''origin''"
    using payload_keys by (auto simp: less_le_not_le)
  show ?thesis
    using payload_keys n d
    by (cases od) (simp_all add: fuse_payload_def payload_sorted_def sortedReplacer_obj replace_prop_def js_put_def not_le
        del: sortedReplacer.simps(6))
qed

lemma buildFusePayload_eq:
  "buildFusePayload c od = Inr b \<longleftrightarrow> length c = 32 \<and> (\<forall>d. od = Some d \<longrightarrow> length d = 32)
     \<and> b = utf8 (js_stringify (payload_sorted c od))"
  by (auto simp: buildFusePayload_def canonicalize_eq_Inr sortedReplacer_payload split: option.splits)

lemma esc_str_hex: "list_all lower_hex s \<Longrightarrow> esc_str s = s"
proof (induction s rule: esc_str.induct)
  have u: "esc_unit c = [c]" "\<not> hi_sur c" if "lower_hex c" for c
    using that by (auto simp: lower_hex_def esc_unit_def hi_sur_def lo_sur_def word_le_nat_alt word_less_nat_alt)
  case (2 c)
  then show ?case by (simp add: u)
next
  have u: "esc_unit c = [c]" "\<not> hi_sur c" if "lower_hex c" for c
    using that by (auto simp: lower_hex_def esc_unit_def hi_sur_def lo_sur_def word_le_nat_alt word_less_nat_alt)
  case (3 c d s)
  then show ?case by (simp add: u)
qed simp

lemma quote_hex: "js_quote (hex_text d) = 34 # hex_text d @ [34]"
  using lower_hex_text [of d] by (simp add: js_quote_def esc_str_hex)

definition digest_text :: "bytes \<Rightarrow> jsstr" where
  "digest_text d = u16 ''{\"algorithm\":\"sha256\",\"digest\":\"'' @ hex_text d @ u16 ''\"}''"

lemma digest_stringify: "js_stringify (digest_obj d) = digest_text d"
proof -
  have "js_quote (u16 ''algorithm'') = u16 ''\"algorithm\"''" "js_quote (u16 ''sha256'') = u16 ''\"sha256\"''"
    "js_quote (u16 ''digest'') = u16 ''\"digest\"''" by code_simp+
  then show ?thesis by (simp add: digest_obj_def digest_text_def quote_hex unprintable_def u16_def)
qed

definition payload_text :: "bytes \<Rightarrow> bytes option \<Rightarrow> jsstr" where
  "payload_text c od = u16 ''{'' @ (case od of Some d \<Rightarrow> u16 ''\"origin\":'' @ digest_text d @ u16 '','' | None \<Rightarrow> [])
     @ u16 ''\"slotCommitment\":'' @ digest_text c @ u16 '',\"type\":\"bitgraph-fuse/1\"}''"

lemma payload_stringify: "js_stringify (payload_sorted c od) = payload_text c od"
proof -
  have q: "js_quote (u16 ''origin'') = u16 ''\"origin\"''" "js_quote (u16 ''slotCommitment'') = u16 ''\"slotCommitment\"''"
    "js_quote (u16 ''type'') = u16 ''\"type\"''" "js_quote (u16 ''bitgraph-fuse/1'') = u16 ''\"bitgraph-fuse/1\"''" by code_simp+
  have d: "\<not> unprintable (digest_obj x)" for x by (simp add: digest_obj_def unprintable_def)
  show ?thesis
    by (cases od) (simp_all add: payload_sorted_def payload_text_def q d digest_stringify, simp_all add: unprintable_def u16_def)
qed

lemma ascii_hex: "list_all (\<lambda>c. c < 128) (hex_text d)"
  using lower_hex_text [of d] by (auto simp: list_all_iff lower_hex_def word_le_nat_alt word_less_nat_alt)

lemma ascii_payload: "list_all (\<lambda>c. c < 128) (payload_text c od)"
  using ascii_hex by (cases od) (simp_all add: payload_text_def digest_text_def u16_def)

definition payload_bytes :: "bytes \<Rightarrow> bytes option \<Rightarrow> bytes" where
  "payload_bytes c od = utf8 (payload_text c od)"

lemma payload_bytes_map: "payload_bytes c od = map (\<lambda>x. of_nat (unat x)) (payload_text c od)"
  unfolding payload_bytes_def by (rule utf8_ascii) (rule ascii_payload)

lemma buildFusePayload_iff:
  "buildFusePayload c od = Inr b \<longleftrightarrow> length c = 32 \<and> (\<forall>d. od = Some d \<longrightarrow> length d = 32) \<and> b = payload_bytes c od"
  by (simp add: buildFusePayload_eq payload_stringify payload_bytes_def)

lemma length_payload: "length c = 32 \<Longrightarrow> length d = 32 \<Longrightarrow> length (payload_bytes c (Some d)) = 250"
  by (simp add: payload_bytes_map payload_text_def digest_text_def hex_text_props(1))

lemma readDigestField_obj: "length d = 32 \<Longrightarrow> readDigestField (digest_obj d) = Some d"
  by (simp add: readDigestField_def digest_obj_def)

lemma payload_key_text:
  "join_units (sort [u16 ''slotCommitment'', u16 ''type'']) = u16 ''slotCommitment,type''"
  "join_units (sort [u16 ''origin'', u16 ''slotCommitment'', u16 ''type'']) = u16 ''origin,slotCommitment,type''"
proof -
  have "sort [u16 ''slotCommitment'', u16 ''type''] = [u16 ''slotCommitment'', u16 ''type'']"
    "sort [u16 ''origin'', u16 ''slotCommitment'', u16 ''type''] = [u16 ''origin'', u16 ''slotCommitment'', u16 ''type'']"
    using payload_keys by (simp_all add: less_imp_le)
  then show "join_units (sort [u16 ''slotCommitment'', u16 ''type'']) = u16 ''slotCommitment,type''"
    "join_units (sort [u16 ''origin'', u16 ''slotCommitment'', u16 ''type'']) = u16 ''origin,slotCommitment,type''"
    by (simp_all add: u16_def)
qed

text \<open>\<^verbatim>\<open>JSON.parse\<close> reads back the canonical text of a payload.\<close>

definition reads_payloads :: "(bytes \<Rightarrow> jv option) \<Rightarrow> bool" where
  "reads_payloads json \<longleftrightarrow> (\<forall>c od. length c = 32 \<longrightarrow> (\<forall>d. od = Some d \<longrightarrow> length d = 32) \<longrightarrow>
     json (payload_bytes c od) = Some (payload_sorted c od))"

lemma parse_payload:
  assumes "reads_payloads json" "length c = 32" "\<And>d. od = Some d \<Longrightarrow> length d = 32"
  shows "parseFusePayload json (payload_bytes c od) = Some (c, od)"
proof -
  have j: "json (payload_bytes c od) = Some (payload_sorted c od)" using assms by (simp add: reads_payloads_def)
  have b: "buildFusePayload c od = Inr (payload_bytes c od)" using assms by (simp add: buildFusePayload_iff)
  show ?thesis
  proof (cases od)
    case None
    with j b assms(2) payload_key_text(1) show ?thesis
      by (simp add: parseFusePayload_def payload_sorted_def readDigestField_obj Let_def del: sort_key_simps)
  next
    case (Some d)
    with j b assms(2) assms(3) [OF Some] payload_key_text(2) show ?thesis
      by (simp add: parseFusePayload_def payload_sorted_def readDigestField_obj Let_def del: sort_key_simps)
  qed
qed

lemma parse_payload_sound: "parseFusePayload json b = Some (c, od) \<Longrightarrow> buildFusePayload c od = Inr b"
  by (auto simp: parseFusePayload_def Let_def split: option.splits jv.splits if_splits)

subsection \<open>A reader of payloads\<close>

text \<open>A function that satisfies the hypothesis: the digests stand at fixed places of the text.\<close>

definition demo_json :: "bytes \<Rightarrow> jv option" where
  "demo_json b = (let u = map (\<lambda>x. of_nat (unat x)) b in
     if length b = 250 then Some (payload_sorted (hex_decode (slice 158 222 u)) (Some (hex_decode (slice 42 106 u))))
     else Some (payload_sorted (hex_decode (slice 50 114 u)) None))"

lemma slice_between: "slice (length p) (length p + length m) (p @ m @ r) = m"
  by (simp add: slice_def)

lemma slice_at: "i = length p \<Longrightarrow> j = length p + length m \<Longrightarrow> slice i j (p @ m @ r) = m"
  by (simp add: slice_between)

lemma payload_units: "map (\<lambda>x. of_nat (unat x)) (payload_bytes c od) = payload_text c od"
proof -
  have "(of_nat (unat (of_nat (unat x) :: byte)) :: 16 word) = x" if "x < 128" for x :: "16 word"
  proof -
    have "unat x < 128" using that by (simp add: word_less_nat_alt)
    then have "unat (of_nat (unat x) :: byte) = unat x" unfolding unat_of_nat take_bit_eq_mod by simp
    then show ?thesis by simp
  qed
  then have "map (\<lambda>x. of_nat (unat (of_nat (unat x) :: byte))) (payload_text c od) = payload_text c od"
    using ascii_payload [of c od] by (intro map_idI) (auto simp: list_all_iff)
  then show ?thesis by (simp add: payload_bytes_map comp_def)
qed

lemma demo_json_reads: "reads_payloads demo_json"
proof -
  have "demo_json (payload_bytes c od) = Some (payload_sorted c od)"
    if l: "length c = 32" "\<forall>d. od = Some d \<longrightarrow> length d = 32" for c od
  proof (cases od)
    case None
    have e: "payload_text c None = (u16 ''{\"slotCommitment\":'' @ u16 ''{\"algorithm\":\"sha256\",\"digest\":\"'')
        @ hex_text c @ (u16 ''\"}'' @ u16 '',\"type\":\"bitgraph-fuse/1\"}'')"
      by (simp add: payload_text_def digest_text_def u16_def)
    have "slice 50 114 (payload_text c None) = hex_text c"
      unfolding e by (rule slice_at) (simp_all add: l hex_text_props(1))
    moreover have "length (payload_bytes c None) \<noteq> 250"
      by (simp add: payload_bytes_map payload_text_def digest_text_def hex_text_props(1) l)
    ultimately show ?thesis unfolding None demo_json_def Let_def payload_units by (simp add: hex_text_props(4))
  next
    case (Some d)
    have e: "payload_text c (Some d) = (u16 ''{\"origin\":'' @ u16 ''{\"algorithm\":\"sha256\",\"digest\":\"'')
        @ hex_text d @ (u16 ''\"}'' @ u16 '',\"slotCommitment\":'' @ digest_text c @ u16 '',\"type\":\"bitgraph-fuse/1\"}'')"
      "payload_text c (Some d) = (u16 ''{\"origin\":'' @ digest_text d @ u16 '',\"slotCommitment\":''
          @ u16 ''{\"algorithm\":\"sha256\",\"digest\":\"'') @ hex_text c @ (u16 ''\"}'' @ u16 '',\"type\":\"bitgraph-fuse/1\"}'')"
      by (simp_all add: payload_text_def digest_text_def u16_def)
    have "slice 42 106 (payload_text c (Some d)) = hex_text d"
      unfolding e(1) by (rule slice_at) (simp_all add: l Some hex_text_props(1))
    moreover have "slice 158 222 (payload_text c (Some d)) = hex_text c"
      unfolding e(2) by (rule slice_at) (simp_all add: l Some hex_text_props(1) digest_text_def)
    ultimately show ?thesis
      unfolding Some demo_json_def Let_def payload_units using Some l length_payload [of c d] by (simp add: hex_text_props(4))
  qed
  then show ?thesis by (simp add: reads_payloads_def)
qed

subsection \<open>A minimal ustar archive\<close>

definition BLOCK :: nat where "BLOCK = 512"

definition MAX_ENTRY :: nat where "MAX_ENTRY = 8589934591"

definition ascii :: "string \<Rightarrow> bytes" where
  "ascii s = map (\<lambda>c. of_nat (of_char c)) s"

definition CONTAINER_MANIFEST_PATH :: bytes where
  "CONTAINER_MANIFEST_PATH = ascii ''bitgraph-fuse/manifest.json''"

definition CONTAINER_ORIGINAL_PATH :: bytes where
  "CONTAINER_ORIGINAL_PATH = ascii ''bitgraph-fuse/original''"

text \<open>\<^verbatim>\<open>n.toString(8)\<close> and \<^verbatim>\<open>padStart(width, "0")\<close>.\<close>

fun oct_digits :: "nat \<Rightarrow> bytes" where
  "oct_digits n = (if n < 8 then [of_nat (48 + n)] else oct_digits (n div 8) @ [of_nat (48 + n mod 8)])"

declare oct_digits.simps [simp del]

definition pad_zeros :: "nat \<Rightarrow> bytes \<Rightarrow> bytes" where
  "pad_zeros width s = replicate (width - length s) 48 @ s"

definition octal :: "nat \<Rightarrow> nat \<Rightarrow> bytes res" where
  "octal n width = (let s = pad_zeros (width - 1) (oct_digits n) @ [0] in
     if length s \<noteq> width then Inl (RangeError ''field overflow'') else Inr s)"

text \<open>\<^verbatim>\<open>h.set(bs, off)\<close>, within the array.\<close>

definition set_at :: "nat \<Rightarrow> bytes \<Rightarrow> bytes \<Rightarrow> bytes" where
  "set_at off bs h = take off h @ bs @ drop (off + length bs) h"

definition padTo :: "nat \<Rightarrow> nat" where
  "padTo n = (BLOCK - n mod BLOCK) mod BLOCK"

definition zeros :: "nat \<Rightarrow> bytes" where
  "zeros n = replicate n 0"

text \<open>The header before its checksum, which is computed with spaces in the checksum field.\<close>

definition header_fields :: "bytes \<Rightarrow> bytes \<Rightarrow> bytes" where
  "header_fields name sz =
     set_at 263 (ascii ''00'') (set_at 257 (ascii ''ustar'' @ [0]) (set_at 156 [0x30]
       (set_at 148 (ascii ''        '') (set_at 136 (ascii ''00000000000'' @ [0]) (set_at 124 sz
         (set_at 116 (ascii ''0000000'' @ [0]) (set_at 108 (ascii ''0000000'' @ [0]) (set_at 100 (ascii ''0000644'' @ [0])
           (set_at 0 name (zeros BLOCK))))))))))"

definition ustarHeader :: "bytes \<Rightarrow> nat \<Rightarrow> bytes res" where
  "ustarHeader name n =
     (if MAX_ENTRY < n then Inl (RangeError ''container entries are limited to 8 GiB'')
      else if 100 < length name then Inl (RangeError ''ustar name too long'')
      else rbind (octal n 12) (\<lambda>sz. let h = header_fields name sz in
        Inr (set_at 148 (pad_zeros 6 (oct_digits (sum_list (map unat h))) @ [0, 32]) h)))"

definition buildContainer :: "bytes \<Rightarrow> bytes \<Rightarrow> bytes res" where
  "buildContainer original manifest =
     rbind (ustarHeader CONTAINER_MANIFEST_PATH (length manifest)) (\<lambda>hm.
     rbind (ustarHeader CONTAINER_ORIGINAL_PATH (length original)) (\<lambda>ho.
       Inr (hm @ manifest @ zeros (padTo (length manifest)) @ ho @ original @ zeros (padTo (length original)) @ zeros (BLOCK * 2))))"

definition buildContainer2 :: "bytes \<Rightarrow> bytes \<Rightarrow> bytes res" where
  "buildContainer2 original manifest =
     rbind (ustarHeader CONTAINER_ORIGINAL_PATH (length original)) (\<lambda>ho.
     rbind (ustarHeader CONTAINER_MANIFEST_PATH (length manifest)) (\<lambda>hm.
       Inr (ho @ original @ zeros (padTo (length original)) @ hm @ manifest @ zeros (padTo (length manifest)) @ zeros (BLOCK * 2))))"

record tar_entry =
  te_name :: bytes
  te_data :: bytes
  te_headerBytes :: bytes

definition octal_byte :: "byte \<Rightarrow> bool" where
  "octal_byte b \<longleftrightarrow> 48 \<le> b \<and> b \<le> 55"

definition oct_val :: "bytes \<Rightarrow> nat" where
  "oct_val s = foldl (\<lambda>n b. n * 8 + (unat b - 48)) 0 s"

text \<open>The name of an entry as the bytes of its decoded text: the decoder drops a byte order mark.\<close>

definition tar_name :: "bytes \<Rightarrow> bytes" where
  "tar_name h = (let raw = takeWhile (\<lambda>b. b \<noteq> 0) (take 100 h) in
     if take 3 raw = [0xEF, 0xBB, 0xBF] then drop 3 raw else raw)"

function parseTar :: "bytes \<Rightarrow> tar_entry list option" where
  "parseTar bytes =
     (if length bytes < BLOCK then None
      else let h = take BLOCK bytes in
        if list_all (\<lambda>b. b = 0) h then
          (if length bytes \<noteq> BLOCK * 2 \<or> \<not> list_all (\<lambda>b. b = 0) bytes then None else Some [])
        else if \<not> list_all octal_byte (slice 124 135 h) then None
        else let n = oct_val (slice 124 135 h) in
          if length bytes < BLOCK + n then None
          else map_option (\<lambda>es. \<lparr>te_name = tar_name h, te_data = slice BLOCK (BLOCK + n) bytes, te_headerBytes = h\<rparr> # es)
            (parseTar (drop (BLOCK + n + padTo n) bytes)))"
  by pat_completeness auto

termination parseTar
  by (relation "measure length") (auto simp: BLOCK_def)

declare parseTar.simps [simp del]

subsection \<open>Headers\<close>

lemma length_set_at: "off + length bs \<le> length h \<Longrightarrow> length (set_at off bs h) = length h"
  by (simp add: set_at_def)

lemma slice_set_at_same: "off + length bs \<le> length h \<Longrightarrow> j = off + length bs \<Longrightarrow> slice off j (set_at off bs h) = bs"
  by (simp add: set_at_def slice_def)

lemma slice_set_at_other:
  assumes "off + length bs \<le> length h" "j \<le> off \<or> off + length bs \<le> i"
  shows "slice i j (set_at off bs h) = slice i j h"
proof -
  have n: "set_at off bs h ! k = h ! k" if "k < off \<or> off + length bs \<le> k" "k < length h" for k
    using that assms(1) by (auto simp: set_at_def nth_append)
  have l: "length (set_at off bs h) = length h" using assms(1) by (rule length_set_at)
  have "slice i j (set_at off bs h) ! k = slice i j h ! k" if "k < length (slice i j h)" for k
  proof -
    have k: "k < j - i" "i + k < length h" using that by (auto simp: slice_def)
    then have "i + k < off \<or> off + length bs \<le> i + k" using assms(2) by auto
    with n k l show ?thesis by (simp add: slice_def)
  qed
  then show ?thesis by (intro nth_equalityI) (simp_all add: l)
qed

lemma length_ascii [simp]: "length (ascii s) = length s"
  by (simp add: ascii_def)

lemma length_zeros [simp]: "length (zeros n) = n"
  by (simp add: zeros_def)

lemma oct_unit:
  assumes "m < 8"
  shows "octal_byte (of_nat (48 + m))" "unat (of_nat (48 + m) :: byte) = 48 + m"
proof -
  show u: "unat (of_nat (48 + m) :: byte) = 48 + m" unfolding unat_of_nat take_bit_eq_mod using assms by simp
  show "octal_byte (of_nat (48 + m))" unfolding octal_byte_def word_le_nat_alt u using assms by simp
qed

lemma oct_digits_props: "list_all octal_byte (oct_digits n) \<and> oct_val (oct_digits n) = n"
proof (induction n rule: oct_digits.induct)
  case (1 n)
  show ?case
    using 1 oct_unit [of n] oct_unit [of "n mod 8"]
    by (subst (1 2) oct_digits.simps) (auto simp: oct_val_def simp del: of_nat_add)
qed

lemma length_oct_digits: "n < 8 ^ Suc k \<Longrightarrow> length (oct_digits n) \<le> Suc k"
proof (induction k arbitrary: n)
  case 0
  then show ?case by (subst oct_digits.simps) simp
next
  case (Suc k)
  have "n div 8 < 8 ^ Suc k" using Suc.prems by (simp add: less_mult_imp_div_less mult.commute)
  with Suc.IH show ?case by (subst oct_digits.simps) simp
qed

lemma oct_val_pad: "oct_val (pad_zeros w s) = oct_val s" "list_all octal_byte s \<Longrightarrow> list_all octal_byte (pad_zeros w s)"
proof -
  have "foldl (\<lambda>n b. n * 8 + (unat (b :: byte) - 48)) 0 (replicate m 48) = 0" for m by (induction m) simp_all
  then show "oct_val (pad_zeros w s) = oct_val s" by (simp add: oct_val_def pad_zeros_def)
  show "list_all octal_byte s \<Longrightarrow> list_all octal_byte (pad_zeros w s)"
    by (auto simp: pad_zeros_def list_all_iff octal_byte_def)
qed

lemma length_pad_zeros: "length s \<le> w \<Longrightarrow> length (pad_zeros w s) = w"
  by (simp add: pad_zeros_def)

lemma octal_size: "n \<le> MAX_ENTRY \<Longrightarrow> octal n 12 = Inr (pad_zeros 11 (oct_digits n) @ [0])"
proof -
  assume "n \<le> MAX_ENTRY"
  then have "length (oct_digits n) \<le> 11" using length_oct_digits [of n 10] by (simp add: MAX_ENTRY_def)
  then show ?thesis by (simp add: octal_def Let_def length_pad_zeros)
qed

lemma byte_sum: "sum_list (map unat (h :: bytes)) \<le> 255 * length h"
proof (induction h)
  case (Cons b h)
  have "unat b \<le> 255" using unat_byte_less [of b] by linarith
  with Cons show ?case by simp
qed simp

lemma header_fields_slices:
  assumes "length name \<le> 100" "length sz = 12"
  shows "length (header_fields name sz) = 512" "slice 0 100 (header_fields name sz) = name @ zeros (100 - length name)"
    "slice 124 136 (header_fields name sz) = sz" "slice 257 263 (header_fields name sz) = ascii ''ustar'' @ [0]"
proof -
  show l: "length (header_fields name sz) = 512" using assms by (simp add: header_fields_def length_set_at BLOCK_def)
  have "slice 0 100 (set_at 0 name (zeros 512)) = name @ zeros (100 - length name)"
    using assms(1) by (simp add: set_at_def slice_def zeros_def)
  then show "slice 0 100 (header_fields name sz) = name @ zeros (100 - length name)"
    using assms by (simp add: header_fields_def slice_set_at_other length_set_at BLOCK_def)
  show "slice 124 136 (header_fields name sz) = sz" "slice 257 263 (header_fields name sz) = ascii ''ustar'' @ [0]"
    using assms by (simp_all add: header_fields_def slice_set_at_other slice_set_at_same length_set_at BLOCK_def)
qed

lemma ustarHeader_ok:
  assumes "n \<le> MAX_ENTRY" "length name \<le> 100"
  obtains h where "ustarHeader name n = Inr h" "length h = 512" "slice 0 100 h = name @ zeros (100 - length name)"
    "slice 124 136 h = pad_zeros 11 (oct_digits n) @ [0]" "slice 257 263 h = ascii ''ustar'' @ [0]"
proof -
  let ?sz = "pad_zeros 11 (oct_digits n) @ [0 :: byte]"
  have sz: "length ?sz = 12"
    using octal_size [OF assms(1)] by (auto simp: octal_def Let_def split: if_splits)
  let ?h = "header_fields name ?sz"
  note f = header_fields_slices [OF assms(2) sz]
  let ?c = "pad_zeros 6 (oct_digits (sum_list (map unat ?h))) @ [0, 32]"
  have "length (oct_digits (sum_list (map unat ?h))) \<le> 6"
    using length_oct_digits [of "sum_list (map unat ?h)" 5] byte_sum [of ?h] f(1) by simp
  then have c: "length ?c = 8" by (simp add: length_pad_zeros)
  show thesis
  proof
    show "ustarHeader name n = Inr (set_at 148 ?c ?h)"
      using assms by (simp add: ustarHeader_def octal_size Let_def)
  qed (use f c in \<open>simp_all add: length_set_at slice_set_at_other\<close>)
qed

subsection \<open>Archives parse back\<close>

definition plain_name :: "bytes \<Rightarrow> bool" where
  "plain_name name \<longleftrightarrow> name \<noteq> [] \<and> length name \<le> 100 \<and> 0 \<notin> set name \<and> take 3 name \<noteq> [0xEF, 0xBB, 0xBF]"

lemma plain_paths: "plain_name CONTAINER_MANIFEST_PATH" "plain_name CONTAINER_ORIGINAL_PATH"
  "CONTAINER_MANIFEST_PATH \<noteq> CONTAINER_ORIGINAL_PATH"
  by code_simp+

lemma tar_name_header:
  assumes "plain_name name" "slice 0 100 h = name @ zeros (100 - length name)"
  shows "tar_name h = name"
proof -
  have "takeWhile (\<lambda>b. b \<noteq> 0) (name @ replicate k 0) = name" for k
    using assms(1) by (subst takeWhile_append2) (auto simp: plain_name_def takeWhile_replicate)
  then have "takeWhile (\<lambda>b. b \<noteq> 0) (take 100 h) = name" using assms(2) by (simp add: slice_def zeros_def)
  then show ?thesis using assms(1) by (simp add: tar_name_def plain_name_def)
qed

lemma parseTar_entry:
  assumes h: "ustarHeader name n = Inr h" "n \<le> MAX_ENTRY" and name: "plain_name name" and d: "length data = n"
  shows "parseTar (h @ data @ zeros (padTo n) @ rest)
    = map_option (\<lambda>es. \<lparr>te_name = name, te_data = data, te_headerBytes = h\<rparr> # es) (parseTar rest)"
proof -
  have f: "length h = 512" "slice 0 100 h = name @ zeros (100 - length name)"
    "slice 124 136 h = pad_zeros 11 (oct_digits n) @ [0]"
    using ustarHeader_ok [OF h(2), of name] name h(1) by (auto simp: plain_name_def)
  have l: "length (pad_zeros 11 (oct_digits n)) = 11"
    using length_oct_digits [of n 10] h(2) by (intro length_pad_zeros) (simp add: MAX_ENTRY_def)
  have "slice 124 135 h = take 11 (slice 124 136 h)" by (simp add: slice_def min_def)
  then have sz: "slice 124 135 h = pad_zeros 11 (oct_digits n)" using l f(3) by simp
  have "h ! 0 = name ! 0"
  proof -
    have "slice 0 100 h ! 0 = name ! 0" using f(2) name by (auto simp: plain_name_def nth_append)
    then show ?thesis using f(1) by (simp add: slice_def)
  qed
  moreover have "name ! 0 \<noteq> 0" using name by (metis plain_name_def length_greater_0_conv nth_mem)
  ultimately have nz: "\<not> list_all (\<lambda>b. b = 0) h" using f(1) nth_mem [of 0 h] by (auto simp: list_all_iff)
  have oct: "list_all octal_byte (slice 124 135 h)" "oct_val (slice 124 135 h) = n"
    unfolding sz using oct_digits_props [of n] oct_val_pad by simp_all
  let ?b = "h @ data @ zeros (padTo n) @ rest"
  have t: "take BLOCK ?b = h" "length ?b = BLOCK + n + padTo n + length rest" "slice BLOCK (BLOCK + n) ?b = data"
    "drop (BLOCK + n + padTo n) ?b = rest"
    using f(1) d by (simp_all add: BLOCK_def slice_def)
  show ?thesis
    by (subst parseTar.simps) (simp only: t nz oct Let_def tar_name_header [OF name f(2)], simp)
qed

lemma parseTar_end: "parseTar (zeros (BLOCK * 2)) = Some []"
  by (subst parseTar.simps) (simp add: zeros_def BLOCK_def list_all_iff)

subsection \<open>Placements\<close>

datatype placement = Trailer1 | Container1 | Container2 | Produced1

record located =
  lo_commitment :: bytes
  lo_originDigest :: "bytes option"
  lo_originalBytes :: "bytes option"

definition TRAILER_MAGIC :: bytes where "TRAILER_MAGIC = ascii ''BGFUSE01''"

definition TRAILER_LENGTH :: nat where "TRAILER_LENGTH = 48"

definition trailer1_build :: "bytes option \<Rightarrow> bytes \<Rightarrow> bytes res" where
  "trailer1_build original commitment = (case original of
     None \<Rightarrow> Inl (TypeError ''trailer/1 requires the original bytes'')
   | Some b \<Rightarrow> if length commitment \<noteq> 32 then Inl (TypeError ''commitment must be 32 bytes'')
       else Inr (b @ TRAILER_MAGIC @ zeros 8 @ commitment))"

definition trailer1_locate :: "bytes \<Rightarrow> located option" where
  "trailer1_locate fused =
     (if length fused < TRAILER_LENGTH then None
      else let t = drop (length fused - TRAILER_LENGTH) fused in
        if slice 0 8 t \<noteq> TRAILER_MAGIC then None
        else if \<not> list_all (\<lambda>b. b = 0) (slice 8 16 t) then None
        else Some \<lparr>lo_commitment = slice 16 48 t, lo_originDigest = None,
          lo_originalBytes = Some (take (length fused - TRAILER_LENGTH) fused)\<rparr>)"

definition trailer1_frame :: "bytes \<Rightarrow> (bytes \<times> bytes) res" where
  "trailer1_frame commitment = (if length commitment \<noteq> 32 then Inl (TypeError ''commitment must be 32 bytes'')
     else Inr ([], TRAILER_MAGIC @ zeros 8 @ commitment))"

definition container1_build :: "hashfun \<Rightarrow> bytes option \<Rightarrow> bytes option \<Rightarrow> bytes \<Rightarrow> bytes res" where
  "container1_build H original originDigest commitment = (case original of
     None \<Rightarrow> Inl (TypeError ''container/1 requires the original bytes'')
   | Some b \<Rightarrow> rbind (buildFusePayload commitment (Some (case originDigest of Some d \<Rightarrow> d | None \<Rightarrow> H b))) (buildContainer b))"

definition container1_locate :: "hashfun \<Rightarrow> (bytes \<Rightarrow> jv option) \<Rightarrow> bytes \<Rightarrow> located option" where
  "container1_locate H json fused = (case parseTar fused of
     Some [m, e] \<Rightarrow>
       if te_name m \<noteq> CONTAINER_MANIFEST_PATH \<or> te_name e \<noteq> CONTAINER_ORIGINAL_PATH then None
       else (case parseFusePayload json (te_data m) of
          Some (commitment, Some originDigest) \<Rightarrow>
            if buildContainer (te_data e) (te_data m) \<noteq> Inr fused \<or> H (te_data e) \<noteq> originDigest then None
            else Some \<lparr>lo_commitment = commitment, lo_originDigest = Some originDigest, lo_originalBytes = Some (te_data e)\<rparr>
        | _ \<Rightarrow> None)
   | _ \<Rightarrow> None)"

definition container1_frame :: "nat \<Rightarrow> bytes \<Rightarrow> bytes \<Rightarrow> (bytes \<times> bytes) res" where
  "container1_frame originalSize originDigest commitment =
     rbind (buildFusePayload commitment (Some originDigest)) (\<lambda>manifest.
     rbind (ustarHeader CONTAINER_MANIFEST_PATH (length manifest)) (\<lambda>hm.
     rbind (ustarHeader CONTAINER_ORIGINAL_PATH originalSize) (\<lambda>ho.
       Inr (hm @ manifest @ zeros (padTo (length manifest)) @ ho, zeros (padTo originalSize) @ zeros (BLOCK * 2)))))"

definition container2_build :: "hashfun \<Rightarrow> bytes option \<Rightarrow> bytes option \<Rightarrow> bytes \<Rightarrow> bytes res" where
  "container2_build H original originDigest commitment = (case original of
     None \<Rightarrow> Inl (TypeError ''container/2 requires the original bytes'')
   | Some b \<Rightarrow> rbind (buildFusePayload commitment (Some (case originDigest of Some d \<Rightarrow> d | None \<Rightarrow> H b))) (buildContainer2 b))"

definition container2_locate :: "hashfun \<Rightarrow> (bytes \<Rightarrow> jv option) \<Rightarrow> bytes \<Rightarrow> located option" where
  "container2_locate H json fused = (case parseTar fused of
     Some [e, m] \<Rightarrow>
       if te_name e \<noteq> CONTAINER_ORIGINAL_PATH \<or> te_name m \<noteq> CONTAINER_MANIFEST_PATH then None
       else (case parseFusePayload json (te_data m) of
          Some (commitment, Some originDigest) \<Rightarrow>
            if buildContainer2 (te_data e) (te_data m) \<noteq> Inr fused \<or> H (te_data e) \<noteq> originDigest then None
            else Some \<lparr>lo_commitment = commitment, lo_originDigest = Some originDigest, lo_originalBytes = Some (te_data e)\<rparr>
        | _ \<Rightarrow> None)
   | _ \<Rightarrow> None)"

definition container2_frame :: "nat \<Rightarrow> bytes \<Rightarrow> bytes \<Rightarrow> (bytes \<times> bytes) res" where
  "container2_frame originalSize originDigest commitment =
     rbind (buildFusePayload commitment (Some originDigest)) (\<lambda>manifest.
     rbind (ustarHeader CONTAINER_ORIGINAL_PATH originalSize) (\<lambda>ho.
     rbind (ustarHeader CONTAINER_MANIFEST_PATH (length manifest)) (\<lambda>hm.
       Inr (ho, zeros (padTo originalSize) @ hm @ manifest @ zeros (padTo (length manifest)) @ zeros (BLOCK * 2)))))"

definition container2_scanPrefix :: "nat \<Rightarrow> bytes res" where
  "container2_scanPrefix originalSize = ustarHeader CONTAINER_ORIGINAL_PATH originalSize"

definition produced1_build :: "bytes option \<Rightarrow> bytes option \<Rightarrow> bytes \<Rightarrow> bytes res" where
  "produced1_build original originDigest commitment =
     (if original \<noteq> None then Inl (TypeError ''produced/1 takes no original; pass originDigest for a source reference'')
      else buildFusePayload commitment originDigest)"

definition produced1_locate :: "(bytes \<Rightarrow> jv option) \<Rightarrow> bytes \<Rightarrow> located option" where
  "produced1_locate json fused = (case parseFusePayload json fused of None \<Rightarrow> None
     | Some (commitment, originDigest) \<Rightarrow>
         Some \<lparr>lo_commitment = commitment, lo_originDigest = originDigest, lo_originalBytes = None\<rparr>)"

definition placement_build :: "hashfun \<Rightarrow> placement \<Rightarrow> bytes option \<Rightarrow> bytes option \<Rightarrow> bytes \<Rightarrow> bytes res" where
  "placement_build H pl original originDigest commitment = (case pl of
     Trailer1 \<Rightarrow> trailer1_build original commitment
   | Container1 \<Rightarrow> container1_build H original originDigest commitment
   | Container2 \<Rightarrow> container2_build H original originDigest commitment
   | Produced1 \<Rightarrow> produced1_build original originDigest commitment)"

definition placement_locate :: "hashfun \<Rightarrow> (bytes \<Rightarrow> jv option) \<Rightarrow> placement \<Rightarrow> bytes \<Rightarrow> located option" where
  "placement_locate H json pl fused = (case pl of
     Trailer1 \<Rightarrow> trailer1_locate fused
   | Container1 \<Rightarrow> container1_locate H json fused
   | Container2 \<Rightarrow> container2_locate H json fused
   | Produced1 \<Rightarrow> produced1_locate json fused)"

definition placement_frame :: "placement \<Rightarrow> nat \<Rightarrow> bytes \<Rightarrow> bytes \<Rightarrow> (bytes \<times> bytes) res option" where
  "placement_frame pl originalSize originDigest commitment = (case pl of
     Trailer1 \<Rightarrow> Some (trailer1_frame commitment)
   | Container1 \<Rightarrow> Some (container1_frame originalSize originDigest commitment)
   | Container2 \<Rightarrow> Some (container2_frame originalSize originDigest commitment)
   | Produced1 \<Rightarrow> None)"

definition PLACEMENTS :: "placement list" where
  "PLACEMENTS = [Trailer1, Container1, Container2, Produced1]"

subsection \<open>A fused file has one reading\<close>

lemma length_magic [simp]: "length TRAILER_MAGIC = 8"
  by (simp add: TRAILER_MAGIC_def)

lemma trailer_split:
  assumes "48 \<le> length f"
  shows "f = take (length f - 48) f @ slice 0 8 (drop (length f - 48) f) @ slice 8 16 (drop (length f - 48) f)
    @ slice 16 48 (drop (length f - 48) f)"
proof -
  let ?t = "drop (length f - 48) f"
  have "length ?t = 48" using assms by simp
  then have "?t = slice 0 48 ?t" by (metis slice_all)
  also have "\<dots> = slice 0 8 ?t @ slice 8 16 ?t @ slice 16 48 ?t" by (simp add: slice_split)
  finally show ?thesis by (metis append_take_drop_id)
qed

lemma all_zero_eq: "list_all (\<lambda>b. b = 0) xs \<longleftrightarrow> xs = zeros (length xs)"
  by (induction xs) (auto simp: zeros_def)

lemma trailer1_locate_eq:
  "trailer1_locate f = Some l \<longleftrightarrow> (\<exists>b c. trailer1_build (Some b) c = Inr f
     \<and> l = \<lparr>lo_commitment = c, lo_originDigest = None, lo_originalBytes = Some b\<rparr>)" (is "?l \<longleftrightarrow> ?r")
proof
  assume l: ?l
  let ?t = "drop (length f - 48) f" and ?b = "take (length f - 48) f"
  from l have f: "48 \<le> length f" "slice 0 8 ?t = TRAILER_MAGIC" "list_all (\<lambda>b. b = 0) (slice 8 16 ?t)"
    "l = \<lparr>lo_commitment = slice 16 48 ?t, lo_originDigest = None, lo_originalBytes = Some ?b\<rparr>"
    by (auto simp: trailer1_locate_def TRAILER_LENGTH_def Let_def split: if_splits)
  have "length (slice 8 16 ?t) = 8" using f(1) by simp
  then have "slice 8 16 ?t = zeros 8" using f(3) unfolding all_zero_eq by simp
  with f(1,2) have "trailer1_build (Some ?b) (slice 16 48 ?t) = Inr f"
    using trailer_split [OF f(1)] by (simp add: trailer1_build_def)
  with f(4) show ?r by blast
next
  assume ?r
  then obtain b c where "trailer1_build (Some b) c = Inr f"
    and l: "l = \<lparr>lo_commitment = c, lo_originDigest = None, lo_originalBytes = Some b\<rparr>" by blast
  then have c: "length c = 32" and f: "f = b @ TRAILER_MAGIC @ zeros 8 @ c" by (auto simp: trailer1_build_def split: if_splits)
  have len: "length f = length b + 48" using c by (simp add: f)
  have t: "drop (length b) f = TRAILER_MAGIC @ zeros 8 @ c" "take (length b) f = b" by (simp_all add: f)
  have "slice 0 8 (TRAILER_MAGIC @ zeros 8 @ c) = TRAILER_MAGIC" "slice 16 48 (TRAILER_MAGIC @ zeros 8 @ c) = c"
    "slice 8 16 (TRAILER_MAGIC @ zeros 8 @ c) = zeros 8" using c by (simp_all add: slice_def)
  then show ?l
    by (simp add: trailer1_locate_def TRAILER_LENGTH_def len t l Let_def) (simp add: zeros_def list_all_iff)
qed

interpretation trailer1: strict_codec "\<lambda>p. length (snd p) = 32" "\<lambda>p. fst p @ TRAILER_MAGIC @ zeros 8 @ snd p"
  "\<lambda>f. map_option (\<lambda>l. (the (lo_originalBytes l), lo_commitment l)) (trailer1_locate f)"
proof unfold_locales
  fix p :: "bytes \<times> bytes"
  assume "length (snd p) = 32"
  then have "trailer1_locate (fst p @ TRAILER_MAGIC @ zeros 8 @ snd p)
      = Some \<lparr>lo_commitment = snd p, lo_originDigest = None, lo_originalBytes = Some (fst p)\<rparr>"
    unfolding trailer1_locate_eq by (simp add: trailer1_build_def)
  then show "map_option (\<lambda>l. (the (lo_originalBytes l), lo_commitment l))
      (trailer1_locate (fst p @ TRAILER_MAGIC @ zeros 8 @ snd p)) = Some p" by simp
next
  fix f :: bytes and p
  assume "map_option (\<lambda>l. (the (lo_originalBytes l), lo_commitment l)) (trailer1_locate f) = Some p"
  then show "length (snd p) = 32 \<and> fst p @ TRAILER_MAGIC @ zeros 8 @ snd p = f"
    by (auto simp: trailer1_locate_eq trailer1_build_def split: if_splits)
qed

lemma buildContainer_sizes:
  "buildContainer b m = Inr f \<Longrightarrow> length b \<le> MAX_ENTRY \<and> length m \<le> MAX_ENTRY"
  "buildContainer2 b m = Inr f \<Longrightarrow> length b \<le> MAX_ENTRY \<and> length m \<le> MAX_ENTRY"
  by (auto simp: buildContainer_def buildContainer2_def ustarHeader_def res_simps split: if_splits)

lemma parse_container:
  assumes "buildContainer b m = Inr f"
  shows "\<exists>hm hb. parseTar f = Some [\<lparr>te_name = CONTAINER_MANIFEST_PATH, te_data = m, te_headerBytes = hm\<rparr>,
    \<lparr>te_name = CONTAINER_ORIGINAL_PATH, te_data = b, te_headerBytes = hb\<rparr>]"
proof -
  obtain hm hb where h: "ustarHeader CONTAINER_MANIFEST_PATH (length m) = Inr hm"
    "ustarHeader CONTAINER_ORIGINAL_PATH (length b) = Inr hb"
    "f = hm @ m @ zeros (padTo (length m)) @ hb @ b @ zeros (padTo (length b)) @ zeros (BLOCK * 2)"
    using assms by (auto simp: buildContainer_def res_simps)
  have s: "length b \<le> MAX_ENTRY" "length m \<le> MAX_ENTRY" using buildContainer_sizes(1) [OF assms] by simp_all
  show ?thesis
    by (simp add: h(3) parseTar_entry [OF h(1) s(2) plain_paths(1) refl] parseTar_entry [OF h(2) s(1) plain_paths(2) refl] parseTar_end)
qed

lemma parse_container2:
  assumes "buildContainer2 b m = Inr f"
  shows "\<exists>hm hb. parseTar f = Some [\<lparr>te_name = CONTAINER_ORIGINAL_PATH, te_data = b, te_headerBytes = hb\<rparr>,
    \<lparr>te_name = CONTAINER_MANIFEST_PATH, te_data = m, te_headerBytes = hm\<rparr>]"
proof -
  obtain hm hb where h: "ustarHeader CONTAINER_MANIFEST_PATH (length m) = Inr hm"
    "ustarHeader CONTAINER_ORIGINAL_PATH (length b) = Inr hb"
    "f = hb @ b @ zeros (padTo (length b)) @ hm @ m @ zeros (padTo (length m)) @ zeros (BLOCK * 2)"
    using assms by (auto simp: buildContainer2_def res_simps)
  have s: "length b \<le> MAX_ENTRY" "length m \<le> MAX_ENTRY" using buildContainer_sizes(2) [OF assms] by simp_all
  show ?thesis
    by (simp add: h(3) parseTar_entry [OF h(1) s(2) plain_paths(1) refl] parseTar_entry [OF h(2) s(1) plain_paths(2) refl] parseTar_end)
qed

text \<open>What a locator reports of a file built from an original and a commitment.\<close>

definition located_as :: "hashfun \<Rightarrow> placement \<Rightarrow> bytes \<Rightarrow> bytes \<Rightarrow> located" where
  "located_as H pl b c = \<lparr>lo_commitment = c, lo_originDigest = (if pl = Trailer1 then None else Some (H b)), lo_originalBytes = Some b\<rparr>"

lemma container1_locate_eq:
  assumes "hash32 H" "reads_payloads json"
  shows "container1_locate H json f = Some l
    \<longleftrightarrow> (\<exists>b c. container1_build H (Some b) None c = Inr f \<and> l = located_as H Container1 b c)" (is "?l \<longleftrightarrow> ?r")
proof
  assume ?l
  then show ?r
    by (fastforce simp: container1_locate_def container1_build_def located_as_def res_simps
        split: option.splits list.splits if_splits prod.splits dest!: parse_payload_sound)
next
  assume ?r
  then obtain b c m where b: "buildFusePayload c (Some (H b)) = Inr m" "buildContainer b m = Inr f" "l = located_as H Container1 b c"
    by (auto simp: container1_build_def res_simps)
  then have m: "length c = 32" "m = payload_bytes c (Some (H b))" by (simp_all add: buildFusePayload_iff)
  have p: "parseFusePayload json m = Some (c, Some (H b))"
    unfolding m(2) using assms m(1) by (intro parse_payload) (auto simp: hash32_def)
  show ?l using parse_container [OF b(2)] p b(2,3) plain_paths(3) by (auto simp: container1_locate_def located_as_def)
qed

lemma container2_locate_eq:
  assumes "hash32 H" "reads_payloads json"
  shows "container2_locate H json f = Some l
    \<longleftrightarrow> (\<exists>b c. container2_build H (Some b) None c = Inr f \<and> l = located_as H Container2 b c)" (is "?l \<longleftrightarrow> ?r")
proof
  assume ?l
  then show ?r
    by (fastforce simp: container2_locate_def container2_build_def located_as_def res_simps
        split: option.splits list.splits if_splits prod.splits dest!: parse_payload_sound)
next
  assume ?r
  then obtain b c m where b: "buildFusePayload c (Some (H b)) = Inr m" "buildContainer2 b m = Inr f" "l = located_as H Container2 b c"
    by (auto simp: container2_build_def res_simps)
  then have m: "length c = 32" "m = payload_bytes c (Some (H b))" by (simp_all add: buildFusePayload_iff)
  have p: "parseFusePayload json m = Some (c, Some (H b))"
    unfolding m(2) using assms m(1) by (intro parse_payload) (auto simp: hash32_def)
  show ?l using parse_container2 [OF b(2)] p b(2,3) plain_paths(3) by (auto simp: container2_locate_def located_as_def)
qed

lemma placement_locate_eq:
  assumes "hash32 H" "reads_payloads json" "pl \<noteq> Produced1"
  shows "placement_locate H json pl f = Some l
    \<longleftrightarrow> (\<exists>b c. placement_build H pl (Some b) None c = Inr f \<and> l = located_as H pl b c)"
  using assms container1_locate_eq [OF assms(1,2)] container2_locate_eq [OF assms(1,2)] trailer1_locate_eq
  by (cases pl) (auto simp: placement_locate_def placement_build_def located_as_def)

lemma ustarHeader_total: "n \<le> MAX_ENTRY \<Longrightarrow> length name \<le> 100 \<Longrightarrow> \<exists>h. ustarHeader name n = Inr h"
  by (metis ustarHeader_ok)

lemma path_lengths: "length CONTAINER_MANIFEST_PATH \<le> 100" "length CONTAINER_ORIGINAL_PATH \<le> 100"
  using plain_paths by (simp_all add: plain_name_def)

lemma buildContainer_total:
  assumes "length b \<le> MAX_ENTRY" "length m \<le> MAX_ENTRY"
  shows "\<exists>f. buildContainer b m = Inr f" "\<exists>f. buildContainer2 b m = Inr f"
proof -
  obtain hb where hb: "ustarHeader CONTAINER_ORIGINAL_PATH (length b) = Inr hb"
    using ustarHeader_total [OF assms(1) path_lengths(2)] by blast
  obtain hm where hm: "ustarHeader CONTAINER_MANIFEST_PATH (length m) = Inr hm"
    using ustarHeader_total [OF assms(2) path_lengths(1)] by blast
  show "\<exists>f. buildContainer b m = Inr f" "\<exists>f. buildContainer2 b m = Inr f"
    by (simp_all add: buildContainer_def buildContainer2_def hb hm)
qed

lemma placement_total:
  assumes "hash32 H" "pl \<noteq> Produced1"
  shows "(\<exists>f. placement_build H pl (Some b) None c = Inr f) \<longleftrightarrow> length c = 32 \<and> (pl = Trailer1 \<or> length b \<le> MAX_ENTRY)"
    (is "?l \<longleftrightarrow> ?r")
proof
  assume ?l
  then show ?r using assms(2)
    by (cases pl) (auto simp: placement_build_def trailer1_build_def container1_build_def container2_build_def res_simps
        buildFusePayload_iff dest: buildContainer_sizes split: if_splits)
next
  assume r: ?r
  let ?m = "payload_bytes c (Some (H b))"
  have h: "length (H b) = 32" using assms(1) by (simp add: hash32_def)
  have m: "length ?m \<le> MAX_ENTRY" using length_payload [of c "H b"] r h by (simp add: MAX_ENTRY_def)
  have p: "buildFusePayload c (Some (H b)) = Inr ?m" using r h by (simp add: buildFusePayload_iff)
  show ?l
  proof (cases "pl = Trailer1")
    case True
    with r show ?thesis by (simp add: placement_build_def trailer1_build_def)
  next
    case False
    with r have "length b \<le> MAX_ENTRY" by simp
    note t = buildContainer_total [OF this m]
    from False assms(2) have "pl = Container1 \<or> pl = Container2" by (cases pl) simp_all
    with t p show ?thesis by (auto simp: placement_build_def container1_build_def container2_build_def)
  qed
qed

text \<open>C11: A fused file has one reading. For a trailer or a container, the locator finds a commitment
  in some bytes exactly when those bytes are what the builder makes of some original and that
  commitment, and it reports that original and, for a container, its digest; nothing else is read as
  fused. The builder fails only on a commitment that is not 32 bytes or on an original too large for
  a container's size field.\<close>

theorem placement_exact:
  assumes "hash32 H" "reads_payloads json" "pl \<noteq> Produced1"
  shows "(placement_locate H json pl f = Some l
      \<longleftrightarrow> (\<exists>b c. placement_build H pl (Some b) None c = Inr f \<and> l = located_as H pl b c))
    \<and> ((\<exists>f. placement_build H pl (Some b) None c = Inr f) \<longleftrightarrow> length c = 32 \<and> (pl = Trailer1 \<or> length b \<le> MAX_ENTRY))"
  using placement_locate_eq [OF assms] placement_total [OF assms(1,3)] by blast

theorem placement_exact_witness:
  "\<exists>f. placement_build head_hash Container2 (Some [1, 2]) None (replicate 32 5) = Inr f
    \<and> placement_locate head_hash demo_json Container2 f = Some (located_as head_hash Container2 [1, 2] (replicate 32 5))"
proof -
  note e = placement_exact [OF head_hash32 demo_json_reads, of Container2]
  have "\<exists>f. placement_build head_hash Container2 (Some [1, 2]) None (replicate 32 5) = Inr f"
    using e [of "[]" "located_as head_hash Container2 [] []" "[1, 2]" "replicate 32 5"] by (simp add: MAX_ENTRY_def)
  then obtain f where f: "placement_build head_hash Container2 (Some [1, 2]) None (replicate 32 5) = Inr f" by blast
  then have "placement_locate head_hash demo_json Container2 f = Some (located_as head_hash Container2 [1, 2] (replicate 32 5))"
    using e [of f "located_as head_hash Container2 [1, 2] (replicate 32 5)" "[]" "[]"] by auto
  with f show ?thesis by blast
qed

text \<open>The frame is what the builder puts around the original, so a producer can stream it.\<close>

lemma placement_frame_build:
  assumes "placement_frame pl (length b) (H b) c = Some r"
  shows "placement_build H pl (Some b) None c = rbind r (\<lambda>(prefix, suffix). Inr (prefix @ b @ suffix))"
proof (cases pl)
  case Trailer1
  with assms show ?thesis by (auto simp: placement_frame_def placement_build_def trailer1_frame_def trailer1_build_def)
next
  case Container1
  with assms show ?thesis
    by (cases "buildFusePayload c (Some (H b))")
      (auto simp: placement_frame_def placement_build_def container1_frame_def container1_build_def buildContainer_def rbind_assoc)
next
  case Container2
  with assms show ?thesis
    by (cases "buildFusePayload c (Some (H b))")
      (auto simp: placement_frame_def placement_build_def container2_frame_def container2_build_def buildContainer2_def rbind_assoc)
next
  case Produced1
  with assms show ?thesis by (simp add: placement_frame_def)
qed

end
