(* ===== verification/BG_Tree.thy ===== *)
theory BG_Tree
  imports BG_Placement BG_Merkle BG_Chains
begin

text \<open>
  The data of \<^verbatim>\<open>packages/verify/src/tree.ts\<close>: the 65-byte leaf of a file, the tree order, the 84-byte
  root document, a member's evidence and the owner's list of leaves, each with its strict reader.
\<close>

subsection \<open>Constants\<close>

definition TREE_DOMAIN :: bytes where "TREE_DOMAIN = profile_domain ''bitgraph-tree/1''"

definition TREE_LEAF_BYTES :: nat where "TREE_LEAF_BYTES = 65"

definition TREE_ROOT_DOCUMENT_BYTES :: nat where "TREE_ROOT_DOCUMENT_BYTES = 84"

definition MAX_TREE_LEAVES :: nat where "MAX_TREE_LEAVES = 1000000"

definition TREE_SPEC_V1_HASH :: jsstr where "TREE_SPEC_V1_HASH = u16 ''QazdIR0JYtHQwQuIISo7bvH1gxUvTS2cY+tW6BjUIRs=''"

definition TREE_SPEC_V2_HASH :: jsstr where "TREE_SPEC_V2_HASH = u16 ''9O3sqlxqi6IQPVJd50NfjJtwWWoslZ9gpIIzbrRzAiU=''"

definition KNOWN_TREE_SPEC_HASHES :: "jsstr list" where
  "KNOWN_TREE_SPEC_HASHES = [TREE_SPEC_V1_HASH, TREE_SPEC_V2_HASH]"

definition TREE_SPEC_FUSE_VERSION :: "jsstr \<Rightarrow> nat option" where
  "TREE_SPEC_FUSE_VERSION h = (if h = TREE_SPEC_V1_HASH then Some 2 else if h = TREE_SPEC_V2_HASH then Some 3 else None)"

datatype leaf_form = AsIs | Placed placement

definition LEAF_PLACEMENTS :: "nat \<Rightarrow> leaf_form option" where
  "LEAF_PLACEMENTS code = (if code = 0 then Some AsIs else if code = 1 then Some (Placed Trailer1)
     else if code = 2 then Some (Placed Container1) else if code = 3 then Some (Placed Container2) else None)"

definition leaf_name :: "leaf_form \<Rightarrow> string" where
  "leaf_name f = (case f of AsIs \<Rightarrow> ''as-is'' | Placed Trailer1 \<Rightarrow> ''trailer/1'' | Placed Container1 \<Rightarrow> ''container/1''
     | Placed Container2 \<Rightarrow> ''container/2'' | Placed Produced1 \<Rightarrow> ''produced/1'')"

definition leafCodeOf :: "string \<Rightarrow> nat option" where
  "leafCodeOf placement = find (\<lambda>code. map_option leaf_name (LEAF_PLACEMENTS code) = Some placement) [0, 1, 2, 3]"

subsection \<open>Leaves\<close>

record tree_leaf =
  tl_placement :: nat
  tl_artifact :: bytes
  tl_origin :: bytes

definition checkLeaf :: "tree_leaf \<Rightarrow> unit res" where
  "checkLeaf l =
     (if LEAF_PLACEMENTS (tl_placement l) = None
      then Inl (TypeError (''leaf placement code 0x'' @ padStart 2 (CHR ''0'') (hex_num (tl_placement l)) @ '' is not registered''))
      else if length (tl_artifact l) \<noteq> 32 \<or> length (tl_origin l) \<noteq> 32 then Inl (TypeError ''leaf digests are 32 bytes'')
      else if tl_placement l = 0 \<and> tl_artifact l \<noteq> tl_origin l
      then Inl (TypeError ''an as-is leaf's artifact and origin are the same digest'')
      else Inr ())"

definition leaf_bytes :: "tree_leaf \<Rightarrow> bytes" where
  "leaf_bytes l = of_nat (tl_placement l) # tl_artifact l @ tl_origin l"

definition encodeTreeLeaf :: "tree_leaf \<Rightarrow> bytes res" where
  "encodeTreeLeaf l = rbind (checkLeaf l) (\<lambda>_. Inr (leaf_bytes l))"

definition decodeTreeLeaf :: "bytes \<Rightarrow> tree_leaf option" where
  "decodeTreeLeaf bs =
     (if length bs \<noteq> TREE_LEAF_BYTES then None
      else let leaf = \<lparr>tl_placement = unat (bs ! 0), tl_artifact = slice 1 33 bs, tl_origin = slice 33 65 bs\<rparr> in
        case checkLeaf leaf of Inl _ \<Rightarrow> None | Inr _ \<Rightarrow> Some leaf)"

definition treeLeafHash :: "hashfun \<Rightarrow> tree_leaf \<Rightarrow> bytes res" where
  "treeLeafHash H l = rbind (encodeTreeLeaf l) (\<lambda>b. Inr (merkleLeafHash H b))"

definition leaf_ok :: "tree_leaf \<Rightarrow> bool" where
  "leaf_ok l \<longleftrightarrow> tl_placement l \<le> 3 \<and> length (tl_artifact l) = 32 \<and> length (tl_origin l) = 32
     \<and> (tl_placement l = 0 \<longrightarrow> tl_artifact l = tl_origin l)"

lemma registered: "LEAF_PLACEMENTS n \<noteq> None \<longleftrightarrow> n \<le> 3"
  by (auto simp: LEAF_PLACEMENTS_def)

lemma checkLeaf_ok: "checkLeaf l = Inr u \<longleftrightarrow> leaf_ok l"
  using registered [of "tl_placement l"] by (auto simp: checkLeaf_def leaf_ok_def)

lemma encodeTreeLeaf_eq: "encodeTreeLeaf l = Inr b \<longleftrightarrow> leaf_ok l \<and> b = leaf_bytes l"
  by (auto simp: encodeTreeLeaf_def res_simps checkLeaf_ok)

lemma length_leaf_bytes: "leaf_ok l \<Longrightarrow> length (leaf_bytes l) = 65"
  by (simp add: leaf_bytes_def leaf_ok_def)

lemma decode_leaf: "leaf_ok l \<Longrightarrow> decodeTreeLeaf (leaf_bytes l) = Some l"
proof -
  assume l: "leaf_ok l"
  then have "unat (of_nat (tl_placement l) :: byte) = tl_placement l"
    unfolding unat_of_nat take_bit_eq_mod by (simp add: leaf_ok_def)
  then have "unat (leaf_bytes l ! 0) = tl_placement l" by (simp add: leaf_bytes_def)
  moreover have "slice 1 33 (leaf_bytes l) = tl_artifact l" "slice 33 65 (leaf_bytes l) = tl_origin l"
    using l by (simp_all add: leaf_bytes_def leaf_ok_def slice_def)
  ultimately have leaf: "\<lparr>tl_placement = unat (leaf_bytes l ! 0), tl_artifact = slice 1 33 (leaf_bytes l),
    tl_origin = slice 33 65 (leaf_bytes l)\<rparr> = l" by (simp only:) simp
  show ?thesis using l checkLeaf_ok [of l] length_leaf_bytes [OF l]
    unfolding decodeTreeLeaf_def TREE_LEAF_BYTES_def Let_def leaf by (auto split: sum.splits)
qed

interpretation tree_leaf: strict_codec leaf_ok leaf_bytes decodeTreeLeaf
proof unfold_locales
  fix l
  show "leaf_ok l \<Longrightarrow> decodeTreeLeaf (leaf_bytes l) = Some l" by (rule decode_leaf)
next
  fix bs l
  assume d: "decodeTreeLeaf bs = Some l"
  then have b: "length bs = 65" "l = \<lparr>tl_placement = unat (bs ! 0), tl_artifact = slice 1 33 bs, tl_origin = slice 33 65 bs\<rparr>"
    "leaf_ok l"
    using checkLeaf_ok by (auto simp: decodeTreeLeaf_def TREE_LEAF_BYTES_def Let_def split: if_splits sum.splits)
  have "bs = slice 0 1 bs @ slice 1 33 bs @ slice 33 65 bs"
    using b(1) slice_all [of bs] by (simp add: slice_split)
  moreover have "slice 0 1 bs = [bs ! 0]" using b(1) slice_single [of 0 bs] by simp
  ultimately show "leaf_ok l \<and> leaf_bytes l = bs" using b(2,3) by (simp add: leaf_bytes_def)
qed

lemma treeLeafHash_eq: "treeLeafHash H l = Inr h \<longleftrightarrow> leaf_ok l \<and> h = merkleLeafHash H (leaf_bytes l)"
  by (auto simp: treeLeafHash_def res_simps encodeTreeLeaf_eq)

subsection \<open>Tree order\<close>

fun compareBytes :: "bytes \<Rightarrow> bytes \<Rightarrow> int" where
  "compareBytes (x # xs) (y # ys) = (if x \<noteq> y then int (unat x) - int (unat y) else compareBytes xs ys)"
| "compareBytes xs ys = int (length xs) - int (length ys)"

lemma byte_order: "x \<noteq> y \<Longrightarrow> uint (x :: byte) \<le> uint y \<longleftrightarrow> x < y"
  unfolding word_le_def [symmetric] by (simp add: order.strict_iff_order)

lemma compareBytes_le: "compareBytes a b \<le> 0 \<longleftrightarrow> a \<le> b"
  by (induction a b rule: compareBytes.induct) (auto simp: byte_order)

interpretation leaf_order: comparison "\<lambda>x y. compareBytes (tl_artifact x) (tl_artifact y)" tl_artifact
  by unfold_locales (rule compareBytes_le)

definition bucket_key :: "tree_leaf \<Rightarrow> nat" where
  "bucket_key l = unat (tl_artifact l ! 0) * 256 + unat (tl_artifact l ! 1)"

definition leaf_buckets :: "tree_leaf list \<Rightarrow> (nat \<times> tree_leaf list) list" where
  "leaf_buckets leaves = fold (\<lambda>l. push_map (bucket_key l) l) leaves []"

definition sort_bucket :: "tree_leaf list \<Rightarrow> tree_leaf list" where
  "sort_bucket b = (if 1 < length b then js_sort (\<lambda>x y. compareBytes (tl_artifact x) (tl_artifact y)) b else b)"

definition bucket_sort :: "tree_leaf list \<Rightarrow> tree_leaf list" where
  "bucket_sort leaves = (let buckets = leaf_buckets leaves in
     concat (map (\<lambda>key. sort_bucket (get_list buckets key)) (js_sort (\<lambda>a b. int a - int b) (map fst buckets))))"

fun first_dup :: "tree_leaf list \<Rightarrow> tree_leaf option" where
  "first_dup (x # y # ls) = (if tl_artifact y = tl_artifact x then Some y else first_dup (y # ls))"
| "first_dup _ = None"

fun check_leaves :: "tree_leaf list \<Rightarrow> unit res" where
  "check_leaves [] = Inr ()"
| "check_leaves (l # ls) = rbind (checkLeaf l) (\<lambda>_. check_leaves ls)"

definition sortTreeLeaves :: "tree_leaf list \<Rightarrow> tree_leaf list res" where
  "sortTreeLeaves leaves =
     (if leaves = [] then Inl (TypeError ''a tree lists at least one leaf'')
      else if MAX_TREE_LEAVES < length leaves then Inl (TypeError ''a tree lists at most 1000000 leaves'')
      else rbind (check_leaves leaves) (\<lambda>_. let sorted = bucket_sort leaves in
        case first_dup sorted of
          Some l \<Rightarrow> Inl (TypeError (''duplicate leaf artifact digest '' @ concat (map hex_byte (tl_artifact l))))
        | None \<Rightarrow> Inr sorted))"

lemma check_leaves_ok: "check_leaves ls = Inr u \<longleftrightarrow> (\<forall>l \<in> set ls. leaf_ok l)"
  by (induction ls) (auto simp: res_simps checkLeaf_ok)

text \<open>Sorting bucket by bucket is sorting, when the bucket's key follows the order.\<close>

lemma sorted_buckets:
  assumes "sorted ks" "distinct ks" and key: "\<And>x y. x \<in> set ls \<Longrightarrow> y \<in> set ls \<Longrightarrow> key x < key y \<Longrightarrow> f x \<le> f y"
  shows "sorted (map f (concat (map (\<lambda>k. sort_key f (filter (\<lambda>x. key x = k) ls)) ks)))"
  using assms(1,2)
proof (induction ks)
  case (Cons k ks)
  have "sorted (map f (sort_key f (filter (\<lambda>x. key x = k) ls)))" by simp
  moreover have "f x \<le> f y" if "x \<in> set ls" "key x = k" "y \<in> set ls" "key y \<in> set ks" for x y
    using that Cons.prems by (intro key) (auto simp: order.strict_iff_order)
  ultimately show ?case using Cons by (auto simp: sorted_append)
qed simp

lemma mset_buckets:
  "distinct ks \<Longrightarrow> mset (concat (map (\<lambda>k. sort_key f (filter (\<lambda>x. key x = k) ls)) ks))
    = mset (filter (\<lambda>x. key x \<in> set ks) ls)"
proof (induction ks)
  case (Cons k ks)
  have "filter_mset (\<lambda>x. key x = k) (mset ls) + filter_mset (\<lambda>x. key x \<in> set ks) (mset ls)
      = filter_mset (\<lambda>x. key x = k \<or> key x \<in> set ks) (mset ls)"
    using Cons.prems by (intro multiset_eqI) auto
  then show ?case using Cons by simp
qed simp

lemma filter_buckets:
  assumes "distinct ks" "key x \<in> set ks" and same: "\<And>y. f x = f y \<Longrightarrow> y \<in> set ls \<Longrightarrow> key y = key x"
  shows "filter (\<lambda>y. f x = f y) (concat (map (\<lambda>k. sort_key f (filter (\<lambda>x. key x = k) ls)) ks))
    = filter (\<lambda>y. f x = f y) ls"
proof -
  have one: "filter (\<lambda>y. f x = f y) (sort_key f (filter (\<lambda>y. key y = k) ls)) =
    (if k = key x then filter (\<lambda>y. f x = f y) ls else [])" for k
  proof -
    have "filter (\<lambda>y. f x = f y) (sort_key f (filter (\<lambda>y. key y = k) ls)) = filter (\<lambda>y. f x = f y \<and> key y = k) ls"
      using sort_key_stable [of f "f x" "filter (\<lambda>y. key y = k) ls"] by (simp add: eq_commute conj_commute)
    also have "\<dots> = filter (\<lambda>y. f x = f y \<and> key x = k) ls" using same by (intro filter_cong) auto
    finally show ?thesis by auto
  qed
  have "concat (map (\<lambda>k. if k = key x then filter (\<lambda>y. f x = f y) ls else []) ks)
      = (if key x \<in> set ks then filter (\<lambda>y. f x = f y) ls else [])"
    using assms(1) by (induction ks) auto
  then show ?thesis using assms(2) by (simp add: filter_concat one comp_def)
qed

lemma buckets_sort:
  assumes "sorted ks" "distinct ks" "set ks = key ` set ls"
    and "\<And>x y. x \<in> set ls \<Longrightarrow> y \<in> set ls \<Longrightarrow> key x < key y \<Longrightarrow> f x \<le> f y"
    and "\<And>x y. x \<in> set ls \<Longrightarrow> y \<in> set ls \<Longrightarrow> f x = f y \<Longrightarrow> key x = key y"
  shows "concat (map (\<lambda>k. sort_key f (filter (\<lambda>x. key x = k) ls)) ks) = sort_key f ls" (is "?ys = _")
proof (rule properties_for_sort_key [symmetric])
  have "filter (\<lambda>x. key x \<in> set ks) ls = ls" using assms(3) by (auto intro: filter_True)
  then show ys: "mset ?ys = mset ls" using mset_buckets [OF assms(2), of f key ls] by simp
  show "filter (\<lambda>y. f x = f y) ?ys = filter (\<lambda>y. f x = f y) ls" if "x \<in> set ?ys" for x
  proof -
    have x: "x \<in> set ls" using that by auto
    show ?thesis
    proof (rule filter_buckets [OF assms(2)])
      show "key x \<in> set ks" using x assms(3) by simp
      show "key y = key x" if "f x = f y" "y \<in> set ls" for y using assms(5) [OF x that(2,1)] by simp
    qed
  qed
  show "sorted (map f ?ys)" using assms(1,2,4) by (rule sorted_buckets)
qed

interpretation nat_order: comparison "\<lambda>a b. int a - int b" "\<lambda>n. n"
  by unfold_locales simp

lemma artifact_pair: "2 \<le> length a \<Longrightarrow> \<exists>x y r. a = x # y # r"
  by (cases a rule: list.exhaust; cases "tl a") auto

lemma bucket_key_order:
  assumes "2 \<le> length (tl_artifact l)" "2 \<le> length (tl_artifact m)" "bucket_key l < bucket_key m"
  shows "tl_artifact l \<le> tl_artifact m"
proof -
  obtain x y r where l: "tl_artifact l = x # y # r" using artifact_pair assms(1) by blast
  obtain x' y' r' where m: "tl_artifact m = x' # y' # r'" using artifact_pair assms(2) by blast
  have "a < b \<or> (a = b \<and> c < d)" if "a * 256 + c < b * 256 + d" "c < 256" "d < 256" for a b c d :: nat
    using that by linarith
  from this [of "unat x" "unat y" "unat x'" "unat y'"] assms(3)
  have "unat x < unat x' \<or> (unat x = unat x' \<and> unat y < unat y')" by (simp add: bucket_key_def l m)
  then have "x < x' \<or> x = x' \<and> y < y'" by (auto simp: word_less_nat_alt intro: unsigned_word_eqI)
  then show ?thesis unfolding l m by auto
qed

lemma bucket_sort_eq:
  assumes "\<forall>l \<in> set leaves. leaf_ok l"
  shows "bucket_sort leaves = sort_key tl_artifact leaves"
proof -
  let ?g = "leaf_buckets leaves" and ?keys = "sort_key (\<lambda>n. n) (map fst (leaf_buckets leaves))"
  have get: "get_list ?g k = filter (\<lambda>l. bucket_key l = k) leaves" for k
    unfolding leaf_buckets_def by (simp add: groups_get)
  have keys: "set (map fst ?g) = bucket_key ` set leaves" and "distinct (map fst ?g)"
    using groups_keys [of bucket_key leaves "[]"] groups_distinct [of "[]" bucket_key leaves] by (simp_all add: leaf_buckets_def)
  then have ks: "sorted ?keys" "distinct ?keys" "set ?keys = bucket_key ` set leaves"
    using sorted_sort_key [of "\<lambda>n. n" "map fst ?g"] by simp_all
  have sorted1: "sort_bucket b = sort_key tl_artifact b" for b
    by (cases b rule: remdups_adj.cases) (simp_all add: sort_bucket_def leaf_order.js_sort_eq)
  show ?thesis
    unfolding bucket_sort_def Let_def get sorted1 nat_order.js_sort_eq using ks
  proof (rule buckets_sort)
    show "tl_artifact x \<le> tl_artifact y" if "x \<in> set leaves" "y \<in> set leaves" "bucket_key x < bucket_key y" for x y
      using that assms by (intro bucket_key_order) (auto simp: leaf_ok_def)
  qed (simp add: bucket_key_def)
qed

lemma first_dup_none: "sorted (map tl_artifact ls) \<Longrightarrow> first_dup ls = None \<longleftrightarrow> distinct (map tl_artifact ls)"
proof (induction ls rule: first_dup.induct)
  case (1 x y ls)
  have "tl_artifact x \<notin> tl_artifact ` set ls" if "tl_artifact y \<noteq> tl_artifact x"
    using 1(2) that by (auto dest: order.antisym)
  then show ?case using 1 by auto
qed simp_all

text \<open>The tree order: a list is accepted exactly when it is not empty, holds at most a million leaves, all well formed,
  and no two with the same committed digest; the order is that of one plain sort by the digest.\<close>

lemma sortTreeLeaves_iff:
  "sortTreeLeaves leaves = Inr s \<longleftrightarrow> leaves \<noteq> [] \<and> length leaves \<le> MAX_TREE_LEAVES \<and> list_all leaf_ok leaves
    \<and> distinct (map tl_artifact leaves) \<and> s = sort_key tl_artifact leaves"
proof -
  have "first_dup (sort_key tl_artifact leaves) = None \<longleftrightarrow> distinct (map tl_artifact leaves)"
    using first_dup_none [of "sort_key tl_artifact leaves"] by (simp add: distinct_map)
  then show ?thesis
    by (auto simp: sortTreeLeaves_def res_simps check_leaves_ok list_all_iff bucket_sort_eq Let_def split: option.splits)
qed

subsection \<open>Building a tree\<close>

record built_tree =
  bt_sorted :: "tree_leaf list"
  bt_leafHashes :: "bytes list"
  bt_root :: bytes
  bt_tree :: merkle_tree

definition buildTree :: "hashfun \<Rightarrow> tree_leaf list \<Rightarrow> built_tree res" where
  "buildTree H leaves = rbind (sortTreeLeaves leaves) (\<lambda>sorted.
     let leafHashes = map (\<lambda>l. H (0x00 # of_nat (tl_placement l) # tl_artifact l @ tl_origin l)) sorted in
     rbind (new_MerkleTree H leafHashes []) (\<lambda>tree.
       Inr \<lparr>bt_sorted = sorted, bt_leafHashes = leafHashes, bt_root = mt_root tree, bt_tree = tree\<rparr>))"

lemma new_tree_root:
  assumes "hash32 H" "ls \<noteq> []"
  shows "\<exists>t. new_MerkleTree H (map (\<lambda>l. merkleLeafHash H (f l)) ls) [] = Inr t
    \<and> mt_root t = mth H (map (\<lambda>l. merkleLeafHash H (f l)) ls)"
proof -
  let ?hs = "map (\<lambda>l. merkleLeafHash H (f l)) ls"
  obtain t where t: "new_MerkleTree H ?hs [] = Inr t"
    using assms by (auto simp: new_MerkleTree_def hash32_def merkleLeafHash_def split_def Let_def)
  then show ?thesis using new_MerkleTree_ok [OF t] by (auto simp: tree_ok_def)
qed

lemma buildTree_eq:
  assumes "hash32 H" "sortTreeLeaves leaves = Inr s"
  shows "\<exists>t. buildTree H leaves = Inr \<lparr>bt_sorted = s, bt_leafHashes = map (\<lambda>l. merkleLeafHash H (leaf_bytes l)) s,
    bt_root = mth H (map (\<lambda>l. merkleLeafHash H (leaf_bytes l)) s), bt_tree = t\<rparr>"
proof -
  have "s \<noteq> []" using assms(2) by (auto simp: sortTreeLeaves_iff simp flip: length_greater_0_conv)
  from new_tree_root [OF assms(1) this, of leaf_bytes] assms(2) show ?thesis
    by (auto simp: buildTree_def merkleLeafHash_def leaf_bytes_def Let_def)
qed

subsection \<open>The root document\<close>

text \<open>\<^verbatim>\<open>setUint32(16, count, false)\<close> and \<^verbatim>\<open>getUint32(16, false)\<close>: four bytes, most significant first.\<close>

definition be32 :: "nat \<Rightarrow> bytes" where
  "be32 n = map (\<lambda>i. of_nat (n div 256 ^ i mod 256)) [3, 2, 1, 0]"

lemma length_be32 [simp]: "length (be32 n) = 4"
  by (simp add: be32_def)

lemma be_val_be32: "n < 256 ^ 4 \<Longrightarrow> be_val (be32 n) = n"
proof -
  assume n: "n < 256 ^ 4"
  have "be_val (be32 n) = ((n div 256 ^ 3 mod 256 * 256 + n div 256 ^ 2 mod 256) * 256 + n div 256 ^ 1 mod 256) * 256
      + n div 256 ^ 0 mod 256"
    by (simp only: be32_def be_val_def list.map foldl.simps unat_of_nat_byte mult_zero_left add_0_left)
  also have "\<dots> = n"
    using n mod_mult2_eq [of n 256 256] mod_mult2_eq [of n 65536 256] mod_mult2_eq [of n 16777216 256] by simp
  finally show ?thesis .
qed

definition buildTreeRootDocument :: "bytes \<Rightarrow> int \<Rightarrow> bytes \<Rightarrow> bytes res" where
  "buildTreeRootDocument commitment n root =
     (if length commitment \<noteq> 32 \<or> length root \<noteq> 32 then Inl (TypeError ''commitment and root are 32 bytes'')
      else if n < 1 \<or> int MAX_TREE_LEAVES < n then Inl (TypeError ''count must be an integer from 1 to 1000000'')
      else Inr (TREE_DOMAIN @ be32 (nat n) @ root @ commitment))"

record root_doc =
  rd_count :: nat
  rd_root :: bytes
  rd_commitment :: bytes

definition parseTreeRootDocument :: "bytes \<Rightarrow> root_doc option" where
  "parseTreeRootDocument bs =
     (if length bs \<noteq> TREE_ROOT_DOCUMENT_BYTES then None
      else if slice 0 16 bs \<noteq> TREE_DOMAIN then None
      else let n = be_val (slice 16 20 bs) in
        if n < 1 \<or> MAX_TREE_LEAVES < n then None
        else Some \<lparr>rd_count = n, rd_root = slice 20 52 bs, rd_commitment = slice 52 84 bs\<rparr>)"

definition root_doc_ok :: "root_doc \<Rightarrow> bool" where
  "root_doc_ok d \<longleftrightarrow> 1 \<le> rd_count d \<and> rd_count d \<le> MAX_TREE_LEAVES \<and> length (rd_root d) = 32 \<and> length (rd_commitment d) = 32"

definition root_doc_bytes :: "root_doc \<Rightarrow> bytes" where
  "root_doc_bytes d = TREE_DOMAIN @ be32 (rd_count d) @ rd_root d @ rd_commitment d"

lemma length_TREE_DOMAIN [simp]: "length TREE_DOMAIN = 16"
  by code_simp

lemma build_root_document:
  "buildTreeRootDocument c n r = Inr b \<longleftrightarrow> root_doc_ok \<lparr>rd_count = nat n, rd_root = r, rd_commitment = c\<rparr>
    \<and> b = root_doc_bytes \<lparr>rd_count = nat n, rd_root = r, rd_commitment = c\<rparr>"
  by (auto simp: buildTreeRootDocument_def root_doc_ok_def root_doc_bytes_def MAX_TREE_LEAVES_def)

interpretation tree_root: strict_codec root_doc_ok root_doc_bytes parseTreeRootDocument
proof unfold_locales
  fix d
  assume d: "root_doc_ok d"
  have s: "slice 0 16 (root_doc_bytes d) = TREE_DOMAIN" "slice 16 20 (root_doc_bytes d) = be32 (rd_count d)"
    "slice 20 52 (root_doc_bytes d) = rd_root d" "slice 52 84 (root_doc_bytes d) = rd_commitment d"
    using d by (simp_all add: root_doc_bytes_def slice_def root_doc_ok_def)
  have "be_val (be32 (rd_count d)) = rd_count d"
    using d by (intro be_val_be32) (simp add: root_doc_ok_def MAX_TREE_LEAVES_def)
  then show "parseTreeRootDocument (root_doc_bytes d) = Some d"
    using d unfolding parseTreeRootDocument_def s by (auto simp: root_doc_ok_def root_doc_bytes_def TREE_ROOT_DOCUMENT_BYTES_def Let_def)
next
  fix bs d
  assume p: "parseTreeRootDocument bs = Some d"
  then have b: "length bs = 84" "slice 0 16 bs = TREE_DOMAIN" "rd_count d = be_val (slice 16 20 bs)" "1 \<le> rd_count d"
    "rd_count d \<le> MAX_TREE_LEAVES" "rd_root d = slice 20 52 bs" "rd_commitment d = slice 52 84 bs"
    by (auto simp: parseTreeRootDocument_def TREE_ROOT_DOCUMENT_BYTES_def Let_def split: if_splits)
  have "be32 (rd_count d) = slice 16 20 bs"
    using b by (intro be_val_inj) (simp_all add: be_val_be32 MAX_TREE_LEAVES_def)
  moreover have "bs = slice 0 16 bs @ slice 16 20 bs @ slice 20 52 bs @ slice 52 84 bs"
    using b(1) slice_all [of bs] by (simp add: slice_split)
  ultimately show "root_doc_ok d \<and> root_doc_bytes d = bs" using b by (auto simp: root_doc_ok_def root_doc_bytes_def)
qed

definition readTreeMetadata :: "jv \<Rightarrow> bytes option" where
  "readTreeMetadata proof = (case fld (fld proof ''metadata'') ''bitgraph-tree/1'' of JStr s \<Rightarrow> hexBytes s | _ \<Rightarrow> None)"

subsection \<open>The signed marker\<close>

definition treeAttribution :: "bytes \<Rightarrow> jv res" where
  "treeAttribution specHash =
     (if length specHash \<noteq> 32 then Inl (TypeError ''the spec hash is 32 bytes'')
      else let b64 = b64_encode specHash;
             version = (case TREE_SPEC_FUSE_VERSION b64 of Some v \<Rightarrow> v | None \<Rightarrow> 2) in
        Inr (JObj [kv ''name'' (JStr (u16 (if version = 3 then ''bitgraph-fuse/3'' else ''bitgraph-fuse/2''))),
          kv ''title'' (JStr (u16 ''tree/1'')), kv ''message'' (JStr b64)]))"

definition currentTreeSpecHash :: "nat \<Rightarrow> bytes res" where
  "currentTreeSpecHash fuseVersion =
     (case base64ToBytes (if fuseVersion = 3 then TREE_SPEC_V2_HASH else TREE_SPEC_V1_HASH) of
        None \<Rightarrow> Inl (JsError ''the tree/1 spec hash has not been set'')
      | Some b \<Rightarrow> if length b \<noteq> 32 then Inl (JsError ''the tree/1 spec hash has not been set'') else Inr b)"

definition isTreeProof :: "jv \<Rightarrow> bool" where
  "isTreeProof proof \<longleftrightarrow> fld (fld proof ''attribution'') ''title'' = JStr (u16 ''tree/1'')"

subsection \<open>A member's evidence\<close>

definition path_node :: "bytes \<Rightarrow> jv res" where
  "path_node p = (if length p \<noteq> 32 then Inl (TypeError ''a path node is 32 bytes'') else Inr (JStr (hex_text p)))"

definition buildTreeMemberEvidence :: "tree_leaf \<Rightarrow> int \<Rightarrow> int \<Rightarrow> bytes list \<Rightarrow> jv res" where
  "buildTreeMemberEvidence leaf index n path =
     (if n < 1 \<or> index < 0 \<or> n \<le> index then Inl (RangeError ''member index out of range'')
      else rbind (encodeTreeLeaf leaf) (\<lambda>b. rbind (rmap path_node path) (\<lambda>nodes.
        Inr (JObj [kv ''index'' (JNum index), kv ''count'' (JNum n), kv ''leaf'' (JStr (hex_text b)), kv ''path'' (JArr nodes)]))))"

record tree_member =
  tm_leaf :: tree_leaf
  tm_index :: nat
  tm_count :: nat
  tm_path :: "bytes list"

fun read_path :: "jv list \<Rightarrow> bytes list option" where
  "read_path [] = Some []"
| "read_path (JStr s # ns) = (case hexBytes s of
     Some b \<Rightarrow> if length b \<noteq> 32 then None else map_option (Cons b) (read_path ns) | None \<Rightarrow> None)"
| "read_path (_ # ns) = None"

definition parseTreeMemberEvidence :: "jv \<Rightarrow> tree_member option" where
  "parseTreeMemberEvidence v = (case v of
     JObj ps \<Rightarrow>
       if join_units (sort (map fst ps)) \<noteq> u16 ''count,index,leaf,path'' then None
       else (case (fld v ''count'', fld v ''index'') of
         (JNum n, JNum i) \<Rightarrow>
           if n < 1 \<or> int MAX_TREE_LEAVES < n then None
           else if i < 0 \<or> n \<le> i then None
           else (case fld v ''leaf'' of
              JStr s \<Rightarrow> (case hexBytes s of None \<Rightarrow> None
                | Some b \<Rightarrow> (case decodeTreeLeaf b of None \<Rightarrow> None
                  | Some leaf \<Rightarrow> (case fld v ''path'' of
                      JArr nodes \<Rightarrow> (case read_path nodes of None \<Rightarrow> None
                        | Some path \<Rightarrow> Some \<lparr>tm_leaf = leaf, tm_index = nat i, tm_count = nat n, tm_path = path\<rparr>)
                    | _ \<Rightarrow> None)))
            | _ \<Rightarrow> None)
       | _ \<Rightarrow> None)
   | _ \<Rightarrow> None)"

definition treeRootFromMember :: "hashfun \<Rightarrow> tree_leaf \<Rightarrow> nat \<Rightarrow> nat \<Rightarrow> bytes list \<Rightarrow> bytes option res" where
  "treeRootFromMember H leaf index n path =
     rbind (treeLeafHash H leaf) (\<lambda>h. Inr (merkleRootFromPath H h (int index) (int n) path))"

lemma read_path_nodes: "rmap path_node path = Inr nodes \<Longrightarrow> read_path nodes = Some path"
  by (induction path arbitrary: nodes) (auto simp: res_simps path_node_def split: if_splits)

lemma evidence_keys:
  "join_units (sort [u16 ''index'', u16 ''count'', u16 ''leaf'', u16 ''path'']) = u16 ''count,index,leaf,path''"
  by (simp add: u16_def word_le_nat_alt)

lemma parse_built_evidence:
  assumes "buildTreeMemberEvidence leaf (int i) (int n) path = Inr v" "n \<le> MAX_TREE_LEAVES"
  shows "parseTreeMemberEvidence v = Some \<lparr>tm_leaf = leaf, tm_index = i, tm_count = n, tm_path = path\<rparr>"
proof -
  obtain nodes where v: "v = JObj [kv ''index'' (JNum (int i)), kv ''count'' (JNum (int n)),
      kv ''leaf'' (JStr (hex_text (leaf_bytes leaf))), kv ''path'' (JArr nodes)]"
    and nodes: "rmap path_node path = Inr nodes" and leaf: "leaf_ok leaf" and n: "1 \<le> n" "i < n"
    using assms(1) by (auto simp: buildTreeMemberEvidence_def res_simps encodeTreeLeaf_eq split: if_splits)
  have "fld v ''count'' = JNum (int n)" "fld v ''index'' = JNum (int i)" "fld v ''path'' = JArr nodes"
    "fld v ''leaf'' = JStr (hex_text (leaf_bytes leaf))"
    unfolding v by (simp_all add: u16_def)
  moreover obtain ps where "v = JObj ps" and keys: "join_units (sort (map fst ps)) = u16 ''count,index,leaf,path''"
    unfolding v using evidence_keys by simp
  ultimately show ?thesis
    unfolding parseTreeMemberEvidence_def using n assms(2)
    by (simp add: keys decode_leaf [OF leaf] read_path_nodes [OF nodes])
qed

lemma read_path_lengths: "read_path nodes = Some path \<Longrightarrow> list_all (\<lambda>p. length p = 32) path"
  by (induction nodes arbitrary: path rule: read_path.induct) (auto split: option.splits if_splits)

lemma parsed_evidence:
  assumes "parseTreeMemberEvidence v = Some m"
  shows "leaf_ok (tm_leaf m)" "tm_index m < tm_count m" "tm_count m \<le> MAX_TREE_LEAVES" "list_all (\<lambda>p. length p = 32) (tm_path m)"
  using assms tree_leaf.enc_dec read_path_lengths
  by (auto simp: parseTreeMemberEvidence_def split: jv.splits option.splits if_splits)

subsection \<open>The owner's list\<close>

definition encodeTreeLeaves :: "tree_leaf list \<Rightarrow> bytes res" where
  "encodeTreeLeaves leaves = rbind (rmap encodeTreeLeaf leaves) (\<lambda>bs. Inr (concat bs))"

function decode_leaves :: "bytes \<Rightarrow> tree_leaf list option" where
  "decode_leaves bs = (if bs = [] then Some []
     else case decodeTreeLeaf (take TREE_LEAF_BYTES bs) of None \<Rightarrow> None
       | Some l \<Rightarrow> map_option (Cons l) (decode_leaves (drop TREE_LEAF_BYTES bs)))"
  by pat_completeness auto

termination decode_leaves
  by (relation "measure length") (auto simp: TREE_LEAF_BYTES_def)

declare decode_leaves.simps [simp del]

definition decodeTreeLeaves :: "bytes \<Rightarrow> tree_leaf list option" where
  "decodeTreeLeaves bs = (if length bs = 0 \<or> length bs mod TREE_LEAF_BYTES \<noteq> 0 then None else decode_leaves bs)"

datatype leaves_check = LeavesOk nat | LeavesBad jsstr

fun order_fault :: "nat \<Rightarrow> tree_leaf list \<Rightarrow> jsstr option" where
  "order_fault i (x # y # ls) =
     (let c = compareBytes (tl_artifact x) (tl_artifact y) in
      if c = 0 then Some (u16 ''duplicate artifact digest at leaves '' @ int_units (int i) @ u16 '' and '' @ int_units (int i + 1))
      else if 0 < c then Some (u16 ''leaves '' @ int_units (int i) @ u16 '' and '' @ int_units (int i + 1) @ u16 '' are out of order'')
      else order_fault (Suc i) (y # ls))"
| "order_fault i _ = None"

definition verifyTreeLeaves :: "hashfun \<Rightarrow> bytes \<Rightarrow> bytes \<Rightarrow> leaves_check res" where
  "verifyTreeLeaves H rootDocument leavesBytes =
     (case parseTreeRootDocument rootDocument of
        None \<Rightarrow> Inr (LeavesBad (u16 ''the root document is not a tree/1 root document''))
      | Some doc \<Rightarrow> (case decodeTreeLeaves leavesBytes of
          None \<Rightarrow> Inr (LeavesBad (u16 ''the leaves are not a whole number of valid 65-byte leaves''))
        | Some leaves \<Rightarrow>
            if length leaves \<noteq> rd_count doc
            then Inr (LeavesBad (u16 ''the list holds '' @ int_units (int (length leaves))
              @ u16 '' leaves; the root document states '' @ int_units (int (rd_count doc))))
            else (case order_fault 0 leaves of Some reason \<Rightarrow> Inr (LeavesBad reason)
              | None \<Rightarrow> rbind (rmap (treeLeafHash H) leaves) (\<lambda>hs. rbind (new_MerkleTree H hs []) (\<lambda>t.
                  if mt_root t \<noteq> rd_root doc then Inr (LeavesBad (u16 ''the leaves do not rebuild the committed root''))
                  else Inr (LeavesOk (rd_count doc)))))))"

lemma rmap_encode: "rmap encodeTreeLeaf ls = Inr bs \<longleftrightarrow> list_all leaf_ok ls \<and> bs = map leaf_bytes ls"
  by (induction ls arbitrary: bs) (auto simp: res_simps encodeTreeLeaf_eq)

lemma rmap_leaf_hash: "list_all leaf_ok ls \<Longrightarrow> rmap (treeLeafHash H) ls = Inr (map (\<lambda>l. merkleLeafHash H (leaf_bytes l)) ls)"
  by (induction ls) (simp_all add: treeLeafHash_eq [THEN iffD2])

lemma encodeTreeLeaves_eq: "encodeTreeLeaves ls = Inr b \<longleftrightarrow> list_all leaf_ok ls \<and> b = concat (map leaf_bytes ls)"
  by (auto simp: encodeTreeLeaves_def res_simps rmap_encode)

lemma decode_leaves_eq: "decode_leaves bs = Some ls \<longleftrightarrow> list_all leaf_ok ls \<and> bs = concat (map leaf_bytes ls)"
proof (induction bs arbitrary: ls rule: decode_leaves.induct)
  case (1 bs)
  show ?case
  proof (cases ls)
    case Nil
    then show ?thesis by (subst decode_leaves.simps) (auto split: option.splits)
  next
    case (Cons l ms)
    have "decode_leaves bs = Some ls \<longleftrightarrow> bs \<noteq> [] \<and> decodeTreeLeaf (take 65 bs) = Some l \<and> decode_leaves (drop 65 bs) = Some ms"
      by (subst decode_leaves.simps) (auto simp: Cons TREE_LEAF_BYTES_def split: option.splits)
    also have "\<dots> \<longleftrightarrow> bs \<noteq> [] \<and> leaf_ok l \<and> leaf_bytes l = take 65 bs \<and> list_all leaf_ok ms \<and> drop 65 bs = concat (map leaf_bytes ms)"
      using 1 [of l ms] tree_leaf.dec_iff [of "take 65 bs" l] by (auto simp: TREE_LEAF_BYTES_def)
    also have "\<dots> \<longleftrightarrow> list_all leaf_ok ls \<and> bs = concat (map leaf_bytes ls)"
    proof
      assume h: "list_all leaf_ok ls \<and> bs = concat (map leaf_bytes ls)"
      then have "leaf_ok l" by (simp add: Cons)
      from length_leaf_bytes [OF this] h
      show "bs \<noteq> [] \<and> leaf_ok l \<and> leaf_bytes l = take 65 bs \<and> list_all leaf_ok ms \<and> drop 65 bs = concat (map leaf_bytes ms)"
        by (auto simp: Cons)
    qed (use Cons append_take_drop_id [of 65 bs] in auto)
    finally show ?thesis .
  qed
qed

lemma length_leaves: "list_all leaf_ok ls \<Longrightarrow> length (concat (map leaf_bytes ls)) = 65 * length ls"
  by (induction ls) (simp_all add: length_leaf_bytes)

lemma decodeTreeLeaves_eq: "decodeTreeLeaves b = Some ls \<longleftrightarrow> ls \<noteq> [] \<and> encodeTreeLeaves ls = Inr b"
proof (cases "list_all leaf_ok ls \<and> b = concat (map leaf_bytes ls)")
  case True
  then have "length b = 65 * length ls" "decode_leaves b = Some ls" "encodeTreeLeaves ls = Inr b"
    using length_leaves by (auto simp: decode_leaves_eq encodeTreeLeaves_eq)
  then show ?thesis by (auto simp: decodeTreeLeaves_def TREE_LEAF_BYTES_def)
qed (auto simp: decodeTreeLeaves_def decode_leaves_eq encodeTreeLeaves_eq)

interpretation tree_list: strict_codec "\<lambda>ls. ls \<noteq> [] \<and> list_all leaf_ok ls" "\<lambda>ls. concat (map leaf_bytes ls)" decodeTreeLeaves
  by unfold_locales (auto simp: decodeTreeLeaves_eq encodeTreeLeaves_eq)

lemma compareBytes_signs: "compareBytes a b = 0 \<longleftrightarrow> a = b" "0 < compareBytes a b \<longleftrightarrow> b < a"
proof -
  have "uint x = uint y \<longleftrightarrow> x = y" for x y :: byte by (auto intro: unsigned_word_eqI)
  then show "compareBytes a b = 0 \<longleftrightarrow> a = b" by (induction a b rule: compareBytes.induct) auto
  show "0 < compareBytes a b \<longleftrightarrow> b < a" using compareBytes_le [of a b] by (metis not_le)
qed

lemma order_fault_none: "order_fault i ls = None \<longleftrightarrow> sorted_wrt (<) (map tl_artifact ls)"
  by (induction i ls rule: order_fault.induct) (auto simp: Let_def compareBytes_signs)

lemma tree_order: "sorted_wrt (<) (map tl_artifact ls) \<longleftrightarrow> distinct (map tl_artifact ls) \<and> sort_key tl_artifact ls = ls"
  by (metis strict_sorted_iff sort_key_id_if_sorted sorted_sort_key)

lemma verifyTreeLeaves_accepts:
  assumes "hash32 H"
  shows "verifyTreeLeaves H doc b = Inr (LeavesOk n) \<longleftrightarrow> (\<exists>ls c. ls \<noteq> [] \<and> sorted_wrt (<) (map tl_artifact ls)
    \<and> encodeTreeLeaves ls = Inr b \<and> n = length ls
    \<and> parseTreeRootDocument doc = Some \<lparr>rd_count = n, rd_root = mth H (map (\<lambda>l. merkleLeafHash H (leaf_bytes l)) ls), rd_commitment = c\<rparr>)"
    (is "?l \<longleftrightarrow> ?r")
proof
  assume ?l
  then obtain d ls where d: "parseTreeRootDocument doc = Some d" and ls: "decodeTreeLeaves b = Some ls"
    and f: "length ls = rd_count d" "order_fault 0 ls = None"
    and r: "rbind (rmap (treeLeafHash H) ls) (\<lambda>hs. rbind (new_MerkleTree H hs []) (\<lambda>t.
      if mt_root t \<noteq> rd_root d then Inr (LeavesBad (u16 ''the leaves do not rebuild the committed root''))
      else Inr (LeavesOk (rd_count d)))) = Inr (LeavesOk n)"
    by (auto simp: verifyTreeLeaves_def split: option.splits if_splits)
  have l: "ls \<noteq> []" "encodeTreeLeaves ls = Inr b" "list_all leaf_ok ls" using ls by (auto simp: decodeTreeLeaves_eq encodeTreeLeaves_eq)
  with new_tree_root [OF assms l(1), of leaf_bytes] r have "rd_root d = mth H (map (\<lambda>l. merkleLeafHash H (leaf_bytes l)) ls)" "n = rd_count d"
    by (auto simp: rmap_leaf_hash split: if_splits)
  then show ?r using d l f by (intro exI [of _ ls] exI [of _ "rd_commitment d"]) (simp add: order_fault_none)
next
  assume ?r
  then obtain ls c where l: "ls \<noteq> []" "encodeTreeLeaves ls = Inr b" and o: "order_fault 0 ls = None" and n: "n = length ls"
    and d: "parseTreeRootDocument doc = Some \<lparr>rd_count = n, rd_root = mth H (map (\<lambda>l. merkleLeafHash H (leaf_bytes l)) ls), rd_commitment = c\<rparr>"
    by (auto simp: order_fault_none)
  from l have ls: "decodeTreeLeaves b = Some ls" "list_all leaf_ok ls" by (simp_all add: decodeTreeLeaves_eq encodeTreeLeaves_eq)
  show ?l using new_tree_root [OF assms l(1), of leaf_bytes] ls o n d by (auto simp: verifyTreeLeaves_def rmap_leaf_hash)
qed

lemma verifyTreeLeaves_total:
  assumes "hash32 H"
  shows "\<exists>r. verifyTreeLeaves H doc b = Inr r"
proof (cases "parseTreeRootDocument doc")
  case (Some d)
  show ?thesis
  proof (cases "decodeTreeLeaves b")
    case ls: (Some ls)
    then have "ls \<noteq> []" "list_all leaf_ok ls" by (auto simp: decodeTreeLeaves_eq encodeTreeLeaves_eq)
    with new_tree_root [OF assms this(1), of leaf_bytes] Some ls show ?thesis
      by (auto simp: verifyTreeLeaves_def rmap_leaf_hash split: option.splits)
  qed (simp add: verifyTreeLeaves_def Some)
qed (simp add: verifyTreeLeaves_def)

text \<open>C16: The owner's list. \<open>verifyTreeLeaves\<close> accepts a root document and a list exactly when a producer can make them:
  the list is the encoding, in tree order, of leaves that \<open>buildTree\<close> accepts (in any order), and the document states their
  number and the root of the tree they build, under some commitment. It never throws.\<close>

theorem verifyTreeLeaves_exact:
  assumes "hash32 H"
  shows "(verifyTreeLeaves H doc b = Inr (LeavesOk n)
      \<longleftrightarrow> (\<exists>ls t c. buildTree H ls = Inr t \<and> n = length ls \<and> encodeTreeLeaves (bt_sorted t) = Inr b
        \<and> buildTreeRootDocument c (int n) (bt_root t) = Inr doc))
    \<and> (\<exists>r. verifyTreeLeaves H doc b = Inr r)" (is "(?l \<longleftrightarrow> ?r) \<and> _")
proof (intro conjI iffI verifyTreeLeaves_total [OF assms])
  assume ?l
  then obtain ls c where l: "ls \<noteq> []" "sorted_wrt (<) (map tl_artifact ls)" "encodeTreeLeaves ls = Inr b" "n = length ls"
    and d: "parseTreeRootDocument doc = Some \<lparr>rd_count = n, rd_root = mth H (map (\<lambda>l. merkleLeafHash H (leaf_bytes l)) ls), rd_commitment = c\<rparr>"
    unfolding verifyTreeLeaves_accepts [OF assms] by blast
  have "sortTreeLeaves ls = Inr ls"
    using l tree_root.enc_dec [OF d] by (auto simp: sortTreeLeaves_iff encodeTreeLeaves_eq tree_order root_doc_ok_def)
  from buildTree_eq [OF assms this] tree_root.enc_dec [OF d] l show ?r
    by (elim exE) (intro exI [of _ ls] exI [of _ c], auto simp: build_root_document)
next
  assume ?r
  then obtain ls t c where t: "buildTree H ls = Inr t" "n = length ls" "encodeTreeLeaves (bt_sorted t) = Inr b"
    "buildTreeRootDocument c (int n) (bt_root t) = Inr doc" by blast
  then obtain s where s: "sortTreeLeaves ls = Inr s" by (auto simp: buildTree_def)
  obtain t' where "t = \<lparr>bt_sorted = s, bt_leafHashes = map (\<lambda>l. merkleLeafHash H (leaf_bytes l)) s,
      bt_root = mth H (map (\<lambda>l. merkleLeafHash H (leaf_bytes l)) s), bt_tree = t'\<rparr>"
    using buildTree_eq [OF assms s] t(1) by auto
  with t have e: "encodeTreeLeaves s = Inr b"
    "parseTreeRootDocument doc = Some \<lparr>rd_count = n, rd_root = mth H (map (\<lambda>l. merkleLeafHash H (leaf_bytes l)) s), rd_commitment = c\<rparr>"
    using tree_root.dec_enc by (auto simp: build_root_document)
  have srt: "ls \<noteq> []" "distinct (map tl_artifact ls)" "s = sort_key tl_artifact ls" using s by (auto simp: sortTreeLeaves_iff)
  then have "length s = length ls" by simp
  moreover have "s \<noteq> []" using calculation srt(1) by (metis length_0_conv)
  moreover have "distinct (map tl_artifact s)" using srt(2) unfolding srt(3) by (simp add: distinct_map)
  moreover from this have "sorted_wrt (<) (map tl_artifact s)" unfolding tree_order srt(3) by (simp add: sort_key_id_if_sorted)
  ultimately show ?l using e t(2) unfolding verifyTreeLeaves_accepts [OF assms] by auto
qed

definition demo_tree_leaf :: tree_leaf where
  "demo_tree_leaf = \<lparr>tl_placement = 0, tl_artifact = replicate 32 1, tl_origin = replicate 32 1\<rparr>"

lemma demo_tree_leaf_ok: "leaf_ok demo_tree_leaf" "sortTreeLeaves [demo_tree_leaf] = Inr [demo_tree_leaf]"
  by (simp_all add: leaf_ok_def demo_tree_leaf_def sortTreeLeaves_iff MAX_TREE_LEAVES_def)

theorem verifyTreeLeaves_exact_witness:
  "\<exists>doc b. verifyTreeLeaves demo_hash doc b = Inr (LeavesOk 1)"
proof -
  obtain t where t: "buildTree demo_hash [demo_tree_leaf] = Inr t" "bt_sorted t = [demo_tree_leaf]" "length (bt_root t) = 32"
    using buildTree_eq [OF demo_hash32 demo_tree_leaf_ok(2)] by (auto simp: merkleLeafHash_def demo_hash_def)
  obtain doc where "buildTreeRootDocument (replicate 32 5) (int 1) (bt_root t) = Inr doc"
    using t(3) by (auto simp: buildTreeRootDocument_def MAX_TREE_LEAVES_def)
  moreover obtain b where "encodeTreeLeaves (bt_sorted t) = Inr b" using demo_tree_leaf_ok(1) by (auto simp: t(2) encodeTreeLeaves_eq)
  ultimately have "verifyTreeLeaves demo_hash doc b = Inr (LeavesOk 1)"
    using t(1) by (intro verifyTreeLeaves_exact [OF demo_hash32, THEN conjunct1, THEN iffD2]) force
  then show ?thesis by blast
qed

subsection \<open>The committed bytes of a leaf\<close>

definition committedBytesFor :: "hashfun \<Rightarrow> nat \<Rightarrow> bytes \<Rightarrow> bytes \<Rightarrow> bytes res" where
  "committedBytesFor H code original commitment = (case LEAF_PLACEMENTS code of
     None \<Rightarrow> Inl (TypeError ''unregistered leaf placement code'')
   | Some AsIs \<Rightarrow> Inr original
   | Some (Placed p) \<Rightarrow> placement_build H p (Some original) (Some (H original)) commitment)"

definition leafFor :: "hashfun \<Rightarrow> nat \<Rightarrow> bytes \<Rightarrow> bytes \<Rightarrow> (tree_leaf \<times> bytes) res" where
  "leafFor H code original commitment = rbind (committedBytesFor H code original commitment) (\<lambda>committed.
     Inr (\<lparr>tl_placement = code, tl_artifact = (if code = 0 then H original else H committed), tl_origin = H original\<rparr>, committed))"

lemma committedBytesFor_placed:
  "LEAF_PLACEMENTS code = Some (Placed p) \<Longrightarrow> committedBytesFor H code b c = placement_build H p (Some b) None c"
  by (auto simp: committedBytesFor_def placement_build_def container1_build_def container2_build_def LEAF_PLACEMENTS_def split: if_splits)

lemma leaf_placement_not_produced: "LEAF_PLACEMENTS code = Some (Placed p) \<Longrightarrow> p \<noteq> Produced1"
  by (auto simp: LEAF_PLACEMENTS_def split: if_splits)

lemma leafFor_ok: "hash32 H \<Longrightarrow> leafFor H code b c = Inr (l, f) \<Longrightarrow> leaf_ok l \<and> tl_placement l = code \<and> tl_origin l = H b"
  using registered [of code] by (auto simp: leafFor_def committedBytesFor_def res_simps leaf_ok_def hash32_def)

lemma leafFor_fields:
  "leafFor H code b c = Inr (l, g) \<Longrightarrow> committedBytesFor H code b c = Inr g \<and> tl_placement l = code \<and> tl_origin l = H b
    \<and> tl_artifact l = (if code = 0 then H b else H g)"
  by (auto simp: leafFor_def res_simps)

definition carriesCommitment :: "hashfun \<Rightarrow> (bytes \<Rightarrow> jv option) \<Rightarrow> bytes \<Rightarrow> bytes \<Rightarrow> bool" where
  "carriesCommitment H json bs commitment \<longleftrightarrow> list_ex (\<lambda>p. p \<noteq> Produced1 \<and>
     (case placement_locate H json p bs of Some l \<Rightarrow> lo_commitment l = commitment | None \<Rightarrow> False)) PLACEMENTS"

lemma located_commitment:
  assumes "hash32 H" "reads_payloads json" "p \<noteq> Produced1"
  shows "(\<exists>l. placement_locate H json p f = Some l \<and> lo_commitment l = c) \<longleftrightarrow> (\<exists>b. placement_build H p (Some b) None c = Inr f)"
    (is "?l \<longleftrightarrow> ?r")
proof
  assume ?l
  then show ?r unfolding placement_locate_eq [OF assms] by (auto simp: located_as_def)
next
  assume ?r
  then obtain b where "placement_build H p (Some b) None c = Inr f" by blast
  then have "placement_locate H json p f = Some (located_as H p b c)" unfolding placement_locate_eq [OF assms] by blast
  then show ?l by (simp add: located_as_def)
qed

lemma carries_iff:
  assumes "hash32 H" "reads_payloads json"
  shows "carriesCommitment H json f c \<longleftrightarrow> (\<exists>pl b. pl \<noteq> Produced1 \<and> placement_build H pl (Some b) None c = Inr f)"
proof -
  have r: "(case r of Some l \<Rightarrow> lo_commitment l = c | None \<Rightarrow> False) \<longleftrightarrow> (\<exists>l. r = Some l \<and> lo_commitment l = c)"
    for r :: "located option"
    by (cases r) simp_all
  have u: "set PLACEMENTS = UNIV" by (auto simp: PLACEMENTS_def intro: placement.exhaust)
  show ?thesis
    unfolding carriesCommitment_def list_ex_iff r u using located_commitment [OF assms, of _ f c] by (metis UNIV_I)
qed

end
