(* ===== verification/BG_Set.thy ===== *)
theory BG_Set
  imports BG_Tree
begin

text \<open>
  The sets of \<^verbatim>\<open>packages/verify/src/fuse.ts\<close>: the canonical manifest of set/1, which lists every member, and
  the Merkle tree, root document and member evidence of set/2. The theory shows that one manifest names one set:
  its bytes determine the commitment and the members, whatever order they were given in.
\<close>

subsection \<open>Members\<close>

record set_member =
  sm_artifact :: bytes
  sm_origin :: bytes
  sm_placement :: jsstr

definition SET_PLACEMENT_ID :: jsstr where "SET_PLACEMENT_ID = u16 ''set/1''"

definition SET2_PLACEMENT_ID :: jsstr where "SET2_PLACEMENT_ID = u16 ''set/2''"

definition MAX_SET2_MEMBERS :: nat where "MAX_SET2_MEMBERS = 1000000"

definition name_unit :: "16 word \<Rightarrow> bool" where
  "name_unit c \<longleftrightarrow> (97 \<le> c \<and> c \<le> 122) \<or> digit_unit c"

text \<open>A lowercase name, a slash and a positive version.\<close>

definition PLACEMENT_ID_PATTERN :: "jsstr \<Rightarrow> bool" where
  "PLACEMENT_ID_PATTERN s \<longleftrightarrow> (let name = takeWhile (\<lambda>c. c \<noteq> 47) s; version = tl (dropWhile (\<lambda>c. c \<noteq> 47) s) in
     name \<noteq> [] \<and> name_unit (hd name) \<and> list_all (\<lambda>c. name_unit c \<or> c = 45) (tl name)
     \<and> version \<noteq> [] \<and> digit_unit (hd version) \<and> hd version \<noteq> 48 \<and> list_all digit_unit (tl version))"

text \<open>The canonical row, as a set/1 manifest lists it and a set/2 tree hashes it. Messages of errors leave out the
  placement id the code quotes in them.\<close>

definition set_row :: "set_member \<Rightarrow> jv" where
  "set_row m = JObj [kv ''artifact'' (digest_obj (sm_artifact m)), kv ''origin'' (digest_obj (sm_origin m)),
     kv ''placement'' (JStr (sm_placement m))]"

subsection \<open>The manifest of set/1\<close>

fun set_rows :: "jsstr list \<Rightarrow> set_member list \<Rightarrow> jv list res" where
  "set_rows seen [] = Inr []"
| "set_rows seen (m # ms) =
     (if length (sm_artifact m) \<noteq> 32 then Inl (TypeError ''member artifact digest must be 32 bytes'')
      else if length (sm_origin m) \<noteq> 32 then Inl (TypeError ''member origin digest must be 32 bytes'')
      else if \<not> PLACEMENT_ID_PATTERN (sm_placement m) then Inl (TypeError ''member placement is not a placement id'')
      else if sm_placement m = SET_PLACEMENT_ID \<or> sm_placement m = SET2_PLACEMENT_ID
      then Inl (TypeError ''a set cannot list a set as a member'')
      else let artifact = hex_text (sm_artifact m) in
        if artifact \<in> set seen then Inl (TypeError (''duplicate member artifact digest '' @ concat (map hex_byte (sm_artifact m))))
        else rbind (set_rows (seen @ [artifact]) ms) (\<lambda>rows. Inr (set_row m # rows)))"

definition row_digest :: "jv \<Rightarrow> jsstr" where
  "row_digest row = str_of (fld (fld row ''artifact'') ''digest'')"

definition set_manifest :: "bytes \<Rightarrow> jv list \<Rightarrow> jv" where
  "set_manifest commitment rows = JObj [kv ''members'' (JArr rows), kv ''placement'' (JStr SET_PLACEMENT_ID),
     kv ''slotCommitment'' (digest_obj commitment), kv ''type'' (JStr (u16 ''bitgraph-fuse/1''))]"

definition sort_rows :: "jv list \<Rightarrow> jv list" where
  "sort_rows rows = js_sort (\<lambda>a b. if row_digest a < row_digest b then - 1 else 1) rows"

definition buildSetManifest :: "bytes \<Rightarrow> set_member list \<Rightarrow> bytes res" where
  "buildSetManifest commitment members =
     (if length commitment \<noteq> 32 then Inl (TypeError ''commitment must be 32 bytes'')
      else if members = [] then Inl (TypeError ''a set lists at least one member'')
      else rbind (set_rows [] members) (\<lambda>rows. canonicalize (set_manifest commitment (sort_rows rows))))"

definition read_row :: "jv \<Rightarrow> set_member option" where
  "read_row row = (case row of
     JObj ps \<Rightarrow>
       if join_units (sort (map fst ps)) \<noteq> u16 ''artifact,origin,placement'' then None
       else (case (readDigestField (fld row ''artifact''), readDigestField (fld row ''origin''), fld row ''placement'') of
         (Some artifact, Some origin, JStr placement) \<Rightarrow>
           if \<not> PLACEMENT_ID_PATTERN placement \<or> placement = SET_PLACEMENT_ID \<or> placement = SET2_PLACEMENT_ID then None
           else Some \<lparr>sm_artifact = artifact, sm_origin = origin, sm_placement = placement\<rparr>
       | _ \<Rightarrow> None)
   | _ \<Rightarrow> None)"

fun read_rows :: "jv list \<Rightarrow> set_member list option" where
  "read_rows [] = Some []"
| "read_rows (row # rows) = (case read_row row of None \<Rightarrow> None | Some m \<Rightarrow> map_option (Cons m) (read_rows rows))"

text \<open>\<open>json\<close> is \<^verbatim>\<open>JSON.parse\<close> of the fatal UTF-8 decoding that keeps a byte order mark.\<close>

definition parseSetManifest :: "(bytes \<Rightarrow> jv option) \<Rightarrow> bytes \<Rightarrow> (bytes \<times> set_member list) option" where
  "parseSetManifest json bs = (case json bs of
     Some (JObj ps) \<Rightarrow>
       (let parsed = JObj ps in
        if join_units (sort (map fst ps)) \<noteq> u16 ''members,placement,slotCommitment,type'' then None
        else if fld parsed ''type'' \<noteq> JStr (u16 ''bitgraph-fuse/1'') \<or> fld parsed ''placement'' \<noteq> JStr SET_PLACEMENT_ID then None
        else (case (readDigestField (fld parsed ''slotCommitment''), fld parsed ''members'') of
          (Some commitment, JArr rows) \<Rightarrow>
            if rows = [] then None
            else (case read_rows rows of None \<Rightarrow> None
              | Some members \<Rightarrow> if buildSetManifest commitment members \<noteq> Inr bs then None else Some (commitment, members))
        | _ \<Rightarrow> None))
   | _ \<Rightarrow> None)"

definition readSetMetadata :: "jv \<Rightarrow> bytes option" where
  "readSetMetadata proof = (case fld (fld proof ''metadata'') ''bitgraph-fuse/1'' of
     JObj ps \<Rightarrow> to_option (canonicalize (JObj ps)) | _ \<Rightarrow> None)"

subsection \<open>The tree of set/2\<close>

definition canonicalSetRow :: "set_member \<Rightarrow> bytes res" where
  "canonicalSetRow m =
     (if length (sm_artifact m) \<noteq> 32 then Inl (TypeError ''member artifact digest must be 32 bytes'')
      else if length (sm_origin m) \<noteq> 32 then Inl (TypeError ''member origin digest must be 32 bytes'')
      else if \<not> PLACEMENT_ID_PATTERN (sm_placement m) \<or> sm_placement m = SET_PLACEMENT_ID \<or> sm_placement m = SET2_PLACEMENT_ID
      then Inl (TypeError ''member placement is not a member placement id'')
      else canonicalize (set_row m))"

definition setLeaf :: "hashfun \<Rightarrow> set_member \<Rightarrow> bytes res" where
  "setLeaf H m = rbind (canonicalSetRow m) (\<lambda>b. Inr (merkleLeafHash H b))"

fun check_set_rows :: "bytes option \<Rightarrow> set_member list \<Rightarrow> unit res" where
  "check_set_rows before [] = Inr ()"
| "check_set_rows before (m # ms) = rbind (canonicalSetRow m) (\<lambda>_.
     if before = Some (sm_artifact m)
     then Inl (TypeError (''duplicate member artifact digest '' @ concat (map hex_byte (sm_artifact m))))
     else check_set_rows (Some (sm_artifact m)) ms)"

definition sortSetMembers :: "set_member list \<Rightarrow> set_member list res" where
  "sortSetMembers members =
     (if members = [] then Inl (TypeError ''a set lists at least one member'')
      else let sorted = js_sort (\<lambda>a b. compare_str (hex_text (sm_artifact a)) (hex_text (sm_artifact b))) members in
        rbind (check_set_rows None sorted) (\<lambda>_. Inr sorted))"

record set_tree =
  st_sorted :: "set_member list"
  st_leaves :: "bytes list"
  st_root :: bytes
  st_tree :: merkle_tree

definition buildSetTree :: "hashfun \<Rightarrow> set_member list \<Rightarrow> set_tree res" where
  "buildSetTree H members = rbind (sortSetMembers members) (\<lambda>sorted. rbind (rmap (setLeaf H) sorted) (\<lambda>leaves.
     rbind (new_MerkleTree H leaves []) (\<lambda>tree.
       Inr \<lparr>st_sorted = sorted, st_leaves = leaves, st_root = mt_root tree, st_tree = tree\<rparr>)))"

definition setMemberPath :: "hashfun \<Rightarrow> merkle_tree \<Rightarrow> int \<Rightarrow> (bytes list \<times> merkle_tree) res" where
  "setMemberPath H tree index = tree_path H tree index"

subsection \<open>The root document of set/2\<close>

definition set_root_doc :: "bytes \<Rightarrow> int \<Rightarrow> bytes \<Rightarrow> jv" where
  "set_root_doc commitment n root = JObj [kv ''count'' (JNum n), kv ''placement'' (JStr SET2_PLACEMENT_ID),
     kv ''root'' (digest_obj root), kv ''slotCommitment'' (digest_obj commitment), kv ''type'' (JStr (u16 ''bitgraph-fuse/1''))]"

definition buildSetRoot :: "bytes \<Rightarrow> int \<Rightarrow> bytes \<Rightarrow> bytes res" where
  "buildSetRoot commitment n root =
     (if length commitment \<noteq> 32 then Inl (TypeError ''commitment must be 32 bytes'')
      else if length root \<noteq> 32 then Inl (TypeError ''root must be 32 bytes'')
      else if n < 1 \<or> int MAX_SET2_MEMBERS < n then Inl (TypeError ''count must be an integer from 1 to 1000000'')
      else canonicalize (set_root_doc commitment n root))"

record set_root =
  sd_commitment :: bytes
  sd_count :: nat
  sd_root :: bytes

definition parseSetRoot :: "(bytes \<Rightarrow> jv option) \<Rightarrow> bytes \<Rightarrow> set_root option" where
  "parseSetRoot json bs = (case json bs of
     Some (JObj ps) \<Rightarrow>
       (let parsed = JObj ps in
        if join_units (sort (map fst ps)) \<noteq> u16 ''count,placement,root,slotCommitment,type'' then None
        else if fld parsed ''type'' \<noteq> JStr (u16 ''bitgraph-fuse/1'') \<or> fld parsed ''placement'' \<noteq> JStr SET2_PLACEMENT_ID then None
        else (case fld parsed ''count'' of
          JNum n \<Rightarrow>
            if n < 1 \<or> int MAX_SET2_MEMBERS < n then None
            else (case (readDigestField (fld parsed ''slotCommitment''), readDigestField (fld parsed ''root'')) of
              (Some commitment, Some root) \<Rightarrow>
                if buildSetRoot commitment n root \<noteq> Inr bs then None
                else Some \<lparr>sd_commitment = commitment, sd_count = nat n, sd_root = root\<rparr>
            | _ \<Rightarrow> None)
        | _ \<Rightarrow> None))
   | _ \<Rightarrow> None)"

subsection \<open>A member's evidence\<close>

definition buildSetMemberProof :: "set_member \<Rightarrow> int \<Rightarrow> int \<Rightarrow> bytes list \<Rightarrow> jv res" where
  "buildSetMemberProof m index n path =
     (if n < 1 \<or> index < 0 \<or> n \<le> index then Inl (RangeError ''member index out of range'')
      else rbind (canonicalSetRow m) (\<lambda>_. rbind (rmap path_node path) (\<lambda>nodes.
        Inr (JObj [kv ''count'' (JNum n), kv ''index'' (JNum index), kv ''member'' (set_row m), kv ''path'' (JArr nodes),
          kv ''placement'' (JStr SET2_PLACEMENT_ID), kv ''type'' (JStr (u16 ''bitgraph-fuse/1''))]))))"

record set_evidence =
  se_member :: set_member
  se_index :: nat
  se_count :: nat
  se_path :: "bytes list"

text \<open>The pattern of a path node allows exactly the texts \<open>read_path\<close> accepts: 64 lowercase hexadecimal digits.\<close>

definition parseSetMemberProof :: "jv \<Rightarrow> set_evidence option" where
  "parseSetMemberProof v = (case v of
     JObj ps \<Rightarrow>
       if join_units (sort (map fst ps)) \<noteq> u16 ''count,index,member,path,placement,type'' then None
       else if fld v ''type'' \<noteq> JStr (u16 ''bitgraph-fuse/1'') \<or> fld v ''placement'' \<noteq> JStr SET2_PLACEMENT_ID then None
       else (case (fld v ''count'', fld v ''index'') of
         (JNum n, JNum i) \<Rightarrow>
           if n < 1 \<or> int MAX_SET2_MEMBERS < n then None
           else if i < 0 \<or> n \<le> i then None
           else (case (read_row (fld v ''member''), fld v ''path'') of
             (Some m, JArr nodes) \<Rightarrow>
               map_option (\<lambda>path. \<lparr>se_member = m, se_index = nat i, se_count = nat n, se_path = path\<rparr>) (read_path nodes)
           | _ \<Rightarrow> None)
       | _ \<Rightarrow> None)
   | _ \<Rightarrow> None)"

definition setRootFromMember :: "hashfun \<Rightarrow> set_member \<Rightarrow> nat \<Rightarrow> nat \<Rightarrow> bytes list \<Rightarrow> bytes option res" where
  "setRootFromMember H m index n path =
     rbind (setLeaf H m) (\<lambda>h. Inr (merkleRootFromPath H h (int index) (int n) path))"

subsection \<open>Every placement by its id\<close>

text \<open>set/1 and set/2 resolve by id but are not in the scan of undeclared placements.\<close>

datatype any_placement = Registered placement | Set1 | Set2

definition all_placements :: "any_placement list" where
  "all_placements = map Registered PLACEMENTS @ [Set1, Set2]"

definition placement_id :: "any_placement \<Rightarrow> jsstr" where
  "placement_id p = (case p of
     Registered Trailer1 \<Rightarrow> u16 ''trailer/1'' | Registered Container1 \<Rightarrow> u16 ''container/1''
   | Registered Container2 \<Rightarrow> u16 ''container/2'' | Registered Produced1 \<Rightarrow> u16 ''produced/1''
   | Set1 \<Rightarrow> SET_PLACEMENT_ID | Set2 \<Rightarrow> SET2_PLACEMENT_ID)"

definition byteExact :: "any_placement \<Rightarrow> bool" where
  "byteExact p \<longleftrightarrow> (case p of Registered Produced1 \<Rightarrow> False | Registered _ \<Rightarrow> True | _ \<Rightarrow> False)"

definition getPlacement :: "jsstr \<Rightarrow> any_placement option" where
  "getPlacement pid = List.find (\<lambda>p. placement_id p = pid) all_placements"

definition any_build :: "hashfun \<Rightarrow> any_placement \<Rightarrow> bytes option \<Rightarrow> bytes option \<Rightarrow> bytes \<Rightarrow> bytes res" where
  "any_build H p original originDigest commitment = (case p of
     Registered pl \<Rightarrow> placement_build H pl original originDigest commitment
   | Set1 \<Rightarrow> Inl (TypeError ''set/1 is built with buildSetManifest(commitment, members)'')
   | Set2 \<Rightarrow> Inl (TypeError ''set/2 is built with buildSetRoot(commitment, count, root)''))"

text \<open>\<open>json\<close> reads a payload, \<open>setJson\<close> a set document: the two decoders differ on a byte order mark.\<close>

definition any_locate :: "hashfun \<Rightarrow> (bytes \<Rightarrow> jv option) \<Rightarrow> (bytes \<Rightarrow> jv option) \<Rightarrow> any_placement \<Rightarrow> bytes \<Rightarrow> located option" where
  "any_locate H json setJson p fused = (case p of
     Registered pl \<Rightarrow> placement_locate H json pl fused
   | Set1 \<Rightarrow> map_option (\<lambda>m. \<lparr>lo_commitment = fst m, lo_originDigest = None, lo_originalBytes = None\<rparr>) (parseSetManifest setJson fused)
   | Set2 \<Rightarrow> map_option (\<lambda>d. \<lparr>lo_commitment = sd_commitment d, lo_originDigest = None, lo_originalBytes = None\<rparr>) (parseSetRoot setJson fused))"


subsection \<open>Rows in order\<close>

text \<open>The order of digests is the order of their lowercase hexadecimal texts.\<close>

lemma hex_unit_less: "m < 16 \<Longrightarrow> n < 16 \<Longrightarrow> hex_unit m < hex_unit n \<longleftrightarrow> m < n"
  by (auto simp: hex_unit_def word_less_nat_alt unat_of_nat take_bit_eq_mod)

lemma hex_unit_eq: "m < 16 \<Longrightarrow> n < 16 \<Longrightarrow> hex_unit m = hex_unit n \<longleftrightarrow> m = n"
  using hex_unit_less [of m n] hex_unit_less [of n m] by (metis less_irrefl linorder_less_linear)

lemma nibble_order:
  "(x :: nat) < y \<longleftrightarrow> x div 16 < y div 16 \<or> x div 16 = y div 16 \<and> x mod 16 < y mod 16" (is ?order)
  "x = y \<longleftrightarrow> x div 16 = y div 16 \<and> x mod 16 = y mod 16" (is ?same)
proof -
  have e: "x = 16 * (x div 16) + x mod 16" "y = 16 * (y div 16) + y mod 16" "x mod 16 < 16" "y mod 16 < 16" by simp_all
  show ?order
  proof (cases "x div 16" "y div 16" rule: linorder_cases)
    case less
    then have "x < y" using e by linarith
    with less show ?thesis by simp
  next
    case equal
    then have "x < y \<longleftrightarrow> x mod 16 < y mod 16" using e by linarith
    with equal show ?thesis by simp
  next
    case greater
    then have "y < x" using e by linarith
    with greater show ?thesis by simp
  qed
  show ?same using e by metis
qed

lemma hex_less: "hex_text a < hex_text b \<longleftrightarrow> a < b"
proof (induction a arbitrary: b)
  case (Cons x a)
  show ?case
  proof (cases b)
    case b: (Cons y b')
    have d: "unat x div 16 < 16" "unat y div 16 < 16" using unat_byte_less [of x] unat_byte_less [of y] by linarith+
    have "x < y \<longleftrightarrow> unat x div 16 < unat y div 16 \<or> unat x div 16 = unat y div 16 \<and> unat x mod 16 < unat y mod 16"
      unfolding word_less_nat_alt by (rule nibble_order)
    moreover have "x = y \<longleftrightarrow> unat x div 16 = unat y div 16 \<and> unat x mod 16 = unat y mod 16"
      unfolding word_unat_eq_iff by (rule nibble_order)
    ultimately show ?thesis
      unfolding b hex_text_simps using Cons.IH [of b'] d by (auto simp: hex_unit_less hex_unit_eq)
  qed simp
next
  case Nil
  show ?case by (cases b) simp_all
qed

definition row_ok :: "set_member \<Rightarrow> bool" where
  "row_ok m \<longleftrightarrow> length (sm_artifact m) = 32 \<and> length (sm_origin m) = 32 \<and> PLACEMENT_ID_PATTERN (sm_placement m)
     \<and> sm_placement m \<noteq> SET_PLACEMENT_ID \<and> sm_placement m \<noteq> SET2_PLACEMENT_ID"

lemma set_rows_iff: "set_rows seen ms = Inr rows \<longleftrightarrow> list_all row_ok ms \<and> distinct (map sm_artifact ms)
    \<and> set seen \<inter> (hex_text \<circ> sm_artifact) ` set ms = {} \<and> rows = map set_row ms"
  by (induction seen ms arbitrary: rows rule: set_rows.induct) (auto simp: row_ok_def res_simps Let_def)

lemma row_digest_row [simp]: "row_digest (set_row m) = hex_text (sm_artifact m)"
  by (simp add: row_digest_def set_row_def fld_def digest_obj_def str_of_def)

text \<open>A comparison that never answers 0 sorts distinct keys all the same.\<close>

lemma js_insert_distinct:
  assumes "key x \<notin> key ` set xs" and "\<And>y. y \<in> set xs \<Longrightarrow> cmp (f x) (f y) \<le> 0 \<longleftrightarrow> key x < key y"
  shows "js_insert cmp (f x) (map f xs) = map f (insort_key key x xs)"
  using assms by (induction xs) auto

lemma js_sort_distinct:
  assumes "distinct (map key xs)" and "\<And>x y. x \<in> set xs \<Longrightarrow> y \<in> set xs \<Longrightarrow> cmp (f x) (f y) \<le> 0 \<longleftrightarrow> key x < key y"
  shows "js_sort cmp (map f xs) = map f (sort_key key xs)"
  using assms
proof (induction xs)
  case (Cons x xs)
  have "js_sort cmp (map f xs) = map f (sort_key key xs)" using Cons by auto
  then have "js_sort cmp (map f (x # xs)) = js_insert cmp (f x) (map f (sort_key key xs))" by (simp add: js_sort_def)
  also have "\<dots> = map f (insort_key key x (sort_key key xs))" using Cons.prems by (intro js_insert_distinct) auto
  finally show ?case by simp
qed simp

lemma sort_rows_eq: "distinct (map sm_artifact ms) \<Longrightarrow> sort_rows (map set_row ms) = map set_row (sort_key sm_artifact ms)"
  unfolding sort_rows_def by (rule js_sort_distinct) (auto simp: hex_less)

subsection \<open>The canonical bytes\<close>

lemma set_keys:
  "\<not> array_index (u16 ''artifact'')" "\<not> array_index (u16 ''placement'')" "\<not> array_index (u16 ''members'')"
  "\<not> array_index (u16 ''count'')" "\<not> array_index (u16 ''root'')"
  "u16 ''artifact'' < u16 ''origin''" "u16 ''origin'' < u16 ''placement''" "u16 ''members'' < u16 ''placement''"
  "u16 ''placement'' < u16 ''slotCommitment''" "u16 ''count'' < u16 ''placement''" "u16 ''placement'' < u16 ''root''"
  "u16 ''root'' < u16 ''slotCommitment''"
  by (simp_all add: u16_def array_index_def digit_unit_def word_le_nat_alt)

lemma put_last: "k \<noteq> u16 ''__proto__'' \<Longrightarrow> \<not> array_index k \<Longrightarrow> k \<notin> fst ` set obj \<Longrightarrow> js_put obj k v = obj @ [(k, v)]"
proof -
  have "put_name k v obj = obj @ [(k, v)]" if "k \<notin> fst ` set obj"
    using that by (induction obj) auto
  then show "k \<noteq> u16 ''__proto__'' \<Longrightarrow> \<not> array_index k \<Longrightarrow> k \<notin> fst ` set obj \<Longrightarrow> ?thesis" by (simp add: js_put_def)
qed

text \<open>An object whose keys are in order and whose values are in canonical form is in canonical form.\<close>

definition canonical_form :: "jv \<Rightarrow> bool" where
  "canonical_form v \<longleftrightarrow> sortedReplacer v = Inr v \<and> v \<noteq> JUndefined"

lemma foldl_put_new:
  "distinct (map fst (obj @ ps)) \<Longrightarrow> list_all (\<lambda>p. fst p \<noteq> u16 ''__proto__'' \<and> \<not> array_index (fst p)) ps
    \<Longrightarrow> foldl put_opt obj (map (\<lambda>p. (fst p, Some (snd p))) ps) = obj @ ps"
proof (induction ps arbitrary: obj)
  case (Cons p ps)
  then have "put_opt obj (fst p, Some (snd p)) = obj @ [p]" by (simp add: put_last)
  with Cons.IH [of "obj @ [p]"] Cons.prems show ?case by simp
qed simp

lemma canonical_obj:
  assumes "sorted_wrt (<) (map fst ps)" "list_all (\<lambda>p. fst p \<noteq> u16 ''__proto__'' \<and> \<not> array_index (fst p)) ps"
    and "list_all (\<lambda>p. canonical_form (snd p)) ps"
  shows "canonical_form (JObj ps)"
proof -
  have s: "sort_key fst ps = ps" using strict_sorted_imp_sorted [OF assms(1)] by (simp add: sort_key_id_if_sorted)
  have "rmap replace_prop ps = Inr (map (\<lambda>p. (fst p, Some (snd p))) ps)"
    using assms(3) by (induction ps) (auto simp: replace_prop_def canonical_form_def)
  moreover have "foldl put_opt [] (map (\<lambda>p. (fst p, Some (snd p))) ps) = ps"
    using foldl_put_new [of "[]" ps] assms(1,2) by (simp add: strict_sorted_iff)
  ultimately show ?thesis by (simp add: canonical_form_def sortedReplacer_obj s del: sortedReplacer.simps(6))
qed

lemma canonical_atoms [simp]: "canonical_form (JStr s)" "canonical_form (JNum n)" "canonical_form (digest_obj d)"
  using sortedReplacer_digest [of d] by (simp_all add: canonical_form_def del: sortedReplacer.simps(6)) (simp add: digest_obj_def)


lemma set_texts [simp]: "SET_PLACEMENT_ID \<noteq> SET2_PLACEMENT_ID"
  by (simp add: SET_PLACEMENT_ID_def SET2_PLACEMENT_ID_def u16_def)

lemma proto_key: "u16 ''artifact'' \<noteq> u16 ''__proto__''" "u16 ''origin'' \<noteq> u16 ''__proto__''" "u16 ''placement'' \<noteq> u16 ''__proto__''"
  "u16 ''members'' \<noteq> u16 ''__proto__''" "u16 ''slotCommitment'' \<noteq> u16 ''__proto__''" "u16 ''type'' \<noteq> u16 ''__proto__''"
  "u16 ''count'' \<noteq> u16 ''__proto__''" "u16 ''root'' \<noteq> u16 ''__proto__''"
  by simp_all

lemmas set_key_facts = set_keys payload_keys proto_key

lemma canonical_arr: "list_all canonical_form xs \<Longrightarrow> canonical_form (JArr xs)"
proof -
  assume "list_all canonical_form xs"
  then have "rmap sortedReplacer xs = Inr xs" by (induction xs) (auto simp: canonical_form_def)
  then show ?thesis by (simp add: canonical_form_def)
qed

lemma canonical_row [simp]: "canonical_form (set_row m)"
  unfolding set_row_def by (rule canonical_obj) (simp_all add: set_key_facts order.strict_trans [OF set_keys(6,7)] del: u16_eq)

lemma canonical_manifest: "canonical_form (set_manifest c (map set_row ms))"
proof -
  have "canonical_form (JArr (map set_row ms))" by (rule canonical_arr) (simp add: list_all_iff)
  moreover have "u16 ''members'' < u16 ''slotCommitment''" "u16 ''members'' < u16 ''type''" "u16 ''placement'' < u16 ''type''"
    using set_key_facts less_trans by blast+
  ultimately show ?thesis unfolding set_manifest_def by (intro canonical_obj) (simp_all add: set_key_facts del: u16_eq)
qed

lemma canonical_root: "canonical_form (set_root_doc c n r)"
proof -
  have "sorted_wrt (<) (map u16 [''count'', ''placement'', ''root'', ''slotCommitment'', ''type''])" by code_simp
  then show ?thesis unfolding set_root_doc_def by (intro canonical_obj) (simp_all add: set_key_facts del: u16_eq)
qed

lemma canonical_bytes: "canonical_form v \<Longrightarrow> canonicalize v = Inr b \<longleftrightarrow> b = utf8 (js_stringify v)"
  by (auto simp: canonicalize_eq_Inr canonical_form_def)

lemma faithful_set [simp]: "faithful (set_row m)" "faithful (digest_obj d)" "faithful (set_root_doc c n r)"
  "faithful (set_manifest c (map set_row ms))"
  by (simp_all add: set_row_def digest_obj_def set_root_doc_def set_manifest_def list_all_iff)

lemma digest_obj_eq [simp]: "digest_obj a = digest_obj b \<longleftrightarrow> a = b"
  by (simp add: digest_obj_def)

lemma set_row_eq: "set_row m = set_row m' \<longleftrightarrow> m = m'"
  by (cases m; cases m') (simp add: set_row_def)

lemma set_rows_eq: "map set_row ms = map set_row ms' \<longleftrightarrow> ms = ms'"
  by (rule inj_map_eq_map) (simp add: inj_on_def set_row_eq)

subsection \<open>One manifest, one set\<close>

definition manifest_of :: "bytes \<Rightarrow> set_member list \<Rightarrow> jv" where
  "manifest_of c ms = set_manifest c (map set_row (sort_key sm_artifact ms))"

definition set_ok :: "set_member list \<Rightarrow> bool" where
  "set_ok ms \<longleftrightarrow> ms \<noteq> [] \<and> list_all row_ok ms \<and> distinct (map sm_artifact ms)"

lemma buildSetManifest_eq: "buildSetManifest c ms = Inr b \<longleftrightarrow> length c = 32 \<and> set_ok ms \<and> b = utf8 (js_stringify (manifest_of c ms))"
proof -
  have "canonicalize (set_manifest c (sort_rows (map set_row ms))) = Inr b \<longleftrightarrow> b = utf8 (js_stringify (manifest_of c ms))"
    if "distinct (map sm_artifact ms)"
    unfolding sort_rows_eq [OF that] manifest_of_def by (rule canonical_bytes [OF canonical_manifest])
  then show ?thesis by (auto simp: buildSetManifest_def set_ok_def res_simps set_rows_iff)
qed

lemma sorted_members: "distinct (map sm_artifact ms) \<Longrightarrow> sort_key sm_artifact ms = sort_key sm_artifact ms' \<longleftrightarrow> mset ms = mset ms'"
proof
  assume "sort_key sm_artifact ms = sort_key sm_artifact ms'"
  then show "mset ms = mset ms'" by (metis mset_sort)
next
  assume d: "distinct (map sm_artifact ms)" and m: "mset ms = mset ms'"
  then show "sort_key sm_artifact ms = sort_key sm_artifact ms'" by (intro sort_key_inj_key_eq) (simp_all add: distinct_map)
qed

lemma manifest_of_eq: "set_ok ms \<Longrightarrow> manifest_of c ms = manifest_of c' ms' \<longleftrightarrow> c = c' \<and> mset ms = mset ms'"
  by (auto simp: manifest_of_def set_manifest_def set_rows_eq set_ok_def sorted_members)

lemma set_ok_perm: "mset ms = mset ms' \<Longrightarrow> set_ok ms \<longleftrightarrow> set_ok ms'"
proof -
  assume m: "mset ms = mset ms'"
  then have "distinct (map sm_artifact ms) \<longleftrightarrow> distinct (map sm_artifact ms')" by (intro mset_eq_imp_distinct_iff) simp
  with m show ?thesis by (auto simp: set_ok_def list_all_iff dest: mset_eq_setD)
qed

lemma same_manifest:
  assumes "buildSetManifest c ms = Inr b"
  shows "buildSetManifest c' ms' = Inr b \<longleftrightarrow> c' = c \<and> mset ms' = mset ms"
proof
  assume "buildSetManifest c' ms' = Inr b"
  then have "utf8 (js_stringify (manifest_of c' ms')) = utf8 (js_stringify (manifest_of c ms))" "set_ok ms'"
    using assms by (simp_all add: buildSetManifest_eq)
  then show "c' = c \<and> mset ms' = mset ms"
    using canonical_bytes_inj [of "manifest_of c' ms'" "manifest_of c ms"] manifest_of_eq [of ms' c' c ms] by (simp add: manifest_of_def)
next
  assume "c' = c \<and> mset ms' = mset ms"
  then show "buildSetManifest c' ms' = Inr b"
    using assms set_ok_perm [of ms' ms] manifest_of_eq [of ms c c' ms'] by (auto simp: buildSetManifest_eq)
qed


subsection \<open>Reading documents back\<close>

text \<open>\<^verbatim>\<open>JSON.parse\<close> reads back the text \<^verbatim>\<open>JSON.stringify\<close> printed.\<close>

definition reads_back :: "(bytes \<Rightarrow> jv option) \<Rightarrow> jv \<Rightarrow> bool" where
  "reads_back json v \<longleftrightarrow> json (utf8 (js_stringify v)) = Some v"

lemma row_keys: "join_units (sort (map fst [kv ''artifact'' a, kv ''origin'' b, kv ''placement'' c])) = u16 ''artifact,origin,placement''"
  "join_units (sort (map fst [kv ''members'' a, kv ''placement'' b, kv ''slotCommitment'' c, kv ''type'' d]))
    = u16 ''members,placement,slotCommitment,type''"
  "join_units (sort (map fst [kv ''count'' a, kv ''placement'' b, kv ''root'' c, kv ''slotCommitment'' d, kv ''type'' e]))
    = u16 ''count,placement,root,slotCommitment,type''"
  "join_units (sort (map fst [kv ''count'' a, kv ''index'' b, kv ''member'' c, kv ''path'' d, kv ''placement'' e, kv ''type'' f]))
    = u16 ''count,index,member,path,placement,type''"
  by (simp_all add: u16_def word_le_nat_alt)

lemma read_row_row: "row_ok m \<Longrightarrow> read_row (set_row m) = Some m"
  using row_keys(1) unfolding read_row_def set_row_def
  by (cases m) (simp add: row_ok_def readDigestField_obj fld_def del: sort_key_simps)

lemma read_rows_rows: "list_all row_ok ms \<Longrightarrow> read_rows (map set_row ms) = Some ms"
  by (induction ms) (simp_all add: read_row_row)

lemma read_row_ok: "read_row v = Some m \<Longrightarrow> row_ok m"
  by (auto simp: read_row_def row_ok_def readDigestField_def split: jv.splits option.splits if_splits)

lemma parse_manifest_sound: "parseSetManifest json b = Some (c, ms) \<Longrightarrow> buildSetManifest c ms = Inr b"
  by (auto simp: parseSetManifest_def Let_def split: option.splits jv.splits if_splits)

lemma parse_manifest:
  assumes "buildSetManifest c ms = Inr b" "reads_back json (manifest_of c ms)"
  shows "parseSetManifest json b = Some (c, sort_key sm_artifact ms)"
proof -
  have b: "length c = 32" "set_ok ms" "json b = Some (manifest_of c ms)"
    using assms by (auto simp: buildSetManifest_eq reads_back_def)
  have r: "buildSetManifest c (sort_key sm_artifact ms) = Inr b" using same_manifest [OF assms(1)] by simp
  have n: "sort_key sm_artifact ms \<noteq> []" "list_all row_ok (sort_key sm_artifact ms)"
    using b(2) by (simp_all add: set_ok_def list_all_iff flip: length_greater_0_conv)
  show ?thesis
    using b n r row_keys(2) read_rows_rows [OF n(2)]
    by (simp add: parseSetManifest_def manifest_of_def set_manifest_def readDigestField_obj fld_def Let_def del: sort_key_simps)
qed

lemma buildSetRoot_eq: "buildSetRoot c n r = Inr b \<longleftrightarrow> length c = 32 \<and> length r = 32 \<and> 1 \<le> n \<and> n \<le> int MAX_SET2_MEMBERS
    \<and> b = utf8 (js_stringify (set_root_doc c n r))"
  by (auto simp: buildSetRoot_def canonical_bytes [OF canonical_root])

lemma same_root_doc: "buildSetRoot c n r = Inr b \<Longrightarrow> buildSetRoot c' n' r' = Inr b \<Longrightarrow> c = c' \<and> n = n' \<and> r = r'"
  using canonical_bytes_inj [of "set_root_doc c n r" "set_root_doc c' n' r'"]
  by (simp add: buildSetRoot_eq) (simp add: set_root_doc_def)

lemma parse_root_sound: "parseSetRoot json b = Some d \<Longrightarrow> buildSetRoot (sd_commitment d) (int (sd_count d)) (sd_root d) = Inr b"
  by (auto simp: parseSetRoot_def Let_def split: option.splits jv.splits if_splits)

lemma parse_root:
  assumes "buildSetRoot c (int n) r = Inr b" "reads_back json (set_root_doc c (int n) r)"
  shows "parseSetRoot json b = Some \<lparr>sd_commitment = c, sd_count = n, sd_root = r\<rparr>"
proof -
  have b: "length c = 32" "length r = 32" "1 \<le> n" "n \<le> MAX_SET2_MEMBERS" "json b = Some (set_root_doc c (int n) r)"
    using assms by (auto simp: buildSetRoot_eq reads_back_def)
  then show ?thesis
    using assms(1) row_keys(3)
    by (simp add: parseSetRoot_def set_root_doc_def readDigestField_obj fld_def Let_def del: sort_key_simps)
qed

text \<open>C15: One manifest names one set. The bytes of a set/1 manifest determine the commitment and the members as a
  collection: the same members in any order give the same bytes, and any other list or commitment gives other bytes. It
  can be built exactly for a 32-byte commitment and a non-empty list of well-formed rows with different artifact
  digests. The strict reader accepts nothing else, and gives the members in ascending order of their digests when
  \<^verbatim>\<open>JSON.parse\<close> reads the manifest back.\<close>

theorem set_manifest_names_one_set:
  "((\<exists>b. buildSetManifest c ms = Inr b) \<longleftrightarrow> length c = 32 \<and> ms \<noteq> [] \<and> list_all row_ok ms \<and> distinct (map sm_artifact ms))
    \<and> (buildSetManifest c ms = Inr b \<longrightarrow> (buildSetManifest c' ms' = Inr b \<longleftrightarrow> c' = c \<and> mset ms' = mset ms))
    \<and> (parseSetManifest json b = Some (c, ms) \<longrightarrow> buildSetManifest c ms = Inr b)
    \<and> (buildSetManifest c ms = Inr b \<and> reads_back json (manifest_of c ms) \<longrightarrow>
        parseSetManifest json b = Some (c, sort_key sm_artifact ms))"
  using same_manifest [of c ms b c' ms'] parse_manifest_sound parse_manifest [of c ms b json]
  by (simp add: buildSetManifest_eq set_ok_def)

definition demo_members :: "set_member list" where
  "demo_members = [\<lparr>sm_artifact = replicate 32 2, sm_origin = replicate 32 7, sm_placement = u16 ''trailer/1''\<rparr>,
     \<lparr>sm_artifact = replicate 32 1, sm_origin = replicate 32 7, sm_placement = u16 ''container/2''\<rparr>]"

lemma demo_members_ok: "set_ok demo_members"
  by code_simp

theorem set_manifest_names_one_set_witness:
  "\<exists>b. buildSetManifest (replicate 32 5) demo_members = Inr b \<and> buildSetManifest (replicate 32 5) (rev demo_members) = Inr b
    \<and> parseSetManifest (\<lambda>_. Some (manifest_of (replicate 32 5) demo_members)) b = Some (replicate 32 5, rev demo_members)"
proof -
  let ?c = "replicate 32 5 :: bytes"
  obtain b where b: "buildSetManifest ?c demo_members = Inr b"
    using demo_members_ok by (simp add: buildSetManifest_eq)
  have "\<not> (replicate 32 2 :: bytes) \<le> replicate 32 1" by code_simp
  then have "sort_key sm_artifact demo_members = rev demo_members" by (simp add: demo_members_def)
  with b show ?thesis
    using set_manifest_names_one_set [of ?c demo_members b ?c "rev demo_members" "\<lambda>_. Some (manifest_of ?c demo_members)"]
    by (simp add: reads_back_def)
qed

end
