(* ===== verification/BG_Stream.thy ===== *)
theory BG_Stream
  imports BG_Tree
begin

text \<open>
  \<^verbatim>\<open>packages/verify/src/stream.ts\<close>: one pass over a file that arrives in chunks. The incremental hashers of the code
  are the bytes they were fed (\<^verbatim>\<open>update\<close> appends, \<^verbatim>\<open>digest\<close> applies the hash function), which is what \<^verbatim>\<open>@noble/hashes\<close>
  documents. The theory shows that the machine which reads a placement in place computes, for every way of cutting a
  file into chunks, what the in-memory locators compute on the whole file.
\<close>

subsection \<open>The code\<close>

record byte_source =
  src_size :: int
  src_chunks :: "bytes list"

definition bytesSource :: "bytes \<Rightarrow> byte_source" where
  "bytesSource bs = \<lparr>src_size = int (length bs), src_chunks = [bs]\<rparr>"

text \<open>A number in a template string.\<close>

fun dec_text :: "nat \<Rightarrow> string" where
  "dec_text n = (if n < 10 then [char_of (48 + n)] else dec_text (n div 10) @ [char_of (48 + n mod 10)])"

declare dec_text.simps [simp del]

definition MANIFEST_BYTES :: nat where "MANIFEST_BYTES = 250"

definition ustarSize :: "bytes \<Rightarrow> nat option" where
  "ustarSize header = (if length header < BLOCK then None
     else if \<not> list_all octal_byte (slice 124 135 header) then None
     else if header ! 135 = 0 then Some (oct_val (slice 124 135 header)) else None)"

definition prefixLength :: "placement \<Rightarrow> nat" where
  "prefixLength pl = (case pl of Container1 \<Rightarrow> BLOCK + MANIFEST_BYTES + padTo MANIFEST_BYTES + BLOCK
     | Container2 \<Rightarrow> BLOCK | _ \<Rightarrow> 0)"

definition originalHeaderAt :: "placement \<Rightarrow> nat" where
  "originalHeaderAt pl = (if pl = Container1 then BLOCK + MANIFEST_BYTES + padTo MANIFEST_BYTES else 0)"

definition streamDigest :: "hashfun \<Rightarrow> byte_source \<Rightarrow> bytes" where
  "streamDigest H source = H (concat (src_chunks source))"

record machine =
  m_id :: placement
  m_originalSize :: "nat option"
  m_prefix :: bytes
  m_suffix :: bytes
  m_embedded :: bytes
  m_failed :: "string option"

definition new_machine :: "nat \<Rightarrow> placement \<Rightarrow> machine" where
  "new_machine n pl =
     (let m = \<lparr>m_id = pl, m_originalSize = None, m_prefix = [], m_suffix = [], m_embedded = [], m_failed = None\<rparr> in
      if pl = Trailer1
      then (if n < TRAILER_LENGTH then m\<lparr>m_failed := Some ''shorter than a trailer''\<rparr>
            else m\<lparr>m_originalSize := Some (n - TRAILER_LENGTH)\<rparr>)
      else if n < prefixLength pl then m\<lparr>m_failed := Some ''shorter than the container's headers''\<rparr> else m)"

definition frame_of :: "placement \<Rightarrow> nat \<Rightarrow> bytes \<Rightarrow> bytes \<Rightarrow> (bytes \<times> bytes) res" where
  "frame_of pl n d c = (case placement_frame pl n d c of Some r \<Rightarrow> r | None \<Rightarrow> Inl (TypeError ''frame is not a function''))"

definition settle :: "nat \<Rightarrow> bytes \<Rightarrow> machine \<Rightarrow> machine res" where
  "settle n commitment m =
     (case ustarSize (slice (originalHeaderAt (m_id m)) (originalHeaderAt (m_id m) + BLOCK) (m_prefix m)) of
        None \<Rightarrow> Inr (m\<lparr>m_failed := Some ''the original's ustar header does not carry a size''\<rparr>)
      | Some k \<Rightarrow> rbind (frame_of (m_id m) k (zeros 32) commitment) (\<lambda>(prefix, suffix).
          if n \<noteq> length prefix + k + length suffix
          then Inr (m\<lparr>m_failed := Some ''the file's length does not fit the container layout its header states''\<rparr>)
          else Inr (m\<lparr>m_originalSize := Some k\<rparr>)))"

text \<open>The second half of \<^verbatim>\<open>feed\<close>: \<open>rest\<close> is \<^verbatim>\<open>chunk.subarray(off)\<close>, \<open>here\<close> its position.\<close>

definition feed_rest :: "machine \<Rightarrow> nat \<Rightarrow> bytes \<Rightarrow> machine" where
  "feed_rest m here rest = (case (m_failed m, m_originalSize m) of
     (None, Some k) \<Rightarrow>
       if rest = [] then m
       else let originalEnd = prefixLength (m_id m) + k;
                m1 = (if here < originalEnd then m\<lparr>m_embedded := m_embedded m @ take (originalEnd - here) rest\<rparr> else m);
                rest1 = (if here < originalEnd then drop (originalEnd - here) rest else rest) in
         if rest1 = [] then m1 else m1\<lparr>m_suffix := m_suffix m1 @ rest1\<rparr>
   | _ \<Rightarrow> m)"

definition feed :: "nat \<Rightarrow> bytes \<Rightarrow> machine \<Rightarrow> bytes \<Rightarrow> nat \<Rightarrow> machine res" where
  "feed n commitment m chunk at =
     (if m_failed m \<noteq> None then Inr m
      else if at < prefixLength (m_id m) then
        let off = min (length chunk) (prefixLength (m_id m) - at);
            m1 = m\<lparr>m_prefix := m_prefix m @ take off chunk\<rparr> in
        rbind (if length (m_prefix m1) = prefixLength (m_id m) \<and> m_originalSize m1 = None then settle n commitment m1 else Inr m1)
          (\<lambda>m2. Inr (feed_rest m2 (at + off) (drop off chunk)))
      else Inr (feed_rest m at chunk))"

datatype direct_check = DirectOk bytes nat | DirectBad string

definition placement_name :: "placement \<Rightarrow> string" where
  "placement_name pl = leaf_name (Placed pl)"

definition finish_machine :: "hashfun \<Rightarrow> (bytes \<Rightarrow> jv option) \<Rightarrow> bytes \<Rightarrow> machine \<Rightarrow> direct_check res" where
  "finish_machine H json commitment m =
     (case (m_failed m, m_originalSize m) of
        (Some reason, _) \<Rightarrow> Inr (DirectBad reason)
      | (None, None) \<Rightarrow> Inr (DirectBad ''the stream ended inside the container's headers'')
      | (None, Some k) \<Rightarrow>
          let embeddedOrigin = H (m_embedded m);
              bad_frame = Inr (DirectBad (''the bytes are not a '' @ placement_name (m_id m) @ '' carrying this position's commitment''));
              judge = (\<lambda>manifestOrigin frameOk. if \<not> frameOk then bad_frame
                else if manifestOrigin \<noteq> embeddedOrigin
                then Inr (DirectBad (''the original inside the '' @ placement_name (m_id m) @ '' does not hash to the origin its manifest names''))
                else Inr (DirectOk embeddedOrigin k)) in
          if m_id m = Trailer1
          then rbind (frame_of Trailer1 k embeddedOrigin commitment) (\<lambda>(_, suffix). judge embeddedOrigin (m_suffix m = suffix))
          else let manifestBytes = (if m_id m = Container1 then slice BLOCK (BLOCK + MANIFEST_BYTES) (m_prefix m)
                     else slice (padTo k + BLOCK) (padTo k + BLOCK + MANIFEST_BYTES) (m_suffix m)) in
            (case parseFusePayload json manifestBytes of
               Some (c, Some d) \<Rightarrow> if c = commitment
                 then rbind (frame_of (m_id m) k d commitment) (\<lambda>(prefix, suffix). judge d (m_prefix m = prefix \<and> m_suffix m = suffix))
                 else bad_frame
             | _ \<Rightarrow> bad_frame))"

definition containerLayoutOf :: "bytes \<Rightarrow> placement option" where
  "containerLayoutOf block =
     (if length block < BLOCK then None
      else if slice 257 263 block \<noteq> ascii ''ustar'' @ [0] then None
      else if tar_name block = CONTAINER_MANIFEST_PATH then Some Container1
      else if tar_name block = CONTAINER_ORIGINAL_PATH then Some Container2 else None)"

record stream_state =
  ss_pos :: nat
  ss_whole :: bytes
  ss_fused :: "bytes option"
  ss_head :: bytes
  ss_tail :: bytes
  ss_asked :: "machine option"
  ss_guessed :: "machine option"
  ss_early :: bytes
  ss_decided :: bool

definition feed_opt :: "nat \<Rightarrow> bytes \<Rightarrow> machine option \<Rightarrow> bytes \<Rightarrow> nat \<Rightarrow> machine option res" where
  "feed_opt n commitment m chunk at = (case m of None \<Rightarrow> Inr None | Some m \<Rightarrow> rbind (feed n commitment m chunk at) (\<lambda>m. Inr (Some m)))"

text \<open>The part of the loop body that looks for the layout the first block announces.\<close>

definition guess_step :: "nat \<Rightarrow> bytes \<Rightarrow> placement option \<Rightarrow> stream_state \<Rightarrow> bytes \<Rightarrow> stream_state res" where
  "guess_step n commitment placement st chunk =
     (if \<not> ss_decided st then
        let early = ss_early st @ chunk in
        if BLOCK \<le> length early \<or> ss_pos st + length chunk = n then
          let layout = containerLayoutOf (take BLOCK early) in
          rbind (if layout \<noteq> None \<and> layout \<noteq> placement
              then rbind (feed n commitment (new_machine n (the layout)) early 0) (\<lambda>m. Inr (Some m)) else Inr (ss_guessed st))
            (\<lambda>g. Inr (st\<lparr>ss_decided := True, ss_guessed := g, ss_early := []\<rparr>))
        else Inr (st\<lparr>ss_early := early\<rparr>)
      else rbind (feed_opt n commitment (ss_guessed st) chunk (ss_pos st)) (\<lambda>g. Inr (st\<lparr>ss_guessed := g\<rparr>)))"

definition HEAD :: nat where "HEAD = 64"

definition last_bytes :: "nat \<Rightarrow> bytes \<Rightarrow> bytes" where
  "last_bytes k bs = drop (length bs - k) bs"

definition stream_step :: "nat \<Rightarrow> bytes \<Rightarrow> placement option \<Rightarrow> stream_state \<Rightarrow> bytes \<Rightarrow> stream_state res" where
  "stream_step n commitment placement st chunk =
     (if chunk = [] then Inr st
      else if n < ss_pos st + length chunk then Inl (RangeError ''the source yielded more bytes than its size'')
      else let st1 = st\<lparr>ss_whole := ss_whole st @ chunk, ss_fused := map_option (\<lambda>h. h @ chunk) (ss_fused st),
                 ss_head := (if length (ss_head st) < HEAD then ss_head st @ take (HEAD - length (ss_head st)) chunk else ss_head st),
                 ss_tail := last_bytes TRAILER_LENGTH (ss_tail st @ chunk)\<rparr> in
        rbind (feed_opt n commitment (ss_asked st1) chunk (ss_pos st1)) (\<lambda>a.
        rbind (guess_step n commitment placement (st1\<lparr>ss_asked := a\<rparr>) chunk) (\<lambda>st2.
          Inr (st2\<lparr>ss_pos := ss_pos st2 + length chunk\<rparr>))))"

fun stream_loop :: "nat \<Rightarrow> bytes \<Rightarrow> placement option \<Rightarrow> stream_state \<Rightarrow> bytes list \<Rightarrow> stream_state res" where
  "stream_loop n commitment placement st [] = Inr st"
| "stream_loop n commitment placement st (chunk # chunks) =
     rbind (stream_step n commitment placement st chunk) (\<lambda>st'. stream_loop n commitment placement st' chunks)"

record stream_check =
  sc_size :: nat
  sc_digest :: bytes
  sc_head :: bytes
  sc_fusedFromOrigin :: "bytes option"
  sc_direct :: "direct_check option"
  sc_carriesCommitment :: bool

definition finish_opt :: "hashfun \<Rightarrow> (bytes \<Rightarrow> jv option) \<Rightarrow> bytes \<Rightarrow> machine option \<Rightarrow> direct_check option res" where
  "finish_opt H json commitment m = (case m of None \<Rightarrow> Inr None
     | Some m \<Rightarrow> rbind (finish_machine H json commitment m) (\<lambda>d. Inr (Some d)))"

definition direct_ok :: "direct_check option \<Rightarrow> bool" where
  "direct_ok d \<longleftrightarrow> (case d of Some (DirectOk _ _) \<Rightarrow> True | _ \<Rightarrow> False)"

text \<open>The start of the origin hypothesis: what the code hashes before the file, and after it.\<close>

definition frame_around :: "nat \<Rightarrow> placement option \<Rightarrow> bytes \<Rightarrow> bytes option \<Rightarrow> (bytes option \<times> bytes) res" where
  "frame_around n placement commitment origin =
     (let originForFrame = (case origin of Some d \<Rightarrow> Some d | None \<Rightarrow> if placement = Some Container1 then None else Some (zeros 32)) in
      case (placement, originForFrame) of
        (Some p, Some d) \<Rightarrow> rbind (frame_of p n d commitment) (\<lambda>(prefix, suffix). Inr (Some prefix, suffix))
      | _ \<Rightarrow> Inr (None, []))"

definition streamLeafCheck :: "hashfun \<Rightarrow> (bytes \<Rightarrow> jv option) \<Rightarrow> byte_source \<Rightarrow> placement option \<Rightarrow> bytes \<Rightarrow> bytes option
    \<Rightarrow> stream_check res" where
  "streamLeafCheck H json source placement commitment origin =
     (if length commitment \<noteq> 32 then Inl (TypeError ''commitment must be 32 bytes'')
      else if src_size source < 0 \<or> 9007199254740991 < src_size source
      then Inl (TypeError ''the source's size must be a non-negative integer'')
      else if placement = Some Produced1 then Inl (TypeError ''produced/1 is not a streamable placement'')
      else let n = nat (src_size source) in
        rbind (frame_around n placement commitment origin) (\<lambda>(fused, fusedSuffix).
        rbind (stream_loop n commitment placement
            \<lparr>ss_pos = 0, ss_whole = [], ss_fused = fused, ss_head = [], ss_tail = [], ss_asked = map_option (new_machine n) placement,
             ss_guessed = None, ss_early = [], ss_decided = False\<rparr> (src_chunks source)) (\<lambda>st.
          if ss_pos st \<noteq> n then Inl (RangeError (''the source yielded '' @ dec_text (ss_pos st) @ '' bytes; its size says '' @ dec_text n))
          else rbind (finish_opt H json commitment (ss_asked st)) (\<lambda>direct.
            let tail = ss_tail st;
                trailerCarries = (TRAILER_LENGTH \<le> n \<and> slice 0 8 tail = TRAILER_MAGIC
                  \<and> list_all (\<lambda>b. b = 0) (slice 8 16 tail) \<and> slice 16 48 tail = commitment);
                result = (\<lambda>carries. \<lparr>sc_size = n, sc_digest = H (ss_whole st), sc_head = ss_head st,
                  sc_fusedFromOrigin = map_option (\<lambda>h. H (h @ fusedSuffix)) (ss_fused st), sc_direct = direct,
                  sc_carriesCommitment = carries\<rparr>) in
            if placement \<noteq> Some Trailer1 \<and> direct_ok direct then Inr (result True)
            else rbind (finish_opt H json commitment (ss_guessed st)) (\<lambda>g. Inr (result (trailerCarries \<or> direct_ok g)))))))"

subsection \<open>A machine after some bytes\<close>

text \<open>What a machine of a file of \<open>n\<close> bytes knows after its first bytes \<open>s\<close>.\<close>

definition settled :: "nat \<Rightarrow> bytes \<Rightarrow> placement \<Rightarrow> bytes \<Rightarrow> string + nat" where
  "settled n c pl prefix = (if pl = Trailer1 then Inr (n - TRAILER_LENGTH)
     else case ustarSize (slice (originalHeaderAt pl) (originalHeaderAt pl + BLOCK) prefix) of
       None \<Rightarrow> Inl ''the original's ustar header does not carry a size''
     | Some k \<Rightarrow> (case frame_of pl k (zeros 32) c of
         Inr (p, sx) \<Rightarrow> if n \<noteq> length p + k + length sx
           then Inl ''the file's length does not fit the container layout its header states'' else Inr k
       | Inl _ \<Rightarrow> Inl []))"

definition machine_at :: "nat \<Rightarrow> bytes \<Rightarrow> placement \<Rightarrow> bytes \<Rightarrow> machine" where
  "machine_at n c pl s =
     (let m = new_machine n pl; L = prefixLength pl in
      if m_failed m \<noteq> None then m
      else if length s < L then m\<lparr>m_prefix := s\<rparr>
      else case settled n c pl (take L s) of
        Inl reason \<Rightarrow> m\<lparr>m_prefix := take L s, m_failed := Some reason\<rparr>
      | Inr k \<Rightarrow> m\<lparr>m_originalSize := Some k, m_prefix := take L s, m_embedded := take k (drop L s), m_suffix := drop (L + k) s\<rparr>)"

lemma machine_at_start: "pl \<noteq> Produced1 \<Longrightarrow> machine_at n c pl [] = new_machine n pl"
  by (cases pl) (auto simp: machine_at_def new_machine_def Let_def prefixLength_def settled_def BLOCK_def)

lemma oct_val_less: "list_all octal_byte s \<Longrightarrow> oct_val s < 8 ^ length s"
proof (induction s rule: rev_induct)
  case (snoc b s)
  then have "unat b - 48 < 8" by (auto simp: octal_byte_def word_le_nat_alt)
  with snoc show ?case by (simp add: oct_val_def)
qed (simp add: oct_val_def)

lemma ustarSize_bound: "ustarSize h = Some k \<Longrightarrow> k \<le> MAX_ENTRY"
  using oct_val_less [of "slice 124 135 h"] by (auto simp: ustarSize_def MAX_ENTRY_def BLOCK_def split: if_splits)

lemma frame_total:
  assumes "length c = 32" "length d = 32" "k \<le> MAX_ENTRY" "pl \<noteq> Produced1"
  shows "\<exists>p sx. frame_of pl k d c = Inr (p, sx) \<and> length p = prefixLength pl"
proof -
  obtain ho where ho: "ustarHeader CONTAINER_ORIGINAL_PATH k = Inr ho" "length ho = 512"
    using ustarHeader_ok [OF assms(3) path_lengths(2)] by blast
  obtain hm where hm: "ustarHeader CONTAINER_MANIFEST_PATH 250 = Inr hm" "length hm = 512"
    using ustarHeader_ok [of 250, OF _ path_lengths(1)] by (auto simp: MAX_ENTRY_def)
  have m: "buildFusePayload c (Some d) = Inr (payload_bytes c (Some d))" "length (payload_bytes c (Some d)) = 250"
    using assms length_payload by (auto simp: buildFusePayload_iff)
  show ?thesis
    using assms(1,4) ho hm m
    by (cases pl) (simp_all add: frame_of_def placement_frame_def trailer1_frame_def container1_frame_def container2_frame_def
        prefixLength_def BLOCK_def MANIFEST_BYTES_def)
qed

lemma settle_eq:
  assumes "length c = 32" "m_id m = pl" "pl = Container1 \<or> pl = Container2"
  shows "settle n c m = Inr (case settled n c pl (m_prefix m) of
    Inl reason \<Rightarrow> m\<lparr>m_failed := Some reason\<rparr> | Inr k \<Rightarrow> m\<lparr>m_originalSize := Some k\<rparr>)"
proof (cases "ustarSize (slice (originalHeaderAt pl) (originalHeaderAt pl + BLOCK) (m_prefix m))")
  case None
  with assms show ?thesis by (auto simp: settle_def settled_def)
next
  case (Some k)
  obtain p sx where "frame_of pl k (zeros 32) c = Inr (p, sx)"
    using frame_total [OF assms(1), of "zeros 32" k pl] ustarSize_bound [OF Some] assms(3) by auto
  with Some assms show ?thesis by (auto simp: settle_def settled_def)
qed

lemma new_machine_fields:
  "m_id (new_machine n pl) = pl" "m_prefix (new_machine n pl) = []" "m_suffix (new_machine n pl) = []"
  "m_embedded (new_machine n pl) = []" "pl \<noteq> Trailer1 \<Longrightarrow> m_originalSize (new_machine n pl) = None"
  by (auto simp: new_machine_def Let_def)

lemma feed_rest_at:
  assumes "prefixLength pl \<le> length s" "m_id m = pl" "m_failed m = None" "m_originalSize m = Some k"
    "m_embedded m = take k (drop (prefixLength pl) s)" "m_suffix m = drop (prefixLength pl + k) s"
  shows "feed_rest m (length s) r = m\<lparr>m_embedded := take k (drop (prefixLength pl) (s @ r)), m_suffix := drop (prefixLength pl + k) (s @ r)\<rparr>"
proof -
  let ?L = "prefixLength pl"
  have e: "take k (drop ?L (s @ r)) = take k (drop ?L s) @ take (?L + k - length s) r"
    using assms(1) by (simp add: diff_diff_eq2 add.commute)
  have x: "drop (?L + k) (s @ r) = drop (?L + k) s @ drop (?L + k - length s) r" by simp
  show ?thesis unfolding e x using assms(2-) by (auto simp: feed_rest_def Let_def)
qed

lemma feed_crossing:
  assumes "length c = 32" "pl \<noteq> Produced1" and ok: "m_failed (new_machine n pl) = None"
    and True: "length s < prefixLength pl" and False: "\<not> length (s @ chunk) < prefixLength pl"
  shows "feed n c ((new_machine n pl)\<lparr>m_prefix := s\<rparr>) chunk (length s) = Inr (machine_at n c pl (s @ chunk))"
proof -
  let ?m = "new_machine n pl" and ?L = "prefixLength pl"
  have pl: "pl = Container1 \<or> pl = Container2" using assms(2) True by (cases pl) (simp_all add: prefixLength_def)
  then have m: "m_originalSize ?m = None" by (auto simp: new_machine_fields)
  let ?off = "?L - length s"
  have p: "s @ take ?off chunk = take ?L (s @ chunk)" "min (length chunk) ?off = ?off"
    using True False by simp_all
  let ?m1 = "?m\<lparr>m_prefix := take ?L (s @ chunk)\<rparr>"
  have st: "settle n c ?m1 = Inr (case settled n c pl (take ?L (s @ chunk)) of
      Inl reason \<Rightarrow> ?m1\<lparr>m_failed := Some reason\<rparr> | Inr k \<Rightarrow> ?m1\<lparr>m_originalSize := Some k\<rparr>)"
    using settle_eq [OF assms(1), of ?m1 pl n] pl by (simp add: new_machine_fields)
  have "feed n c (?m\<lparr>m_prefix := s\<rparr>) chunk (length s) = rbind (settle n c ?m1)
      (\<lambda>m2. Inr (feed_rest m2 (length s + ?off) (drop ?off chunk)))"
    using True ok m p False by (simp add: feed_def Let_def new_machine_fields)
  also have "\<dots> = Inr (machine_at n c pl (s @ chunk))"
  proof (cases "settled n c pl (take ?L (s @ chunk))")
    case (Inl reason)
    then show ?thesis unfolding st using ok False by (simp add: feed_rest_def machine_at_def Let_def)
  next
    case (Inr k)
    let ?m2 = "?m1\<lparr>m_originalSize := Some k\<rparr>"
    have len: "length (take ?L (s @ chunk)) = length s + ?off" using True False by simp
    have "feed_rest ?m2 (length (take ?L (s @ chunk))) (drop ?off chunk)
      = ?m2\<lparr>m_embedded := take k (drop ?L (take ?L (s @ chunk) @ drop ?off chunk)),
          m_suffix := drop (?L + k) (take ?L (s @ chunk) @ drop ?off chunk)\<rparr>"
      using False ok by (intro feed_rest_at) (simp_all add: new_machine_fields)
    moreover have "take ?L (s @ chunk) @ drop ?off chunk = s @ chunk" unfolding p(1) [symmetric] by simp
    ultimately have "feed_rest ?m2 (length s + ?off) (drop ?off chunk) = ?m2\<lparr>m_embedded := take k (drop ?L (s @ chunk)),
        m_suffix := drop (?L + k) (s @ chunk)\<rparr>" unfolding len by simp
    then show ?thesis unfolding st using ok False by (simp add: machine_at_def Let_def Inr del: take_append drop_append)
  qed
  finally show ?thesis .
qed

lemma feed_at:
  assumes "length c = 32" "pl \<noteq> Produced1"
  shows "feed n c (machine_at n c pl s) chunk (length s) = Inr (machine_at n c pl (s @ chunk))"
proof -
  let ?m = "new_machine n pl" and ?L = "prefixLength pl"
  show ?thesis
  proof (cases "m_failed ?m = None")
    case False
    then show ?thesis by (simp add: feed_def machine_at_def Let_def)
  next
    case ok: True
    show ?thesis
    proof (cases "length s < ?L")
      case True
      then have pl: "pl = Container1 \<or> pl = Container2" using assms(2) by (cases pl) (simp_all add: prefixLength_def)
      then have m: "machine_at n c pl s = ?m\<lparr>m_prefix := s\<rparr>" "m_originalSize ?m = None"
        using True ok by (auto simp: machine_at_def Let_def new_machine_fields)
      show ?thesis
      proof (cases "length (s @ chunk) < ?L")
        case True
        then show ?thesis using ok m by (auto simp: feed_def Let_def new_machine_fields feed_rest_def machine_at_def)
      next
        case False
        from feed_crossing [OF assms ok True this] m(1) show ?thesis by simp
      qed
    next
      case False
      then have t: "take ?L (s @ chunk) = take ?L s" by simp
      show ?thesis
      proof (cases "settled n c pl (take ?L s)")
        case (Inl reason)
        then show ?thesis using ok False t by (simp add: feed_def machine_at_def Let_def)
      next
        case (Inr k)
        let ?m1 = "?m\<lparr>m_originalSize := Some k, m_prefix := take ?L s, m_embedded := take k (drop ?L s), m_suffix := drop (?L + k) s\<rparr>"
        have "machine_at n c pl s = ?m1" using ok False Inr by (simp add: machine_at_def Let_def)
        moreover have "feed_rest ?m1 (length s) chunk = ?m1\<lparr>m_embedded := take k (drop ?L (s @ chunk)), m_suffix := drop (?L + k) (s @ chunk)\<rparr>"
          using False ok by (intro feed_rest_at) (simp_all add: new_machine_fields)
        ultimately show ?thesis
          using ok False Inr t by (simp add: feed_def machine_at_def Let_def new_machine_fields del: take_append drop_append)
      qed
    qed
  qed
qed

subsection \<open>The frame of a container\<close>

definition suffix_length :: "placement \<Rightarrow> nat \<Rightarrow> nat" where
  "suffix_length pl k = (if pl = Container1 then padTo k + 1024 else padTo k + 2048)"

lemma header_size:
  assumes "ustarHeader name k = Inr h" "k \<le> MAX_ENTRY" "length name \<le> 100"
  shows "ustarSize h = Some k"
proof -
  have f: "length h = 512" "slice 124 136 h = pad_zeros 11 (oct_digits k) @ [0]"
    using ustarHeader_ok [OF assms(2,3)] assms(1) by (metis sum.inject(2))+
  have l: "length (pad_zeros 11 (oct_digits k)) = 11"
    using length_oct_digits [of k 10] assms(2) by (intro length_pad_zeros) (simp add: MAX_ENTRY_def)
  have "slice 124 135 h = take 11 (slice 124 136 h)" by (simp add: slice_def min_def)
  then have "slice 124 135 h = pad_zeros 11 (oct_digits k)" using l f(2) by simp
  moreover have "h ! 135 = slice 124 136 h ! 11" using f(1) by (simp add: slice_def)
  then have "h ! 135 = 0" unfolding f(2) using l by (simp add: nth_append)
  ultimately show ?thesis using f(1) oct_digits_props [of k] oct_val_pad by (simp add: ustarSize_def BLOCK_def)
qed

lemma frame_parts:
  assumes "length c = 32" "length d = 32" "k \<le> MAX_ENTRY" "pl = Container1 \<or> pl = Container2"
  obtains p sx where "frame_of pl k d c = Inr (p, sx)" "length p = prefixLength pl" "length sx = suffix_length pl k"
    "ustarSize (slice (originalHeaderAt pl) (originalHeaderAt pl + BLOCK) p) = Some k"
    "(if pl = Container1 then slice BLOCK (BLOCK + MANIFEST_BYTES) p
      else slice (padTo k + BLOCK) (padTo k + BLOCK + MANIFEST_BYTES) sx) = payload_bytes c (Some d)"
proof -
  obtain ho where ho: "ustarHeader CONTAINER_ORIGINAL_PATH k = Inr ho" "length ho = 512" "ustarSize ho = Some k"
    using ustarHeader_ok [OF assms(3) path_lengths(2)] header_size [OF _ assms(3) path_lengths(2)] by blast
  obtain hm where hm: "ustarHeader CONTAINER_MANIFEST_PATH 250 = Inr hm" "length hm = 512"
    using ustarHeader_ok [of 250, OF _ path_lengths(1)] by (auto simp: MAX_ENTRY_def)
  let ?m = "payload_bytes c (Some d)"
  have m: "buildFusePayload c (Some d) = Inr ?m" "length ?m = 250"
    using assms length_payload by (auto simp: buildFusePayload_iff)
  have pad: "padTo 250 = 262" by (simp add: padTo_def BLOCK_def)
  show thesis
  proof (cases "pl = Container1")
    case True
    have s: "slice 1024 1536 (hm @ ?m @ zeros 262 @ ho) = ho" "slice 512 762 (hm @ ?m @ zeros 262 @ ho) = ?m"
      using ho(2) hm(2) m(2) by (simp_all add: slice_def)
    show ?thesis
      by (rule that [of "hm @ ?m @ zeros 262 @ ho" "zeros (padTo k) @ zeros (BLOCK * 2)"])
        (use True s ho hm m pad in \<open>simp_all add: frame_of_def placement_frame_def container1_frame_def prefixLength_def
          suffix_length_def originalHeaderAt_def BLOCK_def MANIFEST_BYTES_def\<close>)
  next
    case False
    let ?sx = "zeros (padTo k) @ hm @ ?m @ zeros (padTo 250) @ zeros (BLOCK * 2)"
    have s: "slice (padTo k + 512) (762 + padTo k) ?sx = ?m" "slice 0 512 ho = ho"
      using ho(2) hm(2) m(2) by (simp_all add: slice_def)
    show ?thesis
      by (rule that [of ho ?sx])
        (use False assms(4) s ho hm m pad in \<open>simp_all add: frame_of_def placement_frame_def container2_frame_def prefixLength_def
          suffix_length_def originalHeaderAt_def BLOCK_def MANIFEST_BYTES_def\<close>)
  qed
qed

lemma build_frame:
  assumes "pl \<noteq> Produced1"
  shows "placement_build H pl (Some b) None c = Inr f \<longleftrightarrow> (\<exists>p sx. frame_of pl (length b) (H b) c = Inr (p, sx) \<and> f = p @ b @ sx)"
proof -
  obtain r where r: "placement_frame pl (length b) (H b) c = Some r" using assms by (cases pl) (auto simp: placement_frame_def)
  then show ?thesis using placement_frame_build [of pl b H c r, OF r] by (auto simp: frame_of_def res_simps split: prod.splits)
qed

subsection \<open>The verdict of a machine\<close>

lemma settled_build:
  assumes "length c = 32" "hash32 H" "pl \<noteq> Produced1" "placement_build H pl (Some b) None c = Inr f"
  shows "m_failed (new_machine (length f) pl) = None" "settled (length f) c pl (take (prefixLength pl) f) = Inr (length b)"
    "take (length b) (drop (prefixLength pl) f) = b"
    "frame_of pl (length b) (H b) c = Inr (take (prefixLength pl) f, drop (prefixLength pl + length b) f)"
proof -
  obtain p sx where f: "frame_of pl (length b) (H b) c = Inr (p, sx)" "f = p @ b @ sx"
    using assms(4) build_frame [OF assms(3)] by blast
  have b: "length b \<le> MAX_ENTRY \<or> pl = Trailer1" using placement_total [OF assms(2,3), of b c] assms(4) by blast
  have h: "length (H b) = 32" using assms(2) by (simp add: hash32_def)
  have lp: "length p = prefixLength pl \<and> m_failed (new_machine (length f) pl) = None \<and> settled (length f) c pl p = Inr (length b)"
  proof (cases "pl = Trailer1")
    case True
    with f show ?thesis by (auto simp: frame_of_def placement_frame_def trailer1_frame_def settled_def prefixLength_def
      new_machine_def TRAILER_LENGTH_def split: if_splits)
  next
    case False
    then have pl: "pl = Container1 \<or> pl = Container2" using assms(3) by (cases pl) simp_all
    from False b have bm: "length b \<le> MAX_ENTRY" by simp
    note fp = frame_parts [OF assms(1) h bm pl]
    obtain p0 s0 where z: "frame_of pl (length b) (zeros 32) c = Inr (p0, s0)" "length p0 = prefixLength pl" "length s0 = suffix_length pl (length b)"
      using frame_parts [OF assms(1) length_zeros bm pl] by blast
    have "length p = prefixLength pl" "length sx = suffix_length pl (length b)"
      "ustarSize (slice (originalHeaderAt pl) (originalHeaderAt pl + BLOCK) p) = Some (length b)"
      using fp f(1) by (metis sum.inject(2) prod.inject)+
    then show ?thesis using False f(2) z by (simp add: settled_def new_machine_def Let_def)
  qed
  then show "m_failed (new_machine (length f) pl) = None" "settled (length f) c pl (take (prefixLength pl) f) = Inr (length b)"
    "take (length b) (drop (prefixLength pl) f) = b"
    "frame_of pl (length b) (H b) c = Inr (take (prefixLength pl) f, drop (prefixLength pl + length b) f)"
    using f by auto
qed

lemma machine_at_build:
  assumes "length c = 32" "hash32 H" "pl \<noteq> Produced1" "placement_build H pl (Some b) None c = Inr f"
  shows "\<exists>p sx. machine_at (length f) c pl f = \<lparr>m_id = pl, m_originalSize = Some (length b), m_prefix = p, m_suffix = sx,
      m_embedded = b, m_failed = None\<rparr> \<and> frame_of pl (length b) (H b) c = Inr (p, sx) \<and> length p = prefixLength pl"
proof -
  note s = settled_build [OF assms]
  have "prefixLength pl \<le> length f" using s(1) by (auto simp: new_machine_def Let_def prefixLength_def split: if_splits)
  then show ?thesis using s by (auto simp: machine_at_def Let_def new_machine_fields intro!: machine.equality)
qed

lemma machine_at_settled:
  assumes "machine_at (length f) c pl f = m" "m_failed m = None" "m_originalSize m = Some k" "pl \<noteq> Produced1" "length c = 32"
  shows "f = m_prefix m @ m_embedded m @ m_suffix m \<and> length (m_embedded m) = k \<and> (pl \<noteq> Trailer1 \<longrightarrow> k \<le> MAX_ENTRY)"
proof -
  let ?L = "prefixLength pl"
  have ok: "m_failed (new_machine (length f) pl) = None" using assms(1,2) by (auto simp: machine_at_def Let_def split: if_splits)
  have L: "?L \<le> length f" using ok assms(4) by (cases pl) (auto simp: new_machine_def Let_def prefixLength_def split: if_splits)
  then have st: "settled (length f) c pl (take ?L f) = Inr k"
    and m: "m_prefix m = take ?L f" "m_embedded m = take k (drop ?L f)" "m_suffix m = drop (?L + k) f"
    using assms(1-3) ok by (auto simp: machine_at_def Let_def split: sum.splits)
  have k: "?L + k \<le> length f" "pl \<noteq> Trailer1 \<longrightarrow> k \<le> MAX_ENTRY"
  proof -
    show "?L + k \<le> length f"
    proof (cases "pl = Trailer1")
      case True
      then show ?thesis using st ok by (auto simp: settled_def prefixLength_def)
    next
      case False
      then obtain p sx where z: "ustarSize (slice (originalHeaderAt pl) (originalHeaderAt pl + BLOCK) (take ?L f)) = Some k"
        "frame_of pl k (zeros 32) c = Inr (p, sx)" "length f = length p + k + length sx"
        using st by (auto simp: settled_def split: option.splits sum.splits if_splits)
      then have "length p = ?L" using frame_total [OF assms(5) length_zeros ustarSize_bound [OF z(1)] assms(4)] by auto
      with z(3) show ?thesis by simp
    qed
    show "pl \<noteq> Trailer1 \<longrightarrow> k \<le> MAX_ENTRY"
      using st ustarSize_bound by (auto simp: settled_def split: option.splits sum.splits if_splits)
  qed
  have "f = take ?L f @ take k (drop ?L f) @ drop (?L + k) f"
    by (metis append_take_drop_id drop_drop add.commute)
  with m k show ?thesis by simp
qed

lemma finish_build:
  assumes "length c = 32" "hash32 H" "reads_payloads json" "pl \<noteq> Produced1" "placement_build H pl (Some b) None c = Inr f"
  shows "finish_machine H json c (machine_at (length f) c pl f) = Inr (DirectOk (H b) (length b))"
proof -
  obtain p sx where m: "machine_at (length f) c pl f = \<lparr>m_id = pl, m_originalSize = Some (length b), m_prefix = p, m_suffix = sx,
      m_embedded = b, m_failed = None\<rparr>" and fr: "frame_of pl (length b) (H b) c = Inr (p, sx)"
    using machine_at_build [OF assms(1,2,4,5)] by blast
  have h: "length (H b) = 32" using assms(2) by (simp add: hash32_def)
  show ?thesis
  proof (cases "pl = Trailer1")
    case True
    with fr show ?thesis unfolding m by (simp add: finish_machine_def Let_def)
  next
    case False
    then have pl: "pl = Container1 \<or> pl = Container2" using assms(4) by (cases pl) simp_all
    have "length b \<le> MAX_ENTRY" using placement_total [OF assms(2,4), of b c] assms(5) False by blast
    from frame_parts [OF assms(1) h this pl] fr
    have "(if pl = Container1 then slice BLOCK (BLOCK + MANIFEST_BYTES) p
      else slice (padTo (length b) + BLOCK) (padTo (length b) + BLOCK + MANIFEST_BYTES) sx) = payload_bytes c (Some (H b))"
      by (metis sum.inject(2) prod.inject)
    moreover have "parseFusePayload json (payload_bytes c (Some (H b))) = Some (c, Some (H b))"
      using assms(1,3) h by (intro parse_payload) auto
    ultimately show ?thesis unfolding m using fr pl by (elim disjE) (simp_all add: finish_machine_def Let_def)
  qed
qed

lemma manifest_digest: "parseFusePayload json b = Some (c, Some d) \<Longrightarrow> length c = 32 \<and> length d = 32"
  by (drule parse_payload_sound) (simp add: buildFusePayload_iff)

lemma machine_at_id: "m_id (machine_at n c pl s) = pl"
  by (auto simp: machine_at_def Let_def new_machine_fields split: sum.splits)

lemma finish_ok:
  assumes "length c = 32" "pl \<noteq> Produced1" "finish_machine H json c (machine_at (length f) c pl f) = Inr (DirectOk d k)"
  shows "\<exists>b. placement_build H pl (Some b) None c = Inr f \<and> d = H b \<and> k = length b"
proof -
  let ?m = "machine_at (length f) c pl f"
  have ok: "m_failed ?m = None" "m_originalSize ?m = Some k" and d: "d = H (m_embedded ?m)"
    and fr: "frame_of pl k d c = Inr (m_prefix ?m, m_suffix ?m) \<or> pl = Trailer1 \<and> (\<exists>p. frame_of pl k d c = Inr (p, m_suffix ?m))"
    using assms(3) by (auto simp: finish_machine_def machine_at_id Let_def res_simps split: option.splits if_splits)
  note s = machine_at_settled [OF refl ok assms(2,1)]
  have "pl = Trailer1 \<Longrightarrow> m_prefix ?m = []" by (auto simp: machine_at_def Let_def new_machine_fields prefixLength_def split: sum.splits)
  then have "frame_of pl k d c = Inr (m_prefix ?m, m_suffix ?m)"
    using fr assms(1) by (auto simp: frame_of_def placement_frame_def trailer1_frame_def)
  then show ?thesis using s d assms(2) by (intro exI [of _ "m_embedded ?m"]) (auto simp: build_frame)
qed

lemma finish_total:
  assumes "length c = 32" "hash32 H" "pl \<noteq> Produced1"
  shows "\<exists>d. finish_machine H json c (machine_at (length f) c pl f) = Inr d"
proof -
  let ?m = "machine_at (length f) c pl f"
  show ?thesis
  proof (cases "m_failed ?m = None \<and> (\<exists>k. m_originalSize ?m = Some k)")
    case True
    then obtain k where k: "m_failed ?m = None" "m_originalSize ?m = Some k" by blast
    note s = machine_at_settled [OF refl k assms(3,1)]
    have t: "\<exists>p sx. frame_of pl k d c = Inr (p, sx)" if "pl \<noteq> Trailer1 \<Longrightarrow> length d = 32" for d
      using that frame_total [OF assms(1), of d k pl] s assms(1,3)
      by (cases "pl = Trailer1") (auto simp: frame_of_def placement_frame_def trailer1_frame_def)
    show ?thesis
    proof (cases "pl = Trailer1")
      case True
      then show ?thesis using k t [of "H (m_embedded ?m)"] by (auto simp: finish_machine_def machine_at_id Let_def)
    next
      case False
      let ?b = "if pl = Container1 then slice BLOCK (BLOCK + MANIFEST_BYTES) (m_prefix ?m)
                     else slice (padTo k + BLOCK) (padTo k + BLOCK + MANIFEST_BYTES) (m_suffix ?m)"
      consider "parseFusePayload json ?b = None" | c' where "parseFusePayload json ?b = Some (c', None)"
        | c' d where "parseFusePayload json ?b = Some (c', Some d)" by (metis option.exhaust prod.exhaust)
      then show ?thesis
      proof cases
        case (3 c' d)
        then show ?thesis using k False t [of d] manifest_digest by (auto simp: finish_machine_def machine_at_id Let_def)
      qed (use k False in \<open>simp_all add: finish_machine_def machine_at_id Let_def\<close>)
    qed
  qed (auto simp: finish_machine_def split: option.splits)
qed

subsection \<open>The layout a first block announces\<close>

lemma header_layout:
  assumes "ustarHeader name k = Inr h" "plain_name name"
  shows "length h = 512" "slice 257 263 h = ascii ''ustar'' @ [0]" "tar_name h = name"
proof -
  have n: "length name \<le> 100" using assms(2) by (simp add: plain_name_def)
  have "k \<le> MAX_ENTRY" using assms(1) by (auto simp: ustarHeader_def split: if_splits)
  from ustarHeader_ok [OF this n] assms(1)
  have "length h = 512" "slice 257 263 h = ascii ''ustar'' @ [0]" "slice 0 100 h = name @ zeros (100 - length name)"
    by (metis sum.inject(2))+
  then show "length h = 512" "slice 257 263 h = ascii ''ustar'' @ [0]" "tar_name h = name"
    using tar_name_header [OF assms(2)] by simp_all
qed

lemma build_layout:
  assumes "pl = Container1 \<or> pl = Container2" "placement_build H pl (Some b) None c = Inr f"
  shows "containerLayoutOf (take BLOCK f) = Some pl"
proof -
  have "\<exists>name k h r. ustarHeader name k = Inr h \<and> f = h @ r \<and> plain_name name
    \<and> name = (if pl = Container1 then CONTAINER_MANIFEST_PATH else CONTAINER_ORIGINAL_PATH)"
    using assms plain_paths
    by (fastforce simp: placement_build_def container1_build_def container2_build_def buildContainer_def buildContainer2_def res_simps)
  then obtain name k h r where h: "ustarHeader name k = Inr h" "f = h @ r" "plain_name name"
    "name = (if pl = Container1 then CONTAINER_MANIFEST_PATH else CONTAINER_ORIGINAL_PATH)" by blast
  note l = header_layout [OF h(1,3)]
  then show ?thesis using assms(1) h(2,4) plain_paths(3) by (auto simp: containerLayoutOf_def BLOCK_def)
qed

lemma layout_container: "containerLayoutOf h = Some l \<Longrightarrow> l = Container1 \<or> l = Container2"
  by (auto simp: containerLayoutOf_def split: if_splits)

subsection \<open>The pass after some bytes\<close>

definition decided_at :: "nat \<Rightarrow> bytes \<Rightarrow> bool" where
  "decided_at n s \<longleftrightarrow> s \<noteq> [] \<and> (BLOCK \<le> length s \<or> length s = n)"

definition guess_at :: "nat \<Rightarrow> bytes \<Rightarrow> placement option \<Rightarrow> bytes \<Rightarrow> machine option" where
  "guess_at n c pl s = (if \<not> decided_at n s then None else case containerLayoutOf (take BLOCK s) of
     Some l \<Rightarrow> if Some l \<noteq> pl then Some (machine_at n c l s) else None | None \<Rightarrow> None)"

definition stream_at :: "nat \<Rightarrow> bytes \<Rightarrow> placement option \<Rightarrow> bytes option \<Rightarrow> bytes \<Rightarrow> stream_state" where
  "stream_at n c pl fused s = \<lparr>ss_pos = length s, ss_whole = s, ss_fused = map_option (\<lambda>h. h @ s) fused,
     ss_head = take HEAD s, ss_tail = last_bytes TRAILER_LENGTH s, ss_asked = map_option (\<lambda>p. machine_at n c p s) pl,
     ss_guessed = guess_at n c pl s, ss_early = (if decided_at n s then [] else s), ss_decided = decided_at n s\<rparr>"

lemma head_step: "(if length (take k s) < k then take k s @ take (k - length (take k s)) r else take k s) = take k (s @ r)"
  by auto

lemma tail_step: "last_bytes k (last_bytes k s @ r) = last_bytes k (s @ r)"
  by (cases "k \<le> length s") (auto simp: last_bytes_def add.commute)

lemma guess_step_at:
  assumes "length c = 32" "chunk \<noteq> []" "length s + length chunk \<le> n"
    and st: "ss_pos st = length s" "ss_guessed st = guess_at n c pl s" "ss_early st = (if decided_at n s then [] else s)"
      "ss_decided st = decided_at n s"
  shows "guess_step n c pl st chunk = Inr (st\<lparr>ss_guessed := guess_at n c pl (s @ chunk),
      ss_early := (if decided_at n (s @ chunk) then [] else s @ chunk), ss_decided := decided_at n (s @ chunk)\<rparr>)"
proof (cases "decided_at n s")
  case True
  then have s: "BLOCK \<le> length s" using assms(2,3) by (auto simp: decided_at_def)
  then have d: "decided_at n (s @ chunk)" "take BLOCK (s @ chunk) = take BLOCK s" using assms(2) by (auto simp: decided_at_def)
  have fd: "feed n c (machine_at n c l s) chunk (length s) = Inr (machine_at n c l (s @ chunk))" if "containerLayoutOf h = Some l" for h l
    using layout_container [OF that] by (intro feed_at [OF assms(1)]) auto
  have "feed_opt n c (guess_at n c pl s) chunk (length s) = Inr (guess_at n c pl (s @ chunk))"
    unfolding guess_at_def d(2) using True d(1) fd by (auto simp: feed_opt_def split: option.splits)
  then show ?thesis using True d st by (simp add: guess_step_def)
next
  case False
  have fd: "feed n c (new_machine n l) (s @ chunk) 0 = Inr (machine_at n c l (s @ chunk))" if "containerLayoutOf h = Some l" for h l
    using feed_at [OF assms(1), of l n "[]" "s @ chunk"] layout_container [OF that] by (auto simp: machine_at_start)
  have d: "decided_at n (s @ chunk) \<longleftrightarrow> BLOCK \<le> length (s @ chunk) \<or> length s + length chunk = n"
    using assms(2) by (auto simp: decided_at_def)
  show ?thesis
  proof (cases "decided_at n (s @ chunk)")
    case True
    have g: "(if containerLayoutOf (take BLOCK (s @ chunk)) \<noteq> None \<and> containerLayoutOf (take BLOCK (s @ chunk)) \<noteq> pl
        then rbind (feed n c (new_machine n (the (containerLayoutOf (take BLOCK (s @ chunk))))) (s @ chunk) 0) (\<lambda>m. Inr (Some m))
        else Inr (ss_guessed st)) = Inr (guess_at n c pl (s @ chunk))"
      using True False fd st(2) unfolding guess_at_def
      by (cases "containerLayoutOf (take BLOCK (s @ chunk))") (auto simp del: take_append)
    have e: "ss_early st @ chunk = s @ chunk" "\<not> ss_decided st" "BLOCK \<le> length (s @ chunk) \<or> ss_pos st + length chunk = n"
      using False True d st by simp_all
    show ?thesis
      unfolding guess_step_def Let_def e(1) g if_P [OF e(2)] if_P [OF e(3)] rbind_Inr using True by simp
  next
    case F: False
    then show ?thesis using False d st by (auto simp: guess_step_def Let_def guess_at_def)
  qed
qed

lemma stream_step_at:
  assumes "length c = 32" "pl \<noteq> Some Produced1" "length s + length chunk \<le> n"
  shows "stream_step n c pl (stream_at n c pl fused s) chunk = Inr (stream_at n c pl fused (s @ chunk))"
proof (cases "chunk = []")
  case False
  let ?st = "stream_at n c pl fused s"
  let ?mid = "?st\<lparr>ss_whole := s @ chunk, ss_fused := map_option (\<lambda>h. h @ s @ chunk) fused, ss_head := take HEAD (s @ chunk),
    ss_tail := last_bytes TRAILER_LENGTH (s @ chunk)\<rparr>"
  let ?fed = "?mid\<lparr>ss_asked := map_option (\<lambda>p. machine_at n c p (s @ chunk)) pl\<rparr>"
  have a: "feed_opt n c (map_option (\<lambda>p. machine_at n c p s) pl) chunk (length s) = Inr (map_option (\<lambda>p. machine_at n c p (s @ chunk)) pl)"
    using assms(1,2) feed_at by (cases pl) (auto simp: feed_opt_def)
  have f: "map_option (\<lambda>h. h @ chunk) (map_option (\<lambda>h. h @ s) fused) = map_option (\<lambda>h. h @ s @ chunk) fused"
    by (cases fused) simp_all
  have st: "ss_whole ?st = s" "ss_fused ?st = map_option (\<lambda>h. h @ s) fused" "ss_head ?st = take HEAD s"
    "ss_tail ?st = last_bytes TRAILER_LENGTH s" by (simp_all add: stream_at_def)
  have st0: "?st\<lparr>ss_whole := ss_whole ?st @ chunk, ss_fused := map_option (\<lambda>h. h @ chunk) (ss_fused ?st),
      ss_head := (if length (ss_head ?st) < HEAD then ss_head ?st @ take (HEAD - length (ss_head ?st)) chunk else ss_head ?st),
      ss_tail := last_bytes TRAILER_LENGTH (ss_tail ?st @ chunk)\<rparr> = ?mid"
    unfolding st by (simp only: head_step tail_step f)
  have g: "guess_step n c pl ?fed chunk = Inr (?fed\<lparr>ss_guessed := guess_at n c pl (s @ chunk),
      ss_early := (if decided_at n (s @ chunk) then [] else s @ chunk), ss_decided := decided_at n (s @ chunk)\<rparr>)"
    using assms(1) False assms(3) by (rule guess_step_at) (simp_all add: stream_at_def)
  have p: "feed_opt n c (ss_asked ?mid) chunk (ss_pos ?mid) = Inr (ss_asked ?fed)" "\<not> n < ss_pos ?st + length chunk"
    using a assms(3) by (simp_all add: stream_at_def)
  have "stream_step n c pl ?st chunk = rbind (guess_step n c pl ?fed chunk) (\<lambda>st2. Inr (st2\<lparr>ss_pos := ss_pos st2 + length chunk\<rparr>))"
    unfolding stream_step_def Let_def st0 p(1) using False p(2) by simp
  then show ?thesis unfolding g by (simp add: stream_at_def)
qed (simp add: stream_step_def)

lemma stream_loop_at:
  assumes "length c = 32" "pl \<noteq> Some Produced1" "length s + length (concat chunks) \<le> n"
  shows "stream_loop n c pl (stream_at n c pl fused s) chunks = Inr (stream_at n c pl fused (s @ concat chunks))"
  using assms(3)
proof (induction chunks arbitrary: s)
  case (Cons chunk chunks)
  then show ?case using stream_step_at [OF assms(1,2), of s chunk n fused] Cons.IH [of "s @ chunk"] by simp
qed simp

subsection \<open>The whole pass\<close>

lemma trailer_carries:
  assumes "hash32 H" "reads_payloads json" "length c = 32"
  shows "(TRAILER_LENGTH \<le> length f \<and> slice 0 8 (last_bytes TRAILER_LENGTH f) = TRAILER_MAGIC
      \<and> list_all (\<lambda>b. b = 0) (slice 8 16 (last_bytes TRAILER_LENGTH f)) \<and> slice 16 48 (last_bytes TRAILER_LENGTH f) = c)
    \<longleftrightarrow> (\<exists>b. placement_build H Trailer1 (Some b) None c = Inr f)" (is "?l \<longleftrightarrow> _")
proof -
  have "?l \<longleftrightarrow> (\<exists>l. trailer1_locate f = Some l \<and> lo_commitment l = c)"
    by (auto simp: trailer1_locate_def Let_def last_bytes_def not_less)
  then show ?thesis
    using located_commitment [OF assms(1,2), of Trailer1 f c] by (simp add: placement_locate_def)
qed

lemma guess_carries:
  assumes "length c = 32" "hash32 H" "reads_payloads json"
  shows "\<exists>g. finish_opt H json c (guess_at (length f) c pl f) = Inr g
    \<and> (direct_ok g \<longleftrightarrow> (\<exists>p b. (p = Container1 \<or> p = Container2) \<and> pl \<noteq> Some p \<and> placement_build H p (Some b) None c = Inr f))"
proof (cases "guess_at (length f) c pl f")
  case None
  have False if "p = Container1 \<or> p = Container2" "pl \<noteq> Some p" "placement_build H p (Some b) None c = Inr f" for p b
  proof -
    have "m_failed (new_machine (length f) p) = None" using settled_build [OF assms(1,2) _ that(3)] that(1) by auto
    then have "BLOCK \<le> length f" using that(1) by (auto simp: new_machine_def Let_def prefixLength_def split: if_splits)
    then have "decided_at (length f) f" by (auto simp: decided_at_def BLOCK_def)
    with None build_layout [OF that(1,3)] that(2) show False by (auto simp: guess_at_def split: if_splits)
  qed
  with None show ?thesis by (auto simp: finish_opt_def direct_ok_def)
next
  case (Some m)
  then obtain l where l: "containerLayoutOf (take BLOCK f) = Some l" "pl \<noteq> Some l" "m = machine_at (length f) c l f"
    by (auto simp: guess_at_def split: if_splits option.splits)
  have lc: "l = Container1 \<or> l = Container2" using layout_container [OF l(1)] .
  then have np: "l \<noteq> Produced1" by auto
  obtain d where d: "finish_machine H json c m = Inr d" using finish_total [OF assms(1,2) np] l(3) by blast
  have "direct_ok (Some d) \<longleftrightarrow> (\<exists>b. placement_build H l (Some b) None c = Inr f)"
  proof
    assume "direct_ok (Some d)"
    then obtain o' k where "d = DirectOk o' k" by (auto simp: direct_ok_def split: direct_check.splits)
    then show "\<exists>b. placement_build H l (Some b) None c = Inr f" using finish_ok [OF assms(1) np] d l(3) by blast
  next
    assume "\<exists>b. placement_build H l (Some b) None c = Inr f"
    then show "direct_ok (Some d)" using finish_build [OF assms(1-3) np] d l(3) by (auto simp: direct_ok_def)
  qed
  moreover have "p = l" if "p = Container1 \<or> p = Container2" "placement_build H p (Some b) None c = Inr f" for p b
    using build_layout [OF that] l(1) by simp
  ultimately show ?thesis using Some d l(2) lc by (auto simp: finish_opt_def)
qed

definition source_of :: "bytes list \<Rightarrow> byte_source" where
  "source_of chunks = \<lparr>src_size = int (length (concat chunks)), src_chunks = chunks\<rparr>"

definition trailer_at_end :: "bytes \<Rightarrow> bytes \<Rightarrow> bool" where
  "trailer_at_end f c \<longleftrightarrow> TRAILER_LENGTH \<le> length f \<and> slice 0 8 (last_bytes TRAILER_LENGTH f) = TRAILER_MAGIC
     \<and> list_all (\<lambda>b. b = 0) (slice 8 16 (last_bytes TRAILER_LENGTH f)) \<and> slice 16 48 (last_bytes TRAILER_LENGTH f) = c"

text \<open>What the pass returns, as a function of the whole file.\<close>

lemma stream_value:
  assumes "length c = 32" "pl \<noteq> Some Produced1" "length (concat chunks) \<le> 9007199254740991" and f: "f = concat chunks"
  shows "streamLeafCheck H json (source_of chunks) pl c origin =
    rbind (frame_around (length f) pl c origin) (\<lambda>(fused, fusedSuffix).
    rbind (finish_opt H json c (map_option (\<lambda>p. machine_at (length f) c p f) pl)) (\<lambda>direct.
      let result = (\<lambda>carries. \<lparr>sc_size = length f, sc_digest = H f, sc_head = take HEAD f,
            sc_fusedFromOrigin = map_option (\<lambda>h. H (h @ f @ fusedSuffix)) fused, sc_direct = direct, sc_carriesCommitment = carries\<rparr>) in
      if pl \<noteq> Some Trailer1 \<and> direct_ok direct then Inr (result True)
      else rbind (finish_opt H json c (guess_at (length f) c pl f)) (\<lambda>g. Inr (result (trailer_at_end f c \<or> direct_ok g)))))"
proof -
  have n: "nat (src_size (source_of chunks)) = length f" "src_chunks (source_of chunks) = chunks"
    "\<not> (src_size (source_of chunks) < 0 \<or> 9007199254740991 < src_size (source_of chunks))"
    using assms(3) by (simp_all add: source_of_def f)
  have start: "\<lparr>ss_pos = 0, ss_whole = [], ss_fused = fused, ss_head = [], ss_tail = [], ss_asked = map_option (new_machine (length f)) pl,
      ss_guessed = None, ss_early = [], ss_decided = False\<rparr> = stream_at (length f) c pl fused []" for fused
    using assms(2) by (cases pl; cases fused)
      (auto simp: stream_at_def guess_at_def decided_at_def last_bytes_def machine_at_start)
  have loop: "stream_loop (length f) c pl (stream_at (length f) c pl fused []) chunks = Inr (stream_at (length f) c pl fused f)" for fused
    using stream_loop_at [OF assms(1,2), of "[]" chunks "length f" fused] by (simp add: f)
  have fu: "map_option (\<lambda>h. H (h @ fusedSuffix)) (map_option (\<lambda>h. h @ f) fused) = map_option (\<lambda>h. H (h @ f @ fusedSuffix)) fused"
    for fused fusedSuffix by (cases fused) simp_all
  show ?thesis
    unfolding streamLeafCheck_def Let_def n start loop if_not_P [OF n(3)]
    using assms(1,2) by (simp add: stream_at_def fu trailer_at_end_def cong: if_cong)
qed

definition direct_right :: "hashfun \<Rightarrow> bytes \<Rightarrow> bytes \<Rightarrow> placement \<Rightarrow> direct_check \<Rightarrow> bool" where
  "direct_right H c f p d \<longleftrightarrow> (\<forall>h k. d = DirectOk h k \<longleftrightarrow>
     (\<exists>b. placement_build H p (Some b) None c = Inr f \<and> h = H b \<and> k = length b))"

lemma direct_right_ok: "direct_right H c f p d \<Longrightarrow> direct_ok (Some d) \<longleftrightarrow> (\<exists>b. placement_build H p (Some b) None c = Inr f)"
  by (cases d) (auto simp: direct_right_def direct_ok_def)

lemma direct_value:
  assumes "length c = 32" "hash32 H" "reads_payloads json" "p \<noteq> Produced1"
  shows "\<exists>d. finish_opt H json c (Some (machine_at (length f) c p f)) = Inr (Some d)
    \<and> direct_right H c f p d"
proof -
  obtain d where d: "finish_machine H json c (machine_at (length f) c p f) = Inr d"
    using finish_total [OF assms(1,2,4)] by blast
  have "d = DirectOk h k \<longleftrightarrow> (\<exists>b. placement_build H p (Some b) None c = Inr f \<and> h = H b \<and> k = length b)" for h k
  proof
    assume "d = DirectOk h k"
    then show "\<exists>b. placement_build H p (Some b) None c = Inr f \<and> h = H b \<and> k = length b"
      using finish_ok [OF assms(1,4)] d by blast
  next
    assume "\<exists>b. placement_build H p (Some b) None c = Inr f \<and> h = H b \<and> k = length b"
    then obtain b where b: "placement_build H p (Some b) None c = Inr f" "h = H b" "k = length b" by blast
    then show "d = DirectOk h k" using finish_build [OF assms b(1)] d by simp
  qed
  then show ?thesis using d by (auto simp: finish_opt_def direct_right_def)
qed

lemma carries_split:
  assumes "pl \<noteq> Some Produced1"
  shows "(\<exists>p. p \<noteq> Produced1 \<and> B p) \<longleftrightarrow> (pl \<noteq> Some Trailer1 \<and> (\<exists>p. pl = Some p \<and> B p)) \<or> B Trailer1
    \<or> (\<exists>p. (p = Container1 \<or> p = Container2) \<and> pl \<noteq> Some p \<and> B p)"
proof -
  have ex: "(\<exists>p. p \<noteq> Produced1 \<and> B p) \<longleftrightarrow> B Trailer1 \<or> B Container1 \<or> B Container2"
    by (metis placement.distinct placement.exhaust)
  show ?thesis
  proof (cases pl)
    case (Some p)
    with assms show ?thesis unfolding ex by (cases p) auto
  qed (simp add: ex, blast)
qed

lemma stream_result:
  assumes c: "length c = 32" and H: "hash32 H" and J: "reads_payloads json" and pl: "pl \<noteq> Some Produced1"
    and n: "length (concat chunks) \<le> 9007199254740991" and f: "f = concat chunks"
    and fr: "frame_around (length f) pl c origin = Inr (fused, sx)"
  shows "\<exists>r. streamLeafCheck H json (source_of chunks) pl c origin = Inr r \<and> sc_size r = length f \<and> sc_digest r = H f
    \<and> sc_head r = take HEAD f \<and> sc_fusedFromOrigin r = map_option (\<lambda>h. H (h @ f @ sx)) fused
    \<and> sc_carriesCommitment r = carriesCommitment H json f c
    \<and> (case pl of None \<Rightarrow> sc_direct r = None
       | Some p \<Rightarrow> (\<exists>d. sc_direct r = Some d \<and> direct_right H c f p d))"
proof -
  define asked where "asked d \<longleftrightarrow> (case pl of None \<Rightarrow> d = None | Some p \<Rightarrow> (\<exists>e. d = Some e \<and> direct_right H c f p e))" for d
  obtain d where d: "finish_opt H json c (map_option (\<lambda>p. machine_at (length f) c p f) pl) = Inr d" "asked d"
  proof (cases pl)
    case None
    then show ?thesis using that [of None] by (simp add: finish_opt_def asked_def)
  next
    case (Some p)
    then show ?thesis using direct_value [OF c H J, of p f] pl that by (auto simp: asked_def)
  qed
  obtain g where g: "finish_opt H json c (guess_at (length f) c pl f) = Inr g"
    "direct_ok g \<longleftrightarrow> (\<exists>p b. (p = Container1 \<or> p = Container2) \<and> pl \<noteq> Some p \<and> placement_build H p (Some b) None c = Inr f)"
    using guess_carries [OF c H J, of f pl] by (elim exE conjE) (rule that)
  have ok: "direct_ok d \<longleftrightarrow> (\<exists>p b. pl = Some p \<and> placement_build H p (Some b) None c = Inr f)"
  proof (cases pl)
    case None
    then show ?thesis using d(2) by (simp add: asked_def direct_ok_def)
  next
    case (Some p)
    then obtain e where e: "d = Some e" "direct_right H c f p e" using d(2) by (auto simp: asked_def)
    show ?thesis unfolding e(1) direct_right_ok [OF e(2)] Some by simp
  qed
  have t: "trailer_at_end f c \<longleftrightarrow> (\<exists>b. placement_build H Trailer1 (Some b) None c = Inr f)"
    unfolding trailer_at_end_def using trailer_carries [OF H J c] .
  have carries: "carriesCommitment H json f c \<longleftrightarrow> (pl \<noteq> Some Trailer1 \<and> direct_ok d) \<or> trailer_at_end f c \<or> direct_ok g"
    unfolding carries_iff [OF H J] t ok g(2) using carries_split [OF pl, of "\<lambda>p. \<exists>b. placement_build H p (Some b) None c = Inr f"] by simp
  show ?thesis
    unfolding asked_def [symmetric] using d g(1) carries by (simp add: stream_value [OF c pl n f] fr Let_def)
qed

lemma frame_around_fits:
  assumes "length c = 32" "hash32 H" "pl \<noteq> Produced1" "pl = Trailer1 \<or> length f \<le> MAX_ENTRY"
  shows "\<exists>p sx. frame_around (length f) (Some pl) c (Some (H f)) = Inr (Some p, sx)
    \<and> placement_build H pl (Some f) None c = Inr (p @ f @ sx)"
proof -
  obtain g where "placement_build H pl (Some f) None c = Inr g"
    using placement_total [OF assms(2,3)] assms(1,4) by blast
  then obtain p sx where "frame_of pl (length f) (H f) c = Inr (p, sx)" "g = p @ f @ sx"
    using build_frame [OF assms(3)] by blast
  with \<open>placement_build H pl (Some f) None c = Inr g\<close> show ?thesis by (auto simp: frame_around_def)
qed

lemma frame_around_throws:
  assumes "length c = 32" "length d = 32" "pl = Container1 \<or> pl = Container2" "MAX_ENTRY < n"
  shows "frame_around n (Some pl) c (Some d) = Inl (RangeError ''container entries are limited to 8 GiB'')"
proof -
  have m: "buildFusePayload c (Some d) = Inr (payload_bytes c (Some d))" "length (payload_bytes c (Some d)) = 250"
    using assms length_payload by (auto simp: buildFusePayload_iff)
  obtain hm where "ustarHeader CONTAINER_MANIFEST_PATH 250 = Inr hm"
    using ustarHeader_ok [of 250, OF _ path_lengths(1)] by (auto simp: MAX_ENTRY_def)
  moreover have "ustarHeader CONTAINER_ORIGINAL_PATH n = Inl (RangeError ''container entries are limited to 8 GiB'')"
    using assms(4) by (simp add: ustarHeader_def)
  ultimately show ?thesis
    using m assms(3) by (auto simp: frame_around_def frame_of_def placement_frame_def container1_frame_def container2_frame_def)
qed

text \<open>C9: One pass, any chunks. However a file of at most \<open>2 ^ 53 - 1\<close> bytes is cut into chunks, the streamed check
  returns what the in-memory functions say of the whole file: its digest and first 64 bytes; for a placement that was
  asked, that the bytes are that placement of some original (with the original's digest and length) exactly when the
  builder makes them from it; the digest of the committed bytes the file would give; and whether the locators find the
  commitment under any placement. A container can only be asked of a file that fits an archive entry: the code throws
  for a longer one (the second part).\<close>

theorem stream_any_chunks:
  assumes "hash32 H" "reads_payloads json" "length c = 32" "pl \<noteq> Produced1" "length (concat chunks) \<le> 9007199254740991"
  shows "(pl = Trailer1 \<or> length (concat chunks) \<le> MAX_ENTRY \<longrightarrow>
      (\<exists>r d. streamLeafCheck H json (source_of chunks) (Some pl) c (Some (H (concat chunks))) = Inr r
        \<and> sc_digest r = H (concat chunks) \<and> sc_head r = take 64 (concat chunks)
        \<and> sc_carriesCommitment r = carriesCommitment H json (concat chunks) c
        \<and> sc_direct r = Some d \<and> (\<forall>h k. d = DirectOk h k \<longleftrightarrow>
            (\<exists>b. placement_build H pl (Some b) None c = Inr (concat chunks) \<and> h = H b \<and> k = length b))
        \<and> (\<exists>f. placement_build H pl (Some (concat chunks)) None c = Inr f \<and> sc_fusedFromOrigin r = Some (H f))))
    \<and> (pl \<noteq> Trailer1 \<and> MAX_ENTRY < length (concat chunks) \<longrightarrow>
      streamLeafCheck H json (source_of chunks) (Some pl) c (Some (H (concat chunks)))
        = Inl (RangeError ''container entries are limited to 8 GiB''))"
proof (intro conjI impI)
  let ?f = "concat chunks"
  have pl: "Some pl \<noteq> Some Produced1" using assms(4) by simp
  assume "pl = Trailer1 \<or> length ?f \<le> MAX_ENTRY"
  from frame_around_fits [OF assms(3,1,4) this] obtain p sx where
    fr: "frame_around (length ?f) (Some pl) c (Some (H ?f)) = Inr (Some p, sx)"
      "placement_build H pl (Some ?f) None c = Inr (p @ ?f @ sx)" by blast
  note sr = stream_result [OF assms(3,1,2) pl assms(5) refl fr(1)]
  obtain r d where r: "streamLeafCheck H json (source_of chunks) (Some pl) c (Some (H ?f)) = Inr r"
    "sc_digest r = H ?f" "sc_head r = take HEAD ?f" "sc_fusedFromOrigin r = Some (H (p @ ?f @ sx))"
    "sc_carriesCommitment r = carriesCommitment H json ?f c" "sc_direct r = Some d"
    and d: "direct_right H c ?f pl d"
  proof -
    from sr obtain r where r: "streamLeafCheck H json (source_of chunks) (Some pl) c (Some (H ?f)) = Inr r"
      "sc_digest r = H ?f" "sc_head r = take HEAD ?f" "sc_fusedFromOrigin r = map_option (\<lambda>h. H (h @ ?f @ sx)) (Some p)"
      "sc_carriesCommitment r = carriesCommitment H json ?f c" "\<exists>d. sc_direct r = Some d \<and> direct_right H c ?f pl d"
      unfolding option.case by blast
    then obtain d where "sc_direct r = Some d" "direct_right H c ?f pl d" by blast
    with r show thesis by (intro that [of r d]) simp_all
  qed
  show "\<exists>r d. streamLeafCheck H json (source_of chunks) (Some pl) c (Some (H ?f)) = Inr r
        \<and> sc_digest r = H ?f \<and> sc_head r = take 64 ?f
        \<and> sc_carriesCommitment r = carriesCommitment H json ?f c
        \<and> sc_direct r = Some d \<and> (\<forall>h k. d = DirectOk h k \<longleftrightarrow>
            (\<exists>b. placement_build H pl (Some b) None c = Inr ?f \<and> h = H b \<and> k = length b))
        \<and> (\<exists>f. placement_build H pl (Some ?f) None c = Inr f \<and> sc_fusedFromOrigin r = Some (H f))"
    using r d fr(2) unfolding HEAD_def direct_right_def by (intro exI [of _ r] exI [of _ d] conjI) blast+
next
  assume a: "pl \<noteq> Trailer1 \<and> MAX_ENTRY < length (concat chunks)"
  then have "pl = Container1 \<or> pl = Container2" using assms(4) by (cases pl) simp_all
  then show "streamLeafCheck H json (source_of chunks) (Some pl) c (Some (H (concat chunks)))
        = Inl (RangeError ''container entries are limited to 8 GiB'')"
    using a assms by (simp add: stream_value [OF assms(3) _ assms(5) refl] frame_around_throws hash32_def)
qed

theorem stream_any_chunks_witness:
  "\<exists>r. streamLeafCheck head_hash demo_json (source_of [[1], [2, 3]]) (Some Trailer1) (replicate 32 5) (Some (head_hash [1, 2, 3])) = Inr r
    \<and> sc_digest r = head_hash [1, 2, 3]"
  using stream_any_chunks [OF head_hash32 demo_json_reads, of "replicate 32 5" Trailer1 "[[1], [2, 3]]"] by auto

end
