(* ===== verification/BG_Tree_Member.thy ===== *)
theory BG_Tree_Member
  imports BG_Stream
begin

text \<open>
  \<^verbatim>\<open>verifyTreeMember\<close> of \<^verbatim>\<open>packages/verify/src/tree.ts\<close>, with the file in hand as bytes or as a source of chunks, and
  \<^verbatim>\<open>spanOf\<close> of \<^verbatim>\<open>fuse-verify.ts\<close>. The lemmas: a source gives the verdict the bytes give; what each member category
  establishes; with the Merkle binding, the file is a listed leaf; and the evidence a producer makes is accepted.
\<close>

subsection \<open>The span of a fused proof\<close>

record fuse_span =
  sp_slotCounter :: jsstr
  sp_commitCounter :: jsstr
  sp_epochId :: jsstr
  sp_chainId :: "jsstr option"
  sp_positions :: jsstr

definition spanOf :: "jv \<Rightarrow> fuse_span option" where
  "spanOf proof = (let c = fld proof ''commit'' in
     if \<not> (is_str (fld c ''counter'') \<and> is_str (fld c ''slotCounter'') \<and> is_str (fld c ''epochId'')) then None
     else (case (js_bigint (str_of (fld c ''counter'')), js_bigint (str_of (fld c ''slotCounter''))) of
       (Some m, Some n) \<Rightarrow> Some \<lparr>sp_slotCounter = str_of (fld c ''slotCounter''), sp_commitCounter = str_of (fld c ''counter''),
          sp_epochId = str_of (fld c ''epochId''),
          sp_chainId = (if is_str (fld c ''chainId'') then Some (str_of (fld c ''chainId'')) else None),
          sp_positions = int_units (m - n)\<rparr>
     | _ \<Rightarrow> None))"

subsection \<open>The verdict\<close>

datatype tree_category =
    TREE_MEMBER_DIRECT | TREE_MEMBER_FROM_ORIGIN | TREE_MEMBER_AS_IS | TREE_PATH_VALID | TREE_ROOT_VALID
  | TREE_MEMBERSHIP_UNPROVEN | NO_MATCH | RECONSTRUCTION_MISMATCH | INVALID_ORIGIN | INVALID_TREE_PATH | INVALID_TREE_ROOT
  | INVALID_SLOT_COMMITMENT | INVALID_TREE_MARKER | UNKNOWN_SPEC | INVALID_UNDERLYING_PROOF | NOT_TREE

definition TREE_MEMBER_CATEGORIES :: "tree_category list" where
  "TREE_MEMBER_CATEGORIES = [TREE_MEMBER_DIRECT, TREE_MEMBER_FROM_ORIGIN, TREE_MEMBER_AS_IS]"

datatype floor_covers = CoversContent | CoversRecord

record member_shown =
  ms_index :: nat
  ms_count :: nat
  ms_placement :: string
  ms_artifactHex :: jsstr
  ms_originHex :: jsstr

record tree_result =
  tv_category :: tree_category
  tv_reason :: jsstr
  tv_proof :: "bool \<times> string option"
  tv_specHashB64 :: "jsstr option"
  tv_tree :: "(nat \<times> jsstr \<times> jsstr) option"
  tv_member :: "member_shown option"
  tv_floorCovers :: "floor_covers option"
  tv_span :: "fuse_span option"

record tree_options =
  to_proof :: jv
  to_bytes :: "bytes option"
  to_source :: "byte_source option"
  to_member :: jv
  to_rootDocument :: "bytes option"
  to_trustAnchors :: "verification_policy option"
  to_extraSpecHashes :: "jsstr list"
  to_proofAlreadyVerified :: bool

definition tree_base :: "jv \<Rightarrow> tree_category \<Rightarrow> jsstr \<Rightarrow> tree_result" where
  "tree_base proof category reason = \<lparr>tv_category = category, tv_reason = reason, tv_proof = (False, None), tv_specHashB64 = None,
     tv_tree = None, tv_member = None, tv_floorCovers = None, tv_span = (if truthy (fld proof ''commit'') then spanOf proof else None)\<rparr>"

fun err_message :: "err \<Rightarrow> string" where
  "err_message (TypeError m) = m"
| "err_message (RangeError m) = m"
| "err_message (JsError m) = m"

text \<open>Step 1: the proof itself. \<open>Inl\<close> is an early return.\<close>

definition check_proof :: "crypto \<Rightarrow> tree_options \<Rightarrow> (tree_result + (bool \<times> string option)) res" where
  "check_proof C opts =
     (if to_proofAlreadyVerified opts then Inr (Inr (True, None))
      else case fst (verifyProofIntegrity C (to_proof opts) (to_trustAnchors opts) createVerificationContext) of
        Valid \<Rightarrow> Inr (Inr (True, None))
      | Invalid m \<Rightarrow> Inr (Inl ((tree_base (to_proof opts) INVALID_UNDERLYING_PROOF
          (u16 ''the proof does not verify ('' @ u16 m @ u16 '')''))\<lparr>tv_proof := (False, Some m)\<rparr>))
      | Threw e \<Rightarrow> Inl e)"

text \<open>Step 2: the signed marker and the pinned spec; the result is the spec hash.\<close>

definition check_marker :: "tree_options \<Rightarrow> (bool \<times> string option) \<Rightarrow> tree_result + jsstr" where
  "check_marker opts pr =
     (let proof = to_proof opts; a = fld proof ''attribution''; v = fuseVersionOfName (fld a ''name''); message = fld a ''message'' in
      if v \<noteq> Some 2 \<and> v \<noteq> Some 3
      then Inl ((tree_base proof INVALID_TREE_MARKER
        (u16 ''a tree/1 proof must be marked bitgraph-fuse/2 or bitgraph-fuse/3, which bind the floor block into the commitment''))\<lparr>tv_proof := pr\<rparr>)
      else if \<not> (is_str message \<and> (\<exists>b. base64ToBytes (str_of message) = Some b \<and> length b = 32))
      then Inl ((tree_base proof INVALID_TREE_MARKER
        (u16 ''a tree/1 proof must pin its spec: the signed message is the base64 SHA-256 of SPEC.md''))\<lparr>tv_proof := pr\<rparr>)
      else let spec = str_of message in
        if spec \<notin> set KNOWN_TREE_SPEC_HASHES \<union> set (to_extraSpecHashes opts)
        then Inl ((tree_base proof UNKNOWN_SPEC (u16 ''the proof follows a spec this verifier does not know ('' @ spec @ u16 '')''))
          \<lparr>tv_proof := pr, tv_specHashB64 := Some spec\<rparr>)
        else (case TREE_SPEC_FUSE_VERSION spec of
            Some required \<Rightarrow> if Some required \<noteq> v
              then Inl ((tree_base proof INVALID_TREE_MARKER (u16 ''the proof pins a spec that defines tree/1 under bitgraph-fuse/''
                @ int_units (int required) @ u16 '', but is marked bitgraph-fuse/'' @ int_units (int (the v))))
                \<lparr>tv_proof := pr, tv_specHashB64 := Some spec\<rparr>)
              else Inr spec
          | None \<Rightarrow> Inr spec))"

text \<open>Steps 3 and 4: the commitment of the proof's own slot, and the root document that carries it.\<close>

definition check_root :: "hashfun \<Rightarrow> tree_options \<Rightarrow> (bool \<times> string option) \<Rightarrow> jsstr \<Rightarrow> (tree_result + (bytes \<times> root_doc)) res" where
  "check_root H opts pr spec =
     (let proof = to_proof opts;
          refuse = (\<lambda>category reason. Inr (Inl ((tree_base proof category reason)\<lparr>tv_proof := pr, tv_specHashB64 := Some spec\<rparr>))) in
      if \<not> truthy (fld proof ''slotAllocation'')
      then refuse INVALID_SLOT_COMMITMENT (u16 ''the proof carries no slot record, so no commitment can be recomputed'')
      else case commitmentForProof H proof (fld proof ''slotAllocation'') of
        Inl e \<Rightarrow> refuse INVALID_SLOT_COMMITMENT (u16 ''the commitment could not be recomputed: '' @ u16 (err_message e))
      | Inr commitment \<Rightarrow>
         (case (case to_rootDocument opts of Some d \<Rightarrow> Some d | None \<Rightarrow> readTreeMetadata proof) of
            None \<Rightarrow> refuse INVALID_TREE_ROOT (u16 ''no root document is in hand (neither supplied nor in the proof's metadata)'')
          | Some docBytes \<Rightarrow> (case parseTreeRootDocument docBytes of
              None \<Rightarrow> refuse INVALID_TREE_ROOT (u16 ''the root document is not 84 bytes of tree/1'')
            | Some doc \<Rightarrow> rbind (get (fld proof ''artifact'') ''digestB64'') (\<lambda>d.
                if (if is_str d then base64ToBytes (str_of d) else None) \<noteq> Some (H docBytes)
                then refuse INVALID_TREE_ROOT (u16 ''the root document does not hash to the signed artifact digest'')
                else if rd_commitment doc \<noteq> commitment
                then refuse INVALID_SLOT_COMMITMENT
                  (u16 ''the root document's commitment is not the one recomputed from the proof's slot record and floor block'')
                else Inr (Inr (commitment, doc))))))"

definition leaf_label :: "tree_member \<Rightarrow> jsstr" where
  "leaf_label ev = int_units (int (tm_index ev)) @ u16 '' of '' @ int_units (int (tm_count ev))"

definition shown_member :: "tree_member \<Rightarrow> member_shown" where
  "shown_member ev = \<lparr>ms_index = tm_index ev, ms_count = tm_count ev,
     ms_placement = leaf_name (the (LEAF_PLACEMENTS (tl_placement (tm_leaf ev)))),
     ms_artifactHex = hex_text (tl_artifact (tm_leaf ev)), ms_originHex = hex_text (tl_origin (tm_leaf ev))\<rparr>"

text \<open>Step 6: the file against the leaf: category, reason and what the floor covers.\<close>

type_synonym file_verdict = "tree_category \<times> jsstr \<times> floor_covers option"

definition as_is_verdict :: "tree_member \<Rightarrow> file_verdict" where
  "as_is_verdict ev = (TREE_MEMBER_AS_IS, u16 ''this file is leaf '' @ leaf_label ev
     @ u16 '', recorded as is: the record was made after the floor block; the bytes themselves are not dated'', Some CoversRecord)"

definition direct_verdict :: "tree_member \<Rightarrow> file_verdict" where
  "direct_verdict ev = (TREE_MEMBER_DIRECT, u16 ''these are the committed bytes of leaf '' @ leaf_label ev
     @ u16 ''; they were finished after the floor block'', Some CoversContent)"

definition origin_verdict :: "tree_member \<Rightarrow> file_verdict" where
  "origin_verdict ev = (TREE_MEMBER_FROM_ORIGIN, u16 ''this file rebuilds the committed bytes of leaf '' @ leaf_label ev
     @ u16 ''; the committed bytes were finished after the floor block, and this original is not dated by it'', Some CoversContent)"

definition not_carrying :: "tree_member \<Rightarrow> jsstr \<Rightarrow> file_verdict" where
  "not_carrying ev why = (INVALID_SLOT_COMMITMENT, u16 ''the bytes match leaf '' @ int_units (int (tm_index ev)) @ u16 '' but are not a valid ''
     @ u16 (ms_placement (shown_member ev)) @ u16 '' carrying this position's commitment ('' @ why @ u16 '')'', None)"

definition bad_origin :: file_verdict where
  "bad_origin = (INVALID_ORIGIN, u16 ''the origin inside the committed bytes does not match the leaf's origin'', None)"

definition bad_rebuild :: "tree_member \<Rightarrow> file_verdict" where
  "bad_rebuild ev = (RECONSTRUCTION_MISMATCH, u16 ''this file is leaf '' @ int_units (int (tm_index ev))
     @ u16 (CHR 0x27 # ''s origin, but placing the commitment in it does not reproduce the committed digest''), None)"

definition no_leaf :: "bool \<Rightarrow> file_verdict" where
  "no_leaf carries = (if carries
     then (TREE_MEMBERSHIP_UNPROVEN, u16 ''these bytes carry this position's commitment, but the evidence in hand describes a different leaf'', None)
     else (NO_MATCH, u16 ''the file is neither this leaf's committed bytes nor its origin'', None))"

definition judge_bytes :: "hashfun \<Rightarrow> (bytes \<Rightarrow> jv option) \<Rightarrow> bytes \<Rightarrow> tree_member \<Rightarrow> bytes \<Rightarrow> file_verdict res" where
  "judge_bytes H json commitment ev fileBytes =
     (let leaf = tm_leaf ev in
      if H fileBytes = tl_artifact leaf then
        (case LEAF_PLACEMENTS (tl_placement leaf) of
           Some (Placed pl) \<Rightarrow>
             (case placement_locate H json pl fileBytes of
                None \<Rightarrow> Inr (not_carrying ev (u16 ''its structure, the original's digest or the commitment does not hold''))
              | Some located \<Rightarrow>
                  if lo_commitment located \<noteq> commitment
                  then Inr (not_carrying ev (u16 ''its structure, the original's digest or the commitment does not hold''))
                  else let embedded = (case lo_originDigest located of Some d \<Rightarrow> Some d | None \<Rightarrow> map_option H (lo_originalBytes located)) in
                    if \<exists>d. embedded = Some d \<and> d \<noteq> tl_origin leaf then Inr bad_origin else Inr (direct_verdict ev))
         | _ \<Rightarrow> Inr (as_is_verdict ev))
      else if H fileBytes = tl_origin leaf \<and> tl_placement leaf \<noteq> 0 then
        rbind (committedBytesFor H (tl_placement leaf) fileBytes commitment) (\<lambda>rebuilt.
          Inr (if H rebuilt \<noteq> tl_artifact leaf then bad_rebuild ev else origin_verdict ev))
      else Inr (no_leaf (carriesCommitment H json fileBytes commitment)))"

definition leaf_stream_placement :: "tree_leaf \<Rightarrow> placement option" where
  "leaf_stream_placement leaf = (case LEAF_PLACEMENTS (tl_placement leaf) of Some (Placed pl) \<Rightarrow> Some pl | _ \<Rightarrow> None)"

definition judge_source :: "hashfun \<Rightarrow> (bytes \<Rightarrow> jv option) \<Rightarrow> bytes \<Rightarrow> tree_member \<Rightarrow> byte_source \<Rightarrow> file_verdict res" where
  "judge_source H json commitment ev source =
     (let leaf = tm_leaf ev in
      rbind (streamLeafCheck H json source (leaf_stream_placement leaf) commitment (Some (tl_origin leaf))) (\<lambda>scan.
        if sc_digest scan = tl_artifact leaf then
          (if tl_placement leaf = 0 then Inr (as_is_verdict ev)
           else case sc_direct scan of
             Some (DirectOk embeddedOrigin _) \<Rightarrow>
               Inr (if embeddedOrigin \<noteq> tl_origin leaf then bad_origin else direct_verdict ev)
           | Some (DirectBad reason) \<Rightarrow> Inr (not_carrying ev (u16 reason))
           | None \<Rightarrow> Inr (not_carrying ev (u16 ''no layout was checked'')))
        else if sc_digest scan = tl_origin leaf \<and> tl_placement leaf \<noteq> 0 then
          Inr (if sc_fusedFromOrigin scan \<noteq> Some (tl_artifact leaf) then bad_rebuild ev else origin_verdict ev)
        else Inr (no_leaf (sc_carriesCommitment scan))))"

text \<open>Step 5: the member's path to the root, then the file.\<close>

definition check_member :: "hashfun \<Rightarrow> (bytes \<Rightarrow> jv option) \<Rightarrow> tree_options \<Rightarrow> (bool \<times> string option) \<Rightarrow> jsstr \<Rightarrow> bytes \<Rightarrow> root_doc
    \<Rightarrow> tree_result res" where
  "check_member H json opts pr spec commitment doc =
     (let rooted = (\<lambda>category reason. (tree_base (to_proof opts) category reason)\<lparr>tv_proof := pr, tv_specHashB64 := Some spec,
            tv_tree := Some (rd_count doc, hex_text (rd_root doc), hex_text commitment)\<rparr>) in
      if to_bytes opts \<noteq> None \<and> to_source opts \<noteq> None
      then Inl (TypeError ''pass the file as bytes or as a source, not both'')
      else if to_member opts = JUndefined \<or> to_member opts = JNull then
        rbind (case (to_bytes opts, to_source opts) of
            (Some b, _) \<Rightarrow> Inr (carriesCommitment H json b commitment)
          | (None, Some source) \<Rightarrow> rbind (streamLeafCheck H json source None commitment None) (\<lambda>s. Inr (sc_carriesCommitment s))
          | (None, None) \<Rightarrow> Inr False) (\<lambda>carries.
        Inr (if carries then rooted TREE_MEMBERSHIP_UNPROVEN (u16 ''these bytes carry this position's commitment, so they were finished after the floor block, but no member evidence is in hand to show they are in the tree'')
          else if to_bytes opts \<noteq> None \<or> to_source opts \<noteq> None
          then rooted NO_MATCH (u16 ''no member evidence is in hand and the bytes carry no commitment to this position'')
          else rooted TREE_ROOT_VALID (u16 ''the proof is valid and commits a tree of '' @ int_units (int (rd_count doc)) @ u16 '' leaves'')))
      else (case parseTreeMemberEvidence (to_member opts) of
          None \<Rightarrow> Inr (rooted INVALID_TREE_PATH (u16 ''the member evidence is not well-formed tree/1 evidence''))
        | Some ev \<Rightarrow>
            if tm_count ev \<noteq> rd_count doc
            then Inr (rooted INVALID_TREE_PATH (u16 ''the evidence names a tree of '' @ int_units (int (tm_count ev))
              @ u16 '' leaves; the root document states '' @ int_units (int (rd_count doc))))
            else rbind (treeRootFromMember H (tm_leaf ev) (tm_index ev) (tm_count ev) (tm_path ev)) (\<lambda>reached.
              if reached \<noteq> Some (rd_root doc)
              then Inr (rooted INVALID_TREE_PATH (u16 ''the leaf and path do not recompute the committed root''))
              else let shown = (\<lambda>category reason. (rooted category reason)\<lparr>tv_member := Some (shown_member ev)\<rparr>);
                       answer = (\<lambda>(category, reason, covers). (shown category reason)\<lparr>tv_floorCovers := covers\<rparr>) in
                (case (to_source opts, to_bytes opts) of
                   (Some source, _) \<Rightarrow> rbind (judge_source H json commitment ev source) (\<lambda>v. Inr (answer v))
                 | (None, Some b) \<Rightarrow> rbind (judge_bytes H json commitment ev b) (\<lambda>v. Inr (answer v))
                 | (None, None) \<Rightarrow> Inr (shown TREE_PATH_VALID (u16 ''leaf '' @ leaf_label ev @ u16 '' is in the committed tree; no file was checked''))))))"

definition verifyTreeMember :: "crypto \<Rightarrow> (bytes \<Rightarrow> jv option) \<Rightarrow> tree_options \<Rightarrow> tree_result res" where
  "verifyTreeMember C json opts =
     (if \<not> isTreeProof (to_proof opts)
      then Inr (tree_base (to_proof opts) NOT_TREE (u16 ''the proof's signed title is not tree/1''))
      else rbind (check_proof C opts) (\<lambda>p. case p of Inl r \<Rightarrow> Inr r
        | Inr pr \<Rightarrow> (case check_marker opts pr of Inl r \<Rightarrow> Inr r
            | Inr spec \<Rightarrow> rbind (check_root (c_sha256 C) opts pr spec) (\<lambda>q. case q of Inl r \<Rightarrow> Inr r
                | Inr (commitment, doc) \<Rightarrow> check_member (c_sha256 C) json opts pr spec commitment doc))))"

subsection \<open>A source gives the verdict the bytes give\<close>

text \<open>Equal, but for the wording of why committed bytes do not carry the commitment.\<close>

definition same_verdict :: "file_verdict \<Rightarrow> file_verdict \<Rightarrow> bool" where
  "same_verdict v w \<longleftrightarrow> v = w \<or> fst w = INVALID_SLOT_COMMITMENT \<and> fst v = fst w \<and> snd (snd v) = snd (snd w)"

lemma no_leaf_same [simp]: "same_verdict v v"
  by (simp add: same_verdict_def)

definition same_judgement :: "file_verdict res \<Rightarrow> file_verdict res \<Rightarrow> bool" where
  "same_judgement r s \<longleftrightarrow> (case (r, s) of (Inr v, Inr w) \<Rightarrow> same_verdict v w | _ \<Rightarrow> False)"

lemma same_judgement_Inr [simp]: "same_judgement (Inr v) (Inr w) \<longleftrightarrow> same_verdict v w"
  by (simp add: same_judgement_def)

lemma leaf_placed:
  assumes "leaf_ok l" "tl_placement l \<noteq> 0"
  obtains pl where "LEAF_PLACEMENTS (tl_placement l) = Some (Placed pl)" "pl \<noteq> Produced1" "leaf_stream_placement l = Some pl"
proof -
  have "\<exists>pl. LEAF_PLACEMENTS (tl_placement l) = Some (Placed pl)"
    using assms registered [of "tl_placement l"] by (auto simp: leaf_ok_def LEAF_PLACEMENTS_def)
  then show ?thesis using that leaf_placement_not_produced by (auto simp: leaf_stream_placement_def)
qed

lemma build_original_unique:
  assumes "hash32 H" "reads_payloads json" "pl \<noteq> Produced1" "placement_build H pl (Some b) None c = Inr f"
  shows "placement_locate H json pl f = Some (located_as H pl b c)"
  using placement_locate_eq [OF assms(1-3)] assms(4) by blast

text \<open>The judgement of the whole bytes, in terms of the builder.\<close>

lemma judge_bytes_direct:
  assumes "hash32 H" "reads_payloads json" "LEAF_PLACEMENTS (tl_placement (tm_leaf ev)) = Some (Placed pl)"
    "H f = tl_artifact (tm_leaf ev)"
  shows "\<exists>v. judge_bytes H json c ev f = Inr v
    \<and> (\<forall>b. placement_build H pl (Some b) None c = Inr f \<longrightarrow> v = (if H b \<noteq> tl_origin (tm_leaf ev) then bad_origin else direct_verdict ev))
    \<and> ((\<nexists>b. placement_build H pl (Some b) None c = Inr f) \<longrightarrow> fst v = INVALID_SLOT_COMMITMENT \<and> snd (snd v) = None)"
proof -
  have np: "pl \<noteq> Produced1" using leaf_placement_not_produced [OF assms(3)] .
  show ?thesis
  proof (cases "\<exists>b. placement_build H pl (Some b) None c = Inr f")
    case True
    then obtain b where b: "placement_build H pl (Some b) None c = Inr f" by blast
    have u: "b' = b" if "placement_build H pl (Some b') None c = Inr f" for b'
      using build_original_unique [OF assms(1,2) np b] build_original_unique [OF assms(1,2) np that] by (simp add: located_as_def)
    have "judge_bytes H json c ev f = Inr (if H b \<noteq> tl_origin (tm_leaf ev) then bad_origin else direct_verdict ev)"
      using assms(3,4) build_original_unique [OF assms(1,2) np b]
      by (cases "pl = Trailer1") (simp_all add: judge_bytes_def Let_def located_as_def)
    then show ?thesis
    proof (intro exI conjI allI impI)
      show "(if H b \<noteq> tl_origin (tm_leaf ev) then bad_origin else direct_verdict ev)
        = (if H b' \<noteq> tl_origin (tm_leaf ev) then bad_origin else direct_verdict ev)"
        if "placement_build H pl (Some b') None c = Inr f" for b' using u [OF that] by simp
    qed (use True in blast)+
  next
    case False
    then have "\<nexists>l. placement_locate H json pl f = Some l \<and> lo_commitment l = c"
      unfolding located_commitment [OF assms(1,2) np] .
    then show ?thesis using assms(3,4) False
      by (cases "placement_locate H json pl f") (auto simp: judge_bytes_def Let_def not_carrying_def)
  qed
qed

text \<open>A container is framed by archive headers, whose size field ends at \<open>MAX_ENTRY\<close>.\<close>

definition container :: "placement option \<Rightarrow> bool" where
  "container pl \<longleftrightarrow> pl = Some Container1 \<or> pl = Some Container2"

abbreviation too_large :: err where
  "too_large \<equiv> RangeError ''container entries are limited to 8 GiB''"

lemma trailer_frame: "length c = 32 \<Longrightarrow> \<exists>p sx. frame_of Trailer1 k d c = Inr (p, sx)"
  by (simp add: frame_of_def placement_frame_def trailer1_frame_def)

lemma judge_source_same:
  assumes H: "hash32 H" and J: "reads_payloads json" and c: "length c = 32" and l: "leaf_ok (tm_leaf ev)"
    and n53: "length (concat chunks) \<le> 9007199254740991"
    and n: "container (leaf_stream_placement (tm_leaf ev)) \<longrightarrow> length (concat chunks) \<le> MAX_ENTRY"
  shows "same_judgement (judge_source H json c ev (source_of chunks)) (judge_bytes H json c ev (concat chunks))"
proof -
  let ?f = "concat chunks" and ?l = "tm_leaf ev"
  have o32: "length (tl_origin ?l) = 32" using l by (simp add: leaf_ok_def)
  show ?thesis
  proof (cases "tl_placement ?l = 0")
    case True
    then have lp: "LEAF_PLACEMENTS (tl_placement ?l) = Some AsIs" "leaf_stream_placement ?l = None"
      by (simp_all add: LEAF_PLACEMENTS_def leaf_stream_placement_def)
    obtain r where r: "streamLeafCheck H json (source_of chunks) None c (Some (tl_origin ?l)) = Inr r" "sc_digest r = H ?f"
      "sc_carriesCommitment r = carriesCommitment H json ?f c"
      using stream_result [OF c H J _ n53 refl, of None "Some (tl_origin ?l)" None "[]"] by (simp add: frame_around_def) blast
    then show ?thesis using True lp by (simp add: judge_source_def judge_bytes_def Let_def)
  next
    case False
    then obtain pl where pl: "LEAF_PLACEMENTS (tl_placement ?l) = Some (Placed pl)" "pl \<noteq> Produced1" "leaf_stream_placement ?l = Some pl"
      using leaf_placed [OF l] by blast
    have "\<exists>p sx. frame_of pl (length ?f) (tl_origin ?l) c = Inr (p, sx)"
    proof (cases "pl = Trailer1")
      case True
      then show ?thesis using trailer_frame [OF c] by simp
    next
      case False
      then have "container (leaf_stream_placement ?l)" using pl(2,3) by (cases pl) (simp_all add: container_def)
      with n have "length ?f \<le> MAX_ENTRY" by blast
      then show ?thesis using frame_total [OF c o32 _ pl(2)] by blast
    qed
    then obtain p sx where fr: "frame_of pl (length ?f) (tl_origin ?l) c = Inr (p, sx)" by blast
    have np: "Some pl \<noteq> Some Produced1" using pl(2) by simp
    have "frame_around (length ?f) (Some pl) c (Some (tl_origin ?l)) = Inr (Some p, sx)" using fr by (simp add: frame_around_def)
    from stream_result [OF c H J np n53 refl this] obtain r where
      r: "streamLeafCheck H json (source_of chunks) (Some pl) c (Some (tl_origin ?l)) = Inr r" "sc_digest r = H ?f"
      "sc_fusedFromOrigin r = Some (H (p @ ?f @ sx))" "sc_carriesCommitment r = carriesCommitment H json ?f c"
      "\<exists>d. sc_direct r = Some d \<and> direct_right H c ?f pl d"
      unfolding option.case option.map by blast
    from r(5) obtain d where d: "sc_direct r = Some d" "direct_right H c ?f pl d" by blast
    consider "H ?f = tl_artifact ?l" | "H ?f \<noteq> tl_artifact ?l" "H ?f = tl_origin ?l" | "H ?f \<noteq> tl_artifact ?l" "H ?f \<noteq> tl_origin ?l"
      by blast
    then show ?thesis
    proof cases
      case 1
      obtain w where w: "judge_bytes H json c ev ?f = Inr w"
        "\<forall>b. placement_build H pl (Some b) None c = Inr ?f \<longrightarrow> w = (if H b \<noteq> tl_origin ?l then bad_origin else direct_verdict ev)"
        "(\<nexists>b. placement_build H pl (Some b) None c = Inr ?f) \<longrightarrow> fst w = INVALID_SLOT_COMMITMENT \<and> snd (snd w) = None"
        using judge_bytes_direct [OF H J pl(1) 1, of c] by blast
      show ?thesis
      proof (cases d)
        case (DirectOk h k)
        then obtain b where "placement_build H pl (Some b) None c = Inr ?f" "h = H b" using d(2) unfolding direct_right_def by blast
        then show ?thesis using w(1,2) DirectOk r d(1) 1 False pl(3) by (simp add: judge_source_def Let_def)
      next
        case (DirectBad reason)
        then have "\<nexists>b. placement_build H pl (Some b) None c = Inr ?f" using d(2) unfolding direct_right_def by blast
        then show ?thesis using w(1,3) DirectBad r d(1) 1 False pl(3)
          by (simp add: judge_source_def Let_def not_carrying_def same_verdict_def)
      qed
    next
      case 2
      then have "placement_build H pl (Some ?f) None c = Inr (p @ ?f @ sx)" using fr build_frame [OF pl(2)] by auto
      then show ?thesis using 2 r False pl by (simp add: judge_source_def judge_bytes_def Let_def committedBytesFor_placed)
    next
      case 3
      then show ?thesis using r pl(3) by (simp add: judge_source_def judge_bytes_def Let_def)
    qed
  qed
qed

text \<open>Above the bound the builder and the stream throw the same error; the stream throws it before it reads.\<close>

lemma build_throws:
  assumes "hash32 H" "length c = 32" "container (Some pl)" "MAX_ENTRY < length b"
  shows "placement_build H pl (Some b) None c = Inl too_large"
proof -
  have m: "buildFusePayload c (Some (H b)) = Inr (payload_bytes c (Some (H b)))" "length (payload_bytes c (Some (H b))) = 250"
    using assms length_payload by (auto simp: buildFusePayload_iff hash32_def)
  obtain hm where "ustarHeader CONTAINER_MANIFEST_PATH 250 = Inr hm"
    using ustarHeader_ok [of 250, OF _ path_lengths(1)] by (auto simp: MAX_ENTRY_def)
  moreover have "ustarHeader CONTAINER_ORIGINAL_PATH (length b) = Inl too_large" using assms(4) by (simp add: ustarHeader_def)
  ultimately show ?thesis using m assms(3)
    by (auto simp: container_def placement_build_def container1_build_def container2_build_def buildContainer_def buildContainer2_def)
qed

lemma judge_bytes_throws:
  assumes "hash32 H" "length c = 32" "container (leaf_stream_placement (tm_leaf ev))" "MAX_ENTRY < length f"
    "judge_bytes H json c ev f = Inl e"
  shows "e = too_large"
proof -
  obtain pl where pl: "LEAF_PLACEMENTS (tl_placement (tm_leaf ev)) = Some (Placed pl)" "container (Some pl)"
    using assms(3) by (auto simp: leaf_stream_placement_def container_def split: option.splits leaf_form.splits)
  have "committedBytesFor H (tl_placement (tm_leaf ev)) f c = Inl e"
    using assms(5) pl(1) by (auto simp: judge_bytes_def Let_def res_simps split: if_splits option.splits)
  then show ?thesis using build_throws [OF assms(1,2) pl(2) assms(4)] by (simp add: committedBytesFor_placed [OF pl(1)])
qed

lemma judge_source_throws:
  assumes "hash32 H" "length c = 32" "leaf_ok (tm_leaf ev)" "container (leaf_stream_placement (tm_leaf ev))"
    "MAX_ENTRY < length (concat chunks)" "length (concat chunks) \<le> 9007199254740991"
  shows "judge_source H json c ev (source_of chunks) = Inl too_large"
proof -
  obtain pl where pl: "leaf_stream_placement (tm_leaf ev) = Some pl" "pl = Container1 \<or> pl = Container2"
    using assms(4) by (auto simp: container_def)
  then have np: "Some pl \<noteq> Some Produced1" by auto
  have "length (tl_origin (tm_leaf ev)) = 32" using assms(3) by (simp add: leaf_ok_def)
  from frame_around_throws [OF assms(2) this pl(2) assms(5)] show ?thesis
    by (simp add: judge_source_def Let_def pl(1) stream_value [OF assms(2) np assms(6) refl])
qed

subsection \<open>The whole verdict\<close>

lemma commitment_length: "hash32 H \<Longrightarrow> commitmentForProof H p slot = Inr c \<Longrightarrow> length c = 32"
  by (erule commitment_form) (simp add: hash32_def)

lemma check_root_facts:
  assumes "check_root H opts pr spec = Inr (Inr (c, doc))"
  obtains docBytes where "truthy (fld (to_proof opts) ''slotAllocation'')"
    "commitmentForProof H (to_proof opts) (fld (to_proof opts) ''slotAllocation'') = Inr c"
    "(case to_rootDocument opts of Some d \<Rightarrow> Some d | None \<Rightarrow> readTreeMetadata (to_proof opts)) = Some docBytes"
    "parseTreeRootDocument docBytes = Some doc" "rd_commitment doc = c"
    "fld (fld (to_proof opts) ''artifact'') ''digestB64'' = JStr (b64_encode (H docBytes))"
proof -
  obtain docBytes d where d: "truthy (fld (to_proof opts) ''slotAllocation'')"
    "commitmentForProof H (to_proof opts) (fld (to_proof opts) ''slotAllocation'') = Inr c"
    "(case to_rootDocument opts of Some d \<Rightarrow> Some d | None \<Rightarrow> readTreeMetadata (to_proof opts)) = Some docBytes"
    "parseTreeRootDocument docBytes = Some doc" "rd_commitment doc = c"
    "get (fld (to_proof opts) ''artifact'') ''digestB64'' = Inr d"
    "(if is_str d then base64ToBytes (str_of d) else None) = Some (H docBytes)"
    using assms unfolding check_root_def Let_def
    by (auto simp: res_simps split: if_splits sum.splits option.splits)
  have "d = JStr (b64_encode (H docBytes))" using d(7) by (cases d) (auto simp: is_str_def str_of_def base64ToBytes_iff)
  then show ?thesis using that d(1-6) by (auto simp: get_def split: if_splits)
qed

definition without_reason :: "tree_result \<Rightarrow> tree_result" where
  "without_reason r = r\<lparr>tv_reason := []\<rparr>"

definition as_source :: "tree_options \<Rightarrow> bytes list \<Rightarrow> tree_options" where
  "as_source opts chunks = opts\<lparr>to_bytes := None, to_source := Some (source_of chunks)\<rparr>"

definition as_bytes :: "tree_options \<Rightarrow> bytes \<Rightarrow> tree_options" where
  "as_bytes opts f = opts\<lparr>to_bytes := Some f, to_source := None\<rparr>"

lemma options_fields:
  "to_proof (as_source opts chunks) = to_proof opts" "to_proof (as_bytes opts f) = to_proof opts"
  "to_rootDocument (as_source opts chunks) = to_rootDocument opts" "to_rootDocument (as_bytes opts f) = to_rootDocument opts"
  "to_trustAnchors (as_source opts chunks) = to_trustAnchors opts" "to_trustAnchors (as_bytes opts f) = to_trustAnchors opts"
  "to_extraSpecHashes (as_source opts chunks) = to_extraSpecHashes opts"
  "to_extraSpecHashes (as_bytes opts f) = to_extraSpecHashes opts"
  "to_proofAlreadyVerified (as_source opts chunks) = to_proofAlreadyVerified opts"
  "to_proofAlreadyVerified (as_bytes opts f) = to_proofAlreadyVerified opts"
  by (simp_all add: as_source_def as_bytes_def)

lemma options_same:
  "check_proof C (as_source opts chunks) = check_proof C opts" "check_proof C (as_bytes opts f) = check_proof C opts"
  "check_marker (as_source opts chunks) pr = check_marker opts pr" "check_marker (as_bytes opts f) pr = check_marker opts pr"
  "check_root H (as_source opts chunks) pr spec = check_root H opts pr spec" "check_root H (as_bytes opts f) pr spec = check_root H opts pr spec"
  unfolding check_proof_def check_marker_def check_root_def options_fields by (rule refl)+

text \<open>The two results against each other: equal, but for the wording of that one category.\<close>

definition same_result :: "tree_result res \<Rightarrow> tree_result res \<Rightarrow> bool" where
  "same_result rs rb \<longleftrightarrow> (case (rs, rb) of
     (Inr s, Inr r) \<Rightarrow> s = r \<or> tv_category r = INVALID_SLOT_COMMITMENT \<and> without_reason s = without_reason r
   | (Inl e, Inl e') \<Rightarrow> e = e'
   | _ \<Rightarrow> False)"

lemma same_result_refl [simp]: "same_result r r"
  by (cases r) (simp_all add: same_result_def)

text \<open>What a source gives for a container leaf and a file above the bound: every verdict reached before
  the file is looked at, and otherwise the error.\<close>

definition source_refused :: "tree_result res \<Rightarrow> tree_result res \<Rightarrow> bool" where
  "source_refused rs rb \<longleftrightarrow> (case rb of Inl e \<Rightarrow> rs = Inl e
     | Inr r \<Rightarrow> rs = (if tv_member r = None then Inr r else Inl too_large))"

definition container_member :: "tree_options \<Rightarrow> bool" where
  "container_member opts \<longleftrightarrow> (case parseTreeMemberEvidence (to_member opts) of None \<Rightarrow> False
     | Some ev \<Rightarrow> container (leaf_stream_placement (tm_leaf ev)))"

lemma file_options:
  "to_bytes (as_source opts chunks) = None" "to_source (as_source opts chunks) = Some (source_of chunks)"
  "to_member (as_source opts chunks) = to_member opts" "to_bytes (as_bytes opts f) = Some f"
  "to_source (as_bytes opts f) = None" "to_member (as_bytes opts f) = to_member opts"
  by (simp_all add: as_source_def as_bytes_def)

lemma check_member_same:
  assumes H: "hash32 H" and J: "reads_payloads json" and c: "length c = 32" and n53: "length (concat chunks) \<le> 9007199254740991"
    and n: "\<not> (container_member opts \<and> MAX_ENTRY < length (concat chunks))"
  shows "same_result (check_member H json (as_source opts chunks) pr spec c doc) (check_member H json (as_bytes opts (concat chunks)) pr spec c doc)"
proof -
  let ?f = "concat chunks"
  note simps = check_member_def file_options options_fields(1,2) Let_def
  consider "to_member opts = JUndefined \<or> to_member opts = JNull" | "\<not> (to_member opts = JUndefined \<or> to_member opts = JNull)"
    "parseTreeMemberEvidence (to_member opts) = None" | ev where "\<not> (to_member opts = JUndefined \<or> to_member opts = JNull)"
    "parseTreeMemberEvidence (to_member opts) = Some ev" by fastforce
  then show ?thesis
  proof cases
    case 1
    obtain r where "streamLeafCheck H json (source_of chunks) None c None = Inr r" "sc_carriesCommitment r = carriesCommitment H json ?f c"
      using stream_result [OF c H J _ n53 refl, of None None None "[]"] by (simp add: frame_around_def) blast
    with 1 show ?thesis by (simp add: simps)
  next
    case 2
    then show ?thesis by (simp add: simps)
  next
    case (3 ev)
    have lok: "leaf_ok (tm_leaf ev)" using parsed_evidence(1) [OF 3(2)] .
    have "container (leaf_stream_placement (tm_leaf ev)) \<longrightarrow> length ?f \<le> MAX_ENTRY"
      using n 3(2) by (auto simp: container_member_def)
    from judge_source_same [OF H J c lok n53 this] obtain v w where
      "judge_source H json c ev (source_of chunks) = Inr v" "judge_bytes H json c ev ?f = Inr w" "same_verdict v w"
      by (auto simp: same_judgement_def split: sum.splits)
    moreover obtain m where "treeLeafHash H (tm_leaf ev) = Inr m" using lok by (simp add: treeLeafHash_eq)
    ultimately show ?thesis using 3
      by (cases v; cases w) (auto simp: simps tree_base_def without_reason_def same_verdict_def same_result_def treeRootFromMember_def)
  qed
qed

lemma check_member_large:
  assumes H: "hash32 H" and c: "length c = 32" and n53: "length (concat chunks) \<le> 9007199254740991"
    and n: "container_member opts" "MAX_ENTRY < length (concat chunks)"
  shows "source_refused (check_member H json (as_source opts chunks) pr spec c doc) (check_member H json (as_bytes opts (concat chunks)) pr spec c doc)"
proof -
  let ?f = "concat chunks"
  obtain ev where ev: "parseTreeMemberEvidence (to_member opts) = Some ev" "container (leaf_stream_placement (tm_leaf ev))"
    using n(1) by (auto simp: container_member_def split: option.splits)
  have m: "\<not> (to_member opts = JUndefined \<or> to_member opts = JNull)" using ev(1) by (auto simp: parseTreeMemberEvidence_def)
  have lok: "leaf_ok (tm_leaf ev)" using parsed_evidence(1) [OF ev(1)] .
  obtain h where h: "treeLeafHash H (tm_leaf ev) = Inr h" using lok by (simp add: treeLeafHash_eq)
  note s = judge_source_throws [OF H c lok ev(2) n(2) n53, of json]
  show ?thesis
  proof (cases "judge_bytes H json c ev ?f")
    case (Inl e)
    with judge_bytes_throws [OF H c ev(2) n(2)] have "judge_bytes H json c ev ?f = Inl too_large" by blast
    then show ?thesis using m ev(1) s h
      by (simp add: check_member_def file_options options_fields(1,2) Let_def source_refused_def tree_base_def treeRootFromMember_def)
  next
    case (Inr v)
    then show ?thesis using m ev(1) s h
      by (cases v) (simp add: check_member_def file_options options_fields(1,2) Let_def source_refused_def tree_base_def treeRootFromMember_def)
  qed
qed

lemma refusals_before_member:
  "check_proof C opts = Inr (Inl r) \<Longrightarrow> tv_member r = None" "check_marker opts pr = Inl r \<Longrightarrow> tv_member r = None"
  "check_root H opts pr spec = Inr (Inl r) \<Longrightarrow> tv_member r = None"
  by (auto simp: check_proof_def check_marker_def check_root_def tree_base_def Let_def res_simps
      split: if_splits option.splits sum.splits verify_result.splits)

lemma verify_reaches_member:
  fixes C :: crypto and json :: "bytes \<Rightarrow> jv option" and opts :: tree_options and chunks :: "bytes list"
  defines "rs \<equiv> verifyTreeMember C json (as_source opts chunks)" and "rb \<equiv> verifyTreeMember C json (as_bytes opts (concat chunks))"
  obtains "rs = rb" "\<forall>r. rb = Inr r \<longrightarrow> tv_member r = None"
  | pr spec c doc where "check_root (c_sha256 C) opts pr spec = Inr (Inr (c, doc))"
      "rs = check_member (c_sha256 C) json (as_source opts chunks) pr spec c doc"
      "rb = check_member (c_sha256 C) json (as_bytes opts (concat chunks)) pr spec c doc"
proof (cases "isTreeProof (to_proof opts)")
  case False
  then show ?thesis
    by (intro that(1)) (simp_all add: rs_def rb_def verifyTreeMember_def options_fields tree_base_def)
next
  case tree: True
  note verify = rs_def rb_def verifyTreeMember_def options_same options_fields
  show ?thesis
  proof (cases "check_proof C opts")
    case (Inr p)
    show ?thesis
    proof (cases p)
      case (Inl r)
      with tree \<open>check_proof C opts = Inr p\<close> show ?thesis
        using refusals_before_member(1) by (intro that(1)) (simp_all add: verify)
    next
      case pr: (Inr pr)
      show ?thesis
      proof (cases "check_marker opts pr")
        case (Inl r)
        with tree \<open>check_proof C opts = Inr p\<close> pr show ?thesis
          using refusals_before_member(2) by (intro that(1)) (simp_all add: verify)
      next
        case marker: (Inr spec)
        show ?thesis
        proof (cases "check_root (c_sha256 C) opts pr spec")
          case (Inl e)
          with tree \<open>check_proof C opts = Inr p\<close> pr marker show ?thesis by (intro that(1)) (simp_all add: verify)
        next
          case root: (Inr q)
          show ?thesis
          proof (cases q)
            case (Inl r)
            with tree \<open>check_proof C opts = Inr p\<close> pr marker root show ?thesis
              using refusals_before_member(3) by (intro that(1)) (simp_all add: verify)
          next
            case (Inr cd)
            with tree \<open>check_proof C opts = Inr p\<close> pr marker root show ?thesis
              by (cases cd) (intro that(2) [of pr spec "fst cd" "snd cd"], simp_all add: verify)
          qed
        qed
      qed
    qed
  qed (use tree in \<open>intro that(1), simp_all add: verify\<close>)
qed

text \<open>C8: Streamed and in-memory verification agree, for every file of at most \<open>2 ^ 53 - 1\<close> bytes cut into chunks
  in any way. Unless the member evidence names a container leaf and the file is longer than the \<open>2 ^ 33 - 1\<close> bytes of
  an archive entry, \<open>verifyTreeMember\<close> with the source gives the very result it gives with the bytes, or throws the
  same error; the one difference is the wording of the reason when the committed bytes of a leaf do not carry the
  commitment (\<open>INVALID_SLOT_COMMITMENT\<close>). In the excepted case the two do differ: a verdict or error reached before the
  file is looked at is the same, but where the bytes get a verdict about the file, the source throws the
  \<^verbatim>\<open>RangeError\<close> of the archive header.\<close>

theorem tree_stream_agrees:
  assumes "hash32 (c_sha256 C)" "reads_payloads json" "length (concat chunks) \<le> 9007199254740991"
  shows "let rs = verifyTreeMember C json (as_source opts chunks); rb = verifyTreeMember C json (as_bytes opts (concat chunks)) in
    if container_member opts \<and> MAX_ENTRY < length (concat chunks)
    then (case rb of Inl e \<Rightarrow> rs = Inl e
      | Inr r \<Rightarrow> rs = (if tv_member r = None then Inr r else Inl (RangeError ''container entries are limited to 8 GiB'')))
    else (case (rs, rb) of
        (Inr s, Inr r) \<Rightarrow> s = r \<or> tv_category r = INVALID_SLOT_COMMITMENT \<and> without_reason s = without_reason r
      | (Inl e, Inl e') \<Rightarrow> e = e'
      | _ \<Rightarrow> False)"
proof -
  let ?s = "verifyTreeMember C json (as_source opts chunks)" and ?b = "verifyTreeMember C json (as_bytes opts (concat chunks))"
  let ?large = "container_member opts \<and> MAX_ENTRY < length (concat chunks)"
  have "if ?large then source_refused ?s ?b else same_result ?s ?b"
  proof (cases rule: verify_reaches_member [of C json opts chunks])
    case 1
    then show ?thesis unfolding 1(1) by (cases ?b) (simp_all add: source_refused_def)
  next
    case (2 pr spec c doc)
    have "length c = 32" using 2(1) assms(1) by (elim check_root_facts) (intro commitment_length)
    then show ?thesis unfolding 2(2,3)
      using assms by (cases ?large) (simp_all add: check_member_large check_member_same)
  qed
  then show ?thesis unfolding Let_def same_result_def source_refused_def .
qed

subsection \<open>What membership means\<close>

text \<open>The file of a member category, in terms of the leaf and of the producer's functions.\<close>

definition member_means :: "hashfun \<Rightarrow> bytes \<Rightarrow> tree_leaf \<Rightarrow> bytes \<Rightarrow> tree_category \<Rightarrow> bool" where
  "member_means H c l f category \<longleftrightarrow> (case category of
     TREE_MEMBER_AS_IS \<Rightarrow> tl_placement l = 0 \<and> H f = tl_artifact l
   | TREE_MEMBER_DIRECT \<Rightarrow> tl_placement l \<noteq> 0 \<and> H f = tl_artifact l
       \<and> (\<exists>b. committedBytesFor H (tl_placement l) b c = Inr f \<and> H b = tl_origin l)
   | TREE_MEMBER_FROM_ORIGIN \<Rightarrow> tl_placement l \<noteq> 0 \<and> H f = tl_origin l
       \<and> (\<exists>g. committedBytesFor H (tl_placement l) f c = Inr g \<and> H g = tl_artifact l)
   | _ \<Rightarrow> False)"

lemma verdict_categories:
  "fst (as_is_verdict ev) = TREE_MEMBER_AS_IS" "fst (direct_verdict ev) = TREE_MEMBER_DIRECT"
  "fst (origin_verdict ev) = TREE_MEMBER_FROM_ORIGIN" "fst bad_origin \<notin> set TREE_MEMBER_CATEGORIES"
  "fst (bad_rebuild ev) \<notin> set TREE_MEMBER_CATEGORIES" "fst (no_leaf k) \<notin> set TREE_MEMBER_CATEGORIES"
  "INVALID_SLOT_COMMITMENT \<notin> set TREE_MEMBER_CATEGORIES"
  by (simp_all add: as_is_verdict_def direct_verdict_def origin_verdict_def bad_origin_def bad_rebuild_def no_leaf_def
      TREE_MEMBER_CATEGORIES_def)

lemma judge_bytes_member:
  assumes "hash32 H" "reads_payloads json" and l: "leaf_ok (tm_leaf ev)"
    and v: "judge_bytes H json c ev f = Inr v" "fst v \<in> set TREE_MEMBER_CATEGORIES"
  shows "member_means H c (tm_leaf ev) f (fst v)"
proof (cases "tl_placement (tm_leaf ev) = 0")
  case True
  then have "LEAF_PLACEMENTS (tl_placement (tm_leaf ev)) = Some AsIs" by (simp add: LEAF_PLACEMENTS_def)
  then show ?thesis using v True verdict_categories(1) [of ev] verdict_categories(6)
    by (auto simp: judge_bytes_def Let_def member_means_def split: if_splits)
next
  case False
  then obtain pl where pl: "LEAF_PLACEMENTS (tl_placement (tm_leaf ev)) = Some (Placed pl)" "pl \<noteq> Produced1"
    using leaf_placed [OF l] by blast
  show ?thesis
  proof (cases "H f = tl_artifact (tm_leaf ev)")
    case True
    obtain b where "placement_build H pl (Some b) None c = Inr f" "H b = tl_origin (tm_leaf ev)" "v = direct_verdict ev"
      using judge_bytes_direct [OF assms(1,2) pl(1) True, of c] v verdict_categories(4,7) by (metis sum.inject(2))
    then show ?thesis using False True pl verdict_categories(2) [of ev]
      by (auto simp: member_means_def committedBytesFor_placed)
  next
    case F: False
    then show ?thesis using v False verdict_categories(3) [of ev] verdict_categories(5,6)
      by (auto simp: judge_bytes_def Let_def member_means_def res_simps split: if_splits)
  qed
qed

lemma check_proof_refuses: "check_proof C opts = Inr (Inl r) \<Longrightarrow> tv_category r \<notin> set TREE_MEMBER_CATEGORIES"
  by (auto simp: check_proof_def tree_base_def TREE_MEMBER_CATEGORIES_def split: if_splits verify_result.splits)

lemma check_marker_refuses: "check_marker opts pr = Inl r \<Longrightarrow> tv_category r \<notin> set TREE_MEMBER_CATEGORIES"
  unfolding check_marker_def Let_def
  by (auto simp: tree_base_def TREE_MEMBER_CATEGORIES_def split: if_splits option.splits)

lemma check_root_refuses: "check_root H opts pr spec = Inr (Inl r) \<Longrightarrow> tv_category r \<notin> set TREE_MEMBER_CATEGORIES"
  unfolding check_root_def Let_def
  by (auto simp: tree_base_def TREE_MEMBER_CATEGORIES_def res_simps split: if_splits option.splits sum.splits)

lemma check_member_accepts:
  assumes "check_member H json opts pr spec c doc = Inr r" "tv_category r \<in> set TREE_MEMBER_CATEGORIES" "to_bytes opts = Some f"
  obtains ev v h where "parseTreeMemberEvidence (to_member opts) = Some ev" "tm_count ev = rd_count doc"
    "treeLeafHash H (tm_leaf ev) = Inr h" "merkleRootFromPath H h (int (tm_index ev)) (int (tm_count ev)) (tm_path ev) = Some (rd_root doc)"
    "judge_bytes H json c ev f = Inr v" "fst v = tv_category r"
proof -
  have src: "to_source opts = None" using assms(1,3) by (cases "to_source opts") (auto simp: check_member_def)
  have mem: "\<not> (to_member opts = JUndefined \<or> to_member opts = JNull)"
    using assms src by (auto simp: check_member_def tree_base_def TREE_MEMBER_CATEGORIES_def split: if_splits)
  obtain ev where ev: "parseTreeMemberEvidence (to_member opts) = Some ev"
    using assms src mem
    by (cases "parseTreeMemberEvidence (to_member opts)") (auto simp: check_member_def tree_base_def TREE_MEMBER_CATEGORIES_def)
  have n: "tm_count ev = rd_count doc"
    using assms src mem ev by (rule_tac ccontr) (auto simp: check_member_def tree_base_def TREE_MEMBER_CATEGORIES_def)
  obtain h where h: "treeLeafHash H (tm_leaf ev) = Inr h"
    using parsed_evidence(1) [OF ev] by (simp add: treeLeafHash_eq)
  have root: "merkleRootFromPath H h (int (tm_index ev)) (int (tm_count ev)) (tm_path ev) = Some (rd_root doc)"
    using assms src mem ev n h
    by (rule_tac ccontr) (auto simp: check_member_def tree_base_def TREE_MEMBER_CATEGORIES_def treeRootFromMember_def)
  have "\<exists>v. judge_bytes H json c ev f = Inr v \<and> fst v = tv_category r"
    using assms src mem ev n h root
    by (auto simp: check_member_def tree_base_def treeRootFromMember_def res_simps)
  with ev n h root that show thesis by blast
qed

text \<open>The strings whose hashes a verdict relies on: the producer's document and the one in hand, the leaves, and the nodes of
  the tree and of the path.\<close>

definition leaf_hashes :: "hashfun \<Rightarrow> tree_leaf list \<Rightarrow> bytes list" where
  "leaf_hashes H ls = map (\<lambda>l. merkleLeafHash H (leaf_bytes l)) ls"

definition tree_hashed :: "hashfun \<Rightarrow> tree_options \<Rightarrow> tree_leaf list \<Rightarrow> bytes \<Rightarrow> bytes set" where
  "tree_hashed H opts ls doc = insert doc
     (set_option (case to_rootDocument opts of Some d \<Rightarrow> Some d | None \<Rightarrow> readTreeMetadata (to_proof opts))
      \<union> (\<lambda>l. 0x00 # leaf_bytes l) ` set ls
      \<union> (case parseTreeMemberEvidence (to_member opts) of None \<Rightarrow> {}
         | Some ev \<Rightarrow> insert (0x00 # leaf_bytes (tm_leaf ev)) (set (mth_inputs H (leaf_hashes H ls)
             @ mroot_inputs H (length ls) (tm_index ev) (merkleLeafHash H (leaf_bytes (tm_leaf ev))) (tm_path ev)))))"

lemma verifyTreeMember_accepts:
  assumes "verifyTreeMember C json opts = Inr r" "tv_category r \<in> set TREE_MEMBER_CATEGORIES"
  obtains pr spec c doc where "isTreeProof (to_proof opts)" "check_proof C opts = Inr (Inr pr)" "check_marker opts pr = Inr spec"
    "check_root (c_sha256 C) opts pr spec = Inr (Inr (c, doc))"
    "check_member (c_sha256 C) json opts pr spec c doc = Inr r"
proof -
  have t: "isTreeProof (to_proof opts)"
    using assms by (rule_tac ccontr) (auto simp: verifyTreeMember_def tree_base_def TREE_MEMBER_CATEGORIES_def)
  obtain p where p: "check_proof C opts = Inr p" using assms(1) t by (auto simp: verifyTreeMember_def res_simps)
  obtain pr where pr: "p = Inr pr" using assms t p check_proof_refuses [of C opts] by (cases p) (auto simp: verifyTreeMember_def)
  obtain spec where spec: "check_marker opts pr = Inr spec"
    using assms t p pr check_marker_refuses [of opts pr] by (cases "check_marker opts pr") (auto simp: verifyTreeMember_def)
  obtain q where q: "check_root (c_sha256 C) opts pr spec = Inr q"
    using assms(1) t p pr spec by (auto simp: verifyTreeMember_def res_simps)
  obtain c doc where cd: "q = Inr (c, doc)"
    using assms t p pr spec q check_root_refuses [of "c_sha256 C" opts pr spec] by (cases q) (auto simp: verifyTreeMember_def)
  show thesis using that t p pr spec q cd assms(1) by (simp add: verifyTreeMember_def)
qed

text \<open>A path to the root of a list of byte strings, from a byte string, names an entry of the list.\<close>

lemma merkle_listed:
  assumes H: "hash32 H" and bs: "bs \<noteq> []" "length bs \<le> 1000000"
    and inj: "inj_on H S" "{0x00 # b} \<union> (Cons 0x00) ` set bs \<union> set (mth_inputs H (map (merkleLeafHash H) bs)
      @ mroot_inputs H (length bs) i (merkleLeafHash H b) path) \<subseteq> S"
    and root: "merkleRootFromPath H (merkleLeafHash H b) (int i) (int (length bs)) path = Some (mth H (map (merkleLeafHash H) bs))"
  shows "i < length bs \<and> b = bs ! i"
proof -
  let ?hs = "map (merkleLeafHash H) bs"
  have hs: "?hs \<noteq> []" "\<forall>h \<in> set ?hs. length h = 32"
    using bs(1) H by (auto simp: merkleLeafHash_def hash32_def)
  have "merkle_no_clash H ?hs i (merkleLeafHash H b) path"
    unfolding merkle_no_clash_def length_map using inj by (elim inj_on_subset) simp
  moreover have "to_option (merkleRoot H ?hs) = Some (mth H ?hs)" using hs by (simp add: res_simps merkleRoot_eq_Inr)
  ultimately have i: "i < length bs" "merkleLeafHash H b = ?hs ! i"
    using merkle.binding [of H ?hs "mth H ?hs" i "merkleLeafHash H b" path] root H bs(2) by auto
  then have "H (0x00 # b) = H (0x00 # bs ! i)" by (simp add: merkleLeafHash_def)
  moreover have "0x00 # bs ! i \<in> (Cons 0x00) ` set bs" using i(1) by simp
  ultimately show ?thesis using inj_onD [OF inj(1), of "0x00 # b" "0x00 # bs ! i"] inj(2) i(1) by blast
qed

lemma member_leaf_listed:
  assumes H: "hash32 H" and ls: "ls \<noteq> []" "list_all leaf_ok ls" "length ls \<le> MAX_TREE_LEAVES"
    and inj: "inj_on H (tree_hashed H opts ls doc)"
    and ev: "parseTreeMemberEvidence (to_member opts) = Some ev" "tm_count ev = length ls"
    and root: "merkleRootFromPath H (merkleLeafHash H (leaf_bytes (tm_leaf ev))) (int (tm_index ev)) (int (tm_count ev)) (tm_path ev)
      = Some (mth H (leaf_hashes H ls))"
  shows "tm_leaf ev \<in> set ls"
proof -
  have m: "leaf_hashes H ls = map (merkleLeafHash H) (map leaf_bytes ls)" by (simp add: leaf_hashes_def comp_def)
  have "tm_index ev < length (map leaf_bytes ls) \<and> leaf_bytes (tm_leaf ev) = map leaf_bytes ls ! tm_index ev"
    using ls ev root by (intro merkle_listed [OF H _ _ inj])
      (auto simp: tree_hashed_def MAX_TREE_LEAVES_def leaf_hashes_def comp_def)
  then have i: "tm_index ev < length ls" "leaf_bytes (tm_leaf ev) = leaf_bytes (ls ! tm_index ev)" by auto
  then have "tm_leaf ev = ls ! tm_index ev"
    using tree_leaf.enc_inj parsed_evidence(1) [OF ev(1)] ls(2) by (auto simp: list_all_iff)
  with i(1) show ?thesis by simp
qed

lemma built_tree_facts:
  assumes "hash32 H" "buildTree H leaves = Inr t"
  shows "sortTreeLeaves leaves = Inr (bt_sorted t)" "bt_root t = mth H (leaf_hashes H (bt_sorted t))" "bt_sorted t \<noteq> []"
    "list_all leaf_ok (bt_sorted t)" "length (bt_sorted t) = length leaves" "length leaves \<le> MAX_TREE_LEAVES" "set (bt_sorted t) = set leaves"
    "tree_ok H (bt_tree t)" "mt_leafHashes (bt_tree t) = leaf_hashes H (bt_sorted t)"
proof -
  obtain s where s: "sortTreeLeaves leaves = Inr s" using assms(2) by (auto simp: buildTree_def)
  obtain m where m: "new_MerkleTree H (leaf_hashes H s) [] = Inr m" "t = \<lparr>bt_sorted = s, bt_leafHashes = leaf_hashes H s,
      bt_root = mt_root m, bt_tree = m\<rparr>"
    using assms(2) s by (auto simp: buildTree_def Let_def leaf_hashes_def merkleLeafHash_def leaf_bytes_def)
  have ok: "tree_ok H m" "mt_leafHashes m = leaf_hashes H s" using new_MerkleTree_ok [OF m(1)] by simp_all
  then have r: "mt_root m = mth H (leaf_hashes H s)" by (simp add: tree_ok_def)
  have l: "leaves \<noteq> []" "s = sort_key tl_artifact leaves" "list_all leaf_ok leaves" "length leaves \<le> MAX_TREE_LEAVES"
    using s by (simp_all add: sortTreeLeaves_iff)
  then show "sortTreeLeaves leaves = Inr (bt_sorted t)" "bt_root t = mth H (leaf_hashes H (bt_sorted t))"
    "length (bt_sorted t) = length leaves" "length leaves \<le> MAX_TREE_LEAVES" "set (bt_sorted t) = set leaves" "list_all leaf_ok (bt_sorted t)"
    "tree_ok H (bt_tree t)" "mt_leafHashes (bt_tree t) = leaf_hashes H (bt_sorted t)"
    using s ok r m(2) by (simp_all add: list_all_iff)
  then show "bt_sorted t \<noteq> []" using l(1) by (metis length_0_conv)
qed

text \<open>C6: A member is listed. Let a producer have built a tree of some leaves under a commitment and let the proof sign the
  digest of its root document. If \<open>verifyTreeMember\<close> calls a file a member, whatever evidence it was given, and the strings
  hashed on the way do not collide, then the proof verifies (unless the caller said it had checked it), the commitment is the
  one of the proof's own slot and floor, and the file stands in the relation its category names to one of the producer's
  leaves: the leaf's bytes recorded as is; the committed bytes that its placement makes, with the commitment inside, of an
  original with the leaf's origin; or that original, from which the committed bytes are rebuilt.\<close>

theorem tree_member_sound:
  assumes "hash32 (c_sha256 C)" "reads_payloads json"
    and "buildTree (c_sha256 C) leaves = Inr t" "buildTreeRootDocument c (int (length leaves)) (bt_root t) = Inr doc"
    and "fld (fld (to_proof opts) ''artifact'') ''digestB64'' = JStr (b64_encode (c_sha256 C doc))"
    and "inj_on (c_sha256 C) (tree_hashed (c_sha256 C) opts (bt_sorted t) doc)"
    and "verifyTreeMember C json opts = Inr r" "tv_category r \<in> set TREE_MEMBER_CATEGORIES" "to_bytes opts = Some f"
  shows "commitmentForProof (c_sha256 C) (to_proof opts) (fld (to_proof opts) ''slotAllocation'') = Inr c
    \<and> (to_proofAlreadyVerified opts
       \<or> fst (verifyProofIntegrity C (to_proof opts) (to_trustAnchors opts) createVerificationContext) = Valid)
    \<and> (\<exists>l \<in> set leaves. member_means (c_sha256 C) c l f (tv_category r))"
proof -
  let ?H = "c_sha256 C"
  note bt = built_tree_facts [OF assms(1,3)]
  obtain pr spec c' d where v: "check_proof C opts = Inr (Inr pr)" "check_root ?H opts pr spec = Inr (Inr (c', d))"
    "check_member ?H json opts pr spec c' d = Inr r"
    using verifyTreeMember_accepts [OF assms(7,8)] by metis
  obtain docBytes where cm: "commitmentForProof ?H (to_proof opts) (fld (to_proof opts) ''slotAllocation'') = Inr c'"
    and db: "(case to_rootDocument opts of Some d \<Rightarrow> Some d | None \<Rightarrow> readTreeMetadata (to_proof opts)) = Some docBytes"
    "parseTreeRootDocument docBytes = Some d" "rd_commitment d = c'"
    "fld (fld (to_proof opts) ''artifact'') ''digestB64'' = JStr (b64_encode (?H docBytes))"
    using check_root_facts [OF v(2)] by metis
  have "?H docBytes = ?H doc" using db(4) assms(5) base64ToBytes_iff by (metis jv.inject(3) option.inject)
  then have "docBytes = doc" using inj_onD [OF assms(6), of docBytes doc] db(1) by (simp add: tree_hashed_def)
  then have "d = \<lparr>rd_count = length leaves, rd_root = bt_root t, rd_commitment = c\<rparr>"
    using db(2) assms(4) tree_root.dec_enc by (auto simp: build_root_document)
  then have d: "rd_count d = length leaves" "rd_root d = bt_root t" "c' = c" using db(3) by simp_all
  obtain ev w h where ev: "parseTreeMemberEvidence (to_member opts) = Some ev" "tm_count ev = rd_count d"
    "treeLeafHash ?H (tm_leaf ev) = Inr h" "merkleRootFromPath ?H h (int (tm_index ev)) (int (tm_count ev)) (tm_path ev) = Some (rd_root d)"
    "judge_bytes ?H json c' ev f = Inr w" "fst w = tv_category r"
    using check_member_accepts [OF v(3) assms(8,9)] by metis
  have "tm_leaf ev \<in> set (bt_sorted t)"
    using ev d bt by (intro member_leaf_listed [OF assms(1) bt(3,4) _ assms(6) ev(1)]) (auto simp: treeLeafHash_eq)
  moreover have "member_means ?H c (tm_leaf ev) f (tv_category r)"
    using judge_bytes_member [OF assms(1,2) parsed_evidence(1) [OF ev(1)] ev(5)] ev(6) assms(8) d(3) by simp
  moreover have "to_proofAlreadyVerified opts
      \<or> fst (verifyProofIntegrity C (to_proof opts) (to_trustAnchors opts) createVerificationContext) = Valid"
    using v(1) by (auto simp: check_proof_def split: if_splits verify_result.splits)
  ultimately show ?thesis using cm d(3) bt(7) by auto
qed

subsection \<open>What a producer commits is accepted\<close>

text \<open>A proof that commits a tree as a producer makes it: the attribution of the spec the floor asks for, the commitment of
  its own slot, and the digest of a root document which the verifier has in hand.\<close>

definition commits_tree :: "hashfun \<Rightarrow> tree_options \<Rightarrow> bytes \<Rightarrow> tree_leaf list \<Rightarrow> built_tree \<Rightarrow> bool" where
  "commits_tree H opts c leaves t \<longleftrightarrow> buildTree H leaves = Inr t \<and> truthy (fld (to_proof opts) ''slotAllocation'')
     \<and> commitmentForProof H (to_proof opts) (fld (to_proof opts) ''slotAllocation'') = Inr c
     \<and> (\<exists>v h. currentTreeSpecHash v = Inr h \<and> treeAttribution h = Inr (fld (to_proof opts) ''attribution''))
     \<and> (\<exists>doc. buildTreeRootDocument c (int (length leaves)) (bt_root t) = Inr doc
          \<and> fld (fld (to_proof opts) ''artifact'') ''digestB64'' = JStr (b64_encode (H doc))
          \<and> (case to_rootDocument opts of Some d \<Rightarrow> Some d | None \<Rightarrow> readTreeMetadata (to_proof opts)) = Some doc)"

definition proof_accepted :: "crypto \<Rightarrow> tree_options \<Rightarrow> bool" where
  "proof_accepted C opts \<longleftrightarrow> to_proofAlreadyVerified opts
     \<or> fst (verifyProofIntegrity C (to_proof opts) (to_trustAnchors opts) createVerificationContext) = Valid"

lemma spec_hash_text:
  "currentTreeSpecHash v = Inr h \<Longrightarrow> b64_encode h = (if v = 3 then TREE_SPEC_V2_HASH else TREE_SPEC_V1_HASH) \<and> length h = 32"
  by (auto simp: currentTreeSpecHash_def base64ToBytes_iff split: option.splits if_splits)

lemma spec_hashes_differ: "TREE_SPEC_V1_HASH \<noteq> TREE_SPEC_V2_HASH"
  by code_simp

lemma marker_accepted:
  assumes "currentTreeSpecHash v = Inr h" "treeAttribution h = Inr (fld (to_proof opts) ''attribution'')"
  shows "isTreeProof (to_proof opts)" "check_marker opts pr = Inr (b64_encode h)"
proof -
  note t = spec_hash_text [OF assms(1)]
  let ?a = "fld (to_proof opts) ''attribution''"
  have a: "?a = JObj [kv ''name'' (JStr (u16 (if v = 3 then ''bitgraph-fuse/3'' else ''bitgraph-fuse/2''))),
      kv ''title'' (JStr (u16 ''tree/1'')), kv ''message'' (JStr (b64_encode h))]"
    using assms(2) t spec_hashes_differ by (auto simp: treeAttribution_def Let_def TREE_SPEC_FUSE_VERSION_def split: if_splits)
  have f: "fld ?a ''name'' = JStr (u16 (if v = 3 then ''bitgraph-fuse/3'' else ''bitgraph-fuse/2''))" "fld ?a ''title'' = JStr (u16 ''tree/1'')"
    "fld ?a ''message'' = JStr (b64_encode h)" unfolding a by simp_all
  have n: "fuseVersionOfName (JStr (u16 (if v = 3 then ''bitgraph-fuse/3'' else ''bitgraph-fuse/2''))) = Some (if v = 3 then 3 else 2)"
    by (simp add: fuseVersionOfName_def)
  have k: "b64_encode h \<in> set KNOWN_TREE_SPEC_HASHES" using t by (simp add: KNOWN_TREE_SPEC_HASHES_def)
  have r: "TREE_SPEC_FUSE_VERSION (b64_encode h) = Some (if v = 3 then 3 else 2)"
    using t spec_hashes_differ by (simp add: TREE_SPEC_FUSE_VERSION_def)
  have so: "str_of (JStr (b64_encode h)) = b64_encode h" by (simp add: str_of_def)
  show "isTreeProof (to_proof opts)" unfolding isTreeProof_def by (rule f(2))
  show "check_marker opts pr = Inr (b64_encode h)"
    unfolding check_marker_def Let_def f n so r using t [THEN conjunct2] k by (simp add: is_str_def)
qed

lemma tree_root_accepted:
  assumes "commits_tree H opts c leaves t"
  shows "\<exists>doc. check_root H opts pr spec = Inr (Inr (c, doc)) \<and> rd_count doc = length leaves \<and> rd_root doc = bt_root t"
proof -
  obtain doc where d: "buildTreeRootDocument c (int (length leaves)) (bt_root t) = Inr doc"
    "fld (fld (to_proof opts) ''artifact'') ''digestB64'' = JStr (b64_encode (H doc))"
    "(case to_rootDocument opts of Some d \<Rightarrow> Some d | None \<Rightarrow> readTreeMetadata (to_proof opts)) = Some doc"
    using assms by (auto simp: commits_tree_def)
  have p: "parseTreeRootDocument doc = Some \<lparr>rd_count = length leaves, rd_root = bt_root t, rd_commitment = c\<rparr>"
    using d(1) tree_root.dec_enc by (auto simp: build_root_document)
  have g: "get (fld (to_proof opts) ''artifact'') ''digestB64'' = Inr (JStr (b64_encode (H doc)))"
    using d(2) by (auto simp: get_def fld_def)
  show ?thesis
    using assms g p unfolding check_root_def Let_def commits_tree_def d(3)
    by (simp add: is_str_def str_of_def)
qed

lemma verify_member_eq:
  assumes "commits_tree (c_sha256 C) opts c leaves t" "proof_accepted C opts"
  shows "\<exists>spec doc. verifyTreeMember C json opts = check_member (c_sha256 C) json opts (True, None) spec c doc
    \<and> rd_count doc = length leaves \<and> rd_root doc = bt_root t"
proof -
  obtain v h where m: "currentTreeSpecHash v = Inr h" "treeAttribution h = Inr (fld (to_proof opts) ''attribution'')"
    using assms(1) by (auto simp: commits_tree_def)
  have "check_proof C opts = Inr (Inr (True, None))" using assms(2) by (auto simp: proof_accepted_def check_proof_def)
  moreover obtain doc where d: "check_root (c_sha256 C) opts (True, None) (b64_encode h) = Inr (Inr (c, doc))"
    "rd_count doc = length leaves" "rd_root doc = bt_root t"
    using tree_root_accepted [OF assms(1)] by blast
  ultimately have "verifyTreeMember C json opts = check_member (c_sha256 C) json opts (True, None) (b64_encode h) c doc"
    using marker_accepted [OF m] by (simp add: verifyTreeMember_def)
  with d(2,3) show ?thesis by blast
qed

lemma member_path_accepted:
  assumes H: "hash32 H" and t: "buildTree H leaves = Inr t" "i < length leaves"
    and p: "tree_path H (bt_tree t) (int i) = Inr (path, t')"
  shows "merkleRootFromPath H (merkleLeafHash H (leaf_bytes (bt_sorted t ! i))) (int i) (int (length leaves)) path = Some (bt_root t)"
proof -
  note bt = built_tree_facts [OF H t(1)]
  let ?hs = "leaf_hashes H (bt_sorted t)"
  have hs: "length ?hs = length leaves" "?hs \<noteq> []" "\<forall>h \<in> set ?hs. length h = 32"
    using bt(3,5) H by (auto simp: leaf_hashes_def merkleLeafHash_def hash32_def)
  have "merklePath H ?hs (int i) = Inr path" using tree_path_ok [OF bt(8), of "int i"] p bt(9) by simp
  moreover obtain r q where "to_option (merkleRoot H ?hs) = Some r" "to_option (merklePath H ?hs (int i)) = Some q"
    "merkleRootFromPath H (?hs ! i) (int i) (int (length ?hs)) q = Some r"
    using merkle.complete [of ?hs i H] hs t(2) H bt(6) by (auto simp: MAX_TREE_LEAVES_def)
  ultimately show ?thesis using bt(2,5) hs t(2) by (simp add: res_simps merkleRoot_eq_Inr leaf_hashes_def)
qed

lemma check_member_judges:
  assumes "parseTreeMemberEvidence (to_member opts) = Some ev" "tm_count ev = rd_count doc" "treeLeafHash H (tm_leaf ev) = Inr h"
    "merkleRootFromPath H h (int (tm_index ev)) (int (tm_count ev)) (tm_path ev) = Some (rd_root doc)"
    "judge_bytes H json c ev f = Inr v"
  shows "\<exists>r. check_member H json (as_bytes opts f) pr spec c doc = Inr r \<and> tv_category r = fst v"
proof -
  have "to_bytes (as_bytes opts f) = Some f" "to_source (as_bytes opts f) = None" "to_member (as_bytes opts f) = to_member opts"
    by (simp_all add: as_bytes_def)
  moreover have "to_member opts \<noteq> JUndefined" "to_member opts \<noteq> JNull" using assms(1) by (auto simp: parseTreeMemberEvidence_def)
  ultimately show ?thesis
    using assms by (cases v) (simp add: check_member_def treeRootFromMember_def tree_base_def Let_def)
qed

lemma as_bytes_commits: "commits_tree H (as_bytes opts f) c leaves t = commits_tree H opts c leaves t"
  "proof_accepted C (as_bytes opts f) = proof_accepted C opts"
  unfolding commits_tree_def proof_accepted_def options_fields by (rule refl)+

lemma producer_file_accepted:
  assumes H: "hash32 (c_sha256 C)" and t: "commits_tree (c_sha256 C) opts c leaves t" and ok: "proof_accepted C opts"
    and i: "i < length leaves" and p: "tree_path (c_sha256 C) (bt_tree t) (int i) = Inr (path, t')"
    and e: "buildTreeMemberEvidence (bt_sorted t ! i) (int i) (int (length leaves)) path = Inr (to_member opts)"
    and v: "judge_bytes (c_sha256 C) json c \<lparr>tm_leaf = bt_sorted t ! i, tm_index = i, tm_count = length leaves, tm_path = path\<rparr> f = Inr v"
  shows "\<exists>r. verifyTreeMember C json (as_bytes opts f) = Inr r \<and> tv_category r = fst v"
proof -
  let ?H = "c_sha256 C"
  have b: "buildTree ?H leaves = Inr t" using t by (simp add: commits_tree_def)
  note bt = built_tree_facts [OF H b]
  have leaf: "leaf_ok (bt_sorted t ! i)" using bt(4,5) i by (simp add: list_all_length)
  obtain spec doc where m: "verifyTreeMember C json (as_bytes opts f) = check_member ?H json (as_bytes opts f) (True, None) spec c doc"
    "rd_count doc = length leaves" "rd_root doc = bt_root t"
    using verify_member_eq [of C "as_bytes opts f" c leaves t json] t ok as_bytes_commits by metis
  show ?thesis
    unfolding m(1) using parse_built_evidence [OF e bt(6)] m(2,3) leaf member_path_accepted [OF H b i p] v
    by (intro check_member_judges) (auto simp: treeLeafHash_eq)
qed

text \<open>C7: What a producer commits is accepted. When a proof commits the tree a producer built, with the attribution of the spec
  its floor asks for, then for every leaf the producer made from an original and for the path its tree gives, the verifier
  calls the committed bytes a member (recorded as is, or carrying the commitment), and the original too, unless the committed
  bytes of a placed leaf collide with it.\<close>

theorem tree_member_complete:
  assumes "hash32 (c_sha256 C)" "reads_payloads json" "commits_tree (c_sha256 C) opts c leaves t" "proof_accepted C opts"
    and "i < length leaves" "tree_path (c_sha256 C) (bt_tree t) (int i) = Inr (path, t')"
    and "buildTreeMemberEvidence (bt_sorted t ! i) (int i) (int (length leaves)) path = Inr (to_member opts)"
    and "leafFor (c_sha256 C) code b c = Inr (bt_sorted t ! i, g)"
  shows "(\<exists>r. verifyTreeMember C json (as_bytes opts g) = Inr r
        \<and> tv_category r = (if code = 0 then TREE_MEMBER_AS_IS else TREE_MEMBER_DIRECT))
    \<and> (code \<noteq> 0 \<and> c_sha256 C b \<noteq> c_sha256 C g \<longrightarrow>
        (\<exists>r. verifyTreeMember C json (as_bytes opts b) = Inr r \<and> tv_category r = TREE_MEMBER_FROM_ORIGIN))"
proof -
  let ?H = "c_sha256 C" and ?l = "bt_sorted t ! i"
  let ?ev = "\<lparr>tm_leaf = ?l, tm_index = i, tm_count = length leaves, tm_path = path\<rparr>"
  note accept = producer_file_accepted [OF assms(1,3-7)]
  have l: "leaf_ok ?l" "tl_placement ?l = code" "tl_origin ?l = ?H b" using leafFor_ok [OF assms(1,8)] by simp_all
  have g: "committedBytesFor ?H code b c = Inr g" "tl_artifact ?l = (if code = 0 then ?H b else ?H g)"
    using leafFor_fields [OF assms(8)] by simp_all
  show ?thesis
  proof (cases "code = 0")
    case True
    then have "g = b" "LEAF_PLACEMENTS code = Some AsIs" using g(1) by (simp_all add: committedBytesFor_def LEAF_PLACEMENTS_def)
    then have "judge_bytes ?H json c ?ev g = Inr (as_is_verdict ?ev)" using True g(2) l(2) by (simp add: judge_bytes_def Let_def)
    from accept [OF this] True show ?thesis by (simp add: verdict_categories)
  next
    case False
    then obtain pl where pl: "LEAF_PLACEMENTS code = Some (Placed pl)" "pl \<noteq> Produced1" using leaf_placed [OF l(1)] l(2) by auto
    then have "placement_build ?H pl (Some b) None c = Inr g" using g(1) by (simp add: committedBytesFor_placed)
    then have "judge_bytes ?H json c ?ev g = Inr (direct_verdict ?ev)"
      using judge_bytes_direct [OF assms(1,2), of ?ev pl g c] pl(1) l(2,3) g(2) False by auto
    from accept [OF this] have d: "\<exists>r. verifyTreeMember C json (as_bytes opts g) = Inr r \<and> tv_category r = TREE_MEMBER_DIRECT"
      by (simp add: verdict_categories)
    have "\<exists>r. verifyTreeMember C json (as_bytes opts b) = Inr r \<and> tv_category r = TREE_MEMBER_FROM_ORIGIN" if "?H b \<noteq> ?H g"
    proof -
      have "judge_bytes ?H json c ?ev b = Inr (origin_verdict ?ev)" using that False g l by (simp add: judge_bytes_def Let_def)
      from accept [OF this] show ?thesis by (simp add: verdict_categories)
    qed
    with d False show ?thesis by simp
  qed
qed

subsection \<open>A concrete tree\<close>

definition demo_tree_crypto :: crypto where
  "demo_tree_crypto = \<lparr>c_sha256 = head_hash, c_ed_verify = (\<lambda>_ _ _. Inr True), c_p256_verify = (\<lambda>_ _ _. Inr True),
     c_json_parse = (\<lambda>_. None), c_url_host = (\<lambda>_. None)\<rparr>"

definition demo_tree_proof :: "jv \<Rightarrow> bytes \<Rightarrow> jv" where
  "demo_tree_proof attribution digest = JObj [kv ''attribution'' attribution, kv ''commit'' (fld demo_fused ''commit''),
     kv ''slotAllocation'' demo_slot, kv ''artifact'' (JObj [kv ''digestB64'' (JStr (b64_encode digest))])]"

lemma commitment_fields:
  assumes "fld (fld p ''attribution'') ''name'' = fld (fld q ''attribution'') ''name''" "fld p ''commit'' = fld q ''commit''"
  shows "commitmentForProof H p slot = commitmentForProof H q slot"
  unfolding commitmentForProof_def signedFloorOf_def assms by (rule refl)

lemma demo_attribution:
  "\<exists>h a. currentTreeSpecHash 3 = Inr h \<and> treeAttribution h = Inr a \<and> fld a ''name'' = JStr (u16 ''bitgraph-fuse/3'')"
proof -
  let ?b = "[244, 237, 236, 170, 92, 106, 139, 162, 16, 61, 82, 93, 231, 67, 95, 140, 155, 112, 89, 106, 44, 149, 159, 96, 164,
    130, 51, 110, 180, 115, 2, 37] :: bytes"
  have e: "TREE_SPEC_V2_HASH = b64_encode ?b" by code_simp
  have "base64ToBytes TREE_SPEC_V2_HASH = Some ?b" unfolding e by (rule base64ToBytes_encode)
  then obtain h where h: "currentTreeSpecHash 3 = Inr h" by (simp add: currentTreeSpecHash_def)
  from spec_hash_text [OF this] have "b64_encode h = TREE_SPEC_V2_HASH" "length h = 32" by simp_all
  with h spec_hashes_differ show ?thesis
    by (auto simp: treeAttribution_def Let_def TREE_SPEC_FUSE_VERSION_def)
qed

lemma demo_tree:
  "\<exists>opts c l t g path t' doc. commits_tree head_hash opts c [l] t \<and> to_proofAlreadyVerified opts
    \<and> tree_path head_hash (bt_tree t) (int 0) = Inr (path, t')
    \<and> buildTreeMemberEvidence (bt_sorted t ! 0) (int 0) (int (length [l])) path = Inr (to_member opts)
    \<and> leafFor head_hash 1 [1] c = Inr (bt_sorted t ! 0, g) \<and> bt_sorted t = [l] \<and> length g = 49
    \<and> buildTreeRootDocument c (int (length [l])) (bt_root t) = Inr doc
    \<and> fld (fld (to_proof opts) ''artifact'') ''digestB64'' = JStr (b64_encode (head_hash doc))
    \<and> inj_on head_hash (tree_hashed head_hash (as_bytes opts g) (bt_sorted t) doc)"
proof -
  obtain h a where a: "currentTreeSpecHash 3 = Inr h" "treeAttribution h = Inr a" "fld a ''name'' = JStr (u16 ''bitgraph-fuse/3'')"
    using demo_attribution by blast
  let ?p = "demo_tree_proof a"
  have p: "fld (?p d) ''attribution'' = a" "fld (?p d) ''commit'' = fld demo_fused ''commit''" "fld (?p d) ''slotAllocation'' = demo_slot"
    "fld (fld (?p d) ''artifact'') ''digestB64'' = JStr (b64_encode d)" for d by (simp_all add: demo_tree_proof_def)
  obtain c where c: "commitmentForProof head_hash demo_fused demo_slot = Inr c" using demo_commitment by blast
  have cp: "commitmentForProof head_hash (?p d) demo_slot = Inr c" for d
    unfolding c [symmetric] by (rule commitment_fields) (simp_all add: p a(3) demo_fused_def)
  have ts: "truthy demo_slot" by (simp add: truthy_def demo_slot_def)
  have lc: "length c = 32" using commitment_length [OF head_hash32 c] .
  obtain l g where lf: "leafFor head_hash 1 [1] c = Inr (l, g)" "length g = 49"
    using lc by (simp add: leafFor_def committedBytesFor_def LEAF_PLACEMENTS_def placement_build_def trailer1_build_def)
  then have lok: "leaf_ok l" using leafFor_ok [OF head_hash32] by blast
  then have s: "sortTreeLeaves [l] = Inr [l]" by (simp add: sortTreeLeaves_iff MAX_TREE_LEAVES_def)
  obtain m where t: "buildTree head_hash [l] = Inr \<lparr>bt_sorted = [l], bt_leafHashes = leaf_hashes head_hash [l],
      bt_root = mth head_hash (leaf_hashes head_hash [l]), bt_tree = m\<rparr>" (is "_ = Inr ?t")
    using buildTree_eq [OF head_hash32 s] unfolding leaf_hashes_def by blast
  have root: "length (bt_root ?t) = 32" by (simp add: leaf_hashes_def merkleLeafHash_def head_hash_def)
  obtain doc where doc: "buildTreeRootDocument c (int (length [l])) (bt_root ?t) = Inr doc"
    using lc root by (auto simp: buildTreeRootDocument_def MAX_TREE_LEAVES_def)
  have bt: "tree_ok head_hash m" "mt_leafHashes m = leaf_hashes head_hash [l]" using built_tree_facts [OF head_hash32 t] by simp_all
  have "merklePath head_hash (leaf_hashes head_hash [l]) 0 = Inr []"
    by (simp add: merklePath_def leaf_hashes_def walk.simps)
  then obtain t' where tp: "tree_path head_hash m 0 = Inr ([], t')"
    using tree_path_ok [OF bt(1), of 0] bt(2) by (auto split: sum.splits prod.splits)
  obtain v where v: "buildTreeMemberEvidence l 0 1 [] = Inr v" using lok by (simp add: buildTreeMemberEvidence_def encodeTreeLeaf_eq [THEN iffD2])
  define opts where "opts = \<lparr>to_proof = ?p (head_hash doc), to_bytes = None, to_source = None, to_member = v, to_rootDocument = Some doc,
    to_trustAnchors = None, to_extraSpecHashes = [], to_proofAlreadyVerified = True\<rparr>"
  have ct: "commits_tree head_hash opts c [l] ?t"
    unfolding commits_tree_def opts_def using t a(1,2) doc by (auto simp: p cp ts)
  have ev: "parseTreeMemberEvidence v = Some \<lparr>tm_leaf = l, tm_index = 0, tm_count = 1, tm_path = []\<rparr>"
    using parse_built_evidence [of l 0 1 "[]" v] v by (simp add: MAX_TREE_LEAVES_def)
  have "tree_hashed head_hash (as_bytes opts g) [l] doc = {doc, 0x00 # leaf_bytes l}"
    by (auto simp: tree_hashed_def as_bytes_def opts_def ev leaf_hashes_def mth_inputs.simps mroot_inputs.simps)
  moreover have "hd TREE_DOMAIN = 98" "TREE_DOMAIN \<noteq> []" by code_simp+
  then have "TREE_DOMAIN = 98 # tl TREE_DOMAIN" by (metis list.collapse)
  then have "\<exists>r. doc = 98 # r" using doc by (auto simp: buildTreeRootDocument_def split: if_splits) (metis append_Cons)
  then have "inj_on head_hash {doc, 0x00 # leaf_bytes l}" by (auto simp: inj_on_def head_hash_def)
  ultimately have inj: "inj_on head_hash (tree_hashed head_hash (as_bytes opts g) (bt_sorted ?t) doc)" by simp
  show ?thesis
    using ct lf tp v doc inj p(4) by (intro exI [of _ opts] exI [of _ c] exI [of _ l] exI [of _ ?t] exI [of _ g] exI [of _ "[]"]
      exI [of _ t'] exI [of _ doc]) (simp add: opts_def)
qed

theorem tree_member_complete_witness:
  "\<exists>opts g r. verifyTreeMember demo_tree_crypto demo_json (as_bytes opts g) = Inr r \<and> tv_category r = TREE_MEMBER_DIRECT"
proof -
  obtain opts c l t g path t' where d: "commits_tree head_hash opts c [l] t" "to_proofAlreadyVerified opts"
    "tree_path head_hash (bt_tree t) (int 0) = Inr (path, t')"
    "buildTreeMemberEvidence (bt_sorted t ! 0) (int 0) (int (length [l])) path = Inr (to_member opts)"
    "leafFor head_hash 1 [1] c = Inr (bt_sorted t ! 0, g)" using demo_tree by blast
  have h: "c_sha256 demo_tree_crypto = head_hash" by (simp add: demo_tree_crypto_def)
  have "proof_accepted demo_tree_crypto opts" using d(2) by (simp add: proof_accepted_def)
  from tree_member_complete [of demo_tree_crypto demo_json opts c "[l]" t 0 path t' 1 "[1]" g, unfolded h,
      OF head_hash32 demo_json_reads d(1) this _ d(3-5)]
  show ?thesis by auto
qed

lemma demo_accepted:
  "\<exists>opts c l t g doc r. commits_tree head_hash opts c [l] t \<and> bt_sorted t = [l] \<and> length g = 49
    \<and> buildTreeRootDocument c (int (length [l])) (bt_root t) = Inr doc
    \<and> fld (fld (to_proof opts) ''artifact'') ''digestB64'' = JStr (b64_encode (head_hash doc))
    \<and> inj_on head_hash (tree_hashed head_hash (as_bytes opts g) (bt_sorted t) doc)
    \<and> verifyTreeMember demo_tree_crypto demo_json (as_bytes opts g) = Inr r \<and> tv_category r = TREE_MEMBER_DIRECT"
proof -
  obtain opts c l t g path t' doc where d: "commits_tree head_hash opts c [l] t" "to_proofAlreadyVerified opts"
    "tree_path head_hash (bt_tree t) (int 0) = Inr (path, t')"
    "buildTreeMemberEvidence (bt_sorted t ! 0) (int 0) (int (length [l])) path = Inr (to_member opts)"
    "leafFor head_hash 1 [1] c = Inr (bt_sorted t ! 0, g)" "bt_sorted t = [l]" "length g = 49"
    "buildTreeRootDocument c (int (length [l])) (bt_root t) = Inr doc"
    "fld (fld (to_proof opts) ''artifact'') ''digestB64'' = JStr (b64_encode (head_hash doc))"
    "inj_on head_hash (tree_hashed head_hash (as_bytes opts g) (bt_sorted t) doc)" using demo_tree by blast
  have h: "c_sha256 demo_tree_crypto = head_hash" by (simp add: demo_tree_crypto_def)
  have ok: "proof_accepted demo_tree_crypto opts" using d(2) by (simp add: proof_accepted_def)
  let ?ev = "\<lparr>tm_leaf = bt_sorted t ! 0, tm_index = 0, tm_count = length [l], tm_path = path\<rparr>"
  have l: "tl_placement (bt_sorted t ! 0) = 1" "tl_origin (bt_sorted t ! 0) = head_hash [1]" "tl_artifact (bt_sorted t ! 0) = head_hash g"
    "placement_build head_hash Trailer1 (Some [1]) None c = Inr g"
    using leafFor_fields [OF d(5)] by (auto simp: committedBytesFor_def LEAF_PLACEMENTS_def placement_build_def)
  have "judge_bytes head_hash demo_json c ?ev g = Inr (direct_verdict ?ev)"
    using judge_bytes_direct [OF head_hash32 demo_json_reads, of ?ev Trailer1 g c] l by (auto simp: LEAF_PLACEMENTS_def)
  from producer_file_accepted [of demo_tree_crypto opts c "[l]" t 0 path t' demo_json g, unfolded h, OF head_hash32 d(1) ok _ d(3,4) this]
  obtain r where "verifyTreeMember demo_tree_crypto demo_json (as_bytes opts g) = Inr r" "tv_category r = TREE_MEMBER_DIRECT"
    by (auto simp: verdict_categories)
  with d(1,6-10) show ?thesis by blast
qed

theorem tree_member_sound_witness:
  "\<exists>l c f. member_means head_hash c l f TREE_MEMBER_DIRECT"
proof -
  obtain opts c l t g doc r where d: "commits_tree head_hash opts c [l] t"
    "buildTreeRootDocument c (int (length [l])) (bt_root t) = Inr doc"
    "fld (fld (to_proof opts) ''artifact'') ''digestB64'' = JStr (b64_encode (head_hash doc))"
    "inj_on head_hash (tree_hashed head_hash (as_bytes opts g) (bt_sorted t) doc)"
    "verifyTreeMember demo_tree_crypto demo_json (as_bytes opts g) = Inr r" "tv_category r = TREE_MEMBER_DIRECT"
    using demo_accepted by blast
  have h: "c_sha256 demo_tree_crypto = head_hash" by (simp add: demo_tree_crypto_def)
  have t: "buildTree head_hash [l] = Inr t" using d(1) by (simp add: commits_tree_def)
  have "to_bytes (as_bytes opts g) = Some g" "tv_category r \<in> set TREE_MEMBER_CATEGORIES"
    by (simp_all add: as_bytes_def d(6) TREE_MEMBER_CATEGORIES_def)
  from tree_member_sound [of demo_tree_crypto demo_json "[l]" t c doc "as_bytes opts g" r g, unfolded h options_fields,
      OF head_hash32 demo_json_reads t d(2-5) this(2,1)]
  show ?thesis unfolding d(6) by blast
qed

theorem tree_stream_agrees_witness:
  "\<exists>opts chunks r. length chunks = 2 \<and> verifyTreeMember demo_tree_crypto demo_json (as_source opts chunks) = Inr r
    \<and> tv_category r = TREE_MEMBER_DIRECT"
proof -
  obtain opts g r where d: "length g = 49" "verifyTreeMember demo_tree_crypto demo_json (as_bytes opts g) = Inr r"
    "tv_category r = TREE_MEMBER_DIRECT"
    using demo_accepted by blast
  let ?chunks = "[take 5 g, drop 5 g]"
  have c: "concat ?chunks = g" by simp
  have "hash32 (c_sha256 demo_tree_crypto)" by (simp add: demo_tree_crypto_def)
  from tree_stream_agrees [OF this demo_json_reads, of ?chunks opts] d
  obtain r' where "verifyTreeMember demo_tree_crypto demo_json (as_source opts ?chunks) = Inr r'" "r' = r"
    unfolding c by (auto simp: MAX_ENTRY_def Let_def split: sum.splits)
  moreover from this(2) have "tv_category r' = tv_category r" by simp
  ultimately show ?thesis using d(3) by (intro exI [of _ opts] exI [of _ ?chunks] exI [of _ r']) simp
qed

end
