(* ===== verification/BG_Fuse_Verify.thy ===== *)
theory BG_Fuse_Verify
  imports BG_Set BG_Tree_Member
begin

text \<open>
  The end of \<^verbatim>\<open>packages/verify/src/fuse.ts\<close> (carry encodings, the signed marker of a fused proof, frames) and
  \<^verbatim>\<open>fuse-verify.ts\<close>: the verdict on one file against one fused proof, with the statements it allows. The theory shows
  what each positive category establishes.
\<close>

subsection \<open>Attributions and markers\<close>

text \<open>Messages of errors leave out the placement id the code quotes in them.\<close>

definition fuseAttribution :: "jsstr \<Rightarrow> bytes option \<Rightarrow> nat \<Rightarrow> jv res" where
  "fuseAttribution placement originDigest version =
     (if \<not> (case originDigest of Some d \<Rightarrow> length d = 32 | None \<Rightarrow> True) then Inl (TypeError ''originDigest must be 32 bytes'')
      else if (placement = SET_PLACEMENT_ID \<or> placement = SET2_PLACEMENT_ID) \<and> originDigest \<noteq> None
      then Inl (TypeError ''a set has no single origin; a set marker carries no origin digest'')
      else Inr (JObj (kv ''name'' (JStr (fuseNameOfVersion version)) # kv ''title'' (JStr placement)
        # (case originDigest of Some d \<Rightarrow> [kv ''message'' (JStr (b64_encode d))] | None \<Rightarrow> []))))"

datatype marker_source = FromAttribution | FromManifest

record fuse_marker =
  fm_placement :: "jsstr option"
  fm_placementSource :: "marker_source option"
  fm_originDigest :: "bytes option"
  fm_originSource :: "marker_source option"
  fm_source :: marker_source
  fm_version :: "nat option"

definition ENCODING_BASE64URL :: jsstr where "ENCODING_BASE64URL = u16 ''base64url''"

definition isCarryEncoding :: "jsstr option \<Rightarrow> bool" where
  "isCarryEncoding pid \<longleftrightarrow> pid = Some ENCODING_BASE64URL"

text \<open>The commitment as unpadded base64url text.\<close>

definition inline_needle :: "bytes \<Rightarrow> bytes" where
  "inline_needle commitment = utf8 (map to_url (filter (\<lambda>c. c \<noteq> 61) (b64_encode commitment)))"

definition findCommitment :: "bytes \<Rightarrow> bytes \<Rightarrow> jsstr \<Rightarrow> nat list" where
  "findCommitment bs commitment encoding =
     (if encoding \<noteq> ENCODING_BASE64URL then []
      else let needle = inline_needle commitment in
        if needle = [] \<or> length bs < length needle then []
        else filter (\<lambda>i. slice i (i + length needle) bs = needle) [0..<length bs + 1 - length needle])"

definition inlineAttribution :: "nat \<Rightarrow> jv" where
  "inlineAttribution version = JObj [kv ''name'' (JStr (fuseNameOfVersion version)), kv ''title'' (JStr ENCODING_BASE64URL)]"

definition digest_message :: "jv \<Rightarrow> bytes option" where
  "digest_message message = (if nonempty_str message
     then (case base64ToBytes (str_of message) of Some d \<Rightarrow> if length d = 32 then Some d else None | None \<Rightarrow> None) else None)"

definition readFuseAttribution :: "jv \<Rightarrow> fuse_marker option" where
  "readFuseAttribution proof = (let a = fld proof ''attribution'' in
     case fuseVersionOfName (fld a ''name'') of None \<Rightarrow> None
     | Some version \<Rightarrow>
         if fld a ''title'' = JStr (u16 ''tree/1'') then None
         else let declared = nonempty_str (fld a ''title''); origin = digest_message (fld a ''message'') in
           Some \<lparr>fm_placement = (if declared then Some (str_of (fld a ''title'')) else None),
             fm_placementSource = (if declared then Some FromAttribution else None),
             fm_originDigest = origin, fm_originSource = map_option (\<lambda>_. FromAttribution) origin,
             fm_source = FromAttribution, fm_version = Some version\<rparr>)"

definition mergeMarkers :: "fuse_marker option \<Rightarrow> fuse_marker option \<Rightarrow> fuse_marker option" where
  "mergeMarkers attributed manifest = (case (attributed, manifest) of
     (None, _) \<Rightarrow> manifest
   | (_, None) \<Rightarrow> attributed
   | (Some s, Some m) \<Rightarrow>
       let s1 = (if fm_placement s = None \<and> fm_placement m \<noteq> None
                 then s\<lparr>fm_placement := fm_placement m, fm_placementSource := Some FromManifest\<rparr> else s) in
       Some (if fm_originDigest s1 = None \<and> fm_originDigest m \<noteq> None
             then s1\<lparr>fm_originDigest := fm_originDigest m, fm_originSource := Some FromManifest\<rparr> else s1))"

subsection \<open>Frames\<close>

text \<open>What \<^verbatim>\<open>parseFrame\<close> returns: the manifest's fields, the payload and the proof.\<close>

record fuse_frame =
  fr_placement :: jsstr
  fr_origin :: jv
  fr_artifact :: jv
  fr_fusedFile :: jv
  fr_fusePayload :: jv
  fr_proof :: jv

definition buildFrame :: "(bytes \<Rightarrow> jv option) \<Rightarrow> jv \<Rightarrow> jsstr \<Rightarrow> bytes \<Rightarrow> bytes option \<Rightarrow> jv \<Rightarrow> bytes option \<Rightarrow> jv res" where
  "buildFrame json proof placement artifactDigest originDigest fusedFile fusePayload =
     (let frame = [kv ''type'' (JStr (u16 ''bitgraph-fuse/1'')),
            kv ''manifest'' (JObj (kv ''placement'' (JStr placement)
              # (case originDigest of Some d \<Rightarrow> [kv ''origin'' (digest_obj d)] | None \<Rightarrow> [])
              @ [kv ''artifact'' (digest_obj artifactDigest), kv ''fusedFile'' fusedFile])),
            kv ''proof'' proof] in
      case fusePayload of None \<Rightarrow> Inr (JObj frame)
      | Some b \<Rightarrow> (case (parseFusePayload json b, json b) of
          (Some _, Some v) \<Rightarrow> Inr (JObj (frame @ [kv ''fusePayload'' v]))
        | _ \<Rightarrow> Inl (TypeError ''fusePayload is not a canonical bitgraph-fuse/1 payload'')))"

text \<open>\<open>jparse\<close> is \<^verbatim>\<open>JSON.parse\<close> of a string.\<close>

definition parseFrame :: "(jsstr \<Rightarrow> jv option) \<Rightarrow> jv \<Rightarrow> fuse_frame option" where
  "parseFrame jparse input =
     (let obj = (case input of JStr s \<Rightarrow> (case jparse s of Some v \<Rightarrow> v | None \<Rightarrow> JNull) | _ \<Rightarrow> input); m = fld obj ''manifest'' in
      if \<not> is_obj obj \<or> fld obj ''type'' \<noteq> JStr (u16 ''bitgraph-fuse/1'') then None
      else if \<not> is_obj m then None
      else if \<not> opt_str (fld m ''placement'') then None
      else if readDigestField (fld m ''artifact'') = None then None
      else if fld m ''origin'' \<noteq> JUndefined \<and> readDigestField (fld m ''origin'') = None then None
      else if fld m ''fusedFile'' \<noteq> JNull \<and> \<not> is_str (fld m ''fusedFile'') then None
      else if \<not> is_obj (fld obj ''proof'') \<or> fld (fld obj ''proof'') ''version'' \<noteq> JStr (u16 ''bitgraph/1'') then None
      else if fld obj ''fusePayload'' \<noteq> JUndefined \<and> \<not> is_obj (fld obj ''fusePayload'') then None
      else Some \<lparr>fr_placement = str_of (fld m ''placement''), fr_origin = fld m ''origin'', fr_artifact = fld m ''artifact'',
        fr_fusedFile = fld m ''fusedFile'', fr_fusePayload = fld obj ''fusePayload'', fr_proof = fld obj ''proof''\<rparr>)"

definition readFrameMarker :: "fuse_frame \<Rightarrow> fuse_marker" where
  "readFrameMarker frame =
     (let declared = fr_placement frame \<noteq> [];
          origin = (if fr_origin frame = JUndefined then None
            else case hexBytes (str_of (fld (fr_origin frame) ''digest'')) of Some d \<Rightarrow> if length d = 32 then Some d else None | None \<Rightarrow> None) in
      \<lparr>fm_placement = (if declared then Some (fr_placement frame) else None),
       fm_placementSource = (if declared then Some FromManifest else None),
       fm_originDigest = origin, fm_originSource = map_option (\<lambda>_. FromManifest) origin,
       fm_source = FromManifest, fm_version = None\<rparr>)"

subsection \<open>The result\<close>

datatype fuse_category =
    RECORDED | CARRIED_INLINE | FUSED_DIRECT | FUSED_FROM_ORIGIN | RECONSTRUCTION_MISMATCH | INVALID_SLOT_COMMITMENT
  | INVALID_ORIGIN_ATTRIBUTION | INVALID_UNDERLYING_PROOF | UNDETERMINED_PLACEMENT | COMMITMENT_ABSENT | NO_MATCH

datatype carried_kind = ByPlacement | ByEncoding

text \<open>The result of \<^verbatim>\<open>verifyFuse\<close>; \<^verbatim>\<open>verifyFuseMember\<close> has the same fields with its own categories.\<close>

record 'c fuse_result =
  fv_category :: 'c
  fv_proof :: "bool \<times> string option"
  fv_marker :: "fuse_marker option"
  fv_placement :: "jsstr option"
  fv_fileDigestB64 :: jsstr
  fv_artifactDigestB64 :: jv
  fv_originDigestB64 :: "jsstr option"
  fv_slotCommitmentB64 :: "jsstr option"
  fv_span :: "fuse_span option"
  fv_policy :: "bool \<times> jsstr option"
  fv_offsets :: "nat list"
  fv_statements :: "jsstr list"
  fv_limits :: "string list"
  fv_carriedBy :: "(carried_kind \<times> jsstr) option"
  fv_reason :: "jsstr option"

record fuse_options =
  fo_proof :: jv
  fo_bytes :: bytes
  fo_frame :: jv
  fo_trustAnchors :: "verification_policy option"
  fo_maxPositions :: "int option"

definition floorStatement :: "fuse_span \<Rightarrow> jsstr" where
  "floorStatement span = u16 ''The exact fused bytes could not feasibly have been finalized before position '' @ sp_slotCounter span
     @ u16 '' was reserved and signed for them, and were committed no later than position '' @ sp_commitCounter span @ u16 ''.''"

definition fuse_statements :: "fuse_category \<Rightarrow> fuse_span option \<Rightarrow> bool \<Rightarrow> jsstr list" where
  "fuse_statements category span originMatched = (case span of None \<Rightarrow> []
     | Some s \<Rightarrow>
       (if category = FUSED_FROM_ORIGIN
        then [u16 ''The supplied original rebuilds the committed fused artifact byte for byte, so these exact original bytes existed no later than commit position ''
          @ sp_commitCounter s @ u16 ''.'']
        else if category = FUSED_DIRECT \<and> originMatched
        then [u16 ''The fused bytes carry an origin digest that matches the signed marker; the original itself was not supplied and was not checked.'']
        else [])
       @ (if category = FUSED_DIRECT \<or> category = FUSED_FROM_ORIGIN then [floorStatement s] else [])
       @ (if category = RECORDED then [u16 ''These exact bytes existed no later than commit position '' @ sp_commitCounter s @ u16 ''.''] else []))"

definition inlineStatements :: "fuse_span option \<Rightarrow> nat \<Rightarrow> jsstr list" where
  "inlineStatements span offset = (case span of None \<Rightarrow> []
     | Some s \<Rightarrow> [u16 ''The enclave reserved and signed position '' @ sp_slotCounter s @ u16 '' before this artifact's digest reached it.'',
         u16 ''These exact bytes contain that position's commitment, first at byte '' @ int_units (int offset)
           @ u16 '', so they were assembled after position '' @ sp_slotCounter s
           @ u16 '' existed and were committed at position '' @ sp_commitCounter s @ u16 ''.''])"

definition INLINE_LIMITS :: "string list" where
  "INLINE_LIMITS = [''Containing the commitment does not show it was an input to the artifact's production: bytes appended to a finished file pass the same check. What the commitment was to the work is the producer's claim, not this result's.'']"

text \<open>\<^verbatim>\<open>BigInt(span.positions) > maxPositions\<close>; positions is the decimal text of an integer.\<close>

definition span_policy :: "fuse_span option \<Rightarrow> int option \<Rightarrow> bool \<times> jsstr option" where
  "span_policy span maxPositions = (case maxPositions of None \<Rightarrow> (False, None)
     | Some m \<Rightarrow> (case span of None \<Rightarrow> False
         | Some s \<Rightarrow> (case js_bigint (sp_positions s) of Some n \<Rightarrow> m < n | None \<Rightarrow> False), Some (int_units m)))"

text \<open>\<^verbatim>\<open>base\<close> with the fields of \<^verbatim>\<open>common\<close>; the limits belong to \<^verbatim>\<open>CARRIED_INLINE\<close> alone.\<close>

definition fuse_base :: "hashfun \<Rightarrow> jv \<Rightarrow> bytes \<Rightarrow> fuse_marker option \<Rightarrow> fuse_span option \<Rightarrow> bool \<times> jsstr option
    \<Rightarrow> fuse_category \<Rightarrow> jsstr option \<Rightarrow> fuse_category fuse_result" where
  "fuse_base H proof bs marker span policy category reason =
     \<lparr>fv_category = category, fv_proof = (True, None), fv_marker = marker, fv_placement = None,
      fv_fileDigestB64 = b64_encode (H bs),
      fv_artifactDigestB64 = (let d = fld (fld proof ''artifact'') ''digestB64'' in if d = JUndefined \<or> d = JNull then JStr [] else d),
      fv_originDigestB64 = (case marker of Some m \<Rightarrow> map_option b64_encode (fm_originDigest m) | None \<Rightarrow> None),
      fv_slotCommitmentB64 = None, fv_span = span, fv_policy = policy, fv_offsets = [], fv_statements = [],
      fv_limits = (if category = CARRIED_INLINE then INLINE_LIMITS else []), fv_carriedBy = None, fv_reason = reason\<rparr>"


subsection \<open>The verdict\<close>

definition embedded_origin :: "hashfun \<Rightarrow> located \<Rightarrow> bytes option" where
  "embedded_origin H l = (case lo_originDigest l of Some d \<Rightarrow> Some d | None \<Rightarrow> map_option H (lo_originalBytes l))"

text \<open>The undeclared scan: the first registered placement that locates a commitment.\<close>

fun scan_placements :: "hashfun \<Rightarrow> (bytes \<Rightarrow> jv option) \<Rightarrow> placement list \<Rightarrow> bytes \<Rightarrow> (placement \<times> located) option" where
  "scan_placements H json [] bs = None"
| "scan_placements H json (p # ps) bs = (case placement_locate H json p bs of
     Some l \<Rightarrow> Some (p, l) | None \<Rightarrow> scan_placements H json ps bs)"

text \<open>Section 3 of the code, from the located commitment on. \<open>sealed\<close> is \<^verbatim>\<open>base\<close> with the recomputed commitment.\<close>

definition judge_located :: "hashfun \<Rightarrow> fuse_marker \<Rightarrow> fuse_span option \<Rightarrow> bytes
    \<Rightarrow> (fuse_category \<Rightarrow> jsstr option \<Rightarrow> fuse_category fuse_result) \<Rightarrow> any_placement \<Rightarrow> located option \<Rightarrow> fuse_category fuse_result" where
  "judge_located H marker span expected sealed p located =
     (let at = (\<lambda>category reason. (sealed category reason)\<lparr>fv_placement := Some (placement_id p)\<rparr>) in
      case located of
        None \<Rightarrow> at INVALID_SLOT_COMMITMENT (Some (u16 ''no '' @ placement_id p @ u16 '' commitment found in the fused bytes''))
      | Some l \<Rightarrow>
          if lo_commitment l \<noteq> expected
          then at INVALID_SLOT_COMMITMENT (Some (u16 ''the commitment in the fused bytes does not match the proof's slot record''))
          else (case (fm_originDigest marker, embedded_origin H l) of
            (Some d, Some e) \<Rightarrow>
              if e \<noteq> d
              then at INVALID_ORIGIN_ATTRIBUTION (Some (if fm_originSource marker = Some FromAttribution
                then u16 ''the origin digest in the signed attribution does not match the origin inside the fused bytes''
                else u16 ''the origin digest in the manifest does not match the origin inside the fused bytes''))
              else (at FUSED_DIRECT None)\<lparr>fv_carriedBy := Some (ByPlacement, placement_id p),
                fv_statements := fuse_statements FUSED_DIRECT span True\<rparr>
          | _ \<Rightarrow> (at FUSED_DIRECT None)\<lparr>fv_carriedBy := Some (ByPlacement, placement_id p),
                fv_statements := fuse_statements FUSED_DIRECT span False\<rparr>))"

definition judge_inline :: "fuse_marker \<Rightarrow> fuse_span option \<Rightarrow> bytes \<Rightarrow> bytes
    \<Rightarrow> (fuse_category \<Rightarrow> jsstr option \<Rightarrow> fuse_category fuse_result) \<Rightarrow> fuse_category fuse_result" where
  "judge_inline marker span bs expected sealed =
     (let carried = (\<lambda>category reason. (sealed category reason)\<lparr>fv_carriedBy := Some (ByEncoding, ENCODING_BASE64URL)\<rparr>) in
      if fm_originDigest marker \<noteq> None
      then carried INVALID_ORIGIN_ATTRIBUTION
        (Some (u16 ''the marker declares an origin, but an artifact made with the commitment inside it has no original''))
      else (case findCommitment bs expected ENCODING_BASE64URL of
          [] \<Rightarrow> carried COMMITMENT_ABSENT
            (Some (u16 ''the artifact's bytes do not contain the commitment in encoding \"'' @ ENCODING_BASE64URL @ u16 ''\"''))
        | i # is \<Rightarrow> (carried CARRIED_INLINE None)\<lparr>fv_offsets := i # is, fv_statements := inlineStatements span i\<rparr>))"

definition judge_committed :: "hashfun \<Rightarrow> (bytes \<Rightarrow> jv option) \<Rightarrow> (bytes \<Rightarrow> jv option) \<Rightarrow> jv \<Rightarrow> bytes \<Rightarrow> fuse_marker option
    \<Rightarrow> fuse_span option \<Rightarrow> (fuse_category \<Rightarrow> jsstr option \<Rightarrow> fuse_category fuse_result) \<Rightarrow> fuse_category fuse_result" where
  "judge_committed H json setJson proof bs marker span common = (case marker of
     None \<Rightarrow> (common RECORDED None)\<lparr>fv_statements := fuse_statements RECORDED span False\<rparr>
   | Some mk \<Rightarrow>
       if fld proof ''slotAllocation'' = JUndefined
       then common INVALID_SLOT_COMMITMENT (Some (u16 ''the proof carries no slot record, so no commitment can be recomputed''))
       else (case commitmentForProof H proof (fld proof ''slotAllocation'') of
           Inl e \<Rightarrow> common INVALID_SLOT_COMMITMENT (Some (u16 ''commitment could not be recomputed: '' @ u16 (err_message e)))
         | Inr expected \<Rightarrow>
             let sealed = (\<lambda>category reason. (common category reason)\<lparr>fv_slotCommitmentB64 := Some (b64_encode expected)\<rparr>) in
             if isCarryEncoding (fm_placement mk) then judge_inline mk span bs expected sealed
             else (case fm_placement mk of
                 None \<Rightarrow> (case scan_placements H json PLACEMENTS bs of
                     None \<Rightarrow> sealed INVALID_SLOT_COMMITMENT (Some (u16 ''no registered placement finds a commitment in the fused bytes''))
                   | Some (p, l) \<Rightarrow> judge_located H mk span expected sealed (Registered p) (Some l))
               | Some pid \<Rightarrow> (case getPlacement pid of
                     None \<Rightarrow> sealed UNDETERMINED_PLACEMENT
                       (Some (u16 ''placement \"'' @ pid @ u16 ''\" is not registered; the commitment cannot be located''))
                   | Some p \<Rightarrow> judge_located H mk span expected sealed p (any_locate H json setJson p bs)))))"

text \<open>Section 4: the candidates in order; a build that throws is skipped.\<close>

fun rebuild_from :: "hashfun \<Rightarrow> jv \<Rightarrow> bytes \<Rightarrow> bytes \<Rightarrow> bytes \<Rightarrow> any_placement list \<Rightarrow> any_placement option" where
  "rebuild_from H artifactDigest bs originDigest commitment [] = None"
| "rebuild_from H artifactDigest bs originDigest commitment (p # ps) =
     (if byteExact p \<and> (case any_build H p (Some bs) (Some originDigest) commitment of
          Inr rebuilt \<Rightarrow> JStr (b64_encode (H rebuilt)) = artifactDigest | Inl _ \<Rightarrow> False)
      then Some p else rebuild_from H artifactDigest bs originDigest commitment ps)"

definition judge_origin :: "hashfun \<Rightarrow> jv \<Rightarrow> bytes \<Rightarrow> fuse_marker \<Rightarrow> bytes \<Rightarrow> fuse_span option
    \<Rightarrow> (fuse_category \<Rightarrow> jsstr option \<Rightarrow> fuse_category fuse_result) \<Rightarrow> fuse_category fuse_result" where
  "judge_origin H proof bs mk originDigest span common =
     (if fld proof ''slotAllocation'' = JUndefined
      then common INVALID_SLOT_COMMITMENT (Some (u16 ''the proof carries no slot record, so the fused bytes cannot be rebuilt''))
      else (case commitmentForProof H proof (fld proof ''slotAllocation'') of
          Inl e \<Rightarrow> common INVALID_SLOT_COMMITMENT (Some (u16 ''commitment could not be recomputed: '' @ u16 (err_message e)))
        | Inr commitment \<Rightarrow>
            let sealed = (\<lambda>category reason. (common category reason)\<lparr>fv_slotCommitmentB64 := Some (b64_encode commitment)\<rparr>);
                declared = Option.bind (fm_placement mk) getPlacement in
            if fm_placement mk \<noteq> None \<and> declared = None
            then sealed UNDETERMINED_PLACEMENT
              (Some (u16 ''placement \"'' @ the (fm_placement mk) @ u16 ''\" is not registered; the fused bytes cannot be rebuilt''))
            else let candidates = (case declared of Some p \<Rightarrow> [p] | None \<Rightarrow> filter byteExact (map Registered PLACEMENTS)) in
              (case rebuild_from H (fld (fld proof ''artifact'') ''digestB64'') bs originDigest commitment candidates of
                 Some p \<Rightarrow> (sealed FUSED_FROM_ORIGIN None)\<lparr>fv_placement := Some (placement_id p),
                   fv_carriedBy := Some (ByPlacement, placement_id p), fv_statements := fuse_statements FUSED_FROM_ORIGIN span True\<rparr>
               | None \<Rightarrow> (sealed RECONSTRUCTION_MISMATCH (Some (case declared of
                     Some p \<Rightarrow> u16 ''rebuilding '' @ placement_id p @ u16 '' from this file and the proof's position record does not reproduce the committed artifact digest''
                   | None \<Rightarrow> u16 ''no registered byte-exact placement rebuilds the committed artifact digest from this file'')))
                   \<lparr>fv_placement := map_option placement_id declared\<rparr>)))"

definition frame_marker :: "(jsstr \<Rightarrow> jv option) \<Rightarrow> jv \<Rightarrow> fuse_marker option" where
  "frame_marker jparse input = (if input = JUndefined \<or> input = JNull then None else map_option readFrameMarker (parseFrame jparse input))"

definition judge_file :: "hashfun \<Rightarrow> (bytes \<Rightarrow> jv option) \<Rightarrow> (bytes \<Rightarrow> jv option) \<Rightarrow> (jsstr \<Rightarrow> jv option) \<Rightarrow> fuse_options
    \<Rightarrow> fuse_category fuse_result" where
  "judge_file H json setJson jparse opts =
     (let proof = fo_proof opts; bs = fo_bytes opts;
          marker = mergeMarkers (readFuseAttribution proof) (frame_marker jparse (fo_frame opts));
          span = spanOf proof;
          common = fuse_base H proof bs marker span (span_policy span (fo_maxPositions opts)) in
      if JStr (b64_encode (H bs)) = fv_artifactDigestB64 (common NO_MATCH None)
      then judge_committed H json setJson proof bs marker span common
      else (case Option.bind marker (\<lambda>mk. map_option (Pair mk) (fm_originDigest mk)) of
          Some (mk, d) \<Rightarrow> if H bs = d then judge_origin H proof bs mk d span common
            else common NO_MATCH (Some (u16 ''this file matches neither the committed artifact digest nor the origin digest; the proof proves nothing about it''))
        | None \<Rightarrow> common NO_MATCH (Some (u16 ''this file matches neither the committed artifact digest nor the origin digest; the proof proves nothing about it''))))"

definition verifyFuse :: "crypto \<Rightarrow> (bytes \<Rightarrow> jv option) \<Rightarrow> (bytes \<Rightarrow> jv option) \<Rightarrow> (jsstr \<Rightarrow> jv option) \<Rightarrow> fuse_options
    \<Rightarrow> fuse_category fuse_result res" where
  "verifyFuse C json setJson jparse opts =
     (case fst (verifyProofIntegrity C (fo_proof opts) (fo_trustAnchors opts) createVerificationContext) of
        Valid \<Rightarrow> Inr (judge_file (c_sha256 C) json setJson jparse opts)
      | Invalid m \<Rightarrow> Inr ((fuse_base (c_sha256 C) (fo_proof opts) (fo_bytes opts) None None (False, None) INVALID_UNDERLYING_PROOF (Some (u16 m)))
          \<lparr>fv_proof := (False, Some m)\<rparr>)
      | Threw e \<Rightarrow> Inl e)"

definition assembledAfterCommit :: "jv \<Rightarrow> jv \<Rightarrow> bool option res" where
  "assembledAfterCommit a b =
     (let ca = fld a ''commit''; cb = fld b ''commit'';
          chain = (\<lambda>c. let x = fld c ''chainId'' in if x = JUndefined then JNull else x) in
      rbind (get (fld a ''signer'') ''publicKeyB64'') (\<lambda>ka. rbind (get (fld b ''signer'') ''publicKeyB64'') (\<lambda>kb.
        if \<not> js_eq ka kb then Inr None
        else rbind (get ca ''epochId'') (\<lambda>ea. if ea = JUndefined then Inr None
        else rbind (get cb ''epochId'') (\<lambda>eb.
          if \<not> js_eq ea eb then Inr None
          else if \<not> js_eq (chain ca) (chain cb) then Inr None
          else if \<not> (is_str (fld ca ''counter'') \<and> is_str (fld cb ''slotCounter'')) then Inr None
          else Inr (case (js_bigint (str_of (fld ca ''counter'')), js_bigint (str_of (fld cb ''slotCounter''))) of
              (Some m, Some n) \<Rightarrow> Some (m < n) | _ \<Rightarrow> None))))))"


subsection \<open>What the verdict means\<close>

lemma in_all_placements: "p \<in> set all_placements"
proof (cases p)
  case (Registered pl)
  then show ?thesis by (cases pl) (simp_all add: all_placements_def PLACEMENTS_def)
qed (simp_all add: all_placements_def)

lemma placement_id_eq [simp]: "placement_id p = placement_id q \<longleftrightarrow> p = q"
proof -
  have "distinct (map placement_id all_placements)" by code_simp
  then show ?thesis using in_all_placements by (auto simp: distinct_map inj_on_def)
qed

lemma getPlacement_iff: "getPlacement pid = Some p \<longleftrightarrow> pid = placement_id p"
proof
  assume "getPlacement pid = Some p"
  then show "pid = placement_id p" by (auto simp: getPlacement_def find_Some_iff)
next
  assume "pid = placement_id p"
  then have "getPlacement pid \<noteq> None" using in_all_placements [of p] by (auto simp: getPlacement_def find_None_iff)
  then obtain q where q: "getPlacement pid = Some q" by blast
  then have "placement_id q = pid" by (auto simp: getPlacement_def find_Some_iff)
  with q \<open>pid = placement_id p\<close> show "getPlacement pid = Some p" by simp
qed

lemma getPlacement_id [simp]: "getPlacement (placement_id p) = Some p"
  by (simp add: getPlacement_iff)

lemma not_encoding: "\<not> isCarryEncoding (Some (placement_id p))"
proof -
  have "ENCODING_BASE64URL \<notin> set (map placement_id all_placements)" by code_simp
  then show ?thesis using in_all_placements [of p] by (metis imageI isCarryEncoding_def list.set_map option.inject)
qed

text \<open>A builder given the original's own digest as its origin builds what it builds without one.\<close>

lemma build_with_origin: "pl \<noteq> Produced1 \<Longrightarrow> placement_build H pl (Some b) (Some (H b)) c = placement_build H pl (Some b) None c"
  by (cases pl) (simp_all add: placement_build_def container1_build_def container2_build_def)

lemma byteExact_registered: "pl \<noteq> Produced1 \<Longrightarrow> byteExact (Registered pl)"
  by (cases pl) (simp_all add: byteExact_def)

lemma embedded_located [simp]: "embedded_origin H (located_as H pl b c) = Some (H b)"
  by (simp add: embedded_origin_def located_as_def)

lemma fuse_base_category [simp]: "fv_category (fuse_base H proof bs marker span policy category reason) = category"
  by (simp add: fuse_base_def)

text \<open>The part of section 3 that follows the commitment, for a placement that can be rebuilt.\<close>

lemma judge_located_category:
  assumes "\<And>category reason. fv_category (sealed category reason) = category"
  shows "fv_category (judge_located H mk span c sealed p None) = INVALID_SLOT_COMMITMENT"
    "fv_category (judge_located H mk span c sealed p (Some l)) =
      (if lo_commitment l \<noteq> c then INVALID_SLOT_COMMITMENT
       else if \<exists>d e. fm_originDigest mk = Some d \<and> embedded_origin H l = Some e \<and> e \<noteq> d then INVALID_ORIGIN_ATTRIBUTION
       else FUSED_DIRECT)"
  using assms by (simp_all add: judge_located_def Let_def split: option.splits)

lemma judge_located_not_rebuilt:
  assumes "\<And>category reason. fv_category (sealed category reason) = category"
  shows "fv_category (judge_located H mk span c sealed p l) \<noteq> FUSED_FROM_ORIGIN"
  using assms by (cases l) (simp_all add: judge_located_category)

lemma judge_located_direct:
  assumes "hash32 H" "reads_payloads json" "pl \<noteq> Produced1"
    and s: "\<And>category reason. fv_category (sealed category reason) = category"
  shows "fv_category (judge_located H mk span c sealed (Registered pl) (placement_locate H json pl f)) = FUSED_DIRECT
    \<longleftrightarrow> (\<exists>b. placement_build H pl (Some b) None c = Inr f \<and> (\<forall>d. fm_originDigest mk = Some d \<longrightarrow> H b = d))"
proof (cases "placement_locate H json pl f")
  case None
  then have "placement_build H pl (Some b) None c \<noteq> Inr f" for b
    using placement_locate_eq [OF assms(1-3), of f "located_as H pl b c"] by auto
  with None show ?thesis by (simp add: judge_located_category [OF s])
next
  case (Some l)
  then obtain b c' where b: "placement_build H pl (Some b) None c' = Inr f" "l = located_as H pl b c'"
    using placement_locate_eq [OF assms(1-3)] by blast
  have e: "placement_build H pl (Some b') None c = Inr f \<longleftrightarrow> b' = b \<and> c = c'" for b'
  proof
    assume "placement_build H pl (Some b') None c = Inr f"
    then have "placement_locate H json pl f = Some (located_as H pl b' c)" using placement_locate_eq [OF assms(1-3)] by blast
    with Some b(2) show "b' = b \<and> c = c'" by (simp add: located_as_def)
  qed (use b(1) in simp)
  have l: "lo_commitment l = c'" "embedded_origin H l = Some (H b)" unfolding b(2) by (simp add: located_as_def, simp)
  show ?thesis unfolding Some judge_located_category [OF s] e l by auto
qed


lemma rebuild_from_one: "rebuild_from H a bs d c [Registered pl] = Some p
   \<longleftrightarrow> p = Registered pl \<and> byteExact p \<and> (\<exists>g. placement_build H pl (Some bs) (Some d) c = Inr g \<and> JStr (b64_encode (H g)) = a)"
  by (auto simp: any_build_def split: sum.splits)

text \<open>Section 4 for a declared placement that can be rebuilt.\<close>

lemma judge_origin_rebuilt:
  assumes "pl \<noteq> Produced1" and s: "\<And>category reason. fv_category (common category reason) = category"
    and mk: "fm_placement mk = Some (placement_id (Registered pl))"
    and c: "fld proof ''slotAllocation'' \<noteq> JUndefined" "commitmentForProof H proof (fld proof ''slotAllocation'') = Inr c"
  shows "fv_category (judge_origin H proof f mk (H f) span common) =
    (if \<exists>g. placement_build H pl (Some f) None c = Inr g \<and> JStr (b64_encode (H g)) = fld (fld proof ''artifact'') ''digestB64''
     then FUSED_FROM_ORIGIN else RECONSTRUCTION_MISMATCH)"
proof -
  let ?a = "fld (fld proof ''artifact'') ''digestB64''"
  have "rebuild_from H ?a f (H f) c [Registered pl] =
    (if \<exists>g. placement_build H pl (Some f) None c = Inr g \<and> JStr (b64_encode (H g)) = ?a then Some (Registered pl) else None)"
    using rebuild_from_one [of H ?a f "H f" c pl] byteExact_registered [OF assms(1)] build_with_origin [OF assms(1)]
    by (cases "rebuild_from H ?a f (H f) c [Registered pl]") (auto simp del: rebuild_from.simps)
  then show ?thesis using c mk by (simp add: judge_origin_def Let_def s del: rebuild_from.simps)
qed

lemma verifyFuse_accepts: "verifyFuse C json setJson jparse opts = Inr r \<Longrightarrow>
   (fst (verifyProofIntegrity C (fo_proof opts) (fo_trustAnchors opts) createVerificationContext) = Valid
     \<and> r = judge_file (c_sha256 C) json setJson jparse opts) \<or> fv_category r = INVALID_UNDERLYING_PROOF"
  by (auto simp: verifyFuse_def split: verify_result.splits)

text \<open>The proof in hand marks a file fused under a placement, and its slot record and signed floor give the commitment.\<close>

definition fused_under :: "hashfun \<Rightarrow> (jsstr \<Rightarrow> jv option) \<Rightarrow> fuse_options \<Rightarrow> fuse_marker \<Rightarrow> placement \<Rightarrow> bytes \<Rightarrow> bytes \<Rightarrow> bool" where
  "fused_under H jparse opts mk pl c a \<longleftrightarrow>
     mergeMarkers (readFuseAttribution (fo_proof opts)) (frame_marker jparse (fo_frame opts)) = Some mk
     \<and> fm_placement mk = Some (placement_id (Registered pl)) \<and> fld (fo_proof opts) ''slotAllocation'' \<noteq> JUndefined
     \<and> commitmentForProof H (fo_proof opts) (fld (fo_proof opts) ''slotAllocation'') = Inr c
     \<and> fld (fld (fo_proof opts) ''artifact'') ''digestB64'' = JStr (b64_encode a)"

lemma judge_file_category:
  assumes "hash32 H" "reads_payloads json" "pl \<noteq> Produced1" "fused_under H jparse opts mk pl c a"
    and r_def: "r = judge_file H json setJson jparse opts"
  shows "(fv_category r = FUSED_DIRECT \<longleftrightarrow> H (fo_bytes opts) = a
        \<and> (\<exists>b. placement_build H pl (Some b) None c = Inr (fo_bytes opts) \<and> (\<forall>d. fm_originDigest mk = Some d \<longrightarrow> H b = d)))
    \<and> (fv_category r = FUSED_FROM_ORIGIN \<longleftrightarrow> H (fo_bytes opts) \<noteq> a \<and> fm_originDigest mk = Some (H (fo_bytes opts))
        \<and> (\<exists>g. placement_build H pl (Some (fo_bytes opts)) None c = Inr g \<and> H g = a))"
proof -
  let ?f = "fo_bytes opts" and ?p = "fo_proof opts"
  let ?common = "fuse_base H ?p ?f (Some mk) (spanOf ?p) (span_policy (spanOf ?p) (fo_maxPositions opts))"
  note fu = assms(4) [unfolded fused_under_def]
  have dig: "fv_artifactDigestB64 (?common NO_MATCH None) = JStr (b64_encode a)" using fu by (simp add: fuse_base_def)
  show ?thesis
  proof (cases "H ?f = a")
    case True
    let ?sealed = "\<lambda>category reason. (?common category reason)\<lparr>fv_slotCommitmentB64 := Some (b64_encode c)\<rparr>"
    have s: "fv_category (?sealed category reason) = category" for category reason by simp
    have "fv_category r = fv_category (judge_located H mk (spanOf ?p) c ?sealed (Registered pl) (placement_locate H json pl ?f))"
      using fu dig True not_encoding [of "Registered pl"]
      by (simp add: r_def judge_file_def judge_committed_def Let_def any_locate_def)
    then show ?thesis
      using judge_located_direct [OF assms(1-3), of ?sealed mk "spanOf ?p" c ?f] judge_located_not_rebuilt [OF s] True by simp
  next
    case False
    show ?thesis
    proof (cases "fm_originDigest mk = Some (H ?f)")
      case o: True
      have "fv_category r = fv_category (judge_origin H ?p ?f mk (H ?f) (spanOf ?p) ?common)"
        using fu dig False o by (simp add: r_def judge_file_def Let_def)
      also have "\<dots> = (if \<exists>g. placement_build H pl (Some ?f) None c = Inr g \<and> JStr (b64_encode (H g)) = fld (fld ?p ''artifact'') ''digestB64''
          then FUSED_FROM_ORIGIN else RECONSTRUCTION_MISMATCH)"
        using fu assms(3) by (intro judge_origin_rebuilt) simp_all
      finally show ?thesis using fu False o by auto
    next
      case o: False
      have "fv_category r = NO_MATCH"
        using fu dig False o by (auto simp: r_def judge_file_def Let_def split: option.splits)
      then show ?thesis using False o by simp
    qed
  qed
qed


text \<open>C14: The verdict on a fused file, exactly. Let the proof be accepted, mark a file fused under a trailer or a container
  (in its signed attribution, or in the frame where that is silent), and let its slot record and signed floor give the
  commitment. Then \<open>verifyFuse\<close> answers, it says the file is the fused one exactly when the file has the signed digest and is
  what the builder makes of some original and that commitment (an original with the declared origin digest, if one is
  declared), and it says the file is the original exactly when it has the declared origin digest, not the signed one, and the
  builder makes from it the bytes of the signed digest.\<close>

theorem fuse_verdict_exact:
  assumes "hash32 (c_sha256 C)" "reads_payloads json" "pl \<noteq> Produced1" "fused_under (c_sha256 C) jparse opts mk pl c a"
    and "fst (verifyProofIntegrity C (fo_proof opts) (fo_trustAnchors opts) createVerificationContext) = Valid"
  shows "\<exists>r. verifyFuse C json setJson jparse opts = Inr r
    \<and> (fv_category r = FUSED_DIRECT \<longleftrightarrow> c_sha256 C (fo_bytes opts) = a
        \<and> (\<exists>b. placement_build (c_sha256 C) pl (Some b) None c = Inr (fo_bytes opts)
            \<and> (\<forall>d. fm_originDigest mk = Some d \<longrightarrow> c_sha256 C b = d)))
    \<and> (fv_category r = FUSED_FROM_ORIGIN \<longleftrightarrow> c_sha256 C (fo_bytes opts) \<noteq> a
        \<and> fm_originDigest mk = Some (c_sha256 C (fo_bytes opts))
        \<and> (\<exists>g. placement_build (c_sha256 C) pl (Some (fo_bytes opts)) None c = Inr g \<and> c_sha256 C g = a))"
  using judge_file_category [OF assms(1-4) refl, of setJson] assms(5) by (simp add: verifyFuse_def)


subsection \<open>A concrete fused proof\<close>

definition demo_position :: jv where
  "demo_position = JObj [kv ''version'' (JStr (u16 ''bitgraph/slot/1'')), kv ''nonceB64'' (JStr (b64_encode (replicate 32 3))),
     kv ''counter'' (JStr (u16 ''1'')), kv ''epochId'' (JStr (u16 ''e'')), kv ''publicKeyB64'' (JStr (b64_encode (replicate 32 2))),
     kv ''signatureB64'' (JStr (b64_encode (replicate 64 1)))]"

definition demo_marked :: "jv \<Rightarrow> bytes \<Rightarrow> bytes \<Rightarrow> jv" where
  "demo_marked attribution digest slotHash = JObj [kv ''version'' (JStr (u16 ''bitgraph/1'')),
     kv ''artifact'' (JObj [kv ''hashAlg'' (JStr (u16 ''sha256'')), kv ''digestB64'' (JStr (b64_encode digest))]),
     kv ''commit'' (JObj [kv ''nonceB64'' (JStr (b64_encode (replicate 32 3))), kv ''counter'' (JStr (u16 ''2'')),
       kv ''slotCounter'' (JStr (u16 ''1'')), kv ''slotHashB64'' (JStr (b64_encode slotHash)), kv ''epochId'' (JStr (u16 ''e''))]),
     kv ''signer'' (JObj [kv ''publicKeyB64'' (JStr (b64_encode (replicate 32 2))), kv ''signatureB64'' (JStr (b64_encode (replicate 64 1)))]),
     kv ''environment'' (JObj [kv ''enforcement'' (JStr (u16 ''stub'')), kv ''measurement'' (JStr (u16 ''m''))]),
     kv ''attribution'' attribution, kv ''slotAllocation'' demo_position]"

lemma b64_nonempty: "b \<noteq> [] \<Longrightarrow> b64_encode b \<noteq> []"
  by (cases b rule: b64_encode.cases) simp_all

lemma demo_position_fields:
  "fld demo_position ''version'' = JStr (u16 ''bitgraph/slot/1'')" "fld demo_position ''nonceB64'' = JStr (b64_encode (replicate 32 3))"
  "fld demo_position ''counter'' = JStr (u16 ''1'')" "fld demo_position ''epochId'' = JStr (u16 ''e'')"
  "fld demo_position ''publicKeyB64'' = JStr (b64_encode (replicate 32 2))" "fld demo_position ''time'' = JUndefined"
  "fld demo_position ''signatureB64'' = JStr (b64_encode (replicate 64 1))" "demo_position \<noteq> JUndefined" "demo_position \<noteq> JNull"
  by (simp_all add: demo_position_def)

lemma demo_slot_body: "slot_body demo_position = butlast (case demo_position of JObj ps \<Rightarrow> ps | _ \<Rightarrow> [])"
  by (simp add: slot_body_def demo_position_def kv_if_def truthy_def)

lemma demo_marked_valid:
  "\<exists>sh. sh \<noteq> [] \<and> (\<forall>a d. a \<noteq> JUndefined \<longrightarrow> json_ok a \<longrightarrow> d \<noteq> [] \<longrightarrow>
     fst (verifyProofIntegrity demo_tree_crypto (demo_marked a d sh) None createVerificationContext) = Valid)"
proof -
  have "json_ok (JObj (slot_body demo_position))" unfolding demo_slot_body by (simp add: demo_position_def)
  then obtain sb where sb: "canonicalize (JObj (slot_body demo_position)) = Inr sb" using canonicalize_total by blast
  let ?sh = "head_hash sb"
  have l: "?sh \<noteq> []" by (simp add: head_hash_def)
  have one: "js_bigint (u16 ''1'') = Some 1" "js_bigint (u16 ''2'') = Some 2"
    by (simp_all add: js_bigint_def js_trim_def js_space_def digits_in_def unit_digit_def u16_def Let_def)
  have "static_checks demo_tree_crypto (demo_marked a d ?sh) None = pass" if a: "a \<noteq> JUndefined" "json_ok a" "d \<noteq> []" for a d
  proof -
    let ?p = "demo_marked a d ?sh"
    have "\<exists>m. rbind (buildSignedBody ?p) canonicalize = Inr m"
    proof -
      obtain body where b: "buildSignedBody ?p = Inr body" "json_ok body"
        using a by (simp add: buildSignedBody_def Let_def demo_marked_def kv_if_def)
      with canonicalize_total [OF b(2)] show ?thesis by auto
    qed
    then have "check_signature demo_tree_crypto ?p = pass"
      by (auto simp: check_signature_def demo_marked_def check_ed_def demo_tree_crypto_def res_simps)
    moreover have "validateStructure ?p = pass"
      using a(3) by (simp add: validateStructure_def demo_marked_def typeof_object_def VALID_ENFORCEMENT_TIERS_def b64_nonempty)
    moreover have "verifySlotAllocation demo_tree_crypto ?p = pass"
    proof -
      have f: "fld ?p ''slotAllocation'' = demo_position" by (simp add: demo_marked_def)
      have k: "list_all (\<lambda>q. fst q \<notin> set forbiddenKeys) (slot_body demo_position)"
        unfolding demo_slot_body by (simp add: demo_position_def forbiddenKeys_def)
      show ?thesis
        unfolding verifySlotAllocation_def f
        using sb k l one
        by (simp add: demo_marked_def demo_position_fields get_def demo_tree_crypto_def check_ed_def constantTimeEqual_iff b64_nonempty
            bigint_of_def bigint_parse_def) blast
    qed
    ultimately show ?thesis
      by (simp add: static_checks_def check_artifact_def check_atomic_def demo_marked_def)
  qed
  then have "fst (verifyProofIntegrity demo_tree_crypto (demo_marked a d ?sh) None createVerificationContext) = Valid"
    if "a \<noteq> JUndefined" "json_ok a" "d \<noteq> []" for a d
    using that by (simp add: verifyProofIntegrity_def split_beta runChecks_pass opt_check_def) (simp add: demo_marked_def)
  with l show ?thesis by blast
qed


lemma demo_marked_commitment:
  assumes "fld a ''name'' = JStr (u16 ''bitgraph-fuse/1'')"
  shows "\<exists>c. length c = 32 \<and> (\<forall>d sh. commitmentForProof head_hash (demo_marked a d sh) demo_position = Inr c)"
proof -
  have "json_ok (JObj (slot_body demo_position))" unfolding demo_slot_body by (simp add: demo_position_def)
  then obtain sb where sb: "canonicalize (JObj (slot_body demo_position)) = Inr sb" using canonicalize_total by blast
  have n: "slot_nonce demo_position = Inr (replicate 32 3)" by (simp add: slot_nonce_def demo_position_def)
  obtain c where c: "computeSlotCommitment head_hash demo_position = Inr c" "length c = 32"
    using sb n by (simp add: computeSlotCommitment_def slotCommitmentPreimage_def computeSlotRecordHash_def head_hash_def)
  have "commitmentForProof head_hash (demo_marked a d sh) demo_position = Inr c" for d sh
    using c(1) assms by (simp add: commitmentForProof_def fuseVersionOfName_def demo_marked_def)
  with c(2) show ?thesis by blast
qed

lemma demo_marked_fields [simp]:
  "fld (demo_marked a d sh) ''slotAllocation'' = demo_position" "fld (demo_marked a d sh) ''attribution'' = a"
  "fld (fld (demo_marked a d sh) ''artifact'') ''digestB64'' = JStr (b64_encode d)"
  "fld (demo_marked a d sh) ''metadata'' = JUndefined" "demo_position \<noteq> JUndefined"
  by (simp_all add: demo_marked_def) (simp add: demo_position_def)

theorem fuse_verdict_exact_witness:
  "\<exists>original fused r r'. verifyFuse demo_tree_crypto demo_json (\<lambda>_. None) (\<lambda>_. None) fused = Inr r \<and> fv_category r = FUSED_DIRECT
    \<and> verifyFuse demo_tree_crypto demo_json (\<lambda>_. None) (\<lambda>_. None) original = Inr r' \<and> fv_category r' = FUSED_FROM_ORIGIN"
proof -
  let ?b = "[1] :: bytes" and ?pid = "placement_id (Registered Trailer1)"
  obtain a where a: "fuseAttribution ?pid (Some (head_hash ?b)) 1 = Inr a"
    by (simp add: fuseAttribution_def placement_id_def SET_PLACEMENT_ID_def SET2_PLACEMENT_ID_def head_hash_def)
  then have a': "a = JObj [kv ''name'' (JStr (u16 ''bitgraph-fuse/1'')), kv ''title'' (JStr ?pid),
      kv ''message'' (JStr (b64_encode (head_hash ?b)))]"
    by (simp add: fuseAttribution_def placement_id_def SET_PLACEMENT_ID_def SET2_PLACEMENT_ID_def head_hash_def fuseNameOfVersion_def)
  have af: "fld a ''name'' = JStr (u16 ''bitgraph-fuse/1'')" "fld a ''title'' = JStr (u16 ''trailer/1'')"
    "fld a ''message'' = JStr (b64_encode (head_hash ?b))" "a \<noteq> JUndefined" "json_ok a"
    unfolding a' by (simp_all add: placement_id_def)
  obtain c where c: "length c = 32" "\<And>d sh. commitmentForProof head_hash (demo_marked a d sh) demo_position = Inr c"
    using demo_marked_commitment [OF af(1)] by blast
  obtain g where g: "placement_build head_hash Trailer1 (Some ?b) None c = Inr g" "g = 1 # TRAILER_MAGIC @ zeros 8 @ c"
    using c(1) by (simp add: placement_build_def trailer1_build_def)
  obtain sh where v: "\<And>d. d \<noteq> [] \<Longrightarrow>
      fst (verifyProofIntegrity demo_tree_crypto (demo_marked a d sh) None createVerificationContext) = Valid"
    using demo_marked_valid af(4,5) by blast
  let ?p = "demo_marked a (head_hash g) sh"
  let ?opts = "\<lambda>f. \<lparr>fo_proof = ?p, fo_bytes = f, fo_frame = JUndefined, fo_trustAnchors = None, fo_maxPositions = None\<rparr>"
  have ng: "head_hash g \<noteq> []" "head_hash ?b \<noteq> []" "length (head_hash ?b) = 32" by (simp_all add: head_hash_def)
  let ?mk = "\<lparr>fm_placement = Some ?pid, fm_placementSource = Some FromAttribution, fm_originDigest = Some (head_hash ?b),
      fm_originSource = Some FromAttribution, fm_source = FromAttribution, fm_version = Some 1\<rparr>"
  have "readFuseAttribution ?p = Some ?mk"
    by (simp add: readFuseAttribution_def fuseVersionOfName_def af digest_message_def Let_def nonempty_str_def str_of_def b64_nonempty ng
        placement_id_def)
  then have fu: "fused_under head_hash (\<lambda>_. None) (?opts f) ?mk Trailer1 c (head_hash g)" for f
    by (simp add: fused_under_def c frame_marker_def mergeMarkers_def)
  have h: "c_sha256 demo_tree_crypto = head_hash" by (simp add: demo_tree_crypto_def)
  note e = fuse_verdict_exact [of demo_tree_crypto demo_json Trailer1 "\<lambda>_. None" "?opts f" ?mk c "head_hash g" "\<lambda>_. None" for f,
      unfolded h, OF head_hash32 demo_json_reads _ fu]
  have "TRAILER_MAGIC \<noteq> []" "hd TRAILER_MAGIC = 66" by code_simp+
  then obtain m where m: "TRAILER_MAGIC = 66 # m" by (metis list.collapse)
  have "head_hash ?b ! 1 = 0" "head_hash g ! 1 = 66" unfolding g(2) m by (simp_all add: head_hash_def)
  then have d: "head_hash ?b \<noteq> head_hash g" by auto
  obtain r where "verifyFuse demo_tree_crypto demo_json (\<lambda>_. None) (\<lambda>_. None) (?opts g) = Inr r" "fv_category r = FUSED_DIRECT"
    using e [of g] v [OF ng(1)] g(1) by auto
  moreover obtain r' where "verifyFuse demo_tree_crypto demo_json (\<lambda>_. None) (\<lambda>_. None) (?opts ?b) = Inr r'"
    "fv_category r' = FUSED_FROM_ORIGIN"
    using e [of ?b] v [OF ng(1)] g(1) d by auto
  ultimately show ?thesis by blast
qed

end
