(* ===== verification/BG_Set_Member.thy ===== *)
theory BG_Set_Member
  imports BG_Fuse_Verify
begin

text \<open>
  \<^verbatim>\<open>packages/verify/src/fuse-member.ts\<close>: the verdict on one file against a set proof. A set becomes bound (its
  committed document hashes to the signed digest and carries the slot's commitment) before a row of it is read, and a
  file is a member only when it is a listed row and carries the commitment. The theory shows what each verdict
  establishes, and that the code's re-assertions never fail.
\<close>

subsection \<open>Bound sets\<close>

datatype set_category =
    SET_MEMBER_DIRECT | SET_MEMBER_FROM_ORIGIN | SET_NOT_MEMBER | SET_MEMBERSHIP_UNPROVEN | INVALID_SET_PATH
  | RECONSTRUCTION_MISMATCH | INVALID_SET_MANIFEST | INVALID_SLOT_COMMITMENT | INVALID_ORIGIN_ATTRIBUTION
  | INVALID_UNDERLYING_PROOF | UNDETERMINED_PLACEMENT | NO_MATCH

datatype set_kind = KSet1 | KSet2

datatype doc_source = InMetadata | InArgument

record bound_set =
  bs_kind :: set_kind
  bs_source :: doc_source
  bs_digestB64 :: jsstr
  bs_commitment :: bytes
  bs_rows :: "set_member list"
  bs_count :: nat
  bs_treeIndices :: "nat list option"
  bs_memberSource :: "doc_source option"
  bs_rootB64 :: "jsstr option"
  bs_byArtifact :: "(jsstr \<times> nat) list"
  bs_byOrigin :: "(jsstr \<times> nat list) list"

definition artifact_index :: "set_member list \<Rightarrow> (jsstr \<times> nat) list" where
  "artifact_index rows = fold (\<lambda>(i, m). AList.update (hex_text (sm_artifact m)) i) (enumerate 0 rows) []"

definition origin_index :: "set_member list \<Rightarrow> (jsstr \<times> nat list) list" where
  "origin_index rows = fold (\<lambda>(i, m). push_map (hex_text (sm_origin m)) i) (enumerate 0 rows) []"

definition signed_digest :: "jv \<Rightarrow> bytes option" where
  "signed_digest proof = (let d = fld (fld proof ''artifact'') ''digestB64'' in if is_str d then base64ToBytes (str_of d) else None)"

definition bindSetManifest :: "hashfun \<Rightarrow> (bytes \<Rightarrow> jv option) \<Rightarrow> jv \<Rightarrow> bytes \<Rightarrow> bytes \<Rightarrow> doc_source
    \<Rightarrow> set_category \<times> jsstr + bound_set" where
  "bindSetManifest H setJson proof commitment bs source =
     (case parseSetManifest setJson bs of
        None \<Rightarrow> Inl (INVALID_SET_MANIFEST, u16 ''the set manifest is not canonical bitgraph-fuse/1 set/1 bytes'')
      | Some (c, members) \<Rightarrow>
          if signed_digest proof \<noteq> Some (H bs)
          then Inl (INVALID_SET_MANIFEST, u16 ''the set manifest does not hash to the committed artifact digest'')
          else if c \<noteq> commitment
          then Inl (INVALID_SLOT_COMMITMENT, u16 ''the commitment in the committed set manifest does not match the proof's slot record'')
          else Inr \<lparr>bs_kind = KSet1, bs_source = source, bs_digestB64 = b64_encode (H bs), bs_commitment = commitment,
            bs_rows = members, bs_count = length members, bs_treeIndices = None, bs_memberSource = None, bs_rootB64 = None,
            bs_byArtifact = artifact_index members, bs_byOrigin = origin_index members\<rparr>)"

text \<open>\<open>evidence\<close> is the member's evidence with where it came from.\<close>

definition bindSetRoot :: "hashfun \<Rightarrow> (bytes \<Rightarrow> jv option) \<Rightarrow> jv \<Rightarrow> bytes \<Rightarrow> bytes \<Rightarrow> doc_source \<Rightarrow> (jv \<times> doc_source) option
    \<Rightarrow> (set_category \<times> jsstr + bound_set) res" where
  "bindSetRoot H setJson proof commitment bs source evidence =
     (case parseSetRoot setJson bs of
        None \<Rightarrow> Inr (Inl (INVALID_SET_MANIFEST, u16 ''the set root document is not canonical bitgraph-fuse/1 set/2 bytes''))
      | Some doc \<Rightarrow>
          if signed_digest proof \<noteq> Some (H bs)
          then Inr (Inl (INVALID_SET_MANIFEST, u16 ''the set root document does not hash to the committed artifact digest''))
          else if sd_commitment doc \<noteq> commitment
          then Inr (Inl (INVALID_SLOT_COMMITMENT, u16 ''the commitment in the committed set root document does not match the proof's slot record''))
          else let sealed = (\<lambda>rows indices from. \<lparr>bs_kind = KSet2, bs_source = source, bs_digestB64 = b64_encode (H bs),
                 bs_commitment = commitment, bs_rows = rows, bs_count = sd_count doc, bs_treeIndices = Some indices,
                 bs_memberSource = from, bs_rootB64 = Some (b64_encode (sd_root doc)),
                 bs_byArtifact = artifact_index rows, bs_byOrigin = origin_index rows\<rparr>) in
            case evidence of
              None \<Rightarrow> Inr (Inr (sealed [] [] None))
            | Some (v, from) \<Rightarrow> (case parseSetMemberProof v of
                None \<Rightarrow> Inr (Inl (INVALID_SET_PATH, u16 ''the member evidence is not a well-formed bitgraph-fuse/1 set/2 member proof''))
              | Some e \<Rightarrow>
                  if se_count e \<noteq> sd_count doc
                  then Inr (Inl (INVALID_SET_PATH, u16 ''the member evidence names a tree of '' @ int_units (int (se_count e))
                    @ u16 '' leaves; the committed root document states '' @ int_units (int (sd_count doc))))
                  else rbind (setRootFromMember H (se_member e) (se_index e) (se_count e) (se_path e)) (\<lambda>reached.
                    if reached \<noteq> Some (sd_root doc)
                    then Inr (Inl (INVALID_SET_PATH, u16 ''the member's leaf and path do not recompute the committed root; the row is not shown to be in the set''))
                    else Inr (Inr (sealed [se_member e] [se_index e] (Some from))))))"

subsection \<open>Admission\<close>

record admitted =
  ad_index :: nat
  ad_row :: set_member
  ad_placement :: any_placement
  ad_located :: located
  ad_originCompared :: bool

type_synonym refusal = "set_category \<times> jsstr option \<times> jsstr"

text \<open>The rows of a bound set have different artifact digests, so the code's test that a row is the very object of the
  list is the equality of values.\<close>

definition admit :: "hashfun \<Rightarrow> (bytes \<Rightarrow> jv option) \<Rightarrow> (bytes \<Rightarrow> jv option) \<Rightarrow> bound_set \<Rightarrow> bytes \<Rightarrow> set_member
    \<Rightarrow> (refusal + admitted) res" where
  "admit H json setJson bound fusedBytes row =
     (case map_of (bs_byArtifact bound) (hex_text (sm_artifact row)) of
        None \<Rightarrow> Inl (JsError ''admit: the bytes are not the listed member'')
      | Some i \<Rightarrow>
          if js_at (bs_rows bound) i \<noteq> Some row \<or> H fusedBytes \<noteq> sm_artifact row
          then Inl (JsError ''admit: the bytes are not the listed member'')
          else (case getPlacement (sm_placement row) of
            None \<Rightarrow> Inr (Inl (UNDETERMINED_PLACEMENT, None,
              u16 ''placement \"'' @ sm_placement row @ u16 ''\" is not registered; the commitment cannot be located''))
          | Some p \<Rightarrow> (case any_locate H json setJson p fusedBytes of
              None \<Rightarrow> Inr (Inl (INVALID_SLOT_COMMITMENT, Some (placement_id p), u16 ''listed in the committed set manifest, but no ''
                @ placement_id p @ u16 '' commitment is found in the bytes; membership without the floor is not a member verdict''))
            | Some l \<Rightarrow>
                if lo_commitment l \<noteq> bs_commitment bound
                then Inr (Inl (INVALID_SLOT_COMMITMENT, Some (placement_id p),
                  u16 ''listed in the committed set manifest, but the bytes carry a commitment to a different position; membership without the floor is not a member verdict''))
                else (case embedded_origin H l of
                    Some e \<Rightarrow> if e \<noteq> sm_origin row
                      then Inr (Inl (INVALID_ORIGIN_ATTRIBUTION, Some (placement_id p),
                        u16 ''the origin digest listed for this member does not match the origin inside the fused bytes''))
                      else Inr (Inr \<lparr>ad_index = i, ad_row = row, ad_placement = p, ad_located = l, ad_originCompared = True\<rparr>)
                  | None \<Rightarrow> Inr (Inr \<lparr>ad_index = i, ad_row = row, ad_placement = p, ad_located = l, ad_originCompared = False\<rparr>)))))"

subsection \<open>The result\<close>

record set_row_shown =
  rw_index :: nat
  rw_placement :: jsstr
  rw_fusedDigestB64 :: jsstr
  rw_originDigestB64 :: jsstr

record set_shown =
  ss_kind :: set_kind
  ss_manifestSource :: doc_source
  ss_manifestDigestB64 :: jsstr
  ss_memberCount :: nat
  ss_memberSource :: "doc_source option"
  ss_treeRootB64 :: "jsstr option"
  ss_member :: "set_row_shown option"

record set_result = "set_category fuse_result" +
  fv_set :: "set_shown option"

record set_options =
  so_proof :: jv
  so_bytes :: bytes
  so_manifest :: "bytes option"
  so_member :: jv
  so_trustAnchors :: "verification_policy option"
  so_maxPositions :: "int option"

definition strayReason :: "fuse_span option \<Rightarrow> nat \<Rightarrow> jsstr" where
  "strayReason span memberCount =
     u16 ''these bytes carry the position commitment of '' @ (case span of Some s \<Rightarrow> u16 ''position '' @ sp_slotCounter s | None \<Rightarrow> u16 ''its reserved position'')
     @ u16 '', so they were made after that position existed, but their digest is not among the '' @ int_units (int memberCount)
     @ u16 '' members listed in the set manifest '' @ (case span of Some s \<Rightarrow> u16 ''committed at position '' @ sp_commitCounter s | None \<Rightarrow> u16 ''at its commit'')
     @ u16 ''; the set proof does not cover them''"

definition unprovenReason :: "fuse_span option \<Rightarrow> nat \<Rightarrow> bool \<Rightarrow> jsstr" where
  "unprovenReason span memberCount otherMember =
     u16 ''these bytes carry the position commitment of '' @ (case span of Some s \<Rightarrow> u16 ''position '' @ sp_slotCounter s | None \<Rightarrow> u16 ''its reserved position'')
     @ u16 '', so they were made after that position existed, but ''
     @ u16 (if otherMember then ''the member evidence in hand describes a different member, so'' else ''no member evidence (row, index, path) is in hand, so'')
     @ u16 '' their place among the '' @ int_units (int memberCount) @ u16 '' members of the set ''
     @ (case span of Some s \<Rightarrow> u16 ''committed at position '' @ sp_commitCounter s | None \<Rightarrow> u16 ''at its commit'')
     @ u16 '' is not shown; a set/2 proof covers a member only with its path''"

definition set_base :: "hashfun \<Rightarrow> jv \<Rightarrow> bytes \<Rightarrow> fuse_marker option \<Rightarrow> fuse_span option \<Rightarrow> bool \<times> jsstr option
    \<Rightarrow> set_category \<Rightarrow> jsstr option \<Rightarrow> set_result" where
  "set_base H proof bs marker span policy category reason =
     \<lparr>fv_category = category, fv_proof = (True, None), fv_marker = marker, fv_placement = None,
      fv_fileDigestB64 = b64_encode (H bs),
      fv_artifactDigestB64 = (let d = fld (fld proof ''artifact'') ''digestB64'' in if d = JUndefined \<or> d = JNull then JStr [] else d),
      fv_originDigestB64 = None, fv_slotCommitmentB64 = None, fv_span = span, fv_policy = policy, fv_offsets = [],
      fv_statements = [], fv_limits = [], fv_carriedBy = None, fv_reason = reason, fv_set = None\<rparr>"

text \<open>The \<^verbatim>\<open>placement\<close> of a verdict, and with it \<^verbatim>\<open>carriedBy\<close>.\<close>

definition with_placement :: "jsstr option \<Rightarrow> set_result \<Rightarrow> set_result" where
  "with_placement pid r = r\<lparr>fv_placement := pid, fv_carriedBy := map_option (Pair ByPlacement) pid\<rparr>"

definition set_evidence_of :: "bound_set \<Rightarrow> set_row_shown option \<Rightarrow> set_shown" where
  "set_evidence_of bound m = \<lparr>ss_kind = bs_kind bound, ss_manifestSource = bs_source bound, ss_manifestDigestB64 = bs_digestB64 bound,
     ss_memberCount = bs_count bound, ss_memberSource = bs_memberSource bound, ss_treeRootB64 = bs_rootB64 bound, ss_member = m\<rparr>"

definition member_statements :: "bound_set \<Rightarrow> fuse_span option \<Rightarrow> nat \<Rightarrow> bool \<Rightarrow> bool \<Rightarrow> jsstr list" where
  "member_statements bound span shown direct originCompared = (case span of None \<Rightarrow> []
     | Some s \<Rightarrow>
       (if direct
        then (u16 ''These exact fused bytes are member '' @ int_units (int shown + 1) @ u16 '' of '' @ int_units (int (bs_count bound)) @ u16 '' ''
            @ u16 (if bs_kind bound = KSet1 then ''listed in the set manifest committed'' else ''of the set whose Merkle root was committed'')
            @ u16 '' at position '' @ sp_commitCounter s @ u16 ''.'')
          # (if originCompared
             then [u16 ''The fused bytes carry an origin digest that matches the set '' @ u16 (if bs_kind bound = KSet1 then ''manifest'' else ''member evidence'')
               @ u16 ''; the original itself was not supplied and was not checked.'']
             else [])
        else [u16 ''The supplied original rebuilds member '' @ int_units (int shown + 1) @ u16 '' of '' @ int_units (int (bs_count bound))
          @ u16 '' of the committed set byte for byte, so these exact original bytes existed no later than commit position '' @ sp_commitCounter s @ u16 ''.''])
       @ (if bs_kind bound = KSet2
          then [u16 ''The member's leaf and its path recompute the committed root, so the row is one of the '' @ int_units (int (bs_count bound))
            @ u16 '' the set commits to.'']
          else [])
       @ [floorStatement s])"

text \<open>The only producer of a member category: it asserts both checks again.\<close>

definition memberResult :: "(set_category \<Rightarrow> jsstr option \<Rightarrow> set_result) \<Rightarrow> bound_set \<Rightarrow> fuse_span option \<Rightarrow> admitted \<Rightarrow> bool \<Rightarrow> set_result res" where
  "memberResult sealed bound span ad direct =
     (let i = ad_index ad; row = ad_row ad; pid = placement_id (ad_placement ad);
          shown = (case bs_treeIndices bound of Some is \<Rightarrow> is ! i | None \<Rightarrow> i) in
      if lo_commitment (ad_located ad) \<noteq> bs_commitment bound then Inl (JsError ''verifyFuseMember: floor re-assertion failed'')
      else if map_of (bs_byArtifact bound) (hex_text (sm_artifact row)) \<noteq> Some i \<or> js_at (bs_rows bound) i \<noteq> Some row
      then Inl (JsError ''verifyFuseMember: membership re-assertion failed'')
      else Inr ((with_placement (Some pid) (sealed (if direct then SET_MEMBER_DIRECT else SET_MEMBER_FROM_ORIGIN) None))
        \<lparr>fv_originDigestB64 := Some (b64_encode (sm_origin row)),
         fv_statements := member_statements bound span shown direct (ad_originCompared ad),
         fv_set := Some (set_evidence_of bound (Some \<lparr>rw_index = shown, rw_placement = pid,
           rw_fusedDigestB64 = b64_encode (sm_artifact row), rw_originDigestB64 = b64_encode (sm_origin row)\<rparr>))\<rparr>))"

subsection \<open>The verdict\<close>

text \<open>Both paths end here: a refusal is the verdict, an admission becomes a member verdict.\<close>

definition conclude :: "(set_category \<Rightarrow> jsstr option \<Rightarrow> set_result) \<Rightarrow> bound_set \<Rightarrow> fuse_span option \<Rightarrow> jsstr \<Rightarrow> bool
    \<Rightarrow> refusal + admitted \<Rightarrow> set_result res" where
  "conclude sealed bound span originB64 direct verdict = (case verdict of
     Inl (category, pid, reason) \<Rightarrow> Inr ((with_placement pid (sealed category (Some reason)))\<lparr>fv_originDigestB64 := Some originB64\<rparr>)
   | Inr ad \<Rightarrow> memberResult sealed bound span ad direct)"

datatype origin_outcome = Rebuilt "refusal + admitted" | NotRebuilt "jsstr list" "jsstr list"

text \<open>The rows that list the file as their origin, in order; the lists are the unregistered placements and the candidates.\<close>

fun try_origins :: "hashfun \<Rightarrow> (bytes \<Rightarrow> jv option) \<Rightarrow> (bytes \<Rightarrow> jv option) \<Rightarrow> bound_set \<Rightarrow> bytes \<Rightarrow> bytes
    \<Rightarrow> jsstr list \<Rightarrow> jsstr list \<Rightarrow> nat list \<Rightarrow> origin_outcome res" where
  "try_origins H json setJson bound bs commitment unregistered candidates [] = Inr (NotRebuilt unregistered candidates)"
| "try_origins H json setJson bound bs commitment unregistered candidates (i # is) =
     (let row = bs_rows bound ! i in
      case getPlacement (sm_placement row) of
        None \<Rightarrow> try_origins H json setJson bound bs commitment (unregistered @ [sm_placement row]) candidates is
      | Some p \<Rightarrow>
          (let next = try_origins H json setJson bound bs commitment unregistered (candidates @ [placement_id p]) is in
           if \<not> byteExact p then next
           else (case any_build H p (Some bs) (Some (H bs)) commitment of
               Inl e \<Rightarrow> next
             | Inr rebuilt \<Rightarrow>
                 if H rebuilt \<noteq> sm_artifact row then next
                 else rbind (admit H json setJson bound rebuilt row) (\<lambda>v. Inr (Rebuilt v)))))"

fun join_texts :: "jsstr \<Rightarrow> jsstr list \<Rightarrow> jsstr" where
  "join_texts sep [] = []"
| "join_texts sep [x] = x"
| "join_texts sep (x # y # xs) = x @ sep @ join_texts sep (y # xs)"

definition judge_stray :: "hashfun \<Rightarrow> (bytes \<Rightarrow> jv option) \<Rightarrow> bound_set \<Rightarrow> fuse_span option \<Rightarrow> bytes
    \<Rightarrow> (set_category \<Rightarrow> jsstr option \<Rightarrow> set_result) \<Rightarrow> set_result" where
  "judge_stray H json bound span bs sealed = (case scan_placements H json PLACEMENTS bs of
     None \<Rightarrow> sealed NO_MATCH (Some (u16 ''this file is neither a listed member nor a listed original and carries no commitment to this position; the proof proves nothing about it''))
   | Some (p, l) \<Rightarrow>
       if lo_commitment l \<noteq> bs_commitment bound
       then sealed NO_MATCH (Some (u16 ''these bytes carry a commitment to a different position; the proof proves nothing about them''))
       else with_placement (Some (placement_id (Registered p)))
         (if bs_kind bound = KSet1 then sealed SET_NOT_MEMBER (Some (strayReason span (bs_count bound)))
          else let other = bs_rows bound \<noteq> [] in
            sealed (if other then INVALID_SET_PATH else SET_MEMBERSHIP_UNPROVEN) (Some (unprovenReason span (bs_count bound) other))))"

definition judge_member :: "hashfun \<Rightarrow> (bytes \<Rightarrow> jv option) \<Rightarrow> (bytes \<Rightarrow> jv option) \<Rightarrow> bound_set \<Rightarrow> fuse_span option \<Rightarrow> bytes
    \<Rightarrow> (set_category \<Rightarrow> jsstr option \<Rightarrow> set_result) \<Rightarrow> set_result res" where
  "judge_member H json setJson bound span bs sealed =
     (if JStr (b64_encode (H bs)) = fv_artifactDigestB64 (sealed NO_MATCH None)
      then Inr (sealed NO_MATCH (Some (u16 ''these bytes are the committed set '' @ u16 (if bs_kind bound = KSet1 then ''manifest'' else ''root document'')
        @ u16 '' itself, not a member; verifyFuse answers for it'')))
      else case map_of (bs_byArtifact bound) (hex_text (H bs)) of
        Some i \<Rightarrow> rbind (admit H json setJson bound bs (bs_rows bound ! i))
          (conclude sealed bound span (b64_encode (sm_origin (bs_rows bound ! i))) True)
      | None \<Rightarrow> (case map_of (bs_byOrigin bound) (hex_text (H bs)) of
          None \<Rightarrow> Inr (judge_stray H json bound span bs sealed)
        | Some rows \<Rightarrow> rbind (try_origins H json setJson bound bs (bs_commitment bound) [] [] rows) (\<lambda>outcome. case outcome of
            Rebuilt v \<Rightarrow> conclude sealed bound span (b64_encode (H bs)) False v
          | NotRebuilt unregistered candidates \<Rightarrow> Inr (
              if candidates = []
              then (sealed UNDETERMINED_PLACEMENT (Some (u16 ''placement \"'' @ join_texts (u16 ''\", \"'') unregistered
                @ u16 ''\" is not registered; the fused bytes cannot be rebuilt'')))\<lparr>fv_originDigestB64 := Some (b64_encode (H bs))\<rparr>
              else (with_placement (Some (hd candidates)) (sealed RECONSTRUCTION_MISMATCH
                (Some (u16 ''rebuilding '' @ join_texts (u16 '' or '') candidates
                  @ u16 '' from this file and the proof's position record does not reproduce the listed member digest''))))
                \<lparr>fv_originDigestB64 := Some (b64_encode (H bs))\<rparr>))))"

text \<open>The member's evidence: the caller's argument, or else the proof's metadata.\<close>

definition member_evidence :: "set_options \<Rightarrow> (jv \<times> doc_source) option" where
  "member_evidence opts =
     (let meta = fld (fld (so_proof opts) ''metadata'') ''bitgraph-fuse/1/member'' in
      if so_member opts \<noteq> JUndefined \<and> so_member opts \<noteq> JNull then Some (so_member opts, InArgument)
      else if meta \<noteq> JUndefined \<and> meta \<noteq> JNull then Some (meta, InMetadata) else None)"

definition bind_set :: "hashfun \<Rightarrow> (bytes \<Rightarrow> jv option) \<Rightarrow> set_options \<Rightarrow> set_kind \<Rightarrow> bytes \<Rightarrow> bytes \<Rightarrow> doc_source
    \<Rightarrow> (set_category \<times> jsstr + bound_set) res" where
  "bind_set H setJson opts kind commitment doc source =
     (if kind = KSet1 then Inr (bindSetManifest H setJson (so_proof opts) commitment doc source)
      else bindSetRoot H setJson (so_proof opts) commitment doc source (member_evidence opts))"

definition set_document :: "set_options \<Rightarrow> (bytes \<times> doc_source) option" where
  "set_document opts = (case so_manifest opts of Some b \<Rightarrow> Some (b, InArgument)
     | None \<Rightarrow> map_option (\<lambda>b. (b, InMetadata)) (readSetMetadata (so_proof opts)))"

definition judge_set :: "hashfun \<Rightarrow> (bytes \<Rightarrow> jv option) \<Rightarrow> (bytes \<Rightarrow> jv option) \<Rightarrow> set_options \<Rightarrow> set_result res" where
  "judge_set H json setJson opts =
     (let proof = so_proof opts; marker = readFuseAttribution proof; span = spanOf proof;
          common = set_base H proof (so_bytes opts) marker span (span_policy span (so_maxPositions opts)) in
      case marker of
        None \<Rightarrow> Inr (common INVALID_SET_MANIFEST (Some (u16 ''the proof is not marked set/1 or set/2; verifyFuse answers for this proof'')))
      | Some mk \<Rightarrow>
        if fm_placement mk \<noteq> Some SET_PLACEMENT_ID \<and> fm_placement mk \<noteq> Some SET2_PLACEMENT_ID
        then Inr (common INVALID_SET_MANIFEST (Some (u16 ''the proof is not marked set/1 or set/2; verifyFuse answers for this proof'')))
        else let kind = (if fm_placement mk = Some SET2_PLACEMENT_ID then KSet2 else KSet1) in
        if fm_originDigest mk \<noteq> None
        then Inr (common INVALID_SET_MANIFEST (Some (u16 ''the proof is marked '' @ the (fm_placement mk)
          @ u16 '' but its signed attribution names an origin digest; a set has no single origin'')))
        else if fld proof ''slotAllocation'' = JUndefined
        then Inr (common INVALID_SLOT_COMMITMENT (Some (u16 ''the proof carries no slot record, so no commitment can be recomputed'')))
        else (case commitmentForProof H proof (fld proof ''slotAllocation'') of
            Inl e \<Rightarrow> Inr (common INVALID_SLOT_COMMITMENT (Some (u16 ''commitment could not be recomputed: '' @ u16 (err_message e))))
          | Inr commitment \<Rightarrow>
              let withSlot = (\<lambda>category reason. (common category reason)\<lparr>fv_slotCommitmentB64 := Some (b64_encode commitment)\<rparr>) in
              (case set_document opts of
                 None \<Rightarrow> Inr (withSlot INVALID_SET_MANIFEST (Some (u16 ''no set '' @ u16 (if kind = KSet1 then ''manifest'' else ''root document'')
                   @ u16 '': none under proof.metadata[\"bitgraph-fuse/1\"] and none supplied'')))
               | Some (doc, source) \<Rightarrow> rbind (bind_set H setJson opts kind commitment doc source) (\<lambda>b. case b of
                   Inl (category, reason) \<Rightarrow> Inr (withSlot category (Some reason))
                 | Inr bound \<Rightarrow> judge_member H json setJson bound span (so_bytes opts)
                     (\<lambda>category reason. (withSlot category reason)\<lparr>fv_set := Some (set_evidence_of bound None)\<rparr>)))))"

definition verifyFuseMember :: "crypto \<Rightarrow> (bytes \<Rightarrow> jv option) \<Rightarrow> (bytes \<Rightarrow> jv option) \<Rightarrow> set_options \<Rightarrow> set_result res" where
  "verifyFuseMember C json setJson opts =
     (case fst (verifyProofIntegrity C (so_proof opts) (so_trustAnchors opts) createVerificationContext) of
        Valid \<Rightarrow> judge_set (c_sha256 C) json setJson opts
      | Invalid m \<Rightarrow> Inr ((set_base (c_sha256 C) (so_proof opts) (so_bytes opts) None None (False, None) INVALID_UNDERLYING_PROOF (Some (u16 m)))
          \<lparr>fv_proof := (False, Some m)\<rparr>)
      | Threw e \<Rightarrow> Inl e)"

subsection \<open>The index of a bound set\<close>

lemma artifact_index_get:
  "map_of (fold (\<lambda>(i, m). AList.update (hex_text (sm_artifact m)) i) (enumerate n rows) g) (hex_text a)
    = (if a \<in> sm_artifact ` set rows then Some (n + last (filter (\<lambda>i. sm_artifact (rows ! i) = a) [0..<length rows]))
       else map_of g (hex_text a))"
proof (induction rows rule: rev_induct)
  case (snoc m rows)
  have f: "filter (\<lambda>i. sm_artifact ((rows @ [m]) ! i) = a) [0..<length rows] = filter (\<lambda>i. sm_artifact (rows ! i) = a) [0..<length rows]"
    by (rule filter_cong) (simp_all add: nth_append)
  show ?case using snoc by (auto simp: enumerate_append_eq update_conv' f)
qed simp

lemma filter_upt_one: "j < n \<Longrightarrow> filter (\<lambda>i. i = j) [0..<n] = [j]"
proof (induction n)
  case (Suc n)
  then show ?case by (cases "j = n") (auto simp: filter_empty_conv)
qed simp

lemma artifact_index_eq:
  assumes "distinct (map sm_artifact rows)"
  shows "map_of (artifact_index rows) (hex_text a) = Some i \<longleftrightarrow> i < length rows \<and> sm_artifact (rows ! i) = a"
proof (cases "a \<in> sm_artifact ` set rows")
  case True
  then obtain j where j: "j < length rows" "sm_artifact (rows ! j) = a" by (auto simp: in_set_conv_nth)
  then have u: "sm_artifact (rows ! k) = a \<longleftrightarrow> k = j" if "k < length rows" for k
    using assms that by (metis length_map nth_eq_iff_index_eq nth_map)
  then have "filter (\<lambda>i. sm_artifact (rows ! i) = a) [0..<length rows] = filter (\<lambda>i. i = j) [0..<length rows]"
    by (intro filter_cong) simp_all
  also have "\<dots> = [j]" using filter_upt_one [OF j(1)] .
  finally show ?thesis using True j u artifact_index_get [of 0 rows "[]" a] by (auto simp: artifact_index_def)
next
  case False
  then show ?thesis using artifact_index_get [of 0 rows "[]" a] by (auto simp: artifact_index_def)
qed

lemma origin_index_get:
  "map_of (fold (\<lambda>(i, m). push_map (hex_text (sm_origin m)) i) (enumerate 0 rows) []) (hex_text d)
    = (let is = filter (\<lambda>i. sm_origin (rows ! i) = d) [0..<length rows] in if is = [] then None else Some is)"
proof (induction rows rule: rev_induct)
  case (snoc m rows)
  have f: "filter (\<lambda>i. sm_origin ((rows @ [m]) ! i) = d) [0..<length rows] = filter (\<lambda>i. sm_origin (rows ! i) = d) [0..<length rows]"
    by (rule filter_cong) (simp_all add: nth_append)
  show ?case
    using snoc by (auto simp: enumerate_append_eq push_map_def update_conv' f Let_def split: option.splits if_splits)
qed simp

subsection \<open>What admission means\<close>

text \<open>A file carries a commitment under a placement: the builder makes it, for a listed original.\<close>

definition carries :: "hashfun \<Rightarrow> placement \<Rightarrow> bytes \<Rightarrow> bytes \<Rightarrow> bytes \<Rightarrow> bool" where
  "carries H pl c origin f \<longleftrightarrow>
     (if pl = Produced1 then \<exists>od. placement_build H pl None od c = Inr f \<and> (\<forall>d. od = Some d \<longrightarrow> d = origin)
      else \<exists>b. placement_build H pl (Some b) None c = Inr f \<and> H b = origin)"

lemma produced_located:
  assumes "reads_payloads json"
  shows "placement_locate H json Produced1 f = Some l \<longleftrightarrow> (\<exists>c od. placement_build H Produced1 None od c = Inr f
    \<and> l = \<lparr>lo_commitment = c, lo_originDigest = od, lo_originalBytes = None\<rparr>)"
proof
  assume "placement_locate H json Produced1 f = Some l"
  then obtain c od where "parseFusePayload json f = Some (c, od)" "l = \<lparr>lo_commitment = c, lo_originDigest = od, lo_originalBytes = None\<rparr>"
    by (auto simp: placement_locate_def produced1_locate_def split: option.splits)
  with parse_payload_sound show "\<exists>c od. placement_build H Produced1 None od c = Inr f
    \<and> l = \<lparr>lo_commitment = c, lo_originDigest = od, lo_originalBytes = None\<rparr>"
    by (auto simp: placement_build_def produced1_build_def)
next
  assume "\<exists>c od. placement_build H Produced1 None od c = Inr f \<and> l = \<lparr>lo_commitment = c, lo_originDigest = od, lo_originalBytes = None\<rparr>"
  then obtain c od where b: "buildFusePayload c od = Inr f" "l = \<lparr>lo_commitment = c, lo_originDigest = od, lo_originalBytes = None\<rparr>"
    by (auto simp: placement_build_def produced1_build_def)
  then have "parseFusePayload json f = Some (c, od)"
    using parse_payload [OF assms, of c od] by (auto simp: buildFusePayload_iff)
  with b(2) show "placement_locate H json Produced1 f = Some l" by (simp add: placement_locate_def produced1_locate_def)
qed

lemma located_carries:
  assumes "hash32 H" "reads_payloads json"
  shows "(\<exists>l. placement_locate H json pl f = Some l \<and> lo_commitment l = c \<and> (\<forall>e. embedded_origin H l = Some e \<longrightarrow> e = origin))
    \<longleftrightarrow> carries H pl c origin f"
proof (cases "pl = Produced1")
  case True
  have e: "embedded_origin H \<lparr>lo_commitment = c', lo_originDigest = od, lo_originalBytes = None\<rparr> = od" for c' od
    by (simp add: embedded_origin_def split: option.split)
  show ?thesis
    unfolding True produced_located [OF assms(2)] carries_def if_P [OF refl]
    by (metis e located.select_convs(1))
next
  case False
  have "lo_commitment (located_as H pl b c') = c'" for b c' by (simp add: located_as_def)
  then show ?thesis
    unfolding placement_locate_eq [OF assms False] carries_def if_not_P [OF False] by (metis embedded_located option.inject)
qed

definition bound_ok :: "bound_set \<Rightarrow> bool" where
  "bound_ok bound \<longleftrightarrow> distinct (map sm_artifact (bs_rows bound)) \<and> list_all row_ok (bs_rows bound)
     \<and> bs_byArtifact bound = artifact_index (bs_rows bound) \<and> bs_byOrigin bound = origin_index (bs_rows bound)"

definition carried :: "hashfun \<Rightarrow> bytes \<Rightarrow> set_member \<Rightarrow> bytes \<Rightarrow> bool" where
  "carried H c row f \<longleftrightarrow> (\<exists>pl. sm_placement row = placement_id (Registered pl) \<and> carries H pl c (sm_origin row) f)"

lemma row_placement: "row_ok row \<Longrightarrow> getPlacement (sm_placement row) = Some p \<Longrightarrow> \<exists>pl. p = Registered pl \<and> sm_placement row = placement_id p"
  by (cases p) (auto simp: getPlacement_iff row_ok_def placement_id_def)

text \<open>For a row of the set and bytes with its digest, admission never throws; it succeeds exactly when the bytes carry the
  commitment under the row's placement.\<close>

lemma admit_listed:
  assumes "hash32 H" "reads_payloads json" "bound_ok bound" "i < length (bs_rows bound)" "row = bs_rows bound ! i" "H f = sm_artifact row"
  shows "if carried H (bs_commitment bound) row f
    then \<exists>ad. admit H json setJson bound f row = Inr (Inr ad) \<and> ad_index ad = i \<and> ad_row ad = row
      \<and> lo_commitment (ad_located ad) = bs_commitment bound
    else \<exists>category pid reason. admit H json setJson bound f row = Inr (Inl (category, pid, reason))
      \<and> category \<in> {UNDETERMINED_PLACEMENT, INVALID_SLOT_COMMITMENT, INVALID_ORIGIN_ATTRIBUTION}"
proof -
  have ix: "map_of (bs_byArtifact bound) (hex_text (sm_artifact row)) = Some i"
    using assms(3-5) artifact_index_eq [of "bs_rows bound" "sm_artifact row" i] by (simp add: bound_ok_def)
  have at: "js_at (bs_rows bound) i = Some row" using assms(4,5) by (simp add: js_at_def)
  have r: "row_ok row" using assms(3-5) by (auto simp: bound_ok_def list_all_iff)
  show ?thesis
  proof (cases "getPlacement (sm_placement row)")
    case None
    then have "\<not> carried H (bs_commitment bound) row f" by (auto simp: carried_def)
    with None ix at assms(6) show ?thesis by (simp add: admit_def)
  next
    case (Some p)
    then obtain pl where p: "p = Registered pl" "sm_placement row = placement_id (Registered pl)" using row_placement [OF r] by blast
    have c: "carried H (bs_commitment bound) row f \<longleftrightarrow> (\<exists>l. placement_locate H json pl f = Some l
        \<and> lo_commitment l = bs_commitment bound \<and> (\<forall>e. embedded_origin H l = Some e \<longrightarrow> e = sm_origin row))"
      using p(2) located_carries [OF assms(1,2)] by (simp add: carried_def)
    show ?thesis
    proof (cases "placement_locate H json pl f")
      case n: None
      then show ?thesis unfolding c using Some ix at assms(6) by (simp add: admit_def p(1) any_locate_def)
    next
      case l: (Some l)
      then show ?thesis unfolding c using Some ix at assms(6)
        by (cases "embedded_origin H l") (simp_all add: admit_def p(1) any_locate_def)
    qed
  qed
qed

definition keeps_category :: "(set_category \<Rightarrow> jsstr option \<Rightarrow> set_result) \<Rightarrow> bool" where
  "keeps_category sealed \<longleftrightarrow> (\<forall>category reason. fv_category (sealed category reason) = category)"

lemma with_placement_category [simp]: "fv_category (with_placement pid r) = fv_category r"
  by (simp add: with_placement_def)

abbreviation member_category :: "bool \<Rightarrow> set_category" where
  "member_category direct \<equiv> if direct then SET_MEMBER_DIRECT else SET_MEMBER_FROM_ORIGIN"

lemma conclude_admitted:
  assumes "keeps_category sealed" "bound_ok bound" "i < length (bs_rows bound)" "ad_index ad = i" "ad_row ad = bs_rows bound ! i"
    and "lo_commitment (ad_located ad) = bs_commitment bound"
  shows "\<exists>r. conclude sealed bound span ob direct (Inr ad) = Inr r \<and> fv_category r = member_category direct"
proof -
  have "map_of (bs_byArtifact bound) (hex_text (sm_artifact (bs_rows bound ! i))) = Some i"
    using assms(2,3) artifact_index_eq [of "bs_rows bound" "sm_artifact (bs_rows bound ! i)" i] by (simp add: bound_ok_def)
  then show ?thesis
    using assms by (simp add: conclude_def memberResult_def js_at_def Let_def keeps_category_def)
qed

lemma conclude_refused:
  assumes "keeps_category sealed"
  shows "\<exists>r. conclude sealed bound span ob direct (Inl (category, pid, reason)) = Inr r \<and> fv_category r = category"
  using assms by (simp add: conclude_def keeps_category_def)

text \<open>Admission and the verdict on it: the assertions the code repeats never fail.\<close>

lemma admit_concluded:
  assumes "hash32 H" "reads_payloads json" "bound_ok bound" "i < length (bs_rows bound)" "H f = sm_artifact (bs_rows bound ! i)"
    and "keeps_category sealed"
  shows "\<exists>r. rbind (admit H json setJson bound f (bs_rows bound ! i)) (conclude sealed bound span ob direct) = Inr r
    \<and> (if carried H (bs_commitment bound) (bs_rows bound ! i) f then fv_category r = member_category direct
       else fv_category r \<in> {UNDETERMINED_PLACEMENT, INVALID_SLOT_COMMITMENT, INVALID_ORIGIN_ATTRIBUTION})"
proof (cases "carried H (bs_commitment bound) (bs_rows bound ! i) f")
  case True
  then obtain ad where "admit H json setJson bound f (bs_rows bound ! i) = Inr (Inr ad)" "ad_index ad = i" "ad_row ad = bs_rows bound ! i"
      "lo_commitment (ad_located ad) = bs_commitment bound"
    using admit_listed [where setJson = setJson, OF assms(1-4) refl assms(5)] by auto
  then show ?thesis using True conclude_admitted [OF assms(6,3,4), of ad span ob direct] by auto
next
  case False
  then obtain category pid reason where "admit H json setJson bound f (bs_rows bound ! i) = Inr (Inl (category, pid, reason))"
      "category \<in> {UNDETERMINED_PLACEMENT, INVALID_SLOT_COMMITMENT, INVALID_ORIGIN_ATTRIBUTION}"
    using admit_listed [where setJson = setJson, OF assms(1-4) refl assms(5)] by auto
  then show ?thesis using False conclude_refused [OF assms(6), of bound span ob direct category pid reason] by auto
qed

subsection \<open>The origin path\<close>

text \<open>An original is the origin of a row when the builder makes the row's bytes from it.\<close>

definition rebuilds :: "hashfun \<Rightarrow> bytes \<Rightarrow> set_member \<Rightarrow> bytes \<Rightarrow> bool" where
  "rebuilds H c row f \<longleftrightarrow> (\<exists>pl g. pl \<noteq> Produced1 \<and> sm_placement row = placement_id (Registered pl)
     \<and> placement_build H pl (Some f) None c = Inr g \<and> H g = sm_artifact row)"

lemma rebuilt_carried:
  assumes "pl \<noteq> Produced1" "sm_placement row = placement_id (Registered pl)" "placement_build H pl (Some f) None c = Inr g" "sm_origin row = H f"
  shows "carried H c row g"
  using assms by (auto simp: carried_def carries_def)

lemma try_origins_outcome:
  assumes "hash32 H" "reads_payloads json" "bound_ok bound"
    and "\<And>i. i \<in> set is \<Longrightarrow> i < length (bs_rows bound) \<and> sm_origin (bs_rows bound ! i) = H f"
  shows "if \<exists>i \<in> set is. rebuilds H (bs_commitment bound) (bs_rows bound ! i) f
    then \<exists>ad. try_origins H json setJson bound f (bs_commitment bound) us cs is = Inr (Rebuilt (Inr ad))
      \<and> ad_index ad < length (bs_rows bound) \<and> ad_row ad = bs_rows bound ! ad_index ad \<and> lo_commitment (ad_located ad) = bs_commitment bound
    else \<exists>us' cs'. try_origins H json setJson bound f (bs_commitment bound) us cs is = Inr (NotRebuilt us' cs')"
  using assms(4)
proof (induction "is" arbitrary: us cs)
  case (Cons i "is")
  let ?row = "bs_rows bound ! i" and ?c = "bs_commitment bound"
  have i: "i < length (bs_rows bound)" "sm_origin ?row = H f" "row_ok ?row"
    using Cons.prems [of i] assms(3) by (auto simp: bound_ok_def list_all_iff)
  have IH: "if \<exists>i \<in> set is. rebuilds H ?c (bs_rows bound ! i) f
    then \<exists>ad. try_origins H json setJson bound f ?c us cs is = Inr (Rebuilt (Inr ad))
      \<and> ad_index ad < length (bs_rows bound) \<and> ad_row ad = bs_rows bound ! ad_index ad \<and> lo_commitment (ad_located ad) = ?c
    else \<exists>us' cs'. try_origins H json setJson bound f ?c us cs is = Inr (NotRebuilt us' cs')" for us cs
    using Cons.prems by (intro Cons.IH) simp
  show ?case
  proof (cases "rebuilds H ?c ?row f")
    case True
    then obtain pl g where g: "pl \<noteq> Produced1" "sm_placement ?row = placement_id (Registered pl)"
      "placement_build H pl (Some f) None ?c = Inr g" "H g = sm_artifact ?row" by (auto simp: rebuilds_def)
    have "carried H ?c ?row g" using rebuilt_carried [OF g(1-3)] i(2) by simp
    then obtain ad where "admit H json setJson bound g ?row = Inr (Inr ad)" "ad_index ad = i" "ad_row ad = ?row"
        "lo_commitment (ad_located ad) = ?c"
      using admit_listed [where setJson = setJson, OF assms(1-3) i(1) refl g(4)] by auto
    then show ?thesis
      using True g i(1) by (simp add: any_build_def build_with_origin byteExact_registered)
  next
    case False
    have "try_origins H json setJson bound f ?c us cs (i # is) = try_origins H json setJson bound f ?c (us @ [sm_placement ?row]) cs is
      \<or> (\<exists>p. try_origins H json setJson bound f ?c us cs (i # is) = try_origins H json setJson bound f ?c us (cs @ [placement_id p]) is)"
    proof (cases "getPlacement (sm_placement ?row)")
      case (Some p)
      then obtain pl where p: "p = Registered pl" "sm_placement ?row = placement_id (Registered pl)" using row_placement [OF i(3)] by blast
      show ?thesis
      proof (cases "byteExact p")
        case True
        then have pl: "pl \<noteq> Produced1" using p(1) by (auto simp: byteExact_def)
        show ?thesis
          using Some True False p pl by (cases "placement_build H pl (Some f) None ?c")
            (auto simp: any_build_def build_with_origin rebuilds_def)
      qed (use Some in auto)
    qed simp
    then obtain us' cs' where e: "try_origins H json setJson bound f ?c us cs (i # is) = try_origins H json setJson bound f ?c us' cs' is"
      by blast
    show ?thesis unfolding e using IH [of us' cs'] False by auto
  qed
qed simp

subsection \<open>The verdict against a bound set\<close>

lemma stray_category:
  "keeps_category sealed \<Longrightarrow> fv_category (judge_stray H json bound span f sealed)
    \<in> {NO_MATCH, SET_NOT_MEMBER, INVALID_SET_PATH, SET_MEMBERSHIP_UNPROVEN}"
  by (simp add: judge_stray_def keeps_category_def Let_def split: option.split)

text \<open>Against a bound set the verdict is a member's exactly for bytes other than the committed document that are a row's
  fused file, or no row's fused file but a row's original.\<close>

lemma judge_member_category:
  assumes "hash32 H" "reads_payloads json" "bound_ok bound" "keeps_category sealed"
  shows "\<exists>r. judge_member H json setJson bound span f sealed = Inr r
    \<and> (fv_category r = SET_MEMBER_DIRECT \<longleftrightarrow> JStr (b64_encode (H f)) \<noteq> fv_artifactDigestB64 (sealed NO_MATCH None)
        \<and> (\<exists>m \<in> set (bs_rows bound). H f = sm_artifact m \<and> carried H (bs_commitment bound) m f))
    \<and> (fv_category r = SET_MEMBER_FROM_ORIGIN \<longleftrightarrow> JStr (b64_encode (H f)) \<noteq> fv_artifactDigestB64 (sealed NO_MATCH None)
        \<and> H f \<notin> sm_artifact ` set (bs_rows bound)
        \<and> (\<exists>m \<in> set (bs_rows bound). H f = sm_origin m \<and> rebuilds H (bs_commitment bound) m f))"
proof -
  let ?rows = "bs_rows bound" and ?c = "bs_commitment bound"
  have s: "fv_category (sealed category reason) = category" for category reason using assms(4) by (simp add: keeps_category_def)
  have bound: "distinct (map sm_artifact ?rows)" "bs_byArtifact bound = artifact_index ?rows" "bs_byOrigin bound = origin_index ?rows"
    using assms(3) by (simp_all add: bound_ok_def)
  show ?thesis
  proof (cases "JStr (b64_encode (H f)) = fv_artifactDigestB64 (sealed NO_MATCH None)")
    case True
    then show ?thesis using s by (simp add: judge_member_def)
  next
    case other: False
    show ?thesis
    proof (cases "map_of (artifact_index ?rows) (hex_text (H f))")
      case (Some i)
      then have i: "i < length ?rows" "H f = sm_artifact (?rows ! i)" using artifact_index_eq [OF bound(1)] by auto
      have u: "m \<in> set ?rows \<and> H f = sm_artifact m \<longleftrightarrow> m = ?rows ! i" for m
        using bound(1) i by (auto simp: distinct_map inj_on_def)
      obtain r where r: "judge_member H json setJson bound span f sealed = Inr r"
        "if carried H ?c (?rows ! i) f then fv_category r = member_category True
         else fv_category r \<in> {UNDETERMINED_PLACEMENT, INVALID_SLOT_COMMITMENT, INVALID_ORIGIN_ATTRIBUTION}"
        using admit_concluded [OF assms(1-3) i(1,2) assms(4), of setJson span "b64_encode (sm_origin (?rows ! i))" True] other Some
        by (auto simp: judge_member_def bound)
      have "(\<exists>m \<in> set ?rows. H f = sm_artifact m \<and> carried H ?c m f) \<longleftrightarrow> carried H ?c (?rows ! i) f" by (metis u)
      moreover have "H f \<in> sm_artifact ` set ?rows" using i by auto
      ultimately show ?thesis using r other by (auto split: if_splits)
    next
      case None
      have n: "H f \<notin> sm_artifact ` set ?rows"
        using None artifact_index_eq [OF bound(1), of "H f"] by (metis imageE in_set_conv_nth option.distinct(1))
      define "is" where "is = filter (\<lambda>i. sm_origin (?rows ! i) = H f) [0..<length ?rows]"
      have o: "map_of (origin_index ?rows) (hex_text (H f)) = (if is = [] then None else Some is)"
        unfolding origin_index_def origin_index_get is_def by simp
      have ex: "(\<exists>m \<in> set ?rows. H f = sm_origin m \<and> rebuilds H ?c m f) \<longleftrightarrow> (\<exists>i \<in> set is. rebuilds H ?c (?rows ! i) f)"
        by (auto simp: is_def in_set_conv_nth) (metis nth_mem)
      show ?thesis
      proof (cases "is = []")
        case True
        have "judge_member H json setJson bound span f sealed = Inr (judge_stray H json bound span f sealed)"
          using other None o True by (simp add: judge_member_def bound)
        then show ?thesis using stray_category [OF assms(4), of H json bound span f] n ex True by auto
      next
        case False
        have out: "if \<exists>i \<in> set is. rebuilds H ?c (?rows ! i) f
          then \<exists>ad. try_origins H json setJson bound f ?c [] [] is = Inr (Rebuilt (Inr ad))
            \<and> ad_index ad < length ?rows \<and> ad_row ad = ?rows ! ad_index ad \<and> lo_commitment (ad_located ad) = ?c
          else \<exists>us cs. try_origins H json setJson bound f ?c [] [] is = Inr (NotRebuilt us cs)"
          by (rule try_origins_outcome [OF assms(1-3)]) (simp add: is_def)
        show ?thesis
        proof (cases "\<exists>i \<in> set is. rebuilds H ?c (?rows ! i) f")
          case True
          then obtain ad where ad: "try_origins H json setJson bound f ?c [] [] is = Inr (Rebuilt (Inr ad))"
            "ad_index ad < length ?rows" "ad_row ad = ?rows ! ad_index ad" "lo_commitment (ad_located ad) = ?c" using out by auto
          obtain r where "conclude sealed bound span (b64_encode (H f)) False (Inr ad) = Inr r" "fv_category r = SET_MEMBER_FROM_ORIGIN"
            using conclude_admitted [OF assms(4,3) ad(2) refl ad(3,4), of span "b64_encode (H f)" False] by auto
          then show ?thesis
            using other None o False ad(1) n ex True by (auto simp: judge_member_def bound)
        next
          case nr: False
          then obtain us cs where "try_origins H json setJson bound f ?c [] [] is = Inr (NotRebuilt us cs)" using out by auto
          then show ?thesis
            using other None o False n ex nr by (auto simp: judge_member_def bound s)
        qed
      qed
    qed
  qed
qed

subsection \<open>Rows and trees\<close>

definition row_bytes :: "set_member \<Rightarrow> bytes" where
  "row_bytes m = utf8 (js_stringify (set_row m))"

lemma canonicalSetRow_eq: "canonicalSetRow m = Inr b \<longleftrightarrow> row_ok m \<and> b = row_bytes m"
  by (auto simp: canonicalSetRow_def row_ok_def row_bytes_def canonical_bytes [OF canonical_row])

lemma row_bytes_inj: "row_bytes m = row_bytes m' \<Longrightarrow> m = m'"
  using canonical_bytes_inj [of "set_row m" "set_row m'"] by (simp add: row_bytes_def set_row_eq)

lemma setLeaf_eq: "setLeaf H m = Inr h \<longleftrightarrow> row_ok m \<and> h = merkleLeafHash H (row_bytes m)"
  by (auto simp: setLeaf_def res_simps canonicalSetRow_eq)

interpretation member_order: comparison "\<lambda>a b. compare_str (hex_text (sm_artifact a)) (hex_text (sm_artifact b))" sm_artifact
proof
  show "compare_str (hex_text (sm_artifact a)) (hex_text (sm_artifact b)) \<le> 0 \<longleftrightarrow> sm_artifact a \<le> sm_artifact b" for a b
    unfolding str_order.cmp_key by (simp add: hex_less flip: not_less)
qed

lemma check_set_rows_eq:
  assumes "sorted (map sm_artifact ms)" "\<And>b. before = Some b \<Longrightarrow> \<forall>m \<in> set ms. b \<le> sm_artifact m"
  shows "check_set_rows before ms = Inr () \<longleftrightarrow> list_all row_ok ms \<and> distinct (map sm_artifact ms)
    \<and> (\<forall>b. before = Some b \<longrightarrow> b \<notin> sm_artifact ` set ms)"
  using assms
proof (induction before ms rule: check_set_rows.induct)
  case (2 before m ms)
  have IH: "check_set_rows (Some (sm_artifact m)) ms = Inr () \<longleftrightarrow> list_all row_ok ms \<and> distinct (map sm_artifact ms)
      \<and> sm_artifact m \<notin> sm_artifact ` set ms"
    if "canonicalSetRow m = Inr (row_bytes m)" "before \<noteq> Some (sm_artifact m)"
    using "2.IH" [OF that] "2.prems"(1) by auto
  have b: "b \<notin> sm_artifact ` set ms" if "before = Some b" "b \<noteq> sm_artifact m" for b
    using "2.prems" that by fastforce
  show ?case
  proof (cases "row_ok m \<and> before \<noteq> Some (sm_artifact m)")
    case True
    then have c: "canonicalSetRow m = Inr (row_bytes m)" by (simp add: canonicalSetRow_eq)
    show ?thesis using True IH [OF c] b c by auto
  next
    case False
    then show ?thesis by (auto simp: res_simps canonicalSetRow_eq)
  qed
qed simp

lemma sortSetMembers_eq: "sortSetMembers ms = Inr s \<longleftrightarrow> set_ok ms \<and> s = sort_key sm_artifact ms"
proof -
  let ?s = "sort_key sm_artifact ms"
  have d: "distinct (map sm_artifact ?s) \<longleftrightarrow> distinct (map sm_artifact ms)" by (intro mset_eq_imp_distinct_iff) simp
  have "check_set_rows None ?s = Inr () \<longleftrightarrow> list_all row_ok ms \<and> distinct (map sm_artifact ms)"
    by (subst check_set_rows_eq) (simp_all add: list_all_iff d)
  then show ?thesis by (auto simp: sortSetMembers_def set_ok_def Let_def res_simps member_order.js_sort_eq)
qed

lemma leaves_of_rows: "rmap (setLeaf H) ms = Inr hs \<longleftrightarrow> list_all row_ok ms \<and> hs = map (merkleLeafHash H) (map row_bytes ms)"
  by (induction ms arbitrary: hs) (auto simp: res_simps setLeaf_eq)

lemma set_tree_facts:
  assumes "buildSetTree H ms = Inr t"
  shows "set_ok ms" "st_sorted t = sort_key sm_artifact ms" "st_leaves t = map (merkleLeafHash H) (map row_bytes (st_sorted t))"
    "st_root t = mth H (st_leaves t)" "tree_ok H (st_tree t)" "mt_leafHashes (st_tree t) = st_leaves t"
proof -
  obtain s hs m where s: "sortSetMembers ms = Inr s" "rmap (setLeaf H) s = Inr hs" "new_MerkleTree H hs [] = Inr m"
    "t = \<lparr>st_sorted = s, st_leaves = hs, st_root = mt_root m, st_tree = m\<rparr>"
    using assms by (auto simp: buildSetTree_def res_simps)
  then show "set_ok ms" "st_sorted t = sort_key sm_artifact ms" "st_leaves t = map (merkleLeafHash H) (map row_bytes (st_sorted t))"
    by (simp_all add: sortSetMembers_eq leaves_of_rows)
  show "st_root t = mth H (st_leaves t)" "tree_ok H (st_tree t)" "mt_leafHashes (st_tree t) = st_leaves t"
    using new_MerkleTree_ok [OF s(3)] s(4) by (auto simp: tree_ok_def)
qed

subsection \<open>Binding\<close>

lemma parsed_member: "parseSetMemberProof v = Some e \<Longrightarrow> row_ok (se_member e) \<and> se_index e < se_count e \<and> se_count e \<le> MAX_SET2_MEMBERS"
  by (auto simp: parseSetMemberProof_def Let_def dest: read_row_ok split: option.splits jv.splits if_splits)

lemma bound_rows:
  assumes "bindSetManifest H setJson proof c doc source = Inr bound"
  shows "bound_ok bound" "bs_commitment bound = c" "signed_digest proof = Some (H doc)" "buildSetManifest c (bs_rows bound) = Inr doc"
    "parseSetManifest setJson doc = Some (c, bs_rows bound)"
proof -
  obtain ms where p: "parseSetManifest setJson doc = Some (c, ms)" "bs_rows bound = ms" "bs_byArtifact bound = artifact_index ms"
      "bs_byOrigin bound = origin_index ms"
    and r: "bs_commitment bound = c" "signed_digest proof = Some (H doc)"
    using assms by (auto simp: bindSetManifest_def split: option.splits prod.splits if_splits)
  have b: "buildSetManifest c ms = Inr doc" using parse_manifest_sound [OF p(1)] .
  then show "bound_ok bound" using p by (simp add: bound_ok_def buildSetManifest_eq set_ok_def)
  show "bs_commitment bound = c" "signed_digest proof = Some (H doc)" "buildSetManifest c (bs_rows bound) = Inr doc"
    "parseSetManifest setJson doc = Some (c, bs_rows bound)"
    using r b p by simp_all
qed

lemma bound_row:
  assumes "bindSetRoot H setJson proof c doc source evidence = Inr (Inr bound)"
  shows "bound_ok bound" "bs_commitment bound = c" "signed_digest proof = Some (H doc)"
    "\<exists>d. parseSetRoot setJson doc = Some d \<and> sd_commitment d = c \<and> (bs_rows bound = [] \<or>
      (\<exists>v from e. evidence = Some (v, from) \<and> parseSetMemberProof v = Some e \<and> se_count e = sd_count d \<and> bs_rows bound = [se_member e]
        \<and> setRootFromMember H (se_member e) (se_index e) (se_count e) (se_path e) = Inr (Some (sd_root d))))"
proof -
  obtain d where d: "parseSetRoot setJson doc = Some d" "sd_commitment d = c" "signed_digest proof = Some (H doc)"
    using assms by (auto simp: bindSetRoot_def split: option.splits if_splits)
  have f: "bs_byArtifact bound = artifact_index (bs_rows bound) \<and> bs_byOrigin bound = origin_index (bs_rows bound) \<and> bs_commitment bound = c
    \<and> (bs_rows bound = [] \<or> (\<exists>v from e. evidence = Some (v, from) \<and> parseSetMemberProof v = Some e \<and> se_count e = sd_count d
        \<and> bs_rows bound = [se_member e]
        \<and> setRootFromMember H (se_member e) (se_index e) (se_count e) (se_path e) = Inr (Some (sd_root d))))"
    using assms d by (cases evidence) (auto simp: bindSetRoot_def Let_def res_simps split: option.splits if_splits)
  then show "bound_ok bound" using parsed_member by (auto simp: bound_ok_def)
  show "bs_commitment bound = c" "signed_digest proof = Some (H doc)"
    "\<exists>d. parseSetRoot setJson doc = Some d \<and> sd_commitment d = c \<and> (bs_rows bound = [] \<or>
      (\<exists>v from e. evidence = Some (v, from) \<and> parseSetMemberProof v = Some e \<and> se_count e = sd_count d \<and> bs_rows bound = [se_member e]
        \<and> setRootFromMember H (se_member e) (se_index e) (se_count e) (se_path e) = Inr (Some (sd_root d))))"
    using f d by blast+
qed

subsection \<open>The verdict on a set proof\<close>

text \<open>The proof in hand is marked a set, its slot record gives the commitment, and the document in hand is bound to both.\<close>

definition bound_by :: "hashfun \<Rightarrow> (bytes \<Rightarrow> jv option) \<Rightarrow> set_options \<Rightarrow> set_kind \<Rightarrow> bytes \<Rightarrow> bytes \<Rightarrow> bound_set \<Rightarrow> bool" where
  "bound_by H setJson opts kind c doc bound \<longleftrightarrow>
     (\<exists>mk source. readFuseAttribution (so_proof opts) = Some mk
       \<and> fm_placement mk = Some (if kind = KSet2 then SET2_PLACEMENT_ID else SET_PLACEMENT_ID) \<and> fm_originDigest mk = None
       \<and> fld (so_proof opts) ''slotAllocation'' \<noteq> JUndefined
       \<and> commitmentForProof H (so_proof opts) (fld (so_proof opts) ''slotAllocation'') = Inr c
       \<and> set_document opts = Some (doc, source) \<and> bind_set H setJson opts kind c doc source = Inr (Inr bound))"

lemma set_base_category [simp]: "fv_category (set_base H proof bs marker span policy category reason) = category"
  by (simp add: set_base_def)

lemma bind_set_total: "\<exists>b. bind_set H setJson opts kind c doc source = Inr b
   \<and> (\<forall>category reason. b = Inl (category, reason) \<longrightarrow> category \<in> {INVALID_SET_MANIFEST, INVALID_SLOT_COMMITMENT, INVALID_SET_PATH})"
proof (cases "kind = KSet1")
  case True
  then show ?thesis
    by (cases "bindSetManifest H setJson (so_proof opts) c doc source")
      (auto simp: bind_set_def bindSetManifest_def split: option.splits prod.splits if_splits)
next
  case False
  show ?thesis
  proof (cases "\<exists>v from e. member_evidence opts = Some (v, from) \<and> parseSetMemberProof v = Some e")
    case True
    then obtain v "from" e where e: "member_evidence opts = Some (v, from)" "parseSetMemberProof v = Some e" by blast
    have "setLeaf H (se_member e) = Inr (merkleLeafHash H (row_bytes (se_member e)))"
      using parsed_member [OF e(2)] by (simp add: setLeaf_eq)
    then show ?thesis
      using False e by (cases "parseSetRoot setJson doc") (simp_all add: bind_set_def bindSetRoot_def setRootFromMember_def Let_def)
  next
    case n: False
    then show ?thesis
      using False by (auto simp: bind_set_def bindSetRoot_def Let_def split: option.splits)
  qed
qed

lemma bind_set_bound:
  assumes "bind_set H setJson opts kind c doc source = Inr (Inr bound)"
  shows "bound_ok bound" "bs_commitment bound = c" "signed_digest (so_proof opts) = Some (H doc)"
  using assms bound_rows [of H setJson "so_proof opts" c doc source bound]
    bound_row [of H setJson "so_proof opts" c doc source "member_evidence opts" bound]
  by (auto simp: bind_set_def split: if_splits)

lemma judge_set_bound:
  assumes "hash32 H" "reads_payloads json" "bound_by H setJson opts kind c doc bound" "fld (fld (so_proof opts) ''artifact'') ''digestB64'' = JStr (b64_encode d)"
  shows "\<exists>r. judge_set H json setJson opts = Inr r
    \<and> (fv_category r = SET_MEMBER_DIRECT \<longleftrightarrow> H (so_bytes opts) \<noteq> d
        \<and> (\<exists>m \<in> set (bs_rows bound). H (so_bytes opts) = sm_artifact m \<and> carried H c m (so_bytes opts)))
    \<and> (fv_category r = SET_MEMBER_FROM_ORIGIN \<longleftrightarrow> H (so_bytes opts) \<noteq> d
        \<and> H (so_bytes opts) \<notin> sm_artifact ` set (bs_rows bound)
        \<and> (\<exists>m \<in> set (bs_rows bound). H (so_bytes opts) = sm_origin m \<and> rebuilds H c m (so_bytes opts)))"
proof -
  let ?p = "so_proof opts" and ?f = "so_bytes opts"
  obtain mk source where b: "readFuseAttribution ?p = Some mk" "fm_placement mk = Some (if kind = KSet2 then SET2_PLACEMENT_ID else SET_PLACEMENT_ID)"
    "fm_originDigest mk = None" "fld ?p ''slotAllocation'' \<noteq> JUndefined"
    "commitmentForProof H ?p (fld ?p ''slotAllocation'') = Inr c" "set_document opts = Some (doc, source)"
    "bind_set H setJson opts kind c doc source = Inr (Inr bound)"
    using assms(3) by (auto simp: bound_by_def)
  let ?sealed = "\<lambda>category reason. (set_base H ?p ?f (Some mk) (spanOf ?p) (span_policy (spanOf ?p) (so_maxPositions opts)) category reason)
    \<lparr>fv_slotCommitmentB64 := Some (b64_encode c), fv_set := Some (set_evidence_of bound None)\<rparr>"
  have k: "(if fm_placement mk = Some SET2_PLACEMENT_ID then KSet2 else KSet1) = kind" using b(2) by (cases kind) simp_all
  have e: "judge_set H json setJson opts = judge_member H json setJson bound (spanOf ?p) ?f ?sealed"
    using b k by (simp add: judge_set_def Let_def)
  have s: "keeps_category ?sealed" by (simp add: keeps_category_def)
  have d: "fv_artifactDigestB64 (?sealed NO_MATCH None) = JStr (b64_encode d)" using assms(4) by (simp add: set_base_def Let_def)
  note bind_set_bound [OF b(7)]
  then show ?thesis
    unfolding e using judge_member_category [OF assms(1,2) _ s, of bound setJson "spanOf ?p" ?f] unfolding d by simp
qed

lemma judge_set_unbound:
  assumes "\<nexists>kind c doc bound. bound_by H setJson opts kind c doc bound"
  shows "\<exists>r. judge_set H json setJson opts = Inr r \<and> fv_category r \<in> {INVALID_SET_MANIFEST, INVALID_SLOT_COMMITMENT, INVALID_SET_PATH}"
proof -
  let ?p = "so_proof opts"
  show ?thesis
  proof (cases "\<exists>mk kind c doc source. readFuseAttribution ?p = Some mk
      \<and> fm_placement mk = Some (if kind = KSet2 then SET2_PLACEMENT_ID else SET_PLACEMENT_ID)
      \<and> fm_originDigest mk = None \<and> fld ?p ''slotAllocation'' \<noteq> JUndefined
      \<and> commitmentForProof H ?p (fld ?p ''slotAllocation'') = Inr c \<and> set_document opts = Some (doc, source)")
    case True
    then obtain mk kind c doc source where b: "readFuseAttribution ?p = Some mk"
      "fm_placement mk = Some (if kind = KSet2 then SET2_PLACEMENT_ID else SET_PLACEMENT_ID)"
      "fm_originDigest mk = None" "fld ?p ''slotAllocation'' \<noteq> JUndefined"
      "commitmentForProof H ?p (fld ?p ''slotAllocation'') = Inr c" "set_document opts = Some (doc, source)" by blast
    obtain v where v: "bind_set H setJson opts kind c doc source = Inr v"
      "\<And>category reason. v = Inl (category, reason) \<Longrightarrow> category \<in> {INVALID_SET_MANIFEST, INVALID_SLOT_COMMITMENT, INVALID_SET_PATH}"
      using bind_set_total by metis
    have "v \<noteq> Inr bound" for bound using assms b v(1) unfolding bound_by_def by blast
    then obtain category reason where c: "v = Inl (category, reason)" by (metis sum.exhaust surj_pair)
    have k: "(if fm_placement mk = Some SET2_PLACEMENT_ID then KSet2 else KSet1) = kind" using b(2) by (cases kind) simp_all
    have "\<exists>r. judge_set H json setJson opts = Inr r \<and> fv_category r = category"
      using b k v(1) unfolding c by (simp add: judge_set_def Let_def)
    then show ?thesis using v(2) [OF c] by auto
  next
    case False
    then show ?thesis
      by (auto simp: judge_set_def Let_def split: option.splits sum.splits if_splits)
  qed
qed

subsection \<open>The producer's set\<close>

text \<open>What a producer committed: the manifest of the members, or the root document of their tree.\<close>

definition commits_set :: "hashfun \<Rightarrow> bytes \<Rightarrow> set_member list \<Rightarrow> bytes \<Rightarrow> bool" where
  "commits_set H c ms doc \<longleftrightarrow> buildSetManifest c ms = Inr doc
     \<or> (\<exists>t. buildSetTree H ms = Inr t \<and> buildSetRoot c (int (length ms)) (st_root t) = Inr doc)"

text \<open>The strings hashed when a document and the evidence in hand are bound, and when the producer built the set.\<close>

definition set_hashed :: "hashfun \<Rightarrow> set_options \<Rightarrow> set_member list \<Rightarrow> bytes \<Rightarrow> bytes set" where
  "set_hashed H opts ms doc = {doc} \<union> fst ` set_option (set_document opts)
     \<union> (case Option.bind (member_evidence opts) (\<lambda>x. parseSetMemberProof (fst x)) of None \<Rightarrow> {}
        | Some e \<Rightarrow> let rows = map row_bytes (sort_key sm_artifact ms); b = row_bytes (se_member e) in
            {0x00 # b} \<union> (Cons 0x00) ` set rows \<union> set (mth_inputs H (map (merkleLeafHash H) rows)
              @ mroot_inputs H (length rows) (se_index e) (merkleLeafHash H b) (se_path e)))"

lemma other_document: "buildSetManifest c ms = Inr doc \<Longrightarrow> buildSetRoot c' n r \<noteq> Inr doc"
  using canonical_bytes_inj [of "manifest_of c ms" "set_root_doc c' n r"]
  by (auto simp: buildSetManifest_eq buildSetRoot_eq manifest_of_def) (simp add: set_manifest_def set_root_doc_def)

lemma bound_members:
  assumes H: "hash32 H" and c: "commits_set H c ms doc" and b: "bound_by H setJson opts kind c' doc' bound"
    and a: "fld (fld (so_proof opts) ''artifact'') ''digestB64'' = JStr (b64_encode (H doc))" and inj: "inj_on H (set_hashed H opts ms doc)"
  shows "c' = c \<and> set (bs_rows bound) \<subseteq> set ms"
proof -
  obtain source where s: "set_document opts = Some (doc', source)" "bind_set H setJson opts kind c' doc' source = Inr (Inr bound)"
    using b by (auto simp: bound_by_def)
  have "H doc' = H doc" using bind_set_bound(3) [OF s(2)] a by (simp add: signed_digest_def str_of_def)
  then have d: "doc' = doc" using inj s(1) by (auto simp: set_hashed_def dest: inj_onD)
  show ?thesis
  proof (cases kind)
    case KSet1
    then have "bindSetManifest H setJson (so_proof opts) c' doc source = Inr bound" using s(2) d by (simp add: bind_set_def)
    note m = bound_rows(4) [OF this]
    then have "buildSetManifest c ms = Inr doc" using c other_document by (auto simp: commits_set_def)
    with m have "c' = c" "mset ms = mset (bs_rows bound)" using same_manifest by blast+
    then show ?thesis by (auto dest: mset_eq_setD)
  next
    case KSet2
    then have "bindSetRoot H setJson (so_proof opts) c' doc source (member_evidence opts) = Inr (Inr bound)"
      using s(2) d by (simp add: bind_set_def)
    then obtain r where r: "parseSetRoot setJson doc = Some r" "sd_commitment r = c'" "bs_rows bound = [] \<or>
      (\<exists>v from e. member_evidence opts = Some (v, from) \<and> parseSetMemberProof v = Some e \<and> se_count e = sd_count r \<and> bs_rows bound = [se_member e]
        \<and> setRootFromMember H (se_member e) (se_index e) (se_count e) (se_path e) = Inr (Some (sd_root r)))"
      using bound_row(4) by blast
    note p = parse_root_sound [OF r(1)]
    then obtain t where t: "buildSetTree H ms = Inr t" "buildSetRoot c (int (length ms)) (st_root t) = Inr doc"
      using c other_document by (auto simp: commits_set_def)
    have same: "sd_commitment r = c" "sd_count r = length ms" "sd_root r = st_root t" using same_root_doc [OF p t(2)] by simp_all
    have "se_member e \<in> set ms"
      if e: "member_evidence opts = Some (v, from)" "parseSetMemberProof v = Some e" "se_count e = sd_count r"
        "setRootFromMember H (se_member e) (se_index e) (se_count e) (se_path e) = Inr (Some (sd_root r))" for v "from" e
    proof -
      let ?s = "sort_key sm_artifact ms"
      let ?bs = "map row_bytes ?s"
      note t' = set_tree_facts [OF t(1)]
      have "merkleRootFromPath H (merkleLeafHash H (row_bytes (se_member e))) (int (se_index e)) (int (length ?bs)) (se_path e)
          = Some (mth H (map (merkleLeafHash H) ?bs))"
        using e(3,4) same t' by (auto simp: setRootFromMember_def res_simps setLeaf_eq)
      moreover have "?s \<noteq> []" using t'(1) by (metis length_0_conv length_sort set_ok_def)
      moreover have "length ?bs \<le> 1000000" using t(2) by (auto simp: buildSetRoot_eq MAX_SET2_MEMBERS_def)
      ultimately have "se_index e < length ?bs \<and> row_bytes (se_member e) = ?bs ! se_index e"
        using e(1,2) by (intro merkle_listed [OF H _ _ inj]) (auto simp: set_hashed_def Let_def)
      then have "se_index e < length ?s" "se_member e = ?s ! se_index e" by (auto dest: row_bytes_inj)
      then have "se_member e \<in> set ?s" using nth_mem by metis
      then show ?thesis by simp
    qed
    with r(2,3) same(1) show ?thesis by auto
  qed
qed

text \<open>The relation a member category names, between a member of the set and the file in hand.\<close>

definition set_member_means :: "hashfun \<Rightarrow> bytes \<Rightarrow> set_member \<Rightarrow> bytes \<Rightarrow> set_category \<Rightarrow> bool" where
  "set_member_means H c m f category \<longleftrightarrow>
     (if category = SET_MEMBER_DIRECT then H f = sm_artifact m \<and> carried H c m f else H f = sm_origin m \<and> rebuilds H c m f)"

lemma verifyFuseMember_valid:
  "verifyFuseMember C json setJson opts = Inr r \<Longrightarrow> fv_category r \<noteq> INVALID_UNDERLYING_PROOF \<Longrightarrow>
    fst (verifyProofIntegrity C (so_proof opts) (so_trustAnchors opts) createVerificationContext) = Valid
    \<and> judge_set (c_sha256 C) json setJson opts = Inr r"
  by (auto simp: verifyFuseMember_def split: verify_result.splits)

text \<open>C12: A member of a set is listed and carries the commitment. Let a producer have committed a set of members, by its manifest or
  by the root of its tree, under a commitment, and let the proof sign the digest of that document. If \<open>verifyFuseMember\<close>
  calls a file a member, whatever document and evidence it was given, and the strings hashed on the way do not collide,
  then the proof verifies, the commitment is the one of the proof's own slot, and the file stands in the relation its
  category names to one of the producer's members: the member's fused bytes, which its placement makes with the commitment
  inside; or the member's original, from which those bytes are rebuilt.\<close>

theorem set_member_sound:
  assumes "hash32 (c_sha256 C)" "reads_payloads json" "commits_set (c_sha256 C) c ms doc"
    and "fld (fld (so_proof opts) ''artifact'') ''digestB64'' = JStr (b64_encode (c_sha256 C doc))"
    and "inj_on (c_sha256 C) (set_hashed (c_sha256 C) opts ms doc)"
    and "verifyFuseMember C json setJson opts = Inr r" "fv_category r \<in> {SET_MEMBER_DIRECT, SET_MEMBER_FROM_ORIGIN}"
  shows "fst (verifyProofIntegrity C (so_proof opts) (so_trustAnchors opts) createVerificationContext) = Valid
    \<and> commitmentForProof (c_sha256 C) (so_proof opts) (fld (so_proof opts) ''slotAllocation'') = Inr c
    \<and> (\<exists>m \<in> set ms. set_member_means (c_sha256 C) c m (so_bytes opts) (fv_category r))"
proof -
  let ?H = "c_sha256 C" and ?f = "so_bytes opts"
  have v: "fst (verifyProofIntegrity C (so_proof opts) (so_trustAnchors opts) createVerificationContext) = Valid"
    "judge_set ?H json setJson opts = Inr r"
    using verifyFuseMember_valid [OF assms(6)] assms(7) by auto
  have "\<exists>kind c' doc' bound. bound_by ?H setJson opts kind c' doc' bound"
    by (rule ccontr) (use judge_set_unbound [of ?H setJson opts json] v(2) assms(7) in fastforce)
  then obtain kind c' doc' bound where b: "bound_by ?H setJson opts kind c' doc' bound" by blast
  have m: "c' = c" "set (bs_rows bound) \<subseteq> set ms" using bound_members [OF assms(1,3) b assms(4,5)] by simp_all
  have "\<exists>m \<in> set (bs_rows bound). set_member_means ?H c' m ?f (fv_category r)"
    using judge_set_bound [OF assms(1,2) b assms(4)] v(2) assms(7) by (auto simp: set_member_means_def)
  moreover have "commitmentForProof ?H (so_proof opts) (fld (so_proof opts) ''slotAllocation'') = Inr c"
    using b m(1) by (auto simp: bound_by_def)
  ultimately show ?thesis using v(1) m by blast
qed

subsection \<open>What a producer hands over\<close>

text \<open>The proof is marked a set of one kind, its slot gives the commitment, and it signs the document in hand.\<close>

definition marked_set :: "hashfun \<Rightarrow> set_options \<Rightarrow> jsstr \<Rightarrow> bytes \<Rightarrow> bytes \<Rightarrow> bool" where
  "marked_set H opts pid c doc \<longleftrightarrow>
     (\<exists>mk. readFuseAttribution (so_proof opts) = Some mk \<and> fm_placement mk = Some pid \<and> fm_originDigest mk = None)
     \<and> fld (so_proof opts) ''slotAllocation'' \<noteq> JUndefined
     \<and> commitmentForProof H (so_proof opts) (fld (so_proof opts) ''slotAllocation'') = Inr c
     \<and> (\<exists>source. set_document opts = Some (doc, source))
     \<and> fld (fld (so_proof opts) ''artifact'') ''digestB64'' = JStr (b64_encode (H doc))"

text \<open>The rows the verifier has in hand: every member of a set/1 manifest, or the one member of a set/2 tree whose evidence the
  producer built.\<close>

definition hands_over :: "hashfun \<Rightarrow> (bytes \<Rightarrow> jv option) \<Rightarrow> set_options \<Rightarrow> bytes \<Rightarrow> set_member list \<Rightarrow> bytes \<Rightarrow> set_member set \<Rightarrow> bool" where
  "hands_over H setJson opts c ms doc rows \<longleftrightarrow>
     marked_set H opts SET_PLACEMENT_ID c doc \<and> buildSetManifest c ms = Inr doc \<and> reads_back setJson (manifest_of c ms) \<and> rows = set ms
     \<or> (\<exists>t i path t' ev from. marked_set H opts SET2_PLACEMENT_ID c doc \<and> buildSetTree H ms = Inr t
         \<and> buildSetRoot c (int (length ms)) (st_root t) = Inr doc \<and> reads_back setJson (set_root_doc c (int (length ms)) (st_root t))
         \<and> i < length ms \<and> setMemberPath H (st_tree t) (int i) = Inr (path, t')
         \<and> buildSetMemberProof (st_sorted t ! i) (int i) (int (length ms)) path = Inr ev \<and> member_evidence opts = Some (ev, from)
         \<and> rows = {st_sorted t ! i})"

lemma parse_built_member:
  assumes "buildSetMemberProof m (int i) (int n) path = Inr ev" "n \<le> MAX_SET2_MEMBERS"
  shows "parseSetMemberProof ev = Some \<lparr>se_member = m, se_index = i, se_count = n, se_path = path\<rparr>" "row_ok m" "i < n"
proof -
  obtain nodes where b: "1 \<le> n" "i < n" "row_ok m" "rmap path_node path = Inr nodes"
    "ev = JObj [kv ''count'' (JNum (int n)), kv ''index'' (JNum (int i)), kv ''member'' (set_row m), kv ''path'' (JArr nodes),
          kv ''placement'' (JStr SET2_PLACEMENT_ID), kv ''type'' (JStr (u16 ''bitgraph-fuse/1''))]"
    using assms(1) by (auto simp: buildSetMemberProof_def res_simps canonicalSetRow_eq split: if_splits)
  then show "row_ok m" "i < n" by simp_all
  show "parseSetMemberProof ev = Some \<lparr>se_member = m, se_index = i, se_count = n, se_path = path\<rparr>"
    unfolding b(5) using b assms(2) row_keys(4) read_row_row [OF b(3)] read_path_nodes [OF b(4)]
    by (simp add: parseSetMemberProof_def fld_def del: sort_key_simps)
qed

lemma set_path_accepted:
  assumes "hash32 H" "buildSetTree H ms = Inr t" "i < length ms" "length ms \<le> MAX_SET2_MEMBERS"
    and "setMemberPath H (st_tree t) (int i) = Inr (path, t')"
  shows "setRootFromMember H (st_sorted t ! i) i (length ms) path = Inr (Some (st_root t))" "row_ok (st_sorted t ! i)"
proof -
  note t = set_tree_facts [OF assms(2)]
  let ?hs = "st_leaves t" and ?m = "st_sorted t ! i"
  have n: "length ?hs = length ms" "?hs ! i = merkleLeafHash H (row_bytes ?m)" using t(2,3) assms(3) by simp_all
  have l: "\<forall>h \<in> set ?hs. length h = 32" using t(3) assms(1) by (auto simp: merkleLeafHash_def hash32_def)
  have p: "merklePath H ?hs (int i) = Inr path" using tree_path_ok [OF t(5), of "int i"] assms(5) t(6) by (simp add: setMemberPath_def)
  have "?hs \<noteq> []" using n(1) assms(3) by auto
  then have "merkleRoot H ?hs = Inr (st_root t)" using l t(4) by (simp add: merkleRoot_eq_Inr)
  then have "merkleRootFromPath H (?hs ! i) (int i) (int (length ?hs)) path = Some (st_root t)"
    using merkle.complete [of ?hs i H] l p assms(1,3,4) n(1) by (auto simp: res_simps MAX_SET2_MEMBERS_def)
  moreover show r: "row_ok ?m"
    using t(1,2) assms(3) nth_mem [of i "sort_key sm_artifact ms"] by (simp add: set_ok_def list_all_iff)
  ultimately show "setRootFromMember H ?m i (length ms) path = Inr (Some (st_root t))"
    using n by (simp add: setRootFromMember_def res_simps setLeaf_eq)
qed

lemma handed_over_bound:
  assumes "hash32 H" "hands_over H setJson opts c ms doc rows"
  shows "\<exists>kind bound. bound_by H setJson opts kind c doc bound \<and> set (bs_rows bound) = rows"
proof -
  have sd: "signed_digest (so_proof opts) = Some (H doc)"
    using assms(2) by (auto simp: hands_over_def marked_set_def signed_digest_def str_of_def)
  consider (list) "marked_set H opts SET_PLACEMENT_ID c doc" "buildSetManifest c ms = Inr doc" "reads_back setJson (manifest_of c ms)" "rows = set ms"
    | (tree) t i path t' ev "from" where "marked_set H opts SET2_PLACEMENT_ID c doc" "buildSetTree H ms = Inr t"
      "buildSetRoot c (int (length ms)) (st_root t) = Inr doc" "reads_back setJson (set_root_doc c (int (length ms)) (st_root t))"
      "i < length ms" "setMemberPath H (st_tree t) (int i) = Inr (path, t')"
      "buildSetMemberProof (st_sorted t ! i) (int i) (int (length ms)) path = Inr ev" "member_evidence opts = Some (ev, from)"
      "rows = {st_sorted t ! i}"
    using assms(2) unfolding hands_over_def by blast
  then show ?thesis
  proof cases
    case list
    obtain source where "set_document opts = Some (doc, source)" using list(1) by (auto simp: marked_set_def)
    moreover obtain bound where "bind_set H setJson opts KSet1 c doc source = Inr (Inr bound)" "bs_rows bound = sort_key sm_artifact ms"
      using parse_manifest [OF list(2,3)] sd by (simp add: bind_set_def bindSetManifest_def)
    ultimately show ?thesis using list(1,4) by (auto simp: marked_set_def bound_by_def intro!: exI [of _ KSet1] exI [of _ bound])
  next
    case tree
    obtain source where "set_document opts = Some (doc, source)" using tree(1) by (auto simp: marked_set_def)
    moreover have "length ms \<le> MAX_SET2_MEMBERS" using tree(3) by (simp add: buildSetRoot_eq)
    then obtain bound where "bind_set H setJson opts KSet2 c doc source = Inr (Inr bound)" "bs_rows bound = [st_sorted t ! i]"
      using parse_root [OF tree(3,4)] parse_built_member [OF tree(7)] set_path_accepted [OF assms(1) tree(2,5) _ tree(6)] sd tree(8)
      by (simp add: bind_set_def bindSetRoot_def Let_def)
    ultimately show ?thesis using tree(1,9) by (auto simp: marked_set_def bound_by_def intro!: exI [of _ KSet2] exI [of _ bound])
  qed
qed

lemma handed_over_verdict:
  assumes "hash32 (c_sha256 C)" "reads_payloads json" "hands_over (c_sha256 C) setJson opts c ms doc rows"
    and "fst (verifyProofIntegrity C (so_proof opts) (so_trustAnchors opts) createVerificationContext) = Valid"
  shows "\<exists>r. verifyFuseMember C json setJson opts = Inr r
    \<and> (fv_category r = SET_MEMBER_DIRECT \<longleftrightarrow> c_sha256 C (so_bytes opts) \<noteq> c_sha256 C doc
        \<and> (\<exists>m \<in> rows. set_member_means (c_sha256 C) c m (so_bytes opts) SET_MEMBER_DIRECT))
    \<and> (fv_category r = SET_MEMBER_FROM_ORIGIN \<longleftrightarrow> c_sha256 C (so_bytes opts) \<noteq> c_sha256 C doc
        \<and> c_sha256 C (so_bytes opts) \<notin> sm_artifact ` rows
        \<and> (\<exists>m \<in> rows. set_member_means (c_sha256 C) c m (so_bytes opts) SET_MEMBER_FROM_ORIGIN))"
proof -
  obtain kind bound where b: "bound_by (c_sha256 C) setJson opts kind c doc bound" "set (bs_rows bound) = rows"
    using handed_over_bound [OF assms(1,3)] by blast
  have "fld (fld (so_proof opts) ''artifact'') ''digestB64'' = JStr (b64_encode (c_sha256 C doc))"
    using assms(3) by (auto simp: hands_over_def marked_set_def)
  then show ?thesis
    using judge_set_bound [OF assms(1,2) b(1)] assms(4) b(2) by (simp add: verifyFuseMember_def set_member_means_def)
qed

text \<open>C13: The verdict on a file of a set, exactly. Let the proof be accepted and marked a set, and let the producer hand over the
  manifest of a set/1, or the root document of a set/2 with the evidence of one member. Then \<open>verifyFuseMember\<close> answers (none
  of its assertions fails), and for a file other than the document itself it answers that the file is a member exactly when it
  is the fused file of a row in hand and carries the commitment, and that it is an original exactly when no row in hand has its
  digest and one has its digest as origin and is rebuilt from it.\<close>

theorem set_verdict_exact:
  assumes "hash32 (c_sha256 C)" "reads_payloads json" "hands_over (c_sha256 C) setJson opts c ms doc rows"
    and "fst (verifyProofIntegrity C (so_proof opts) (so_trustAnchors opts) createVerificationContext) = Valid"
  shows "\<exists>r. verifyFuseMember C json setJson opts = Inr r
    \<and> (fv_category r = SET_MEMBER_DIRECT \<longleftrightarrow> c_sha256 C (so_bytes opts) \<noteq> c_sha256 C doc
        \<and> (\<exists>m \<in> rows. set_member_means (c_sha256 C) c m (so_bytes opts) SET_MEMBER_DIRECT))
    \<and> (fv_category r = SET_MEMBER_FROM_ORIGIN \<longleftrightarrow> c_sha256 C (so_bytes opts) \<noteq> c_sha256 C doc
        \<and> c_sha256 C (so_bytes opts) \<notin> sm_artifact ` rows
        \<and> (\<exists>m \<in> rows. set_member_means (c_sha256 C) c m (so_bytes opts) SET_MEMBER_FROM_ORIGIN))"
  using handed_over_verdict [OF assms] .

subsection \<open>A concrete set\<close>

lemma utf8_open: "utf8 (123 # s) = 123 # utf8 s"
proof -
  have "utf8_unit 123 = [123]" "\<not> hi_sur 123" by (simp_all add: utf8_unit_def utf8_cp_def hi_sur_def lo_sur_def)
  then show ?thesis by (cases s) simp_all
qed

lemma head_first: "head_hash (x # b) ! 0 = x"
  by (simp add: head_hash_def)

text \<open>One file under a trailer, listed in a set/1 manifest, with the proof that commits the manifest.\<close>

lemma demo_set:
  "\<exists>p c doc m g. length c = 32 \<and> placement_build head_hash Trailer1 (Some [1]) None c = Inr g
    \<and> m = \<lparr>sm_artifact = head_hash g, sm_origin = head_hash [1], sm_placement = placement_id (Registered Trailer1)\<rparr>
    \<and> buildSetManifest c [m] = Inr doc \<and> head_hash g \<noteq> head_hash doc \<and> head_hash [1] \<noteq> head_hash doc \<and> head_hash [1] \<noteq> head_hash g
    \<and> fst (verifyProofIntegrity demo_tree_crypto p None createVerificationContext) = Valid
    \<and> (\<forall>f. let opts = \<lparr>so_proof = p, so_bytes = f, so_manifest = Some doc, so_member = JUndefined, so_trustAnchors = None, so_maxPositions = None\<rparr> in
        marked_set head_hash opts SET_PLACEMENT_ID c doc \<and> member_evidence opts = None)"
proof -
  obtain a where a: "fuseAttribution SET_PLACEMENT_ID None 1 = Inr a" by (simp add: fuseAttribution_def)
  then have a': "a = JObj [kv ''name'' (JStr (u16 ''bitgraph-fuse/1'')), kv ''title'' (JStr SET_PLACEMENT_ID)]"
    by (simp add: fuseAttribution_def fuseNameOfVersion_def)
  have af: "fld a ''name'' = JStr (u16 ''bitgraph-fuse/1'')" "fld a ''title'' = JStr (u16 ''set/1'')" "fld a ''message'' = JUndefined"
    "a \<noteq> JUndefined" "json_ok a"
    unfolding a' by (simp_all add: SET_PLACEMENT_ID_def)
  obtain c where c: "length c = 32" "\<And>d sh. commitmentForProof head_hash (demo_marked a d sh) demo_position = Inr c"
    using demo_marked_commitment [OF af(1)] by blast
  obtain g where g: "placement_build head_hash Trailer1 (Some [1]) None c = Inr g" "g = 1 # TRAILER_MAGIC @ zeros 8 @ c"
    using c(1) by (simp add: placement_build_def trailer1_build_def)
  let ?m = "\<lparr>sm_artifact = head_hash g, sm_origin = head_hash [1], sm_placement = placement_id (Registered Trailer1)\<rparr>"
  have "length (head_hash x) = 32" for x by (simp add: head_hash_def)
  moreover have "PLACEMENT_ID_PATTERN (placement_id (Registered Trailer1)) \<and> placement_id (Registered Trailer1) \<noteq> SET_PLACEMENT_ID
      \<and> placement_id (Registered Trailer1) \<noteq> SET2_PLACEMENT_ID" by code_simp
  ultimately have ok: "set_ok [?m]" by (simp add: set_ok_def row_ok_def)
  obtain doc where doc: "buildSetManifest c [?m] = Inr doc" "doc = utf8 (js_stringify (manifest_of c [?m]))"
    using c(1) ok by (simp add: buildSetManifest_eq)
  have "\<exists>rest. js_stringify (manifest_of c [?m]) = 123 # rest" by (simp add: manifest_of_def set_manifest_def del: append.simps)
  then have "head_hash doc ! 0 = 123" unfolding doc(2) by (auto simp: utf8_open head_first)
  moreover have "head_hash [1] ! 0 = 1" "head_hash g ! 0 = 1" unfolding g(2) by (rule head_first)+
  ultimately have d: "head_hash [1] \<noteq> head_hash doc" "head_hash g \<noteq> head_hash doc" by auto
  have "TRAILER_MAGIC \<noteq> []" "hd TRAILER_MAGIC = 66" by code_simp+
  then obtain k where k: "TRAILER_MAGIC = 66 # k" by (metis list.collapse)
  have "head_hash [1] ! 1 = 0" "head_hash g ! 1 = 66" unfolding g(2) k by (simp_all add: head_hash_def)
  then have d': "head_hash [1] \<noteq> head_hash g" by auto
  obtain sh where v: "\<And>d. d \<noteq> [] \<Longrightarrow> fst (verifyProofIntegrity demo_tree_crypto (demo_marked a d sh) None createVerificationContext) = Valid"
    using demo_marked_valid af(4,5) by blast
  let ?p = "demo_marked a (head_hash doc) sh"
  have n: "head_hash doc \<noteq> []" by (simp add: head_hash_def)
  have mk: "readFuseAttribution ?p = Some \<lparr>fm_placement = Some SET_PLACEMENT_ID, fm_placementSource = Some FromAttribution, fm_originDigest = None,
      fm_originSource = None, fm_source = FromAttribution, fm_version = Some 1\<rparr>"
    by (simp add: readFuseAttribution_def fuseVersionOfName_def af digest_message_def Let_def nonempty_str_def str_of_def SET_PLACEMENT_ID_def)
  have "\<forall>f. let opts = \<lparr>so_proof = ?p, so_bytes = f, so_manifest = Some doc, so_member = JUndefined, so_trustAnchors = None, so_maxPositions = None\<rparr> in
        marked_set head_hash opts SET_PLACEMENT_ID c doc \<and> member_evidence opts = None"
    using mk c(2) by (simp add: marked_set_def member_evidence_def set_document_def)
  then show ?thesis using c(1) g(1) doc(1) d d' v [OF n] by blast
qed

theorem set_verdict_exact_witness:
  "\<exists>original fused r r'. verifyFuseMember demo_tree_crypto demo_json (\<lambda>_. Some original) fused = Inr r \<and> fv_category r = SET_MEMBER_DIRECT
    \<and> verifyFuseMember demo_tree_crypto demo_json (\<lambda>_. Some original) (fused\<lparr>so_bytes := [1]\<rparr>) = Inr r' \<and> fv_category r' = SET_MEMBER_FROM_ORIGIN"
proof -
  obtain p c doc m g where s: "placement_build head_hash Trailer1 (Some [1]) None c = Inr g"
    "m = \<lparr>sm_artifact = head_hash g, sm_origin = head_hash [1], sm_placement = placement_id (Registered Trailer1)\<rparr>"
    "buildSetManifest c [m] = Inr doc" "head_hash g \<noteq> head_hash doc" "head_hash [1] \<noteq> head_hash doc" "head_hash [1] \<noteq> head_hash g"
    "fst (verifyProofIntegrity demo_tree_crypto p None createVerificationContext) = Valid"
    "\<forall>f. let opts = \<lparr>so_proof = p, so_bytes = f, so_manifest = Some doc, so_member = JUndefined, so_trustAnchors = None, so_maxPositions = None\<rparr> in
        marked_set head_hash opts SET_PLACEMENT_ID c doc \<and> member_evidence opts = None"
    using demo_set by (elim exE conjE) (rule that)
  let ?opts = "\<lambda>f. \<lparr>so_proof = p, so_bytes = f, so_manifest = Some doc, so_member = JUndefined, so_trustAnchors = None, so_maxPositions = None\<rparr>"
  let ?json = "\<lambda>_::bytes. Some (manifest_of c [m])"
  have h: "c_sha256 demo_tree_crypto = head_hash" by (simp add: demo_tree_crypto_def)
  have o: "hands_over head_hash ?json (?opts f) c [m] doc {m}" for f
    using s(3,8) by (simp add: hands_over_def reads_back_def Let_def)
  note e = set_verdict_exact [of demo_tree_crypto demo_json ?json "?opts f" c "[m]" doc "{m}" for f, unfolded h,
      OF head_hash32 demo_json_reads o]
  have m: "set_member_means head_hash c m g SET_MEMBER_DIRECT" "set_member_means head_hash c m [1] SET_MEMBER_FROM_ORIGIN"
    using s(1) unfolding s(2) by (auto simp: set_member_means_def carried_def carries_def rebuilds_def)
  obtain r where "verifyFuseMember demo_tree_crypto demo_json ?json (?opts g) = Inr r" "fv_category r = SET_MEMBER_DIRECT"
    using e [of g] s(4,7) m(1) by auto
  moreover obtain r' where "verifyFuseMember demo_tree_crypto demo_json ?json (?opts [1]) = Inr r'" "fv_category r' = SET_MEMBER_FROM_ORIGIN"
    using e [of "[1]"] s(5-7) m(2) unfolding s(2) by auto
  moreover have "?opts [1] = (?opts g)\<lparr>so_bytes := [1]\<rparr>" by simp
  ultimately show ?thesis by metis
qed

theorem set_member_sound_witness:
  "\<exists>opts setJson c m r. verifyFuseMember demo_tree_crypto demo_json setJson opts = Inr r \<and> fv_category r = SET_MEMBER_DIRECT
    \<and> commitmentForProof head_hash (so_proof opts) (fld (so_proof opts) ''slotAllocation'') = Inr c
    \<and> set_member_means head_hash c m (so_bytes opts) SET_MEMBER_DIRECT"
proof -
  obtain p c doc m g where s: "placement_build head_hash Trailer1 (Some [1]) None c = Inr g"
    "m = \<lparr>sm_artifact = head_hash g, sm_origin = head_hash [1], sm_placement = placement_id (Registered Trailer1)\<rparr>"
    "buildSetManifest c [m] = Inr doc" "head_hash g \<noteq> head_hash doc"
    "fst (verifyProofIntegrity demo_tree_crypto p None createVerificationContext) = Valid"
    "\<forall>f. let opts = \<lparr>so_proof = p, so_bytes = f, so_manifest = Some doc, so_member = JUndefined, so_trustAnchors = None, so_maxPositions = None\<rparr> in
        marked_set head_hash opts SET_PLACEMENT_ID c doc \<and> member_evidence opts = None"
    using demo_set by (elim exE conjE) (rule that)
  let ?opts = "\<lparr>so_proof = p, so_bytes = g, so_manifest = Some doc, so_member = JUndefined, so_trustAnchors = None, so_maxPositions = None\<rparr>"
  let ?json = "\<lambda>_::bytes. Some (manifest_of c [m])"
  have h: "c_sha256 demo_tree_crypto = head_hash" by (simp add: demo_tree_crypto_def)
  have mk: "marked_set head_hash ?opts SET_PLACEMENT_ID c doc" "member_evidence ?opts = None" using s(6) by (simp_all add: Let_def)
  have o: "hands_over head_hash ?json ?opts c [m] doc {m}" using s(3) mk(1) by (simp add: hands_over_def reads_back_def)
  have "set_member_means head_hash c m g SET_MEMBER_DIRECT"
    using s(1) unfolding s(2) by (auto simp: set_member_means_def carried_def carries_def)
  then obtain r where r: "verifyFuseMember demo_tree_crypto demo_json ?json ?opts = Inr r" "fv_category r = SET_MEMBER_DIRECT"
    using handed_over_verdict [of demo_tree_crypto demo_json ?json ?opts c "[m]" doc "{m}", unfolded h, OF head_hash32 demo_json_reads o]
      s(4,5) by auto
  have i: "inj_on head_hash (set_hashed head_hash ?opts [m] doc)" using mk(2) by (simp add: set_hashed_def set_document_def)
  have d: "fld (fld (so_proof ?opts) ''artifact'') ''digestB64'' = JStr (b64_encode (head_hash doc))" using mk(1) by (simp add: marked_set_def)
  have "commits_set head_hash c [m] doc" using s(3) by (simp add: commits_set_def)
  from set_member_sound [of demo_tree_crypto demo_json c "[m]" doc ?opts ?json r, unfolded h, OF head_hash32 demo_json_reads this d i r(1)] r
  show ?thesis by (intro exI [of _ ?opts] exI [of _ ?json] exI [of _ c] exI [of _ m] exI [of _ r]) simp
qed

end
