(* ===== verification/Spec2Isabelle.thy ===== *)
theory Spec2Isabelle
  imports BG_Merkle BG_Rlp BG_Trie BG_Canonical BG_System BG_Verdict BG_Set_Member
begin

text \<open>
  BitGraph, verified. The repository holds an enclave that signs digests in one counted sequence, an offline
  verifier of the proofs it releases, fused files (a file that carries the commitment of a counted position,
  alone, in a set or in a tree), an audit that reconstructs chains from a pile of proofs, and a player that
  evaluates rules about the order of recordings. The development models these parts as written and proves
  what makes them correct. Paths below are under \<^verbatim>\<open>src/\<close>; a definition has the name of the function it models.

  Program and theories.
  \<^item> \<^verbatim>\<open>server/commit-service/src/enclave/app.ts\<close>: \<open>BG_Enclave\<close>. The record \<open>enclave_state\<close> is the module's variables
    (counter, last proof hash, whether it is initialised); \<open>handleRequest\<close> is one message of the socket, and the
    queue that serialises requests is a list of requests. An error comes back with the state it leaves: the state of a
    call that throws is the one the code has reached (\<open>awaiting\<close>). It writes proofs that \<open>BG_Verifier\<close> reads.
  \<^item> \<^verbatim>\<open>packages/verify/src/canonical.ts\<close>, \<^verbatim>\<open>proof-hash.ts\<close>, \<^verbatim>\<open>anchor.ts\<close>, \<^verbatim>\<open>verifier.ts\<close>, \<^verbatim>\<open>stretch.ts\<close>:
    \<open>BG_Json\<close>, \<open>BG_Json_Inj\<close> and \<open>BG_Canonical\<close> (canonical bytes, and the fields they bind), \<open>BG_Js\<close> (the
    JavaScript the checks use), \<open>BG_ProofHash\<close>, \<open>BG_Verifier\<close> (the checks in order, with the context
    of single successors) and \<open>BG_Stretch\<close>. \<open>BG_System\<close> joins enclave, verifier and stretch.
  \<^item> \<^verbatim>\<open>packages/verify/src/fuse.ts\<close>, \<^verbatim>\<open>fuse-verify.ts\<close>, \<^verbatim>\<open>fuse-member.ts\<close>: \<open>BG_Fuse\<close> (commitments of the three
    versions, payloads), \<open>BG_Placement\<close> (archives and the four placements), \<open>BG_Set\<close> (manifests of set/1, trees and root
    documents of set/2), \<open>BG_Fuse_Verify\<close> (markers, frames and \<open>verifyFuse\<close>) and \<open>BG_Set_Member\<close>
    (\<open>verifyFuseMember\<close>).
  \<^item> \<^verbatim>\<open>packages/verify/src/fuse-merkle.ts\<close>, \<^verbatim>\<open>tree.ts\<close>, \<^verbatim>\<open>stream.ts\<close>: \<open>BG_Merkle\<close> (roots, paths and the memoising
    class), \<open>BG_Tree\<close> (leaves, the bucket sort, root documents, evidence, leaf lists), \<open>BG_Stream\<close> (the machines fed chunk by
    chunk) and \<open>BG_Tree_Member\<close> (\<open>verifyTreeMember\<close>).
  \<^item> \<^verbatim>\<open>packages/verify/src/ceiling-evm.ts\<close>, \<^verbatim>\<open>ceiling-trie.ts\<close>: \<open>BG_Rlp\<close>, \<open>BG_Hex\<close>, \<open>BG_Mpt\<close> (headers,
    transactions, Merkle-Patricia proofs) and \<open>BG_Trie\<close> (the builder of a transaction trie).
  \<^item> \<^verbatim>\<open>packages/audit/src/types.ts\<close>, \<^verbatim>\<open>validity.ts\<close>, \<^verbatim>\<open>reconstruct.ts\<close>: \<open>BG_Audit\<close>, \<open>BG_Graph\<close>,
    \<open>BG_Reconstruct\<close> (partitions, components by union-find, epoch edges, ordered pairs), with
    \<open>BG_Chains\<close> and \<open>BG_Lineages\<close> for their proofs.
  \<^item> \<^verbatim>\<open>packages/player/src\<close>: \<open>BG_Player\<close>, \<open>BG_Digest\<close> and \<open>BG_Rule\<close> (digest spellings, the rule parser,
    three-valued logic), \<open>BG_Order\<close> and \<open>BG_Evidence\<close> (the order of two recordings, read off the audit's result),
    \<open>BG_Evaluate\<close> and \<open>BG_Claims\<close> (roles, claims, signatures) and \<open>BG_Verdict\<close> (the verdict and the pipeline
    from audit to verdict).
  \<^item> \<open>BG_Prelude\<close> and \<open>BG_Interfaces\<close>: shared types and combinators, and the interfaces as locales:
    \<open>strict_codec\<close> (an encoder and a strict decoder), \<open>inclusion_scheme\<close> (roots and paths), \<open>guarded_system\<close> (a
    step that changes nothing when it refuses and otherwise keeps an invariant); \<open>BG_Graph\<close> adds \<open>comparison\<close> (a sort callback).
    Each is interpreted on the definitions of the model.

  Values. A thrown error is \<open>Inl\<close> of an error constructor with its message; \<open>null\<close> results are \<open>None\<close>; a parsed
  JSON value is a \<open>jv\<close>, whose objects keep their keys in order and whose numbers are integers below 2^53 in absolute value; a text is a list of 16-bit units,
  bytes are 8-bit words. Counters and sizes are unbounded integers where the code uses BigInt or stays
  under 2^53, and words where it masks them.

  What the lemmas show, by group.
  \<^item> Order: every release of the enclave takes the next two counts, verifies and links to the last, and
    no error moves its state; an accepted
    stretch accounts for every count; no two accepted proofs name different successors of one predecessor.
  \<^item> Binding: canonical bytes determine every field but one named \<^verbatim>\<open>__proto__\<close> and do not depend on key order, a Merkle path its leaf and index, a Merkle-Patricia proof its
    value, a commitment its slot, a manifest its set. Each names the finite set of strings on which
    it takes the hash to be free of collisions.
  \<^item> Exactness: decoders accept what encoders write and nothing else (RLP, placements, leaf lists,
    manifests); \<open>verifyFuse\<close>, the Merkle loops, the memoising tree, the streamed check (for a container leaf up to the size of
    an archive entry, above which it throws) and the trie builder agree with their specifications.
  \<^item> Verdicts: a positive verdict on a file fused alone, in a set or in a tree puts the file in the relation its
    category names, and the producer's own files are accepted.
  \<^item> Reconstruction and rules: partitions, components, edges and ordered pairs are what they are called; an order answer rests on a
    path of evidence; evaluation answers true exactly
    when the evidence establishes the rule's claim and false exactly when it refutes it (\<open>established\<close>, which is stated without
    the evaluator's connectives), and the trust floor only removes answers.

  Bounds and fuel. The RLP decoder carries fuel, three per byte left and a constant; with that it is shown never to run out.
  The loops over parents of the union-find are partial functions, shown to return on every parent map
  reconstruction builds, so reconstruction always has a result. The source of a streamed check has at most 2^53 - 1 bytes, which
  the code demands. A set of type set/2 and a tree hold at most 1 000 000 leaves, an archive entry at most 2^33 - 1 bytes.

  Parameters. SHA-256 and Keccak-256, Ed25519, P-256 and secp256k1 checks, \<^verbatim>\<open>JSON.parse\<close> (with and without a
  byte order mark kept), the host of a URL, key objects of \<^verbatim>\<open>node:crypto\<close>, and the enclave's platform calls are arguments of
  the definitions that use them. Hypotheses on them state that a digest has 32 bytes, that a parser reads back what was printed,
  or that no two strings of a named finite set collide.

  Not modelled. The website with its camera and artwork generators, the SDK and the MCP server, the services
  around the enclave (HTTP, storage, RPC, timers) and the command lines are input and output
  around the parts above. Attestation documents are COSE and X.509 structures checked by WebCrypto. Carriers,
  member lookups, ceilings and settlement compose the modelled cores over files and RPC reads. Ingest, temporal segments,
  anomalies and reports of the audit read the file system or render what reconstruction returned. The host library holds older
  copies of the verify package. Caches that only save work (encoder memo, key objects, validity per object) are left out, and so is
  \<^verbatim>\<open>blobSource\<close>, which reads a Blob of the browser.
\<close>

end
